(* ===== verification/Prelude.thy ===== *)
theory Prelude
  imports Main
begin

text \<open>
  Shared vocabulary of the development.

  A Go function that can panic but touches no shared state returns a value of the sum type
  \<open>'e + 'a\<close> (\<open>Inl\<close> is the panic); \<open>bindR\<close> sequences such functions.  A Go method that also
  reads and writes the heap is a function \<open>'s \<Rightarrow> ('e + 'a) \<times> 's\<close>: the state is returned even
  when the method panics, because a recovered panic leaves the mutations made before it in place.
  \<open>deferM\<close> is Go's \<open>defer\<close>: its effect happens on both exits.

  A pointer to a component of the state is a pair of a reader and a writer (\<open>('s, 'c) ref\<close>); the
  laws that a pointer obeys are the locale \<open>pointer\<close>.
\<close>

named_theorems run "evaluation rules of the two monads"

section \<open>Fallible computations\<close>

definition bindR :: "'e + 'a \<Rightarrow> ('a \<Rightarrow> 'e + 'b) \<Rightarrow> 'e + 'b" where
  "bindR r f = (case r of Inl e \<Rightarrow> Inl e | Inr x \<Rightarrow> f x)"

lemma bindR_Inl [simp, run]: "bindR (Inl e) f = Inl e"
  by (simp add: bindR_def)

lemma bindR_Inr [simp, run]: "bindR (Inr x) f = f x"
  by (simp add: bindR_def)

lemma bindR_eq_Inr: "bindR r f = Inr y \<longleftrightarrow> (\<exists>x. r = Inr x \<and> f x = Inr y)"
  by (cases r) auto

lemma bindR_eq_Inl: "bindR r f = Inl e \<longleftrightarrow> r = Inl e \<or> (\<exists>x. r = Inr x \<and> f x = Inl e)"
  by (cases r) auto

lemma bindR_cong [fundef_cong]:
  assumes "r = r'" and "\<And>x. r' = Inr x \<Longrightarrow> f x = g x"
  shows "bindR r f = bindR r' g"
  using assms by (cases r') auto

fun mapR :: "('a \<Rightarrow> 'e + 'b) \<Rightarrow> 'a list \<Rightarrow> 'e + 'b list" where
  "mapR f [] = Inr []"
| "mapR f (x # xs) = bindR (f x) (\<lambda>y. bindR (mapR f xs) (\<lambda>ys. Inr (y # ys)))"

fun filterR :: "('a \<Rightarrow> 'e + bool) \<Rightarrow> 'a list \<Rightarrow> 'e + 'a list" where
  "filterR p [] = Inr []"
| "filterR p (x # xs) =
     bindR (p x) (\<lambda>b. bindR (filterR p xs) (\<lambda>ys. Inr (if b then x # ys else ys)))"

text \<open>Loops that return early: \<open>allR\<close> at the first false, \<open>anyR\<close> at the first true element.\<close>

fun allR :: "('a \<Rightarrow> 'e + bool) \<Rightarrow> 'a list \<Rightarrow> 'e + bool" where
  "allR p [] = Inr True"
| "allR p (x # xs) = bindR (p x) (\<lambda>b. if b then allR p xs else Inr False)"

fun anyR :: "('a \<Rightarrow> 'e + bool) \<Rightarrow> 'a list \<Rightarrow> 'e + bool" where
  "anyR p [] = Inr False"
| "anyR p (x # xs) = bindR (p x) (\<lambda>b. if b then Inr True else anyR p xs)"

lemma mapR_cong [fundef_cong]:
  assumes "xs = ys" and "\<And>x. x \<in> set ys \<Longrightarrow> f x = g x"
  shows "mapR f xs = mapR g ys"
  using assms(2) unfolding assms(1) by (induction ys) (auto intro!: bindR_cong)

lemma allR_cong [fundef_cong]:
  assumes "xs = ys" and "\<And>x. x \<in> set ys \<Longrightarrow> f x = g x"
  shows "allR f xs = allR g ys"
  using assms(2) unfolding assms(1) by (induction ys) (auto intro!: bindR_cong)

lemma anyR_cong [fundef_cong]:
  assumes "xs = ys" and "\<And>x. x \<in> set ys \<Longrightarrow> f x = g x"
  shows "anyR f xs = anyR g ys"
  using assms(2) unfolding assms(1) by (induction ys) (auto intro!: bindR_cong)

lemma mapR_Inr: "(\<And>x. x \<in> set xs \<Longrightarrow> f x = Inr (g x)) \<Longrightarrow> mapR f xs = Inr (map g xs)"
  by (induction xs) auto

lemma filterR_Inr: "(\<And>x. x \<in> set xs \<Longrightarrow> p x = Inr (q x)) \<Longrightarrow> filterR p xs = Inr (filter q xs)"
  by (induction xs) auto

lemma allR_Inr: "(\<And>x. x \<in> set xs \<Longrightarrow> p x = Inr (q x)) \<Longrightarrow> allR p xs = Inr (list_all q xs)"
  by (induction xs) auto

lemma anyR_Inr: "(\<And>x. x \<in> set xs \<Longrightarrow> p x = Inr (q x)) \<Longrightarrow> anyR p xs = Inr (list_ex q xs)"
  by (induction xs) auto

section \<open>Stateful computations\<close>

type_synonym ('e, 's, 'a) exec = "'s \<Rightarrow> ('e + 'a) \<times> 's"

definition retM :: "'a \<Rightarrow> ('e, 's, 'a) exec" where
  "retM x = (\<lambda>s. (Inr x, s))"

definition failM :: "'e \<Rightarrow> ('e, 's, 'a) exec" where
  "failM e = (\<lambda>s. (Inl e, s))"

definition liftM :: "'e + 'a \<Rightarrow> ('e, 's, 'a) exec" where
  "liftM r = (\<lambda>s. (r, s))"

definition getM :: "('s \<Rightarrow> 'a) \<Rightarrow> ('e, 's, 'a) exec" where
  "getM f = (\<lambda>s. (Inr (f s), s))"

definition modM :: "('s \<Rightarrow> 's) \<Rightarrow> ('e, 's, unit) exec" where
  "modM f = (\<lambda>s. (Inr (), f s))"

definition bindM :: "('e, 's, 'a) exec \<Rightarrow> ('a \<Rightarrow> ('e, 's, 'b) exec) \<Rightarrow> ('e, 's, 'b) exec" where
  "bindM m f = (\<lambda>s. case m s of (Inl e, s') \<Rightarrow> (Inl e, s') | (Inr x, s') \<Rightarrow> f x s')"

definition deferM :: "('s \<Rightarrow> 's) \<Rightarrow> ('e, 's, 'a) exec \<Rightarrow> ('e, 's, 'a) exec" where
  "deferM g m = (\<lambda>s. case m s of (r, s') \<Rightarrow> (r, g s'))"

abbreviation thenM :: "('e, 's, unit) exec \<Rightarrow> ('e, 's, 'b) exec \<Rightarrow> ('e, 's, 'b) exec" where
  "thenM m n \<equiv> bindM m (\<lambda>_. n)"

lemma retM_run [simp, run]: "retM x s = (Inr x, s)"
  by (simp add: retM_def)

lemma failM_run [simp, run]: "failM e s = (Inl e, s)"
  by (simp add: failM_def)

lemma liftM_run [simp, run]: "liftM r s = (r, s)"
  by (simp add: liftM_def)

lemma getM_run [simp, run]: "getM f s = (Inr (f s), s)"
  by (simp add: getM_def)

lemma modM_run [simp, run]: "modM f s = (Inr (), f s)"
  by (simp add: modM_def)

lemma bindM_Inr [simp, run]: "m s = (Inr x, s') \<Longrightarrow> bindM m f s = f x s'"
  by (simp add: bindM_def)

text \<open>The rule above cannot find \<open>x = False\<close>: the simplifier turns \<open>False = x\<close> into \<open>\<not> x\<close>.\<close>

lemma bindM_False: "m s = (Inr False, s') \<Longrightarrow> bindM m f s = f False s'"
  by (rule bindM_Inr)

lemma bindM_Inl [simp, run]: "m s = (Inl e, s') \<Longrightarrow> bindM m f s = (Inl e, s')"
  by (simp add: bindM_def)

lemma deferM_run [simp, run]: "m s = (r, s') \<Longrightarrow> deferM g m s = (r, g s')"
  by (simp add: deferM_def)

lemma bindM_retM [simp, run]: "bindM (retM x) f = f x"
  by (simp add: bindM_def retM_def)

lemma bindM_liftM [simp, run]: "bindM (liftM (Inr x)) f = f x" "bindM (liftM (Inl e)) f = failM e"
  by (simp_all add: bindM_def liftM_def failM_def)

lemma bindM_failM [simp, run]: "bindM (failM e) f = failM e"
  by (simp add: bindM_def failM_def)

lemma bindM_split:
  "bindM m f s = (r, t) \<longleftrightarrow>
     (\<exists>e. m s = (Inl e, t) \<and> r = Inl e) \<or> (\<exists>x s'. m s = (Inr x, s') \<and> f x s' = (r, t))"
  by (cases "m s"; cases "fst (m s)") (auto simp: bindM_def)

text \<open>
  The loop \<open>for _, x := range xs { results = append(results, f(x)...) }\<close>: the results of all
  calls, in order; a panic in one call ends the loop.
\<close>

fun collectM :: "('a \<Rightarrow> ('e, 's, 'b list) exec) \<Rightarrow> 'a list \<Rightarrow> ('e, 's, 'b list) exec" where
  "collectM f [] = retM []"
| "collectM f (x # xs) =
     bindM (f x) (\<lambda>ys. bindM (collectM f xs) (\<lambda>zs. retM (ys @ zs)))"

text \<open>
  \<open>filterM\<close> keeps the elements a stateful test accepts, \<open>anyM\<close> stops at the first it accepts.
  \<open>finallyM\<close> is a deferred call that may panic itself; its panic replaces the one in flight.
\<close>

fun filterM :: "('a \<Rightarrow> ('e, 's, bool) exec) \<Rightarrow> 'a list \<Rightarrow> ('e, 's, 'a list) exec" where
  "filterM f [] = retM []"
| "filterM f (x # xs) =
     bindM (f x) (\<lambda>b. bindM (filterM f xs) (\<lambda>ys. retM (if b then x # ys else ys)))"

fun anyM :: "('a \<Rightarrow> ('e, 's, bool) exec) \<Rightarrow> 'a list \<Rightarrow> ('e, 's, bool) exec" where
  "anyM f [] = retM False"
| "anyM f (x # xs) = bindM (f x) (\<lambda>b. if b then retM True else anyM f xs)"

fun forM :: "('a \<Rightarrow> ('e, 's, unit) exec) \<Rightarrow> 'a list \<Rightarrow> ('e, 's, unit) exec" where
  "forM f [] = retM ()"
| "forM f (x # xs) = thenM (f x) (forM f xs)"

fun mapM :: "('a \<Rightarrow> ('e, 's, 'b) exec) \<Rightarrow> 'a list \<Rightarrow> ('e, 's, 'b list) exec" where
  "mapM f [] = retM []"
| "mapM f (x # xs) = bindM (f x) (\<lambda>y. bindM (mapM f xs) (\<lambda>ys. retM (y # ys)))"

definition finallyM :: "('e, 's, unit) exec \<Rightarrow> ('e, 's, 'a) exec \<Rightarrow> ('e, 's, 'a) exec" where
  "finallyM d m = (\<lambda>s. case m s of (r, s') \<Rightarrow>
     (case d s' of (Inl e, s'') \<Rightarrow> (Inl e, s'') | (Inr _, s'') \<Rightarrow> (r, s'')))"

text \<open>\<open>foldM\<close> threads a value through a loop.\<close>

fun foldM :: "('a \<Rightarrow> 'b \<Rightarrow> ('e, 's, 'b) exec) \<Rightarrow> 'a list \<Rightarrow> 'b \<Rightarrow> ('e, 's, 'b) exec" where
  "foldM f [] b = retM b"
| "foldM f (x # xs) b = bindM (f x b) (foldM f xs)"

lemma foldM_cong [fundef_cong]:
  "xs = ys \<Longrightarrow> b = c \<Longrightarrow> (\<And>x b. x \<in> set ys \<Longrightarrow> f x b = g x b) \<Longrightarrow> foldM f xs b = foldM g ys c"
proof (induction ys arbitrary: xs b c)
  case (Cons y ys)
  then have "foldM f ys = foldM g ys" by (intro ext) auto
  with Cons show ?case by simp
qed simp

lemma mapM_cong [fundef_cong]:
  "xs = ys \<Longrightarrow> (\<And>x. x \<in> set ys \<Longrightarrow> f x = g x) \<Longrightarrow> mapM f xs = mapM g ys"
  by (induction ys arbitrary: xs) auto

lemma collectM_fcong [fundef_cong]:
  "xs = ys \<Longrightarrow> (\<And>x. x \<in> set ys \<Longrightarrow> f x = g x) \<Longrightarrow> collectM f xs = collectM g ys"
  by (induction xs arbitrary: ys) auto

lemma bindM_fcong [fundef_cong]:
  "m = m' \<Longrightarrow> (\<And>x. f x = g x) \<Longrightarrow> bindM m f = bindM m' g"
  by (metis ext)

lemma filterM_pure:
  "(\<And>x. x \<in> set xs \<Longrightarrow> f x s = (Inr (q x), s)) \<Longrightarrow> filterM f xs s = (Inr (filter q xs), s)"
  by (induction xs) auto

lemma anyM_pure:
  "(\<And>x. x \<in> set xs \<Longrightarrow> f x s = (Inr (q x), s)) \<Longrightarrow> anyM f xs s = (Inr (list_ex q xs), s)"
  by (induction xs) auto

lemma mapM_pure:
  "(\<And>x. x \<in> set xs \<Longrightarrow> f x s = (Inr (g x), s)) \<Longrightarrow> mapM f xs s = (Inr (map g xs), s)"
  by (induction xs) auto

lemma collectM_pure:
  "(\<And>x. x \<in> set xs \<Longrightarrow> f x s = (Inr (g x), s)) \<Longrightarrow>
   collectM f xs s = (Inr (concat (map g xs)), s)"
  by (induction xs) auto

lemma collectM_append:
  "collectM f (xs @ ys) s =
     bindM (collectM f xs) (\<lambda>as. bindM (collectM f ys) (\<lambda>bs. retM (as @ bs))) s"
proof (induction xs arbitrary: s)
  case Nil
  show ?case
    by (cases "collectM f ys s"; cases "fst (collectM f ys s)") (auto simp: bindM_def)
next
  case (Cons x xs)
  show ?case
    by (auto simp: bindM_def Cons split: prod.splits sum.splits)
qed

section \<open>Pointers\<close>

record ('s, 'c) ref =
  rd :: "'s \<Rightarrow> 'c"
  wr :: "'c \<Rightarrow> 's \<Rightarrow> 's"

definition updM :: "('s, 'c) ref \<Rightarrow> ('c \<Rightarrow> 'c) \<Rightarrow> ('e, 's, unit) exec" where
  "updM p f = modM (\<lambda>s. wr p (f (rd p s)) s)"

lemma updM_run [simp, run]: "updM p f s = (Inr (), wr p (f (rd p s)) s)"
  by (simp add: updM_def)

text \<open>
  A method of a component that only touches the component: \<open>askM\<close> reads it, \<open>stepM\<close> replaces it
  by the method's result and leaves it alone when the method panics.
\<close>

definition askM :: "('s, 'c) ref \<Rightarrow> ('c \<Rightarrow> 'e + 'a) \<Rightarrow> ('e, 's, 'a) exec" where
  "askM p f = (\<lambda>s. (f (rd p s), s))"

definition stepM :: "('s, 'c) ref \<Rightarrow> ('c \<Rightarrow> 'e + 'c) \<Rightarrow> ('e, 's, unit) exec" where
  "stepM p f = (\<lambda>s. case f (rd p s) of Inl e \<Rightarrow> (Inl e, s) | Inr c \<Rightarrow> (Inr (), wr p c s))"

lemma askM_run [simp, run]: "askM p f s = (f (rd p s), s)"
  by (simp add: askM_def)

lemma stepM_Inr [simp, run]: "f (rd p s) = Inr c \<Longrightarrow> stepM p f s = (Inr (), wr p c s)"
  by (simp add: stepM_def)

lemma stepM_Inl [simp, run]: "f (rd p s) = Inl e \<Longrightarrow> stepM p f s = (Inl e, s)"
  by (simp add: stepM_def)

text \<open>A computation on a component, and the two components of a pair.\<close>

definition onM :: "('s, 'c) ref \<Rightarrow> ('e, 'c, 'a) exec \<Rightarrow> ('e, 's, 'a) exec" where
  "onM p m = (\<lambda>s. case m (rd p s) of (r, c) \<Rightarrow> (r, wr p c s))"

lemma onM_run [simp, run]: "m (rd p s) = (r, c) \<Longrightarrow> onM p m s = (r, wr p c s)"
  by (simp add: onM_def)

definition fst_at :: "('a \<times> 'b, 'a) ref" where
  "fst_at = \<lparr>rd = fst, wr = (\<lambda>x s. (x, snd s))\<rparr>"

definition snd_at :: "('a \<times> 'b, 'b) ref" where
  "snd_at = \<lparr>rd = snd, wr = (\<lambda>x s. (fst s, x))\<rparr>"

lemma pair_at_simps [simp]:
  "rd fst_at s = fst s" "wr fst_at x s = (x, snd s)" "rd snd_at s = snd s" "wr snd_at y s = (fst s, y)"
  by (simp_all add: fst_at_def snd_at_def)

text \<open>The whole state seen through a pointer to itself.\<close>

definition self :: "('s, 's) ref" where
  "self = \<lparr>rd = (\<lambda>s. s), wr = (\<lambda>x _. x)\<rparr>"

lemma self_simps [simp]: "rd self s = s" "wr self x s = x"
  by (simp_all add: self_def)

locale pointer =
  fixes p :: "('s, 'c) ref"
  assumes rd_wr [simp]: "rd p (wr p x s) = x"
    and wr_wr [simp]: "wr p y (wr p x s) = wr p y s"
    and wr_rd [simp]: "wr p (rd p s) s = s"
begin

lemma updM_updM: "bindM (updM p f) (\<lambda>_. updM p g) s = updM p (g \<circ> f) s"
  by simp

end

interpretation self: pointer self
  by unfold_locales simp_all

section \<open>Association lists: Go maps with a finite key set\<close>

text \<open>
  A Go map that the code ranges over is an association list with distinct keys; writing a key
  replaces its value in place or appends the pair.
\<close>

fun put :: "'k \<Rightarrow> 'v \<Rightarrow> ('k \<times> 'v) list \<Rightarrow> ('k \<times> 'v) list" where
  "put k v [] = [(k, v)]"
| "put k v ((k', v') # kvs) = (if k = k' then (k, v) # kvs else (k', v') # put k v kvs)"

definition del :: "'k \<Rightarrow> ('k \<times> 'v) list \<Rightarrow> ('k \<times> 'v) list" where
  "del k kvs = filter (\<lambda>kv. fst kv \<noteq> k) kvs"

lemma map_of_put [simp]: "map_of (put k v kvs) = (map_of kvs)(k \<mapsto> v)"
  by (induction kvs) (auto simp: fun_eq_iff)

lemma set_keys_put [simp]: "set (map fst (put k v kvs)) = insert k (set (map fst kvs))"
  by (induction k v kvs rule: put.induct) auto

lemma distinct_put: "distinct (map fst kvs) \<Longrightarrow> distinct (map fst (put k v kvs))"
proof (induction kvs)
  case (Cons kv kvs)
  then show ?case by (cases kv) (auto simp del: set_map)
qed simp

lemma map_of_del [simp]: "map_of (del k kvs) = (map_of kvs)(k := None)"
  by (induction kvs) (auto simp: del_def fun_eq_iff)

lemma distinct_del: "distinct (map fst kvs) \<Longrightarrow> distinct (map fst (del k kvs))"
  by (induction kvs) (auto simp: del_def)

end
