(* ===== verification/Comparators.thy ===== *)
theory Comparators
  imports Prelude
begin

text \<open>
  Three-way comparison functions that may panic, and what the program's use of Go's \<open>sort\<close>
  package computes with them.  The locale \<open>comparator\<close> states the contract that a comparator
  keeps on a set of comparable values; its lemmas are the list facts that the sources and the
  operators rest on.
\<close>

section \<open>Reading a comparator\<close>

definition cval :: "('a \<Rightarrow> 'a \<Rightarrow> 'e + int) \<Rightarrow> 'a \<Rightarrow> 'a \<Rightarrow> int" where
  "cval cmp a b = (case cmp a b of Inl _ \<Rightarrow> 0 | Inr c \<Rightarrow> c)"

definition ltc :: "('a \<Rightarrow> 'a \<Rightarrow> 'e + int) \<Rightarrow> 'a \<Rightarrow> 'a \<Rightarrow> bool" where
  "ltc cmp a b \<longleftrightarrow> cval cmp a b < 0"

definition sorted_by :: "('a \<Rightarrow> 'a \<Rightarrow> 'e + int) \<Rightarrow> 'a list \<Rightarrow> bool" where
  "sorted_by cmp xs \<longleftrightarrow> sorted_wrt (ltc cmp) xs"

text \<open>Inserting into a sorted list and removing the elements that compare equal.\<close>

definition insert_by :: "('a \<Rightarrow> 'a \<Rightarrow> 'e + int) \<Rightarrow> 'a \<Rightarrow> 'a list \<Rightarrow> 'a list" where
  "insert_by cmp x ys = takeWhile (\<lambda>y. ltc cmp y x) ys @ x # dropWhile (\<lambda>y. ltc cmp y x) ys"

definition remove_by :: "('a \<Rightarrow> 'a \<Rightarrow> 'e + int) \<Rightarrow> 'a \<Rightarrow> 'a list \<Rightarrow> 'a list" where
  "remove_by cmp x ys = filter (\<lambda>y. cval cmp x y \<noteq> 0) ys"

lemma insert_by_Nil [simp]: "insert_by cmp x [] = [x]"
  by (simp add: insert_by_def)

lemma insert_by_Cons:
  "insert_by cmp x (y # ys) = (if ltc cmp y x then y # insert_by cmp x ys else x # y # ys)"
  by (simp add: insert_by_def)

lemma set_insert_by [simp]: "set (insert_by cmp x ys) = insert x (set ys)"
  by (induction ys) (auto simp: insert_by_Cons)

lemma length_insert_by [simp]: "length (insert_by cmp x ys) = Suc (length ys)"
  by (induction ys) (auto simp: insert_by_Cons)

lemma remove_by_Nil [simp]: "remove_by cmp x [] = []"
  by (simp add: remove_by_def)

lemma remove_by_Cons:
  "remove_by cmp x (y # ys) = (if cval cmp x y = 0 then remove_by cmp x ys else y # remove_by cmp x ys)"
  by (simp add: remove_by_def)

lemma set_remove_by: "set (remove_by cmp x ys) = {y \<in> set ys. cval cmp x y \<noteq> 0}"
  by (auto simp: remove_by_def)

lemma remove_by_id: "(\<And>y. y \<in> set ys \<Longrightarrow> cval cmp x y \<noteq> 0) \<Longrightarrow> remove_by cmp x ys = ys"
  by (simp add: remove_by_def)

text \<open>Sorting by insertion, and lists in which only equal elements compare equal.\<close>

definition sort_by :: "('a \<Rightarrow> 'a \<Rightarrow> 'e + int) \<Rightarrow> 'a list \<Rightarrow> 'a list" where
  "sort_by cmp xs = foldr (insert_by cmp) xs []"

lemma set_sort_by [simp]: "set (sort_by cmp xs) = set xs"
  by (induction xs) (simp_all add: sort_by_def)

definition separates :: "('a \<Rightarrow> 'a \<Rightarrow> 'e + int) \<Rightarrow> 'a list \<Rightarrow> bool" where
  "separates cmp xs \<longleftrightarrow> distinct xs \<and> (\<forall>x\<in>set xs. \<forall>y\<in>set xs. cval cmp x y = 0 \<longrightarrow> x = y)"

text \<open>Insertion behind the elements that compare equal.\<close>

definition insert_after :: "('a \<Rightarrow> 'a \<Rightarrow> 'e + int) \<Rightarrow> 'a \<Rightarrow> 'a list \<Rightarrow> 'a list" where
  "insert_after cmp x ys =
     takeWhile (\<lambda>y. \<not> ltc cmp x y) ys @ x # dropWhile (\<lambda>y. \<not> ltc cmp x y) ys"

lemma insert_after_Cons:
  "insert_after cmp x (y # ys) = (if ltc cmp x y then x # y # ys else y # insert_after cmp x ys)"
  by (simp add: insert_after_def)

lemma insert_after_Nil [simp]: "insert_after cmp x [] = [x]"
  by (simp add: insert_after_def)

lemma set_insert_after [simp]: "set (insert_after cmp x ys) = insert x (set ys)"
  by (induction ys) (auto simp: insert_after_Cons)

lemma distinct_insert_after: "distinct (insert_after cmp x ys) \<longleftrightarrow> distinct ys \<and> x \<notin> set ys"
  by (induction ys) (auto simp: insert_after_Cons)

section \<open>Go's sort package\<close>

text \<open>\<open>sort.Search\<close>: binary search for the least index at which a monotone predicate holds.\<close>

function sort_search_loop :: "(nat \<Rightarrow> 'e + bool) \<Rightarrow> nat \<Rightarrow> nat \<Rightarrow> 'e + nat" where
  "sort_search_loop f i j =
     (if i < j then
        let h = (i + j) div 2 in
        bindR (f h) (\<lambda>b. if \<not> b then sort_search_loop f (h + 1) j else sort_search_loop f i h)
      else Inr i)"
  by pat_completeness auto
termination
  by (relation "measure (\<lambda>(f, i, j). j - i)") auto

declare sort_search_loop.simps [simp del]

definition sort_Search :: "nat \<Rightarrow> (nat \<Rightarrow> 'e + bool) \<Rightarrow> 'e + nat" where
  "sort_Search n f = sort_search_loop f 0 n"

text \<open>
  \<open>sort.Slice\<close> promises a permutation sorted by \<open>less\<close> and says nothing about the order of
  elements that compare equal.  The model is an insertion sort; the lemmas about it determine
  the result only where no two elements compare equal, which is where the Go result is
  determined too.
\<close>

fun insertR :: "('a \<Rightarrow> 'a \<Rightarrow> 'e + bool) \<Rightarrow> 'a \<Rightarrow> 'a list \<Rightarrow> 'e + 'a list" where
  "insertR lessf x [] = Inr [x]"
| "insertR lessf x (y # ys) =
     bindR (lessf y x) (\<lambda>b. if b then bindR (insertR lessf x ys) (\<lambda>zs. Inr (y # zs))
                           else Inr (x # y # ys))"

fun sort_Slice :: "('a \<Rightarrow> 'a \<Rightarrow> 'e + bool) \<Rightarrow> 'a list \<Rightarrow> 'e + 'a list" where
  "sort_Slice lessf [] = Inr []"
| "sort_Slice lessf (x # xs) = bindR (sort_Slice lessf xs) (insertR lessf x)"

lemma sort_search_loop_step:
  assumes "i < j" "f ((i + j) div 2) = Inr b"
  shows "sort_search_loop f i j =
    (if b then sort_search_loop f i ((i + j) div 2) else sort_search_loop f ((i + j) div 2 + 1) j)"
  using assms by (subst sort_search_loop.simps) (simp add: Let_def)

lemma sort_search_loop_done: "\<not> i < j \<Longrightarrow> sort_search_loop f i j = Inr i"
  by (subst sort_search_loop.simps) simp

text \<open>
  \<open>search_at p i j r\<close>: \<open>r\<close> is the point between \<open>i\<close> and \<open>j\<close> where \<open>p\<close> turns from false to
  true.
\<close>

definition search_at :: "(nat \<Rightarrow> bool) \<Rightarrow> nat \<Rightarrow> nat \<Rightarrow> nat \<Rightarrow> bool" where
  "search_at p i j r \<longleftrightarrow> i \<le> r \<and> r \<le> j \<and> (\<forall>k. i \<le> k \<and> k < r \<longrightarrow> \<not> p k) \<and> (\<forall>k. r \<le> k \<and> k < j \<longrightarrow> p k)"

lemma search_at_low:
  assumes "search_at p i h r" "h < j" "\<And>k. h \<le> k \<Longrightarrow> k < j \<Longrightarrow> p k"
  shows "search_at p i j r"
  unfolding search_at_def
proof (intro conjI allI impI)
  show "p k" if "r \<le> k \<and> k < j" for k
    using assms that by (cases "k < h") (auto simp: search_at_def)
qed (use assms in \<open>auto simp: search_at_def\<close>)

lemma search_at_high:
  assumes "search_at p (Suc h) j r" "i \<le> h" "\<And>k. i \<le> k \<Longrightarrow> k \<le> h \<Longrightarrow> \<not> p k"
  shows "search_at p i j r"
  unfolding search_at_def
proof (intro conjI allI impI)
  show "\<not> p k" if "i \<le> k \<and> k < r" for k
    using assms that by (cases "k \<le> h") (auto simp: search_at_def)
qed (use assms in \<open>auto simp: search_at_def\<close>)

lemma sort_search_loop_spec:
  assumes "\<And>k. i \<le> k \<Longrightarrow> k < j \<Longrightarrow> f k = Inr (p k)"
    and "\<And>k l. i \<le> k \<Longrightarrow> k \<le> l \<Longrightarrow> l < j \<Longrightarrow> p k \<Longrightarrow> p l"
    and "i \<le> j"
  shows "\<exists>r. sort_search_loop f i j = Inr r \<and> search_at p i j r"
  using assms
proof (induction "j - i" arbitrary: i j rule: less_induct)
  case less
  define h where "h = (i + j) div 2"
  show ?case
  proof (cases "i < j")
    case False
    then show ?thesis using less.prems(3) by (auto simp: sort_search_loop_done search_at_def)
  next
    case True
    then have h: "i \<le> h" "h < j"
      by (auto simp: h_def)
    from less.prems(1) [OF this] have fh: "f h = Inr (p h)" .
    note step = sort_search_loop_step [OF True, of f "p h", folded h_def, OF fh]
    show ?thesis
    proof (cases "p h")
      case True
      have "\<exists>r. sort_search_loop f i h = Inr r \<and> search_at p i h r"
      proof (rule less.hyps)
        show "p l" if "i \<le> k" "k \<le> l" "l < h" "p k" for k l
          using less.prems(2) [of k l] that h by simp
      qed (use less.prems(1) h \<open>i < j\<close> in auto)
      moreover have "p k" if "h \<le> k" "k < j" for k
        using less.prems(2) [of h k] that h True by simp
      ultimately show ?thesis
        using step True h by (auto intro: search_at_low)
    next
      case False
      have "\<exists>r. sort_search_loop f (Suc h) j = Inr r \<and> search_at p (Suc h) j r"
      proof (rule less.hyps)
        show "p l" if "Suc h \<le> k" "k \<le> l" "l < j" "p k" for k l
          using less.prems(2) [of k l] that h by simp
      qed (use less.prems(1) h \<open>i < j\<close> in auto)
      moreover have "\<not> p k" if "i \<le> k" "k \<le> h" for k
        using less.prems(2) [of k h] h that False by auto
      ultimately show ?thesis
        using step False h by (auto intro: search_at_high)
    qed
  qed
qed

lemma sorted_by_weak: "sorted_by cmp xs \<Longrightarrow> sorted_wrt (\<lambda>a b. cval cmp a b \<le> 0) xs"
  unfolding sorted_by_def by (erule sorted_wrt_mono_rel [rotated]) (simp add: ltc_def)

lemma strict_of_weak:
  assumes "sorted_wrt (\<lambda>a b. cval cmp a b \<le> 0) xs" "separates cmp xs"
  shows "sorted_by cmp xs"
  using assms
proof (induction xs)
  case (Cons x xs)
  have "cval cmp x y \<noteq> 0" if "y \<in> set xs" for y
    using Cons.prems(2) that by (auto simp: separates_def)
  with Cons show ?case by (force simp: sorted_by_def separates_def ltc_def)
qed (simp add: sorted_by_def)

section \<open>The contract of a comparator\<close>

locale comparator =
  fixes cmp :: "'a \<Rightarrow> 'a \<Rightarrow> 'e + int" and S :: "'a set"
  assumes total: "a \<in> S \<Longrightarrow> b \<in> S \<Longrightarrow> \<exists>c. cmp a b = Inr c"
    and antisym: "a \<in> S \<Longrightarrow> b \<in> S \<Longrightarrow> cval cmp b a = - cval cmp a b"
    and trans: "a \<in> S \<Longrightarrow> b \<in> S \<Longrightarrow> c \<in> S \<Longrightarrow>
      cval cmp a b \<le> 0 \<Longrightarrow> cval cmp b c \<le> 0 \<Longrightarrow> cval cmp a c \<le> 0"
begin

lemma cmp_Inr: "a \<in> S \<Longrightarrow> b \<in> S \<Longrightarrow> cmp a b = Inr (cval cmp a b)"
  using total [of a b] by (auto simp: cval_def)

lemma refl: "a \<in> S \<Longrightarrow> cval cmp a a = 0"
  using antisym [of a a] by simp

lemma lt_irrefl: "a \<in> S \<Longrightarrow> \<not> ltc cmp a a"
  by (simp add: ltc_def refl)

lemma lt_asym: "a \<in> S \<Longrightarrow> b \<in> S \<Longrightarrow> ltc cmp a b \<Longrightarrow> \<not> ltc cmp b a"
  using antisym [of a b] by (simp add: ltc_def)

lemma le_lt_trans:
  assumes "a \<in> S" "b \<in> S" "c \<in> S" "cval cmp a b \<le> 0" "cval cmp b c < 0"
  shows "cval cmp a c < 0"
proof (rule ccontr)
  assume "\<not> cval cmp a c < 0"
  then have "cval cmp c a \<le> 0" using antisym [of a c] assms by simp
  then have "cval cmp c b \<le> 0" using trans [of c a b] assms by simp
  then show False using antisym [of b c] assms by simp
qed

lemma lt_le_trans:
  assumes "a \<in> S" "b \<in> S" "c \<in> S" "cval cmp a b < 0" "cval cmp b c \<le> 0"
  shows "cval cmp a c < 0"
proof (rule ccontr)
  assume "\<not> cval cmp a c < 0"
  then have "cval cmp c a \<le> 0" using antisym [of a c] assms by simp
  then have "cval cmp b a \<le> 0" using trans [of b c a] assms by simp
  then show False using antisym [of a b] assms by simp
qed

lemma lt_trans:
  "a \<in> S \<Longrightarrow> b \<in> S \<Longrightarrow> c \<in> S \<Longrightarrow> ltc cmp a b \<Longrightarrow> ltc cmp b c \<Longrightarrow> ltc cmp a c"
  unfolding ltc_def using le_lt_trans [of a b c] by simp

lemma eq_sym: "a \<in> S \<Longrightarrow> b \<in> S \<Longrightarrow> cval cmp a b = 0 \<Longrightarrow> cval cmp b a = 0"
  using antisym [of a b] by simp

lemma not_lt: "a \<in> S \<Longrightarrow> b \<in> S \<Longrightarrow> \<not> ltc cmp a b \<longleftrightarrow> cval cmp b a \<le> 0"
  using antisym [of a b] by (auto simp: ltc_def)

lemma gt_iff: "a \<in> S \<Longrightarrow> b \<in> S \<Longrightarrow> 0 < cval cmp a b \<longleftrightarrow> ltc cmp b a"
  using antisym [of a b] by (auto simp: ltc_def)

text \<open>Values that compare equal are interchangeable on either side, up to the sign.\<close>

lemma eq_left_lt:
  assumes "a \<in> S" "b \<in> S" "c \<in> S" "cval cmp a b = 0"
  shows "ltc cmp a c \<longleftrightarrow> ltc cmp b c"
  using le_lt_trans [of a b c] le_lt_trans [of b a c] eq_sym [of a b] assms
  by (auto simp: ltc_def)

lemma eq_right_lt:
  assumes "a \<in> S" "b \<in> S" "c \<in> S" "cval cmp a b = 0"
  shows "ltc cmp c a \<longleftrightarrow> ltc cmp c b"
  using lt_le_trans [of c a b] lt_le_trans [of c b a] eq_sym [of a b] assms
  by (auto simp: ltc_def)

lemma eq_left_eq:
  assumes "a \<in> S" "b \<in> S" "c \<in> S" "cval cmp a b = 0"
  shows "cval cmp a c = 0 \<longleftrightarrow> cval cmp b c = 0"
  using eq_left_lt [OF assms] eq_right_lt [OF assms] gt_iff [of a c] gt_iff [of b c] assms
  by (auto simp: ltc_def)

subsection \<open>Strictly sorted lists\<close>

lemma sorted_by_Cons:
  "sorted_by cmp (x # xs) \<longleftrightarrow> (\<forall>y\<in>set xs. ltc cmp x y) \<and> sorted_by cmp xs"
  by (simp add: sorted_by_def)

lemma sorted_by_append:
  "sorted_by cmp (xs @ ys) \<longleftrightarrow>
     sorted_by cmp xs \<and> sorted_by cmp ys \<and> (\<forall>x\<in>set xs. \<forall>y\<in>set ys. ltc cmp x y)"
  by (simp add: sorted_by_def sorted_wrt_append)

lemma sorted_by_filter: "sorted_by cmp xs \<Longrightarrow> sorted_by cmp (filter p xs)"
  by (simp add: sorted_by_def sorted_wrt_filter)

lemma sorted_by_distinct:
  assumes "sorted_by cmp xs" "set xs \<subseteq> S"
  shows "distinct xs"
  using assms by (induction xs) (auto simp: sorted_by_Cons dest: lt_irrefl)

lemma sorted_by_eq:
  assumes "sorted_by cmp xs" "set xs \<subseteq> S" "a \<in> set xs" "b \<in> set xs" "cval cmp a b = 0"
  shows "a = b"
  using assms
proof (induction xs)
  case (Cons x xs)
  have "x \<in> S" "a \<in> S" "b \<in> S" using Cons.prems by auto
  then show ?case
    using Cons antisym [of a b] by (auto simp: sorted_by_Cons ltc_def)
qed simp

lemma sorted_by_unique:
  assumes "sorted_by cmp xs" "sorted_by cmp ys" "set xs = set ys" "set xs \<subseteq> S"
  shows "xs = ys"
  using assms
proof (induction xs arbitrary: ys)
  case Nil
  then show ?case by simp
next
  case (Cons x xs)
  from Cons.prems(3) obtain y ys' where ys: "ys = y # ys'" by (cases ys) auto
  have inS: "x \<in> S" "y \<in> S" using Cons.prems ys by auto
  have "x = y"
  proof (rule ccontr)
    assume "x \<noteq> y"
    with Cons.prems(3) ys have "x \<in> set ys'" "y \<in> set xs" by auto
    with Cons.prems ys inS lt_asym [of x y] show False by (auto simp: sorted_by_Cons)
  qed
  moreover have "x \<notin> set xs" "y \<notin> set ys'"
    using sorted_by_distinct [OF Cons.prems(1,4)] sorted_by_distinct [OF Cons.prems(2)]
      Cons.prems(3,4) ys by auto
  ultimately have "set xs = set ys'" using Cons.prems(3) ys by auto
  then have "xs = ys'"
    using Cons.prems ys by (intro Cons.IH) (auto simp: sorted_by_Cons)
  with \<open>x = y\<close> ys show ?case by simp
qed

subsection \<open>Insertion, removal and sorting\<close>

lemma insertR_Inr:
  assumes "x \<in> S" "set ys \<subseteq> S"
  shows "insertR (\<lambda>a b. bindR (cmp a b) (\<lambda>c. Inr (c < 0))) x ys = Inr (insert_by cmp x ys)"
  using assms(2) by (induction ys) (auto simp: cmp_Inr [OF _ assms(1)] ltc_def insert_by_Cons)

lemma sorted_insert_by:
  assumes "sorted_by cmp ys" "set ys \<subseteq> S" "x \<in> S" "\<And>y. y \<in> set ys \<Longrightarrow> cval cmp x y \<noteq> 0"
  shows "sorted_by cmp (insert_by cmp x ys)"
  using assms
proof (induction ys)
  case Nil
  then show ?case by (simp add: sorted_by_def)
next
  case (Cons y ys)
  have inS: "x \<in> S" "y \<in> S" using Cons.prems by auto
  show ?case
  proof (cases "ltc cmp y x")
    case True
    then show ?thesis using Cons by (auto simp: sorted_by_Cons insert_by_Cons)
  next
    case False
    then have "ltc cmp x y" using Cons.prems(4) [of y] antisym [of x y] inS by (auto simp: ltc_def)
    moreover from this have "ltc cmp x z" if "z \<in> set ys" for z
      using lt_trans [of x y z] Cons.prems that by (auto simp: sorted_by_Cons)
    ultimately show ?thesis
      using False Cons.prems by (auto simp: sorted_by_Cons insert_by_Cons)
  qed
qed

lemma sorted_remove_by: "sorted_by cmp ys \<Longrightarrow> sorted_by cmp (remove_by cmp x ys)"
  by (simp add: remove_by_def sorted_by_filter)

lemma remove_insert_by:
  assumes "x \<in> S" "\<And>y. y \<in> set ys \<Longrightarrow> cval cmp x y \<noteq> 0"
  shows "remove_by cmp x (insert_by cmp x ys) = ys"
  using assms(2) by (induction ys) (auto simp: insert_by_Cons remove_by_Cons refl [OF assms(1)] remove_by_id)

lemma insert_remove_by:
  assumes "sorted_by cmp ys" "set ys \<subseteq> S" "x \<in> set ys"
  shows "insert_by cmp x (remove_by cmp x ys) = ys"
proof (rule sorted_by_unique)
  have "x \<in> S" using assms by auto
  have only: "y = x" if "y \<in> set ys" "cval cmp x y = 0" for y
    using sorted_by_eq [OF assms(1,2,3) that] by simp
  show "sorted_by cmp (insert_by cmp x (remove_by cmp x ys))"
    using assms \<open>x \<in> S\<close> by (intro sorted_insert_by sorted_remove_by) (auto simp: set_remove_by)
  show "set (insert_by cmp x (remove_by cmp x ys)) = set ys"
    using assms(3) only by (auto simp: set_remove_by)
  show "set (insert_by cmp x (remove_by cmp x ys)) \<subseteq> S"
    using assms(2) \<open>x \<in> S\<close> by (auto simp: set_remove_by)
qed (rule assms(1))

lemma sort_Slice_spec:
  assumes "set xs \<subseteq> S" "distinct xs"
    and "\<And>a b. a \<in> set xs \<Longrightarrow> b \<in> set xs \<Longrightarrow> cval cmp a b = 0 \<Longrightarrow> a = b"
  shows "\<exists>ys. sort_Slice (\<lambda>a b. bindR (cmp a b) (\<lambda>c. Inr (c < 0))) xs = Inr ys \<and>
    sorted_by cmp ys \<and> set ys = set xs"
  using assms
proof (induction xs)
  case Nil
  then show ?case by (simp add: sorted_by_def)
next
  case (Cons x xs)
  then obtain ys where ys: "sort_Slice (\<lambda>a b. bindR (cmp a b) (\<lambda>c. Inr (c < 0))) xs = Inr ys"
      "sorted_by cmp ys" "set ys = set xs"
    by auto
  have "cval cmp x y \<noteq> 0" if "y \<in> set ys" for y
    using Cons.prems ys(3) that by (metis distinct.simps(2) list.set_intros)
  then show ?case
    using ys sorted_insert_by [OF ys(2), of x] Cons.prems(1) by (auto simp: insertR_Inr)
qed

text \<open>
  The effect of one change on a sorted list, for whatever carries the change: an addition, a
  removal, or an edit given as new and old element.
\<close>

lemma remove_by_eq_id:
  assumes "sorted_by cmp (y # ys)" "set (y # ys) \<subseteq> S" "x \<in> S" "cval cmp x y = 0"
  shows "remove_by cmp x ys = ys"
proof (rule remove_by_id)
  fix z assume z: "z \<in> set ys"
  then have "ltc cmp y z" "z \<in> S" "y \<in> S" using assms by (auto simp: sorted_by_Cons)
  with assms(3,4) eq_left_lt [of x y z] show "cval cmp x z \<noteq> 0" by (auto simp: ltc_def)
qed

lemma insert_by_front:
  assumes "sorted_by cmp (y # ys)" "set (y # ys) \<subseteq> S" "x \<in> S" "ltc cmp x y"
  shows "insert_by cmp x ys = x # ys"
  using assms lt_trans [of x y "hd ys"] lt_asym [of x "hd ys"]
  by (cases ys) (auto simp: insert_by_Cons sorted_by_Cons)

lemma sort_Slice_Inr:
  assumes "set xs \<subseteq> S"
  shows "sort_Slice (\<lambda>a b. bindR (cmp a b) (\<lambda>c. Inr (c < 0))) xs = Inr (sort_by cmp xs)"
  using assms
proof (induction xs)
  case (Cons x xs)
  then have "set (sort_by cmp xs) \<subseteq> S" "x \<in> S" by auto
  with Cons show ?case by (simp add: insertR_Inr) (simp add: sort_by_def)
qed (simp add: sort_by_def)

lemma sorted_sort_by:
  assumes "set xs \<subseteq> S" "separates cmp xs"
  shows "sorted_by cmp (sort_by cmp xs)"
proof -
  obtain ys where "sort_Slice (\<lambda>a b. bindR (cmp a b) (\<lambda>c. Inr (c < 0))) xs = Inr ys" "sorted_by cmp ys"
    using sort_Slice_spec [OF assms(1)] assms(2) unfolding separates_def by blast
  with sort_Slice_Inr [OF assms(1)] show ?thesis by simp
qed

lemma sorted_by_separates:
  "sorted_by cmp xs \<Longrightarrow> set xs \<subseteq> S \<Longrightarrow> separates cmp xs"
  unfolding separates_def by (blast intro: sorted_by_distinct sorted_by_eq)

lemma sort_by_cong:
  assumes "set xs \<subseteq> S" "separates cmp xs" "separates cmp ys" "set ys = set xs"
  shows "sort_by cmp ys = sort_by cmp xs"
  using assms by (intro sorted_by_unique sorted_sort_by) auto

text \<open>Binary search in a sorted list, and what the index it finds is used for.\<close>

lemma search_spec:
  assumes "sorted_by cmp xs" "set xs \<subseteq> S" "x \<in> S"
  shows "sort_Search (length xs) (\<lambda>i. bindR (cmp (xs ! i) x) (\<lambda>c. Inr (c \<ge> 0))) =
    Inr (length (takeWhile (\<lambda>y. ltc cmp y x) xs))"
proof -
  let ?f = "\<lambda>i. bindR (cmp (xs ! i) x) (\<lambda>c. Inr (c \<ge> 0))"
  let ?p = "\<lambda>i. \<not> ltc cmp (xs ! i) x"
  have inS: "xs ! k \<in> S" if "k < length xs" for k
    using assms(2) that by auto
  have mono: "?p l" if "k \<le> l" "l < length xs" "?p k" for k l
  proof (cases "k = l")
    case False
    then have "ltc cmp (xs ! k) (xs ! l)"
      using assms(1) that unfolding sorted_by_def by (simp add: sorted_wrt_nth_less)
    with that show ?thesis
      using lt_trans [of "xs ! k" "xs ! l" x] inS assms(3) by auto
  qed (use that in simp)
  have "\<exists>r. sort_search_loop ?f 0 (length xs) = Inr r \<and> search_at ?p 0 (length xs) r"
  proof (rule sort_search_loop_spec)
    show "?f k = Inr (?p k)" if "k < length xs" for k
      using cmp_Inr [OF inS [OF that] assms(3)] by (auto simp: ltc_def)
  qed (use mono in auto)
  then obtain r where r: "sort_search_loop ?f 0 (length xs) = Inr r" "search_at ?p 0 (length xs) r"
    by blast
  have "takeWhile (\<lambda>y. ltc cmp y x) xs = take r xs"
  proof (rule takeWhile_eq_take_P_nth)
    show "ltc cmp (xs ! i) x" if "i < r" for i using r(2) that by (auto simp: search_at_def)
    show "\<not> ltc cmp (xs ! r) x" if "r < length xs" using r(2) that by (auto simp: search_at_def)
  qed
  then show ?thesis using r by (simp add: sort_Search_def search_at_def)
qed

lemma search_found:
  assumes "sorted_by cmp xs" "set xs \<subseteq> S" "x \<in> S"
  defines "idx \<equiv> length (takeWhile (\<lambda>y. ltc cmp y x) xs)"
  shows "(idx < length xs \<and> cval cmp (xs ! idx) x = 0) \<longleftrightarrow> (\<exists>y\<in>set xs. cval cmp x y = 0)"
    and "\<exists>y\<in>set xs. cval cmp x y = 0 \<Longrightarrow> take idx xs @ drop (idx + 1) xs = remove_by cmp x xs"
  using assms(1,2) unfolding idx_def
proof (induction xs)
  case (Cons y ys)
  {
    case 1
    then have inS: "y \<in> S" "set ys \<subseteq> S" "sorted_by cmp ys" by (auto simp: sorted_by_Cons)
    show ?case
    proof (cases "ltc cmp y x")
      case True
      then have "cval cmp x y \<noteq> 0" using antisym [of x y] inS assms(3) by (auto simp: ltc_def)
      with True Cons.IH(1) inS show ?thesis by auto
    next
      case False
      have "\<exists>z\<in>set (y # ys). cval cmp x z = 0 \<Longrightarrow> cval cmp y x = 0"
      proof (rule ccontr)
        assume z: "\<exists>z\<in>set (y # ys). cval cmp x z = 0" and ne: "cval cmp y x \<noteq> 0"
        have xy: "ltc cmp x y" using False ne antisym [of x y] inS assms(3) by (auto simp: ltc_def)
        from z ne obtain z where "z \<in> set ys" "cval cmp x z = 0"
          using eq_sym [of x y] inS assms(3) by auto
        moreover from this have "ltc cmp y z" "z \<in> S" using 1 by (auto simp: sorted_by_Cons)
        ultimately show False using lt_trans [of x y z] xy inS assms(3) by (auto simp: ltc_def)
      qed
      then show ?thesis using False eq_sym [of y x] inS assms(3) by auto
    qed
  next
    case 2
    then have inS: "y \<in> S" "set ys \<subseteq> S" "sorted_by cmp ys" by (auto simp: sorted_by_Cons)
    show ?case
    proof (cases "ltc cmp y x")
      case True
      then have "cval cmp x y \<noteq> 0" using antisym [of x y] inS assms(3) by (auto simp: ltc_def)
      with True Cons.IH(2) 2 inS show ?thesis by (auto simp: remove_by_Cons)
    next
      case False
      have "cval cmp x y = 0"
      proof (rule ccontr)
        assume ne: "cval cmp x y \<noteq> 0"
        have xy: "ltc cmp x y" using False ne antisym [of x y] inS assms(3) by (auto simp: ltc_def)
        from 2(1) ne obtain z where "z \<in> set ys" "cval cmp x z = 0" by auto
        moreover from this have "ltc cmp y z" "z \<in> S" using 2 by (auto simp: sorted_by_Cons)
        ultimately show False using lt_trans [of x y z] xy inS assms(3) by (auto simp: ltc_def)
      qed
      then show ?thesis using False remove_by_eq_id [of y ys x] 2 inS assms(3)
        by (simp add: remove_by_Cons)
    qed
  }
qed simp_all

text \<open>A change on one side of a position leaves the other side alone.\<close>

lemma insert_by_right:
  "(\<And>y. y \<in> set ys \<Longrightarrow> ltc cmp y x) \<Longrightarrow> insert_by cmp x (ys @ zs) = ys @ insert_by cmp x zs"
  by (induction ys) (auto simp: insert_by_Cons)

lemma insert_by_left:
  assumes "x \<in> S" "set zs \<subseteq> S" "\<And>z. z \<in> set zs \<Longrightarrow> ltc cmp x z"
  shows "insert_by cmp x (ys @ zs) = insert_by cmp x ys @ zs"
proof (induction ys)
  case Nil
  then show ?case using assms lt_asym [of x "hd zs"] by (cases zs) (auto simp: insert_by_Cons)
qed (auto simp: insert_by_Cons)

lemma remove_by_append: "remove_by cmp x (ys @ zs) = remove_by cmp x ys @ remove_by cmp x zs"
  by (simp add: remove_by_def)

lemma remove_by_apart:
  assumes "x \<in> S" "set ys \<subseteq> S" "\<And>y. y \<in> set ys \<Longrightarrow> ltc cmp x y \<or> ltc cmp y x"
  shows "remove_by cmp x ys = ys"
proof (rule remove_by_id)
  fix y assume y: "y \<in> set ys"
  with assms(2) have "y \<in> S" by auto
  with assms(1) assms(3) [OF y] antisym [of x y] show "cval cmp x y \<noteq> 0" by (auto simp: ltc_def)
qed

lemma last_insert_by:
  assumes "sorted_by cmp ys" "set ys \<subseteq> S" "x \<in> S"
  shows "cval cmp x (last (insert_by cmp x ys)) \<le> 0"
  using assms
proof (induction ys)
  case (Cons y ys)
  show ?case
  proof (cases "ltc cmp y x")
    case True
    have "insert_by cmp x ys \<noteq> []" by (metis length_insert_by length_0_conv nat.distinct(1))
    with True Cons show ?thesis by (simp add: insert_by_Cons sorted_by_Cons)
  next
    case False
    then have xy: "cval cmp x y \<le> 0" using Cons.prems not_lt [of y x] by simp
    have "cval cmp x z \<le> 0" if "z \<in> set (y # ys)" for z
    proof (cases "z = y")
      case False
      with that Cons.prems(1) have "ltc cmp y z" by (auto simp: sorted_by_Cons)
      with xy that Cons.prems trans [of x y z] show ?thesis by (auto simp: ltc_def)
    qed (use xy in simp)
    then have "cval cmp x (last (y # ys)) \<le> 0" using last_in_set [of "y # ys"] by blast
    with False show ?thesis by (simp add: insert_by_Cons)
  qed
qed (simp add: refl)

text \<open>Filtering commutes with insertion and removal.\<close>

lemma filter_insert_by:
  assumes "sorted_by cmp ys" "set ys \<subseteq> S" "x \<in> S"
  shows "filter q (insert_by cmp x ys) = (if q x then insert_by cmp x (filter q ys) else filter q ys)"
  using assms
proof (induction ys)
  case (Cons y ys)
  show ?case
  proof (cases "ltc cmp y x")
    case True
    then show ?thesis using Cons by (auto simp: insert_by_Cons sorted_by_Cons)
  next
    case False
    have "\<not> ltc cmp z x" if "z \<in> set (y # ys)" for z
    proof (cases "z = y")
      case ne: False
      then have "ltc cmp y z" using Cons.prems(1) that by (auto simp: sorted_by_Cons)
      with False that Cons.prems lt_trans [of y z x] show ?thesis by auto
    qed (use False in simp)
    then have "\<forall>z\<in>set (filter q (y # ys)). \<not> ltc cmp z x" by simp
    then have "insert_by cmp x (filter q (y # ys)) = x # filter q (y # ys)"
      by (cases "filter q (y # ys)") (simp_all add: insert_by_Cons)
    with False show ?thesis by (simp add: insert_by_Cons)
  qed
qed simp

lemma filter_remove_by:
  assumes "sorted_by cmp ys" "set ys \<subseteq> S" "x \<in> set ys"
  shows "filter q (remove_by cmp x ys) = (if q x then remove_by cmp x (filter q ys) else filter q ys)"
proof -
  have "cval cmp x y = 0 \<longleftrightarrow> y = x" if "y \<in> set ys" for y
    using sorted_by_eq [OF assms(1,2,3) that] refl [of x] assms(2,3) by auto
  then show ?thesis by (auto simp: remove_by_def intro!: filter_cong)
qed

text \<open>Lists sorted in the weak sense, where elements may compare equal.\<close>

lemma weak_insert_after:
  assumes "sorted_wrt (\<lambda>a b. cval cmp a b \<le> 0) ys" "set ys \<subseteq> S" "x \<in> S"
  shows "sorted_wrt (\<lambda>a b. cval cmp a b \<le> 0) (insert_after cmp x ys)"
  using assms
proof (induction ys)
  case (Cons y ys)
  have "cval cmp y x \<le> 0" if "\<not> ltc cmp x y"
    using that antisym [of x y] Cons.prems by (auto simp: ltc_def)
  moreover have "cval cmp x z \<le> 0" if "ltc cmp x y" "z \<in> set ys" for z
    using that trans [of x y z] Cons.prems by (auto simp: ltc_def)
  ultimately show ?case using Cons by (auto simp: insert_after_Cons ltc_def)
qed simp

text \<open>A comparator seen through a projection: nodes are compared by their rows.\<close>

lemma pullback: "comparator (\<lambda>a b. cmp (f a) (f b)) {a. f a \<in> S}"
proof (unfold_locales, goal_cases)
  case (1 a b)
  then show ?case by (auto intro: total)
next
  case (2 a b)
  then show ?case using antisym [of "f a" "f b"] by (simp add: cval_def)
next
  case (3 a b c)
  then show ?case using trans [of "f a" "f b" "f c"] by (simp add: cval_def)
qed

end

lemma cval_pull: "cval (\<lambda>a b. cmp (f a) (f b)) x y = cval cmp (f x) (f y)"
  by (simp add: cval_def)

lemma ltc_pull: "ltc (\<lambda>a b. cmp (f a) (f b)) x y = ltc cmp (f x) (f y)"
  by (simp add: ltc_def cval_pull)

lemma sorted_by_pull: "sorted_by (\<lambda>a b. cmp (f a) (f b)) xs = sorted_by cmp (map f xs)"
  by (induction xs) (auto simp: sorted_by_def ltc_pull)

lemma map_insert_by:
  "map f (insert_by (\<lambda>a b. cmp (f a) (f b)) x xs) = insert_by cmp (f x) (map f xs)"
  by (induction xs) (auto simp: insert_by_Cons ltc_pull)

lemma map_remove_by:
  "map f (remove_by (\<lambda>a b. cmp (f a) (f b)) x xs) = remove_by cmp (f x) (map f xs)"
  by (induction xs) (auto simp: remove_by_Cons cval_pull)

end
