(* ===== verification/Values.thy ===== *)
theory Values
  imports Comparators Complex_Main "HOL-Library.List_Lexorder" "HOL-Library.Char_ord" "HOL-Library.Log_Nat"
begin

text \<open>
  The column values, rows and comparators of \<open>ivm/data.go\<close>, the change and drift payloads that
  panics carry (\<open>ivm/drift.go\<close>), and the comparison laws every operator relies on.

  A Go \<open>interface{}\<close> is a \<open>val\<close> tagged by its dynamic type.  A \<open>float64\<close> is NaN, an infinity or
  the rational it denotes (the sign of zero is not kept: no comparison of the program sees it).
  Converting an integer rounds to 53 significant bits, ties to even, as the Go conversion does.
\<close>

section \<open>float64\<close>

datatype f64 = NaN | PInf | NInf | Fin rat

fun f64_lt :: "f64 \<Rightarrow> f64 \<Rightarrow> bool" where
  "f64_lt NaN _ = False"
| "f64_lt _ NaN = False"
| "f64_lt (Fin x) (Fin y) = (x < y)"
| "f64_lt NInf y = (y \<noteq> NInf)"
| "f64_lt x NInf = False"
| "f64_lt x PInf = (x \<noteq> PInf)"
| "f64_lt PInf y = False"

fun f64_eq :: "f64 \<Rightarrow> f64 \<Rightarrow> bool" where
  "f64_eq NaN _ = False"
| "f64_eq _ NaN = False"
| "f64_eq x y = (x = y)"

definition round_shift :: "int \<Rightarrow> nat \<Rightarrow> int" where
  "round_shift a k =
     (let q = a div 2 ^ k; r = a mod 2 ^ k
      in if k = 0 then a
         else if 2 * r < 2 ^ k \<or> (2 * r = 2 ^ k \<and> even q) then q else q + 1)"

definition f64_of_int :: "int \<Rightarrow> f64" where
  "f64_of_int n =
     (let k = nat (bitlen \<bar>n\<bar> - 53) in Fin (of_int (sgn n * round_shift \<bar>n\<bar> k * 2 ^ k)))"

lemma f64_of_int_exact:
  assumes "\<bar>n\<bar> < 2 ^ 53"
  shows "f64_of_int n = Fin (of_int n)"
proof -
  have "bitlen \<bar>n\<bar> \<le> 53"
    using assms bitlen_le_iff_power [of "\<bar>n\<bar>" 53] by simp
  then show ?thesis
    by (simp add: f64_of_int_def round_shift_def sgn_mult_abs flip: of_int_mult)
qed

lemma f64_lt_irrefl: "\<not> f64_lt x x"
  by (cases x) auto

lemma f64_lt_trans: "f64_lt x y \<Longrightarrow> f64_lt y z \<Longrightarrow> f64_lt x z"
  by (cases x; cases y; cases z) auto

lemma f64_lt_asym: "f64_lt x y \<Longrightarrow> \<not> f64_lt y x"
  using f64_lt_trans [of x y x] f64_lt_irrefl [of x] by blast

lemma f64_linear: "x \<noteq> NaN \<Longrightarrow> y \<noteq> NaN \<Longrightarrow> f64_lt x y \<or> x = y \<or> f64_lt y x"
  by (cases x; cases y) auto

lemma f64_eq_iff: "f64_eq x y \<longleftrightarrow> x = y \<and> x \<noteq> NaN"
  by (cases x; cases y) auto

section \<open>Values\<close>

datatype ikind = KInt | KInt8 | KInt16 | KInt32 | KInt64
  | KUint | KUint8 | KUint16 | KUint32 | KUint64

datatype val = VNull
  | VBool bool
  | VStr string
  | VInt ikind int
  | VF64 f64
  | VF32 f64
  | VBytes string
  | VJNum string
  | VArr "val list"
  | VObj "(string \<times> val) list"

abbreviation num :: "rat \<Rightarrow> val" where
  "num x \<equiv> VF64 (Fin x)"

text \<open>
  What a panic carries: a \<open>panic(...)\<close> of the source, a drift signal
  (table, operation, primary key of the offending row, row count), or a run-time error of Go.
  \<open>Fatal\<close> is a panic in a goroutine of its own, which no caller can recover: the process ends;
  \<open>Deadlock\<close> is waiting for a lock the same call already holds, which never returns.
  \<open>OutOfFuel\<close> is not a Go panic: it is the value of a run whose recursion bound is exhausted.
\<close>

datatype panic = Panic string
  | DriftError string string "(string \<times> val) list" nat
  | UncomparableType
  | NilDereference
  | Fatal panic
  | Deadlock
  | OutOfFuel

type_synonym 'a res = "panic + 'a"

fun IsDriftError :: "panic \<Rightarrow> bool" where
  "IsDriftError (DriftError _ _ _ _) = True"
| "IsDriftError _ = False"

text \<open>Go's \<open>==\<close> on interfaces: it panics when both hold the same uncomparable type.\<close>

definition iface_eq :: "val \<Rightarrow> val \<Rightarrow> bool res" where
  "iface_eq a b =
     (case a of
        VNull \<Rightarrow> Inr (b = VNull)
      | VBool x \<Rightarrow> (case b of VBool y \<Rightarrow> Inr (x = y) | _ \<Rightarrow> Inr False)
      | VStr x \<Rightarrow> (case b of VStr y \<Rightarrow> Inr (x = y) | _ \<Rightarrow> Inr False)
      | VInt k x \<Rightarrow> (case b of VInt l y \<Rightarrow> Inr (k = l \<and> x = y) | _ \<Rightarrow> Inr False)
      | VF64 x \<Rightarrow> (case b of VF64 y \<Rightarrow> Inr (f64_eq x y) | _ \<Rightarrow> Inr False)
      | VF32 x \<Rightarrow> (case b of VF32 y \<Rightarrow> Inr (f64_eq x y) | _ \<Rightarrow> Inr False)
      | VJNum x \<Rightarrow> (case b of VJNum y \<Rightarrow> Inr (x = y) | _ \<Rightarrow> Inr False)
      | VBytes _ \<Rightarrow> (case b of VBytes _ \<Rightarrow> Inl UncomparableType | _ \<Rightarrow> Inr False)
      | VArr _ \<Rightarrow> (case b of VArr _ \<Rightarrow> Inl UncomparableType | _ \<Rightarrow> Inr False)
      | VObj _ \<Rightarrow> (case b of VObj _ \<Rightarrow> Inl UncomparableType | _ \<Rightarrow> Inr False))"

fun toFloat64 :: "val \<Rightarrow> f64 option" where
  "toFloat64 (VF64 x) = Some x"
| "toFloat64 (VInt KInt64 n) = Some (f64_of_int n)"
| "toFloat64 (VInt KUint64 n) = Some (f64_of_int n)"
| "toFloat64 (VInt KInt n) = Some (f64_of_int n)"
| "toFloat64 (VInt KInt32 n) = Some (f64_of_int n)"
| "toFloat64 (VInt KUint32 n) = Some (f64_of_int n)"
| "toFloat64 (VF32 x) = Some x"
| "toFloat64 _ = None"

definition strings_Compare :: "string \<Rightarrow> string \<Rightarrow> int" where
  "strings_Compare a b = (if a = b then 0 else if a < b then -1 else 1)"

definition compare_panic :: panic where
  "compare_panic = Panic ''cannot compare values of different types''"

definition CompareValues :: "val \<Rightarrow> val \<Rightarrow> int res" where
  "CompareValues a b = bindR (iface_eq a b) (\<lambda>eq.
     if eq then Inr 0 else
     case (toFloat64 a, toFloat64 b) of
       (Some af, Some bf) \<Rightarrow> Inr (if f64_lt af bf then -1 else if f64_lt bf af then 1 else 0)
     | _ \<Rightarrow>
       (case (a, b) of
          (VStr av, VStr bv) \<Rightarrow> Inr (strings_Compare av bv)
        | (VBool av, VBool bv) \<Rightarrow> Inr (if av = bv then 0 else if av then 1 else -1)
        | (VNull, _) \<Rightarrow> Inr (if b = VNull then 0 else -1)
        | _ \<Rightarrow> if a = VNull then Inr (-1)
               else if b = VNull then Inr 1
               else Inl compare_panic))"

definition ValuesEqual :: "val \<Rightarrow> val \<Rightarrow> bool res" where
  "ValuesEqual a b =
     (if a = VNull \<or> b = VNull then Inr False
      else bindR (iface_eq a b) (\<lambda>eq.
        if eq then Inr True
        else case (toFloat64 a, toFloat64 b) of
            (Some af, Some bf) \<Rightarrow> Inr (f64_eq af bf)
          | _ \<Rightarrow> Inr False))"

section \<open>Decoding\<close>

fun normalizeDecodedValue :: "val \<Rightarrow> val" where
  "normalizeDecodedValue (VInt k n) = VF64 (f64_of_int n)"
| "normalizeDecodedValue (VF32 x) = VF64 x"
| "normalizeDecodedValue (VObj kvs) = VObj (map (\<lambda>(k, v). (k, normalizeDecodedValue v)) kvs)"
| "normalizeDecodedValue (VArr vs) = VArr (map normalizeDecodedValue vs)"
| "normalizeDecodedValue v = v"

type_synonym row = "string \<rightharpoonup> val"

text \<open>
  The msgpack decoder is a library of the program: its three calls are a parameter.  An error
  return is \<open>Inl\<close>, wrapped with the position as the code wraps it.
\<close>

record ('d, 'x) decoder =
  DecodeMapLen :: "'d \<Rightarrow> ('x + int) \<times> 'd"
  DecodeString :: "'d \<Rightarrow> ('x + string) \<times> 'd"
  DecodeInterface :: "'d \<Rightarrow> ('x + val) \<times> 'd"

datatype 'x decode_error = MapLenError 'x | KeyError nat 'x | ValueError string 'x

fun decode_entries ::
  "('d, 'x) decoder \<Rightarrow> nat \<Rightarrow> nat \<Rightarrow> row \<Rightarrow> 'd \<Rightarrow> ('x decode_error + row) \<times> 'd" where
  "decode_entries dec i 0 m d = (Inr m, d)"
| "decode_entries dec i (Suc n) m d =
     (case DecodeString dec d of
        (Inl e, d1) \<Rightarrow> (Inl (KeyError i e), d1)
      | (Inr key, d1) \<Rightarrow>
        (case DecodeInterface dec d1 of
           (Inl e, d2) \<Rightarrow> (Inl (ValueError key e), d2)
         | (Inr v, d2) \<Rightarrow>
             decode_entries dec (Suc i) n (m(key \<mapsto> normalizeDecodedValue v)) d2))"

definition Row_DecodeMsgpack ::
  "('d, 'x) decoder \<Rightarrow> 'd \<Rightarrow> ('x decode_error + row option) \<times> 'd" where
  "Row_DecodeMsgpack dec d =
     (case DecodeMapLen dec d of
        (Inl e, d1) \<Rightarrow> (Inl (MapLenError e), d1)
      | (Inr n, d1) \<Rightarrow>
        if n < 0 then (Inr None, d1)
        else (case decode_entries dec 0 (nat n) Map.empty d1 of
                (Inl e, d2) \<Rightarrow> (Inl e, d2)
              | (Inr m, d2) \<Rightarrow> (Inr (Some m), d2)))"

text \<open>No integer and no \<open>float32\<close> is left anywhere in a decoded value.\<close>

fun normalized :: "val \<Rightarrow> bool" where
  "normalized (VInt k n) = False"
| "normalized (VF32 x) = False"
| "normalized (VObj kvs) = (\<forall>kv\<in>set kvs. normalized (snd kv))"
| "normalized (VArr vs) = (\<forall>v\<in>set vs. normalized v)"
| "normalized v = True"

lemma normalizeDecodedValue_normalized: "normalized (normalizeDecodedValue v)"
  by (induction v rule: normalizeDecodedValue.induct) auto

lemma normalizeDecodedValue_id: "normalized v \<Longrightarrow> normalizeDecodedValue v = v"
proof (induction v rule: normalizeDecodedValue.induct)
  case (3 kvs)
  then show ?case by (force intro: map_idI)
qed (auto intro: map_idI)

lemma decode_entries_normalized:
  assumes "decode_entries dec i n m d = (Inr r, d')" "\<forall>v\<in>ran m. normalized v"
  shows "\<forall>v\<in>ran r. normalized v"
  using assms
proof (induction dec i n m d rule: decode_entries.induct)
  case (2 dec i n m d)
  have "\<forall>v\<in>ran (m(key \<mapsto> normalizeDecodedValue x)). normalized v" for key x
    using "2.prems"(2) normalizeDecodedValue_normalized [of x] by (auto simp: ran_def)
  with 2 show ?case by (auto split: prod.splits sum.splits simp del: fun_upd_apply)
qed simp

section \<open>Rows and comparators\<close>

type_synonym Ordering = "(string \<times> string) list"

text \<open>A Go map lookup yields the zero value, \<open>nil\<close>, for a missing key.\<close>

definition col :: "row \<Rightarrow> string \<Rightarrow> val" where
  "col r k = (case r k of None \<Rightarrow> VNull | Some v \<Rightarrow> v)"

lemma col_simps [simp]: "col (r(k \<mapsto> v)) k = v" "k \<noteq> k' \<Longrightarrow> col (r(k \<mapsto> v)) k' = col r k'"
  "col Map.empty k = VNull"
  by (simp_all add: col_def)

fun MakeComparator :: "Ordering \<Rightarrow> bool \<Rightarrow> row \<Rightarrow> row \<Rightarrow> int res" where
  "MakeComparator [] reverse a b = Inr 0"
| "MakeComparator ((field, dir) # order) reverse a b =
     bindR (CompareValues (col a field) (col b field)) (\<lambda>comp.
       if comp \<noteq> 0 then
         (let comp = (if dir = ''desc'' then - comp else comp);
              comp = (if reverse then - comp else comp)
          in Inr comp)
       else MakeComparator order reverse a b)"

section \<open>When comparisons cannot panic\<close>

text \<open>
  Values of one column are comparable when they are null or of one class: booleans, strings, or
  numbers of the types \<open>toFloat64\<close> knows, NaN excluded.  \<open>okval t\<close> is the set of such values
  for the class \<open>t\<close>, \<open>row_ok ty ord\<close> the set of rows whose ordering columns have them.
\<close>

datatype vclass = CBool | CStr | CNum

definition okval :: "vclass \<Rightarrow> val \<Rightarrow> bool" where
  "okval t v \<longleftrightarrow> v = VNull \<or>
     (case t of
        CBool \<Rightarrow> (case v of VBool _ \<Rightarrow> True | _ \<Rightarrow> False)
      | CStr \<Rightarrow> (case v of VStr _ \<Rightarrow> True | _ \<Rightarrow> False)
      | CNum \<Rightarrow> (case toFloat64 v of Some x \<Rightarrow> x \<noteq> NaN | None \<Rightarrow> False))"

definition row_ok :: "(string \<Rightarrow> vclass) \<Rightarrow> Ordering \<Rightarrow> row \<Rightarrow> bool" where
  "row_ok ty order r \<longleftrightarrow> (\<forall>fd\<in>set order. okval (ty (fst fd)) (col r (fst fd)))"

text \<open>The comparison in closed form.\<close>

definition vcmp :: "val \<Rightarrow> val \<Rightarrow> int" where
  "vcmp a b =
     (if a = VNull then (if b = VNull then 0 else -1)
      else if b = VNull then 1
      else case (a, b) of
          (VStr x, VStr y) \<Rightarrow> strings_Compare x y
        | (VBool x, VBool y) \<Rightarrow> (if x = y then 0 else if x then 1 else -1)
        | _ \<Rightarrow> (case (toFloat64 a, toFloat64 b) of
              (Some x, Some y) \<Rightarrow> if f64_lt x y then -1 else if f64_lt y x then 1 else 0
            | _ \<Rightarrow> 0))"

lemma toFloat64_iface_eq:
  assumes "toFloat64 a = Some x" "toFloat64 b = Some y"
  shows "\<exists>c. iface_eq a b = Inr c \<and> (c \<longrightarrow> x = y)"
  using assms by (cases a; cases b) (auto simp: iface_eq_def f64_eq_iff)

lemma CompareValues_num:
  assumes "toFloat64 a = Some x" "toFloat64 b = Some y"
  shows "CompareValues a b = Inr (if f64_lt x y then -1 else if f64_lt y x then 1 else 0)"
  using toFloat64_iface_eq [OF assms] assms
  by (auto simp: CompareValues_def f64_lt_irrefl)

lemma okval_num_cases:
  assumes "okval CNum v"
  obtains "v = VNull" | x where "toFloat64 v = Some x" "x \<noteq> NaN" "v \<noteq> VNull"
  using assms by (cases "v = VNull") (auto simp: okval_def split: option.splits)

lemma okval_str_iff: "okval CStr v \<longleftrightarrow> v = VNull \<or> (\<exists>s. v = VStr s)"
  by (cases v) (auto simp: okval_def)

lemma okval_bool_iff: "okval CBool v \<longleftrightarrow> v = VNull \<or> (\<exists>b. v = VBool b)"
  by (cases v) (auto simp: okval_def)

lemma CompareValues_null:
  "CompareValues VNull b = Inr (if b = VNull then 0 else -1)"
  "a \<noteq> VNull \<Longrightarrow> CompareValues a VNull = Inr 1"
  by (auto simp: CompareValues_def iface_eq_def split: val.splits option.splits)

lemma CompareValues_str: "CompareValues (VStr x) (VStr y) = Inr (strings_Compare x y)"
  by (simp add: CompareValues_def iface_eq_def strings_Compare_def)

lemma CompareValues_bool:
  "CompareValues (VBool x) (VBool y) = Inr (if x = y then 0 else if x then 1 else -1)"
  by (simp add: CompareValues_def iface_eq_def)

lemma vcmp_num:
  assumes "toFloat64 a = Some x" "toFloat64 b = Some y"
  shows "vcmp a b = (if f64_lt x y then -1 else if f64_lt y x then 1 else 0)"
  using assms by (cases a; cases b) (auto simp: vcmp_def)

lemma CompareValues_ok:
  assumes "okval t a" "okval t b"
  shows "CompareValues a b = Inr (vcmp a b)"
proof (cases t)
  case CNum
  with assms show ?thesis
    by (auto elim!: okval_num_cases simp: CompareValues_null CompareValues_num vcmp_num)
       (simp_all add: vcmp_def)
qed (use assms in \<open>auto simp: okval_str_iff okval_bool_iff CompareValues_null CompareValues_str
      CompareValues_bool vcmp_def\<close>)

lemma strings_Compare_antisym: "strings_Compare b a = - strings_Compare a b"
  by (auto simp: strings_Compare_def)

lemma strings_Compare_trans:
  "strings_Compare a b \<le> 0 \<Longrightarrow> strings_Compare b c \<le> 0 \<Longrightarrow> strings_Compare a c \<le> 0"
  by (auto simp: strings_Compare_def split: if_splits dest: less_trans)

lemma vcmp_antisym:
  assumes "okval t a" "okval t b"
  shows "vcmp b a = - vcmp a b"
proof (cases t)
  case CNum
  with assms show ?thesis
    by (auto elim!: okval_num_cases simp: vcmp_num dest: f64_lt_asym)
       (simp_all add: vcmp_def)
qed (use assms in \<open>auto simp: okval_str_iff okval_bool_iff vcmp_def intro: strings_Compare_antisym\<close>)

lemma vcmp_trans:
  assumes "okval t a" "okval t b" "okval t c" "vcmp a b \<le> 0" "vcmp b c \<le> 0"
  shows "vcmp a c \<le> 0"
proof (cases "a = VNull \<or> b = VNull \<or> c = VNull")
  case True
  with assms(4,5) show ?thesis by (auto simp: vcmp_def split: if_splits)
next
  case False
  show ?thesis
  proof (cases t)
    case CNum
    with False assms obtain x y z where
      "toFloat64 a = Some x" "toFloat64 b = Some y" "toFloat64 c = Some z" "x \<noteq> NaN" "y \<noteq> NaN" "z \<noteq> NaN"
      by (auto elim!: okval_num_cases)
    with assms(4,5) f64_linear [of x y] f64_linear [of y z] show ?thesis
      by (auto simp: vcmp_num split: if_splits dest: f64_lt_trans)
  qed (use False assms in \<open>auto simp: okval_str_iff okval_bool_iff vcmp_def split: if_splits
      dest: strings_Compare_trans\<close>)
qed

interpretation vals: comparator CompareValues "{v. okval t v}" for t
proof (unfold_locales, goal_cases)
  case (1 a b)
  then show ?case by (auto simp: CompareValues_ok [of t])
next
  case (2 a b)
  then show ?case using vcmp_antisym [of t a b] by (simp add: cval_def CompareValues_ok [of t])
next
  case (3 a b c)
  then show ?case using vcmp_trans [of t a b c] by (simp add: cval_def CompareValues_ok [of t])
qed

section \<open>Row comparators\<close>

fun rcmp :: "Ordering \<Rightarrow> bool \<Rightarrow> row \<Rightarrow> row \<Rightarrow> int" where
  "rcmp [] reverse a b = 0"
| "rcmp ((field, dir) # order) reverse a b =
     (let comp = vcmp (col a field) (col b field)
      in if comp \<noteq> 0 then (if (dir = ''desc'') = reverse then comp else - comp)
         else rcmp order reverse a b)"

lemma row_ok_simps [simp]:
  "row_ok ty [] r" "row_ok ty ((f, d) # order) r \<longleftrightarrow> okval (ty f) (col r f) \<and> row_ok ty order r"
  by (auto simp: row_ok_def)

lemma MakeComparator_ok:
  "row_ok ty order a \<Longrightarrow> row_ok ty order b \<Longrightarrow>
   MakeComparator order reverse a b = Inr (rcmp order reverse a b)"
  by (induction order reverse a b rule: MakeComparator.induct)
     (auto simp: CompareValues_ok Let_def)

lemma rcmp_antisym:
  "row_ok ty order a \<Longrightarrow> row_ok ty order b \<Longrightarrow> rcmp order reverse b a = - rcmp order reverse a b"
proof (induction order reverse a b rule: rcmp.induct)
  case (2 f d order reverse a b)
  then show ?case using vcmp_antisym [of "ty f" "col a f" "col b f"] by (auto simp: Let_def)
qed simp

lemma rcmp_trans:
  assumes "row_ok ty order a" "row_ok ty order b" "row_ok ty order c"
    and "rcmp order reverse a b \<le> 0" "rcmp order reverse b c \<le> 0"
  shows "rcmp order reverse a c \<le> 0"
  using assms
proof (induction order reverse a b rule: rcmp.induct)
  case (2 f d order reverse a b)
  let ?x = "col a f" and ?y = "col b f" and ?z = "col c f" and ?t = "ty f"
  have ok: "okval ?t ?x" "okval ?t ?y" "okval ?t ?z" using "2.prems" by auto
  note anti = vcmp_antisym [OF ok(1,2)] vcmp_antisym [OF ok(2,3)] vcmp_antisym [OF ok(1,3)]
  note tr = vcmp_trans [OF ok(1,2,3)] vcmp_trans [OF ok(3,2,1)] vcmp_trans [OF ok(2,1,3)]
    vcmp_trans [OF ok(1,3,2)] vcmp_trans [OF ok(2,3,1)] vcmp_trans [OF ok(3,1,2)]
  show ?case
  proof (cases "vcmp ?x ?y = 0 \<and> vcmp ?y ?z = 0")
    case True
    then have "vcmp ?x ?z = 0" using anti tr by auto
    with True 2 show ?thesis by auto
  next
    case False
    with "2.prems"(4,5) anti tr show ?thesis by (auto simp: Let_def split: if_splits)
  qed
qed simp

interpretation rows: comparator "MakeComparator order reverse" "{r. row_ok ty order r}"
  for order reverse ty
proof (unfold_locales, goal_cases)
  case (1 a b) then show ?case by (auto simp: MakeComparator_ok [of ty])
next
  case (2 a b) then show ?case using rcmp_antisym [of ty order a b reverse]
    by (simp add: cval_def MakeComparator_ok [of ty])
next
  case (3 a b c)
  then show ?case using rcmp_trans [of ty order a b c reverse] by (auto simp: cval_def MakeComparator_ok [of ty])
qed

section \<open>Properties\<close>

text \<open>
  C8. On rows whose ordering columns hold comparable values, the comparator that \<open>MakeComparator\<close>
  builds never panics and is a total preorder: swapping the rows negates the result, and being at
  most is transitive, in either direction of the ordering.
\<close>

theorem MakeComparator_total_order:
  assumes "row_ok ty order a" "row_ok ty order b" "row_ok ty order c"
  shows "\<exists>x y z. MakeComparator order reverse a b = Inr x \<and> MakeComparator order reverse b a = Inr (- x) \<and>
    MakeComparator order reverse b c = Inr y \<and> MakeComparator order reverse a c = Inr z \<and>
    (x \<le> 0 \<and> y \<le> 0 \<longrightarrow> z \<le> 0)"
  using assms by (auto simp: MakeComparator_ok rcmp_antisym [of ty order a b reverse]
      intro: rcmp_trans [of ty order a b c reverse])

theorem MakeComparator_total_order_witness:
  "\<exists>x. MakeComparator [(''n'', ''desc'')] False [''n'' \<mapsto> num 3] [''n'' \<mapsto> VInt KInt 2] = Inr x \<and>
    MakeComparator [(''n'', ''desc'')] False [''n'' \<mapsto> VInt KInt 2] [''n'' \<mapsto> num 3] = Inr (- x)"
proof -
  have "row_ok (\<lambda>_. CNum) [(''n'', ''desc'')] [''n'' \<mapsto> num 3]"
    "row_ok (\<lambda>_. CNum) [(''n'', ''desc'')] [''n'' \<mapsto> VInt KInt 2]"
    by (simp_all add: okval_def f64_of_int_exact col_def)
  from MakeComparator_total_order [OF this this(2), of False] show ?thesis by blast
qed

text \<open>
  C9. Whatever the msgpack library returns, a row that \<open>Row.DecodeMsgpack\<close> hands to the program
  holds no integer and no single-precision value at any depth, so that all its numbers are of the
  one type the comparisons use.
\<close>

theorem Row_DecodeMsgpack_normalized:
  assumes "Row_DecodeMsgpack dec d = (Inr (Some m), d')"
  shows "\<forall>v\<in>ran m. normalized v"
  using assms decode_entries_normalized [of dec 0 _ Map.empty]
  by (auto simp: Row_DecodeMsgpack_def split: prod.splits sum.splits if_splits)

definition one_entry :: "(nat, unit) decoder" where
  "one_entry = \<lparr>DecodeMapLen = (\<lambda>n. (Inr 1, n)), DecodeString = (\<lambda>n. (Inr ''a'', Suc n)),
     DecodeInterface = (\<lambda>n. (Inr (VArr [VInt KUint8 7, VNull]), Suc n))\<rparr>"

theorem Row_DecodeMsgpack_normalized_witness:
  "normalized (VArr [num 7, VNull])"
  using Row_DecodeMsgpack_normalized [of one_entry 0 "[''a'' \<mapsto> VArr [num 7, VNull]]" 2]
  by (simp add: Row_DecodeMsgpack_def one_entry_def f64_of_int_exact)

end
