(* ===== verification/Nodes.thy ===== *)
theory Nodes
  imports Values
begin

text \<open>
  Nodes, changes, schemas and requests: \<open>ivm/change.go\<close>, \<open>ivm/operator.go\<close>, the row of
  \<open>Node\<close> in \<open>ivm/data.go\<close>, and the overlay functions of \<open>ivm/join_utils.go\<close>.

  A relationship of a node is a closure \<open>func() []Node\<close> that is evaluated later, against the state
  of that moment.  The closures of the program are given as data, one constructor of \<open>thunk\<close> for
  each place that creates one, with the variables it captures; \<open>Graph\<close> evaluates them.
\<close>

section \<open>Schemas and requests\<close>

type_synonym opid = nat
type_synonym CompoundKey = "string list"
type_synonym Constraint = "(string \<times> val) list"
type_synonym Comparator = "row \<Rightarrow> row \<Rightarrow> int res"

datatype SourceSchema = SourceSchema
  (TableName: string)
  (Columns: "(string \<times> string) list")
  (PrimaryKey: "string list")
  (SchemaRelationships: "(string \<times> SourceSchema) list")
  (IsHidden: bool)
  (IsScalar: bool)
  (System: string)
  (CompareRows: Comparator)
  (Sort: "Ordering option")

record Start =
  StartRow :: row
  Basis :: string

record FetchRequest =
  ReqConstraint :: "Constraint option"
  ReqStart :: "Start option"
  ReqReverse :: bool

definition empty_request :: FetchRequest where
  "empty_request = \<lparr>ReqConstraint = None, ReqStart = None, ReqReverse = False\<rparr>"

text \<open>
  The implementations of \<open>Output\<close>: an operator, one of the two adapters of a join or of a flipped
  join, the sink of a pipeline (query and schema), or the initial output that panics.
\<close>

datatype Output = ToOperator opid
  | ToJoinParent opid
  | ToJoinChild opid
  | ToFlippedParent opid
  | ToFlippedChild opid
  | ToPipeline string SourceSchema
  | ThrowOutput

section \<open>Nodes and changes\<close>

datatype Change =
    AddChange Node
  | RemoveChange Node
  | EditChange Node Node
  | ChildChange Node string Change
and Node = Node (Row: row) (Relationships: "(string \<times> thunk) list")
and thunk =
    ThNil
  | ThNodes "Node list"
  | ThJoinChild opid row
  | ThFlippedChild opid row
  | ThOverlay thunk Change "SourceSchema option"

datatype ChangeType = ChangeTypeAdd | ChangeTypeRemove | ChangeTypeEdit | ChangeTypeChild

fun change_type :: "Change \<Rightarrow> ChangeType" where
  "change_type (AddChange _) = ChangeTypeAdd"
| "change_type (RemoveChange _) = ChangeTypeRemove"
| "change_type (EditChange _ _) = ChangeTypeEdit"
| "change_type (ChildChange _ _ _) = ChangeTypeChild"

text \<open>The field \<open>Node\<close> of a change; for an edit the new node.\<close>

fun change_node :: "Change \<Rightarrow> Node" where
  "change_node (AddChange n) = n"
| "change_node (RemoveChange n) = n"
| "change_node (EditChange n _) = n"
| "change_node (ChildChange n _ _) = n"

definition rel_of :: "Node \<Rightarrow> string \<Rightarrow> thunk" where
  "rel_of n name = (case map_of (Relationships n) name of None \<Rightarrow> ThNil | Some t \<Rightarrow> t)"

abbreviation leaf :: "row \<Rightarrow> Node" where
  "leaf r \<equiv> Node r []"

text \<open>Reading a schema through a pointer that may be nil.\<close>

definition schema_compare :: "SourceSchema option \<Rightarrow> Comparator" where
  "schema_compare so a b = (case so of None \<Rightarrow> Inl NilDereference | Some sch \<Rightarrow> CompareRows sch a b)"

definition schema_rel :: "SourceSchema option \<Rightarrow> string \<Rightarrow> SourceSchema option res" where
  "schema_rel so name =
     (case so of None \<Rightarrow> Inl NilDereference | Some sch \<Rightarrow> Inr (map_of (SchemaRelationships sch) name))"

section \<open>Keys\<close>

fun RowEqualsForCompoundKey :: "row \<Rightarrow> row \<Rightarrow> CompoundKey \<Rightarrow> bool res" where
  "RowEqualsForCompoundKey a b [] = Inr True"
| "RowEqualsForCompoundKey a b (k # key) =
     bindR (CompareValues (col a k) (col b k)) (\<lambda>c.
       if c \<noteq> 0 then Inr False else RowEqualsForCompoundKey a b key)"

text \<open>The keys have equal length: \<open>NewJoin\<close> and \<open>NewFlippedJoin\<close> panic otherwise.\<close>

fun IsJoinMatch :: "row \<Rightarrow> CompoundKey \<Rightarrow> row \<Rightarrow> CompoundKey \<Rightarrow> bool res" where
  "IsJoinMatch parent (p # pk) child (c # ck) =
     bindR (ValuesEqual (col parent p) (col child c)) (\<lambda>eq.
       if \<not> eq then Inr False else IsJoinMatch parent pk child ck)"
| "IsJoinMatch parent [] child ck = Inr True"
| "IsJoinMatch parent (p # pk) child [] = Inl (Panic ''index out of range'')"

fun BuildJoinConstraint_from :: "row \<Rightarrow> (string \<times> string) list \<Rightarrow> Constraint \<Rightarrow> Constraint option" where
  "BuildJoinConstraint_from sourceRow [] c = Some c"
| "BuildJoinConstraint_from sourceRow ((s, t) # keys) c =
     (let value = col sourceRow s
      in if value = VNull then None else BuildJoinConstraint_from sourceRow keys (put t value c))"

definition BuildJoinConstraint :: "row \<Rightarrow> CompoundKey \<Rightarrow> CompoundKey \<Rightarrow> Constraint option" where
  "BuildJoinConstraint sourceRow sourceKey targetKey =
     BuildJoinConstraint_from sourceRow (zip sourceKey targetKey) []"

section \<open>Overlays on a stream of nodes\<close>

text \<open>
  The body of the loop of \<open>GenerateWithOverlay\<close>: what one fetched node emits, and the three flags
  \<open>applied\<close>, \<open>editOldApplied\<close>, \<open>editNewApplied\<close> after it.
\<close>

definition overlay_child :: "Node \<Rightarrow> string \<Rightarrow> Change \<Rightarrow> SourceSchema option \<Rightarrow> Node" where
  "overlay_child node name ch childSchema =
     Node (Row node) (put name (ThOverlay (rel_of node name) ch childSchema) (Relationships node))"

fun overlay_node ::
  "Change \<Rightarrow> SourceSchema option \<Rightarrow> bool \<times> bool \<times> bool \<Rightarrow> Node \<Rightarrow> (Node list \<times> bool \<times> bool \<times> bool) res"
where
  "overlay_node overlay schema (True, oldA, newA) node = Inr ([node], True, oldA, newA)"
| "overlay_node (AddChange n) schema (False, oldA, newA) node =
     bindR (schema_compare schema (Row n) (Row node)) (\<lambda>c.
       if c = 0 then Inr ([], True, oldA, newA) else Inr ([node], False, oldA, newA))"
| "overlay_node (RemoveChange n) schema (False, oldA, newA) node =
     bindR (schema_compare schema (Row n) (Row node)) (\<lambda>c.
       if c < 0 then Inr ([n, node], True, oldA, newA) else Inr ([node], False, oldA, newA))"
| "overlay_node (EditChange n old) schema (False, oldA, newA) node =
     bindR (if oldA then Inr False
            else bindR (schema_compare schema (Row old) (Row node)) (\<lambda>c. Inr (c < 0))) (\<lambda>injectOld.
     bindR (if newA then Inr False
            else bindR (schema_compare schema (Row n) (Row node)) (\<lambda>c. Inr (c = 0))) (\<lambda>skipNew.
       Inr ((if injectOld then [old] else []) @ (if skipNew then [] else [node]),
            (injectOld \<and> newA) \<or> (skipNew \<and> (oldA \<or> injectOld)),
            oldA \<or> injectOld, newA \<or> skipNew)))"
| "overlay_node (ChildChange n name ch) schema (False, oldA, newA) node =
     bindR (schema_compare schema (Row n) (Row node)) (\<lambda>c.
       if c = 0 then bindR (schema_rel schema name) (\<lambda>childSchema.
         Inr ([overlay_child node name ch childSchema], True, oldA, newA))
       else Inr ([node], False, oldA, newA))"

fun overlay_finish :: "Change \<Rightarrow> bool \<times> bool \<times> bool \<Rightarrow> Node list res" where
  "overlay_finish overlay (True, oldA, newA) = Inr []"
| "overlay_finish (RemoveChange n) (False, oldA, newA) = Inr [n]"
| "overlay_finish (EditChange n old) (False, oldA, newA) =
     (if \<not> newA then Inl (Panic ''GenerateWithOverlay: edit overlay new node was never applied'')
      else Inr [old])"
| "overlay_finish _ (False, oldA, newA) =
     Inl (Panic ''GenerateWithOverlay: overlay was never applied to any fetched node'')"

fun overlay_loop ::
  "Change \<Rightarrow> SourceSchema option \<Rightarrow> bool \<times> bool \<times> bool \<Rightarrow> Node list \<Rightarrow> Node list res"
where
  "overlay_loop overlay schema flags [] = overlay_finish overlay flags"
| "overlay_loop overlay schema flags (node # nodes) =
     bindR (overlay_node overlay schema flags node) (\<lambda>(out, flags').
     bindR (overlay_loop overlay schema flags' nodes) (\<lambda>rest. Inr (out @ rest)))"

definition GenerateWithOverlay :: "Node list \<Rightarrow> Change \<Rightarrow> SourceSchema option \<Rightarrow> Node list res" where
  "GenerateWithOverlay nodes overlay schema = overlay_loop overlay schema (False, False, False) nodes"

text \<open>The unordered variant injects first and then suppresses the matching node by primary key.\<close>

fun overlay_unordered_loop ::
  "Change \<Rightarrow> SourceSchema \<Rightarrow> bool \<Rightarrow> Node list \<Rightarrow> (Node list \<times> bool) res"
where
  "overlay_unordered_loop overlay schema suppressed [] = Inr ([], suppressed)"
| "overlay_unordered_loop overlay schema suppressed (node # nodes) =
     bindR (if suppressed \<or> change_type overlay = ChangeTypeRemove then Inr False
            else RowEqualsForCompoundKey (Row (change_node overlay)) (Row node) (PrimaryKey schema)) (\<lambda>hit.
     bindR (overlay_unordered_loop overlay schema (suppressed \<or> hit) nodes) (\<lambda>(rest, s).
       Inr ((if \<not> hit then node # rest
             else case overlay of
               ChildChange n name ch \<Rightarrow>
                 overlay_child node name ch (map_of (SchemaRelationships schema) name) # rest
             | _ \<Rightarrow> rest), s)))"

definition GenerateWithOverlayUnordered :: "Node list \<Rightarrow> Change \<Rightarrow> SourceSchema \<Rightarrow> Node list res" where
  "GenerateWithOverlayUnordered nodes overlay schema =
     bindR (overlay_unordered_loop overlay schema False nodes) (\<lambda>(rest, suppressed).
       if \<not> suppressed \<and> change_type overlay \<noteq> ChangeTypeRemove
       then Inl (Panic ''GenerateWithOverlayUnordered: overlay was never applied to any fetched node'')
       else Inr ((case overlay of
                    RemoveChange n \<Rightarrow> [n] | EditChange n old \<Rightarrow> [old] | _ \<Rightarrow> []) @ rest))"

section \<open>What an overlay computes\<close>

text \<open>
  The effect of a change on a sorted stream of nodes, the condition under which the change is
  possible, and the stream an overlay is meant to produce from the stream after the change.
\<close>

definition node_cmp :: "SourceSchema \<Rightarrow> Node \<Rightarrow> Node \<Rightarrow> int res" where
  "node_cmp schema a b = CompareRows schema (Row a) (Row b)"

fun apply_change :: "SourceSchema \<Rightarrow> Change \<Rightarrow> Node list \<Rightarrow> Node list" where
  "apply_change schema (AddChange n) xs = insert_by (node_cmp schema) n xs"
| "apply_change schema (RemoveChange n) xs = remove_by (node_cmp schema) n xs"
| "apply_change schema (EditChange n old) xs =
     insert_by (node_cmp schema) n (remove_by (node_cmp schema) old xs)"
| "apply_change schema (ChildChange n name ch) xs = xs"

fun change_possible :: "SourceSchema \<Rightarrow> Change \<Rightarrow> Node list \<Rightarrow> bool" where
  "change_possible schema (AddChange n) xs = (\<forall>m\<in>set xs. cval (node_cmp schema) n m \<noteq> 0)"
| "change_possible schema (RemoveChange n) xs = (n \<in> set xs)"
| "change_possible schema (EditChange n old) xs =
     (old \<in> set xs \<and> (\<forall>m\<in>set xs. cval (node_cmp schema) n m = 0 \<longrightarrow> m = old))"
| "change_possible schema (ChildChange n name ch) xs = (n \<in> set xs)"

fun undo_change :: "SourceSchema \<Rightarrow> Change \<Rightarrow> Node list \<Rightarrow> Node list" where
  "undo_change schema (AddChange n) xs = remove_by (node_cmp schema) n xs"
| "undo_change schema (RemoveChange n) xs = insert_by (node_cmp schema) n xs"
| "undo_change schema (EditChange n old) xs =
     insert_by (node_cmp schema) old (remove_by (node_cmp schema) n xs)"
| "undo_change schema (ChildChange n name ch) xs =
     map (\<lambda>m. if cval (node_cmp schema) n m = 0
              then overlay_child m name ch (map_of (SchemaRelationships schema) name) else m) xs"

lemma overlay_loop_applied [simp]:
  "overlay_loop overlay schema (True, a, b) nodes = Inr nodes"
  by (induction nodes) auto

locale ordered_schema =
  fixes schema :: SourceSchema and S :: "row set"
  assumes row_order: "comparator (CompareRows schema) S"
begin

sublocale nodes: comparator "node_cmp schema" "{n. Row n \<in> S}"
  using comparator.pullback [OF row_order, of Row] unfolding node_cmp_def .

lemma schema_compare_Inr [simp]:
  "Row a \<in> S \<Longrightarrow> Row b \<in> S \<Longrightarrow>
   schema_compare (Some schema) (Row a) (Row b) = Inr (cval (node_cmp schema) a b)"
  using nodes.cmp_Inr [of a b] by (simp add: schema_compare_def node_cmp_def)

lemma row_compare_Inr:
  "Row a \<in> S \<Longrightarrow> Row b \<in> S \<Longrightarrow> CompareRows schema (Row a) (Row b) = Inr (cval (node_cmp schema) a b)"
  using nodes.cmp_Inr [of a b] unfolding node_cmp_def [of schema a b] by simp

lemma overlay_add:
  assumes "sorted_by (node_cmp schema) xs" "Row ` set xs \<subseteq> S" "Row n \<in> S"
    and "\<exists>m\<in>set xs. cval (node_cmp schema) n m = 0"
  shows "overlay_loop (AddChange n) (Some schema) (False, a, b) xs =
    Inr (remove_by (node_cmp schema) n xs)"
  using assms
proof (induction xs)
  case (Cons m xs)
  show ?case
  proof (cases "cval (node_cmp schema) n m = 0")
    case True
    then have "remove_by (node_cmp schema) n xs = xs"
      using Cons.prems by (intro nodes.remove_by_eq_id [of m]) auto
    with True Cons.prems show ?thesis by (simp add: remove_by_Cons)
  next
    case False
    with Cons show ?thesis by (auto simp: remove_by_Cons nodes.sorted_by_Cons)
  qed
qed simp

lemma overlay_remove:
  assumes "Row ` set xs \<subseteq> S" "Row n \<in> S" "\<forall>m\<in>set xs. cval (node_cmp schema) n m \<noteq> 0"
  shows "overlay_loop (RemoveChange n) (Some schema) (False, a, b) xs =
    Inr (insert_by (node_cmp schema) n xs)"
  using assms
proof (induction xs)
  case (Cons m xs)
  then have "cval (node_cmp schema) n m < 0 \<longleftrightarrow> \<not> ltc (node_cmp schema) m n"
    using nodes.antisym [of n m] by (auto simp: ltc_def)
  with Cons show ?case by (auto simp: insert_by_Cons)
qed simp

lemma overlay_edit_old:
  assumes "Row ` set xs \<subseteq> S" "Row old \<in> S" "\<forall>m\<in>set xs. cval (node_cmp schema) old m \<noteq> 0"
  shows "overlay_loop (EditChange n old) (Some schema) (False, False, True) xs =
    Inr (insert_by (node_cmp schema) old xs)"
  using assms
proof (induction xs)
  case (Cons m xs)
  then have "cval (node_cmp schema) old m < 0 \<longleftrightarrow> \<not> ltc (node_cmp schema) m old"
    using nodes.antisym [of old m] by (auto simp: ltc_def)
  with Cons show ?case by (auto simp: insert_by_Cons)
qed simp

lemma overlay_edit_new:
  assumes "sorted_by (node_cmp schema) xs" "Row ` set xs \<subseteq> S" "Row n \<in> S"
    and "\<exists>m\<in>set xs. cval (node_cmp schema) n m = 0"
  shows "overlay_loop (EditChange n old) (Some schema) (False, True, False) xs =
    Inr (remove_by (node_cmp schema) n xs)"
  using assms
proof (induction xs)
  case (Cons m xs)
  show ?case
  proof (cases "cval (node_cmp schema) n m = 0")
    case True
    then have "remove_by (node_cmp schema) n xs = xs"
      using Cons.prems by (intro nodes.remove_by_eq_id [of m]) auto
    with True Cons.prems show ?thesis by (simp add: remove_by_Cons)
  next
    case False
    with Cons show ?thesis by (auto simp: remove_by_Cons nodes.sorted_by_Cons)
  qed
qed simp

lemma overlay_edit:
  assumes "sorted_by (node_cmp schema) xs" "Row ` set xs \<subseteq> S" "Row n \<in> S" "Row old \<in> S"
    and "\<exists>m\<in>set xs. cval (node_cmp schema) n m = 0"
    and "\<forall>m\<in>set xs. cval (node_cmp schema) n m \<noteq> 0 \<longrightarrow> cval (node_cmp schema) old m \<noteq> 0"
  shows "overlay_loop (EditChange n old) (Some schema) (False, False, False) xs =
    Inr (insert_by (node_cmp schema) old (remove_by (node_cmp schema) n xs))"
  using assms
proof (induction xs)
  case (Cons m xs)
  let ?c = "node_cmp schema"
  have inS: "Row m \<in> S" "Row ` set xs \<subseteq> S" and sorted: "sorted_by ?c xs"
    using Cons.prems by (auto simp: nodes.sorted_by_Cons)
  have before: "cval ?c old m < 0 \<longleftrightarrow> \<not> ltc ?c m old" if "cval ?c old m \<noteq> 0"
    using nodes.antisym [of old m] that inS Cons.prems(4) by (auto simp: ltc_def)
  show ?case
  proof (cases "cval ?c n m = 0")
    case True
    then have rm: "remove_by ?c n xs = xs"
      using Cons.prems by (intro nodes.remove_by_eq_id [of m]) auto
    then have later: "\<forall>z\<in>set xs. cval ?c old z \<noteq> 0"
      using Cons.prems(6) by (auto simp: remove_by_def filter_id_conv)
    have front: "insert_by ?c old xs = old # xs" if "cval ?c old m < 0"
      using Cons.prems that by (intro nodes.insert_by_front [of m]) (auto simp: ltc_def)
    from True rm later front inS Cons.prems show ?thesis
      by (auto simp: remove_by_Cons overlay_edit_old)
  next
    case False
    with Cons inS sorted before show ?thesis
      by (auto simp: remove_by_Cons insert_by_Cons overlay_edit_new)
  qed
qed simp

lemma overlay_childchange:
  assumes "sorted_by (node_cmp schema) xs" "Row ` set xs \<subseteq> S" "Row n \<in> S"
    and "\<exists>m\<in>set xs. cval (node_cmp schema) n m = 0"
  shows "overlay_loop (ChildChange n name ch) (Some schema) (False, a, b) xs =
    Inr (undo_change schema (ChildChange n name ch) xs)"
  using assms
proof (induction xs)
  case (Cons m xs)
  show ?case
  proof (cases "cval (node_cmp schema) n m = 0")
    case True
    then have "remove_by (node_cmp schema) n xs = xs"
      using Cons.prems by (intro nodes.remove_by_eq_id [of m]) auto
    then have "\<forall>z\<in>set xs. cval (node_cmp schema) n z \<noteq> 0"
      by (auto simp: remove_by_def filter_id_conv)
    then have "undo_change schema (ChildChange n name ch) xs = xs"
      by (auto intro: map_idI)
    with True Cons.prems show ?thesis by (simp add: schema_rel_def)
  next
    case False
    with Cons show ?thesis by (auto simp: nodes.sorted_by_Cons)
  qed
qed simp

text \<open>An overlay turns the stream after a change into the stream before it.\<close>

lemma undo_add:
  assumes sorted: "sorted_by (node_cmp schema) xs" and inS: "Row ` set xs \<subseteq> S"
    and new: "Row n \<in> S" "\<And>m. m \<in> set xs \<Longrightarrow> cval (node_cmp schema) n m \<noteq> 0"
  shows "GenerateWithOverlay (insert_by (node_cmp schema) n xs) (AddChange n) (Some schema) = Inr xs"
proof -
  have "sorted_by (node_cmp schema) (insert_by (node_cmp schema) n xs)"
    using sorted inS new by (intro nodes.sorted_insert_by) auto
  moreover have "remove_by (node_cmp schema) n (insert_by (node_cmp schema) n xs) = xs"
    using new by (intro nodes.remove_insert_by) auto
  ultimately show ?thesis
    using inS new(1) nodes.refl [of n] by (simp add: GenerateWithOverlay_def overlay_add)
qed

lemma undo_remove:
  assumes sorted: "sorted_by (node_cmp schema) xs" and inS: "Row ` set xs \<subseteq> S"
    and new: "n \<in> set xs"
  shows "GenerateWithOverlay (remove_by (node_cmp schema) n xs) (RemoveChange n) (Some schema) = Inr xs"
proof -
  have "insert_by (node_cmp schema) n (remove_by (node_cmp schema) n xs) = xs"
    using sorted inS new by (intro nodes.insert_remove_by) auto
  moreover have "Row ` set (remove_by (node_cmp schema) n xs) \<subseteq> S" "Row n \<in> S"
    using inS new by (auto simp: set_remove_by)
  ultimately show ?thesis
    by (simp add: GenerateWithOverlay_def overlay_remove set_remove_by)
qed

lemma undo_edit:
  assumes sorted: "sorted_by (node_cmp schema) xs" and inS: "Row ` set xs \<subseteq> S"
    and new: "Row n \<in> S" "old \<in> set xs" "\<And>m. m \<in> set xs \<Longrightarrow> cval (node_cmp schema) n m = 0 \<Longrightarrow> m = old"
  shows "GenerateWithOverlay (insert_by (node_cmp schema) n (remove_by (node_cmp schema) old xs))
    (EditChange n old) (Some schema) = Inr xs"
proof -
  let ?c = "node_cmp schema"
  let ?ys = "remove_by ?c old xs"
  have old: "Row old \<in> S" using inS new(2) by auto
  have fresh: "cval ?c n m \<noteq> 0" if "m \<in> set ?ys" for m
    using that new(3) nodes.refl [of old] old by (auto simp: set_remove_by)
  have ys: "sorted_by ?c ?ys" "Row ` set ?ys \<subseteq> S"
    using sorted inS nodes.sorted_remove_by by (auto simp: set_remove_by)
  have "sorted_by ?c (insert_by ?c n ?ys)"
    using ys fresh new(1) by (intro nodes.sorted_insert_by) auto
  then have "overlay_loop (EditChange n old) (Some schema) (False, False, False) (insert_by ?c n ?ys) =
      Inr (insert_by ?c old (remove_by ?c n (insert_by ?c n ?ys)))"
    using ys old new(1) nodes.refl [of n] by (intro overlay_edit) (auto simp: set_remove_by)
  moreover have "remove_by ?c n (insert_by ?c n ?ys) = ?ys"
    using fresh new(1) by (intro nodes.remove_insert_by) auto
  moreover have "insert_by ?c old ?ys = xs"
    using sorted inS new(2) by (intro nodes.insert_remove_by) auto
  ultimately show ?thesis by (simp add: GenerateWithOverlay_def)
qed

lemma overlay_undoes:
  assumes "sorted_by (node_cmp schema) xs" "Row ` set xs \<subseteq> S"
    and "Row (change_node ch) \<in> S" "change_possible schema ch xs"
    and "change_type ch \<noteq> ChangeTypeChild"
  shows "GenerateWithOverlay (apply_change schema ch xs) ch (Some schema) = Inr xs"
proof (cases ch)
  case (AddChange n)
  with assms undo_add [of xs n] show ?thesis by auto
next
  case (RemoveChange n)
  with assms undo_remove [of xs n] show ?thesis by auto
next
  case (EditChange n old)
  with assms undo_edit [of xs n old] show ?thesis by auto
qed (use assms in simp)

end

text \<open>Every schema of the program compares rows with \<open>MakeComparator\<close>.\<close>

interpretation source_schema: ordered_schema
  "SourceSchema tn cols pk rels hid scal sys (MakeComparator order False) srt"
  "{r. row_ok ty order r}"
  for tn cols pk rels hid scal sys order srt ty
  by (rule ordered_schema.intro, simp, rule rows.comparator_axioms)

lemma schema_ordered:
  "CompareRows schema = MakeComparator order False \<Longrightarrow> ordered_schema schema {r. row_ok ty order r}"
  by (rule ordered_schema.intro, simp, rule rows.comparator_axioms)

section \<open>Properties\<close>

text \<open>A schema ordered by one numeric column, and rows of it.\<close>

definition item_order :: Ordering where
  "item_order = [(''id'', ''asc'')]"

definition item_schema :: SourceSchema where
  "item_schema = SourceSchema ''items'' [] [''id''] [] False False ''client''
     (MakeComparator item_order False) (Some item_order)"

definition item :: "rat \<Rightarrow> row" where
  "item n = [''id'' \<mapsto> num n]"

lemma item_simps [simp]:
  "row_ok ty item_order (item n) = (ty ''id'' = CNum)"
  "CompareRows item_schema = MakeComparator item_order False"
  "MakeComparator item_order b (item m) (item n) =
     Inr (if m < n then (if b then 1 else - 1) else if n < m then (if b then - 1 else 1) else 0)"
  by (auto simp: item_order_def item_def item_schema_def row_ok_def okval_def CompareValues_num
      split: vclass.splits)

lemma item_cmp [simp]:
  "node_cmp item_schema (Node (item m) us) (Node (item n) vs) = Inr (if m < n then - 1 else if n < m then 1 else 0)"
  by (simp add: node_cmp_def)

text \<open>
  C5. \<open>GenerateWithOverlay\<close> shows a stream as it was before a change that the source has already
  made: on the rows after an add, a remove or an edit that was possible, overlaying that change
  yields the rows before it, in order, and never panics.
\<close>

theorem GenerateWithOverlay_restores:
  assumes "CompareRows schema = MakeComparator order False" "\<forall>n\<in>set xs. row_ok ty order (Row n)"
    and "row_ok ty order (Row (change_node ch))" "sorted_by (node_cmp schema) xs"
    and "change_possible schema ch xs" "change_type ch \<noteq> ChangeTypeChild"
  shows "GenerateWithOverlay (apply_change schema ch xs) ch (Some schema) = Inr xs"
  using assms(2-6) by (intro ordered_schema.overlay_undoes [OF schema_ordered [OF assms(1), of ty]]) auto

theorem GenerateWithOverlay_restores_witness:
  "GenerateWithOverlay (apply_change item_schema (EditChange (leaf (item 5)) (leaf (item 2))) [leaf (item 1), leaf (item 2), leaf (item 3)])
     (EditChange (leaf (item 5)) (leaf (item 2))) (Some item_schema) = Inr [leaf (item 1), leaf (item 2), leaf (item 3)]"
  by (rule GenerateWithOverlay_restores [of _ item_order _ "\<lambda>_. CNum"])
    (auto simp: sorted_by_def ltc_def cval_def)

end
