(* ===== verification/Source.thy ===== *)
theory Source
  imports Nodes
begin

text \<open>
  The in-memory source: \<open>ivm/source.go\<close> and \<open>ivm/parallel.go\<close>, with the partial-cursor comparison
  of \<open>ivm/skip.go\<close>.

  The source is a component of a larger heap \<open>'s\<close>: its methods take a pointer to it.  What the
  outputs do with a push is the parameter \<open>push\<close>, which may read and write the whole heap, the
  source included (an operator downstream fetches from it while the push runs).  Rows are non-nil
  maps.  Locks and atomics are not modelled: each method runs as one step.
\<close>

section \<open>State\<close>

datatype SourceChange = SourceAdd row | SourceRemove row | SourceEdit row row

text \<open>The connection object, and the input that \<open>Connect\<close> hands out for it.\<close>

record Connection =
  conn_Input :: opid
  conn_Output :: "Output option"
  conn_Sort :: Ordering
  SplitEditKeys :: "string list option"
  conn_CompareRows :: Comparator
  FilterPredicate :: "(row \<Rightarrow> bool res) option"
  LastPushedEpoch :: nat

record SourceInput =
  si_conn :: nat
  si_schema :: SourceSchema
  si_output :: "Output option"

text \<open>
  Connections are objects that \<open>genPush\<close> keeps using after a \<open>Disconnect\<close>: \<open>conns\<close> is their
  heap, by connection id, and \<open>connections\<close> the list of the connected ones.
\<close>

record MemorySource =
  tableName :: string
  columns :: "(string \<times> string) list"
  primaryKey :: "string list"
  primarySort :: Ordering
  data :: "row list"
  conns :: "nat \<Rightarrow> Connection"
  connections :: "nat list"
  overlay :: "(nat \<times> SourceChange) option"
  pushEpoch :: nat
  parallel :: bool
  parallelThreshold :: nat
  nextConnID :: nat
  converter :: "(val \<Rightarrow> string \<Rightarrow> val res) option"

type_synonym 's push = "Output \<Rightarrow> Change \<Rightarrow> opid \<Rightarrow> (panic, 's, Change list) exec"
type_synonym 's fetch = "FetchRequest \<Rightarrow> (panic, 's, Node list) exec"
type_synonym 's force = "thunk \<Rightarrow> (panic, 's, Node list) exec"

definition blank_connection :: Connection where
  "blank_connection = \<lparr>conn_Input = 0, conn_Output = None, conn_Sort = [], SplitEditKeys = None,
     conn_CompareRows = MakeComparator [] False, FilterPredicate = None, LastPushedEpoch = 0\<rparr>"

definition NewMemorySourceWithConverter ::
  "string \<Rightarrow> (string \<times> string) list \<Rightarrow> string list \<Rightarrow> (val \<Rightarrow> string \<Rightarrow> val res) option \<Rightarrow> MemorySource"
where
  "NewMemorySourceWithConverter table cols pk conv =
     \<lparr>tableName = table, columns = cols, primaryKey = pk,
      primarySort = map (\<lambda>k. (k, ''asc'')) pk, data = [], conns = (\<lambda>_. blank_connection),
      connections = [], overlay = None, pushEpoch = 0, parallel = False, parallelThreshold = 0,
      nextConnID = 0, converter = conv\<rparr>"

text \<open>\<open>addr\<close> is the address of the new input.\<close>

definition Connect ::
  "opid \<Rightarrow> Ordering option \<Rightarrow> (row \<Rightarrow> bool res) option \<Rightarrow> string list option \<Rightarrow> MemorySource \<Rightarrow>
   SourceInput \<times> MemorySource"
where
  "Connect addr order predicate splitKeys ms =
     (let connSort = (case order of None \<Rightarrow> primarySort ms | Some s \<Rightarrow> s);
          compareRows = MakeComparator connSort False;
          connID = nextConnID ms + 1;
          conn = \<lparr>conn_Input = addr, conn_Output = None, conn_Sort = connSort,
                  SplitEditKeys = splitKeys, conn_CompareRows = compareRows,
                  FilterPredicate = predicate, LastPushedEpoch = 0\<rparr>;
          schema = SourceSchema (tableName ms) (columns ms) (primaryKey ms) [] False False ''client''
                     compareRows (Some connSort)
      in (\<lparr>si_conn = connID, si_schema = schema, si_output = None\<rparr>,
          ms\<lparr>nextConnID := connID, conns := (conns ms)(connID := conn),
             connections := connections ms @ [connID]\<rparr>))"

definition Disconnect :: "nat \<Rightarrow> MemorySource \<Rightarrow> MemorySource" where
  "Disconnect connID ms = ms\<lparr>connections := remove1 connID (connections ms)\<rparr>"

definition SourceInput_SetOutput ::
  "Output \<Rightarrow> SourceInput \<Rightarrow> MemorySource \<Rightarrow> SourceInput \<times> MemorySource" where
  "SourceInput_SetOutput out si ms =
     (si\<lparr>si_output := Some out\<rparr>,
      ms\<lparr>conns := (conns ms)(si_conn si := (conns ms (si_conn si))\<lparr>conn_Output := Some out\<rparr>)\<rparr>)"

definition SetParallel :: "bool \<Rightarrow> int list \<Rightarrow> MemorySource \<Rightarrow> MemorySource" where
  "SetParallel enabled threshold ms =
     ms\<lparr>parallel := enabled,
        parallelThreshold := (case threshold of t # _ \<Rightarrow> if t > 0 then nat t else 2 | [] \<Rightarrow> 2)\<rparr>"

section \<open>The sorted row store\<close>

definition source_cmp :: "MemorySource \<Rightarrow> Comparator" where
  "source_cmp ms = MakeComparator (primarySort ms) False"

definition source_search :: "MemorySource \<Rightarrow> row \<Rightarrow> nat res" where
  "source_search ms r =
     sort_Search (length (data ms))
       (\<lambda>i. bindR (source_cmp ms (data ms ! i) r) (\<lambda>c. Inr (c \<ge> 0)))"

definition source_found :: "MemorySource \<Rightarrow> row \<Rightarrow> nat \<Rightarrow> bool res" where
  "source_found ms r idx =
     (if idx < length (data ms) then bindR (source_cmp ms (data ms ! idx) r) (\<lambda>c. Inr (c = 0))
      else Inr False)"

definition source_has :: "MemorySource \<Rightarrow> row \<Rightarrow> bool res" where
  "source_has ms r = bindR (source_search ms r) (source_found ms r)"

definition source_insert :: "row \<Rightarrow> MemorySource \<Rightarrow> MemorySource res" where
  "source_insert r ms =
     bindR (source_search ms r) (\<lambda>idx.
       Inr (ms\<lparr>data := take idx (data ms) @ r # drop idx (data ms)\<rparr>))"

definition source_remove :: "row \<Rightarrow> MemorySource \<Rightarrow> MemorySource res" where
  "source_remove r ms =
     bindR (source_search ms r) (\<lambda>idx.
     bindR (source_found ms r idx) (\<lambda>found.
       if found then Inr (ms\<lparr>data := take idx (data ms) @ drop (idx + 1) (data ms)\<rparr>)
       else Inl (Panic ''MemorySource.remove: row not found in source data'')))"

fun BulkInsert :: "('s, MemorySource) ref \<Rightarrow> row list \<Rightarrow> (panic, 's, unit) exec" where
  "BulkInsert p [] = retM ()"
| "BulkInsert p (r # rs) = thenM (stepM p (source_insert r)) (BulkInsert p rs)"

text \<open>\<open>writeChange\<close>: an edit is a removal followed by an insertion, two steps on the store.\<close>

fun writeChange :: "('s, MemorySource) ref \<Rightarrow> SourceChange \<Rightarrow> (panic, 's, unit) exec" where
  "writeChange p (SourceAdd r) = stepM p (source_insert r)"
| "writeChange p (SourceRemove r) = stepM p (source_remove r)"
| "writeChange p (SourceEdit r old) = thenM (stepM p (source_remove old)) (stepM p (source_insert r))"

section \<open>Pushing a change\<close>

fun sourceChangeToChange :: "SourceChange \<Rightarrow> Change" where
  "sourceChangeToChange (SourceEdit r old) = EditChange (leaf r) (leaf old)"
| "sourceChangeToChange (SourceAdd r) = AddChange (leaf r)"
| "sourceChangeToChange (SourceRemove r) = RemoveChange (leaf r)"

text \<open>The drift checks of \<open>genPush\<close>: no duplicate addition, no removal or edit of an absent row.\<close>

definition drift :: "MemorySource \<Rightarrow> string \<Rightarrow> row \<Rightarrow> panic" where
  "drift ms op r = DriftError (tableName ms) op (map (\<lambda>c. (c, col r c)) (primaryKey ms)) (length (data ms))"

fun validate :: "SourceChange \<Rightarrow> MemorySource \<Rightarrow> unit res" where
  "validate (SourceAdd r) ms =
     bindR (source_has ms r) (\<lambda>b. if b then Inl (drift ms ''Add'' r) else Inr ())"
| "validate (SourceRemove r) ms =
     bindR (source_has ms r) (\<lambda>b. if \<not> b then Inl (drift ms ''Remove'' r) else Inr ())"
| "validate (SourceEdit r old) ms =
     bindR (source_has ms old) (\<lambda>b. if \<not> b then Inl (drift ms ''Edit'' old) else Inr ())"

definition MaybeSplitAndPushEditChange ::
  "'s push \<Rightarrow> Node \<Rightarrow> Node \<Rightarrow> (row \<Rightarrow> bool res) \<Rightarrow> Output \<Rightarrow> opid \<Rightarrow> (panic, 's, Change list) exec"
where
  "MaybeSplitAndPushEditChange push node oldNode predicate out pusher =
     bindM (liftM (predicate (Row oldNode))) (\<lambda>oldMatches.
     bindM (liftM (predicate (Row node))) (\<lambda>newMatches.
       if oldMatches \<and> newMatches then push out (EditChange node oldNode) pusher
       else if \<not> oldMatches \<and> newMatches then push out (AddChange node) pusher
       else if oldMatches \<and> \<not> newMatches then push out (RemoveChange oldNode) pusher
       else retM []))"

definition FilterPush ::
  "'s push \<Rightarrow> Change \<Rightarrow> Output \<Rightarrow> opid \<Rightarrow> (row \<Rightarrow> bool res) option \<Rightarrow> (panic, 's, Change list) exec"
where
  "FilterPush push change out pusher predicate =
     (case predicate of
        None \<Rightarrow> push out change pusher
      | Some p \<Rightarrow>
        (case change of
           EditChange node oldNode \<Rightarrow> MaybeSplitAndPushEditChange push node oldNode p out pusher
         | _ \<Rightarrow> bindM (liftM (p (Row (change_node change)))) (\<lambda>b.
                  if b then push out change pusher else retM [])))"

text \<open>One turn of the loop over the connections.\<close>

definition set_epoch :: "nat \<Rightarrow> nat \<Rightarrow> MemorySource \<Rightarrow> MemorySource" where
  "set_epoch cid epoch ms =
     ms\<lparr>conns := (conns ms)(cid := (conns ms cid)\<lparr>LastPushedEpoch := epoch\<rparr>)\<rparr>"

definition push_connection ::
  "('s, MemorySource) ref \<Rightarrow> 's push \<Rightarrow> nat \<Rightarrow> SourceChange \<Rightarrow> nat \<Rightarrow> (panic, 's, Change list) exec"
where
  "push_connection p push epoch change cid =
     bindM (getM (\<lambda>s. conns (rd p s) cid)) (\<lambda>conn.
       case conn_Output conn of
         None \<Rightarrow> retM []
       | Some out \<Rightarrow>
         thenM (updM p (\<lambda>ms. (set_epoch cid epoch ms)\<lparr>overlay := Some (epoch, change)\<rparr>))
           (FilterPush push (sourceChangeToChange change) out (conn_Input conn) (FilterPredicate conn)))"

definition genPush ::
  "('s, MemorySource) ref \<Rightarrow> 's push \<Rightarrow> SourceChange \<Rightarrow> (panic, 's, Change list) exec"
where
  "genPush p push change =
     thenM (askM p (validate change))
       (thenM (updM p (\<lambda>ms. ms\<lparr>pushEpoch := pushEpoch ms + 1\<rparr>))
         (bindM (getM (\<lambda>s. pushEpoch (rd p s))) (\<lambda>epoch.
            deferM (\<lambda>s. wr p ((rd p s)\<lparr>overlay := None\<rparr>) s)
              (bindM (getM (\<lambda>s. connections (rd p s))) (\<lambda>cs.
                collectM (push_connection p push epoch change) cs)))))"

definition genPushAndWrite ::
  "('s, MemorySource) ref \<Rightarrow> 's push \<Rightarrow> SourceChange \<Rightarrow> (panic, 's, Change list) exec"
where
  "genPushAndWrite p push change =
     bindM (genPush p push change) (\<lambda>results. thenM (writeChange p change) (retM results))"

text \<open>An edit is split when a split key of some connection changes its value.\<close>

definition conn_splits :: "row \<Rightarrow> row \<Rightarrow> Connection \<Rightarrow> bool res" where
  "conn_splits r old conn =
     (case SplitEditKeys conn of
        None \<Rightarrow> Inr False
      | Some keys \<Rightarrow> anyR (\<lambda>k. bindR (ValuesEqual (col r k) (col old k)) (\<lambda>eq. Inr (\<not> eq))) keys)"

fun shouldSplit :: "SourceChange \<Rightarrow> MemorySource \<Rightarrow> bool res" where
  "shouldSplit (SourceEdit r old) ms = anyR (\<lambda>cid. conn_splits r old (conns ms cid)) (connections ms)"
| "shouldSplit _ ms = Inr False"

fun split_edit :: "bool \<Rightarrow> SourceChange \<Rightarrow> SourceChange list" where
  "split_edit True (SourceEdit r old) = [SourceRemove old, SourceAdd r]"
| "split_edit _ change = [change]"

definition genPushAndWriteWithSplitEdit ::
  "('s, MemorySource) ref \<Rightarrow> 's push \<Rightarrow> SourceChange \<Rightarrow> (panic, 's, Change list) exec"
where
  "genPushAndWriteWithSplitEdit p push change =
     bindM (askM p (shouldSplit change)) (\<lambda>split.
       collectM (genPushAndWrite p push) (split_edit split change))"

section \<open>Parallel pushing\<close>

text \<open>
  \<open>GenPushParallel\<close> gives every active connection the epoch first and then runs the pipelines in
  goroutines.  The scheduler is the parameter \<open>sched\<close>: the order in which the pipelines run, each
  as a whole.  Results are collected in connection order.  A panic in a goroutine ends the process.
\<close>

definition goroutine :: "(panic, 's, 'a) exec \<Rightarrow> (panic, 's, 'a) exec" where
  "goroutine m = (\<lambda>s. case m s of (Inl e, s') \<Rightarrow> (Inl (Fatal e), s') | (Inr x, s') \<Rightarrow> (Inr x, s'))"

fun spawn_all :: "('a \<Rightarrow> (panic, 's, 'b) exec) \<Rightarrow> 'a list \<Rightarrow> (panic, 's, ('a \<times> 'b) list) exec" where
  "spawn_all f [] = retM []"
| "spawn_all f (x # xs) =
     bindM (goroutine (f x)) (\<lambda>y. bindM (spawn_all f xs) (\<lambda>ys. retM ((x, y) # ys)))"

definition run_connection ::
  "('s, MemorySource) ref \<Rightarrow> 's push \<Rightarrow> SourceChange \<Rightarrow> nat \<Rightarrow> (panic, 's, Change list) exec"
where
  "run_connection p push change cid =
     bindM (getM (\<lambda>s. conns (rd p s) cid)) (\<lambda>conn.
       case conn_Output conn of
         None \<Rightarrow> failM NilDereference
       | Some out \<Rightarrow>
           FilterPush push (sourceChangeToChange change) out (conn_Input conn) (FilterPredicate conn))"

definition active_connections :: "MemorySource \<Rightarrow> nat list" where
  "active_connections ms = filter (\<lambda>cid. conn_Output (conns ms cid) \<noteq> None) (connections ms)"

definition GenPushParallel ::
  "(nat list \<Rightarrow> nat list) \<Rightarrow> ('s, MemorySource) ref \<Rightarrow> 's push \<Rightarrow> SourceChange \<Rightarrow>
   (panic, 's, Change list) exec"
where
  "GenPushParallel sched p push change =
     thenM (askM p (validate change))
       (thenM (updM p (\<lambda>ms. ms\<lparr>pushEpoch := pushEpoch ms + 1\<rparr>))
         (bindM (getM (\<lambda>s. (pushEpoch (rd p s), active_connections (rd p s)))) (\<lambda>(epoch, active).
            thenM (updM p (\<lambda>ms. fold (\<lambda>cid. set_epoch cid epoch) active ms))
              (if active = [] then retM []
               else thenM (updM p (\<lambda>ms. ms\<lparr>overlay := Some (epoch, change)\<rparr>))
                 (deferM (\<lambda>s. wr p ((rd p s)\<lparr>overlay := None\<rparr>) s)
                   (if length active = 1 then run_connection p push change (hd active)
                    else bindM (spawn_all (run_connection p push change) (sched active)) (\<lambda>ordered.
                           retM (concat (map (\<lambda>cid. case map_of ordered cid of
                             None \<Rightarrow> [] | Some cs \<Rightarrow> cs) active)))))))))"

definition genPushAndWriteParallel ::
  "(nat list \<Rightarrow> nat list) \<Rightarrow> ('s, MemorySource) ref \<Rightarrow> 's push \<Rightarrow> SourceChange \<Rightarrow>
   (panic, 's, Change list) exec"
where
  "genPushAndWriteParallel sched p push change =
     bindM (askM p (shouldSplit change)) (\<lambda>split.
       collectM (\<lambda>c. bindM (GenPushParallel sched p push c) (\<lambda>results.
                   thenM (writeChange p c) (retM results)))
         (split_edit split change))"

definition MemorySource_Push ::
  "(nat list \<Rightarrow> nat list) \<Rightarrow> ('s, MemorySource) ref \<Rightarrow> 's push \<Rightarrow> SourceChange \<Rightarrow>
   (panic, 's, Change list) exec"
where
  "MemorySource_Push sched p push change =
     bindM (getM (rd p)) (\<lambda>ms.
       if parallel ms \<and> length (connections ms) \<ge> parallelThreshold ms
       then genPushAndWriteParallel sched p push change
       else genPushAndWriteWithSplitEdit p push change)"

section \<open>Fetching\<close>

definition getSortedRows :: "MemorySource \<Rightarrow> Ordering \<Rightarrow> row list res" where
  "getSortedRows ms order =
     sort_Slice (\<lambda>a b. bindR (MakeComparator order False a b) (\<lambda>c. Inr (c < 0))) (data ms)"

definition ConstraintMatchesRow :: "Constraint option \<Rightarrow> row \<Rightarrow> bool res" where
  "ConstraintMatchesRow constraint r =
     (case constraint of None \<Rightarrow> Inr True | Some c \<Rightarrow> allR (\<lambda>(k, v). ValuesEqual (col r k) v) c)"

text \<open>The comparison of a cursor with a row stops at the first sort column the cursor lacks.\<close>

fun CompareWithPartialBound :: "row \<Rightarrow> row \<Rightarrow> Ordering \<Rightarrow> int res" where
  "CompareWithPartialBound bound r [] = Inr 0"
| "CompareWithPartialBound bound r ((field, dir) # order) =
     (case bound field of
        None \<Rightarrow> Inr 0
      | Some v \<Rightarrow> bindR (CompareValues v (col r field)) (\<lambda>comp.
          if comp \<noteq> 0 then Inr (if dir = ''desc'' then - comp else comp)
          else CompareWithPartialBound bound r order))"

text \<open>\<open>keep_overlay\<close>: one of the guarded resets \<open>if o.Add != nil && ... { o.Add = nil }\<close>.\<close>

definition keep_overlay :: "(row \<Rightarrow> bool res) \<Rightarrow> row option \<Rightarrow> row option res" where
  "keep_overlay keep ov =
     (case ov of None \<Rightarrow> Inr None | Some r \<Rightarrow> bindR (keep r) (\<lambda>b. Inr (if b then Some r else None)))"

definition keep_overlays :: "(row \<Rightarrow> bool res) \<Rightarrow> row option \<times> row option \<Rightarrow> (row option \<times> row option) res"
where
  "keep_overlays keep = (\<lambda>(add, rm).
     bindR (keep_overlay keep add) (\<lambda>add'. bindR (keep_overlay keep rm) (\<lambda>rm'. Inr (add', rm'))))"

fun overlay_rows :: "SourceChange \<Rightarrow> row option \<times> row option" where
  "overlay_rows (SourceAdd r) = (Some r, None)"
| "overlay_rows (SourceRemove r) = (None, Some r)"
| "overlay_rows (SourceEdit r old) = (Some r, Some old)"

definition computeOverlays ::
  "MemorySource \<Rightarrow> Connection \<Rightarrow> FetchRequest \<Rightarrow> (row option \<times> row option) res"
where
  "computeOverlays ms conn req =
     (case overlay ms of
        None \<Rightarrow> Inr (None, None)
      | Some (epoch, change) \<Rightarrow>
        if LastPushedEpoch conn < epoch then Inr (None, None)
        else
          bindR (case ReqStart req of
                   None \<Rightarrow> Inr (overlay_rows change)
                 | Some start \<Rightarrow> keep_overlays (\<lambda>r.
                     bindR (MakeComparator (conn_Sort conn) (ReqReverse req) r (StartRow start))
                       (\<lambda>c. Inr (c \<ge> 0))) (overlay_rows change)) (\<lambda>o1.
          bindR (case ReqConstraint req of
                   None \<Rightarrow> Inr o1
                 | Some c \<Rightarrow> keep_overlays (ConstraintMatchesRow (Some c)) o1) (\<lambda>o2.
            case FilterPredicate conn of None \<Rightarrow> Inr o2 | Some pred \<Rightarrow> keep_overlays pred o2)))"

text \<open>The loop state: what is still to be added, and what is still to be skipped.\<close>

fun generateWithOverlayInner ::
  "Comparator \<Rightarrow> row option \<times> row option \<Rightarrow> row list \<Rightarrow> Node list res"
where
  "generateWithOverlayInner compare (add, rm) [] =
     Inr (case add of None \<Rightarrow> [] | Some a \<Rightarrow> [leaf a])"
| "generateWithOverlayInner compare (add, rm) (r # rows) =
     bindR (case add of
              None \<Rightarrow> Inr ([], None)
            | Some a \<Rightarrow> bindR (compare a r) (\<lambda>c.
                Inr (if c < 0 then ([leaf a], None) else ([], Some a)))) (\<lambda>(out, add').
     bindR (case rm of None \<Rightarrow> Inr False | Some d \<Rightarrow> bindR (compare d r) (\<lambda>c. Inr (c = 0))) (\<lambda>skip.
     bindR (generateWithOverlayInner compare (add', if skip then None else rm) rows) (\<lambda>rest.
       Inr (out @ (if skip then rest else leaf r # rest)))))"

text \<open>\<open>cmpCursorVsRow\<close> and the position test of both scan directions.\<close>

definition cmpCursorVsRow :: "Start \<Rightarrow> Ordering \<Rightarrow> row \<Rightarrow> int res" where
  "cmpCursorVsRow start order r = bindR (CompareWithPartialBound (StartRow start) r order) (\<lambda>c. Inr (- c))"

definition at_or_past :: "Start \<Rightarrow> bool \<Rightarrow> Ordering \<Rightarrow> row \<Rightarrow> bool res" where
  "at_or_past start reverse order r =
     bindR (cmpCursorVsRow start order r) (\<lambda>c.
       Inr (if Basis start = ''at'' then (if reverse then c \<le> 0 else c \<ge> 0)
            else (if reverse then c < 0 else c > 0)))"

fun drop_until :: "('a \<Rightarrow> 'e + bool) \<Rightarrow> 'a list \<Rightarrow> 'e + 'a list" where
  "drop_until p [] = Inr []"
| "drop_until p (x # xs) = bindR (p x) (\<lambda>b. if b then Inr (x # xs) else drop_until p xs)"

definition applyStart :: "Node list \<Rightarrow> Start \<Rightarrow> bool \<Rightarrow> Ordering \<Rightarrow> Node list res" where
  "applyStart nodes start reverse order =
     (if reverse then filterR (\<lambda>n. at_or_past start reverse order (Row n)) nodes
      else drop_until (\<lambda>n. at_or_past start reverse order (Row n)) nodes)"

definition applyConstraint :: "Node list \<Rightarrow> Constraint \<Rightarrow> Node list res" where
  "applyConstraint nodes c = filterR (\<lambda>n. ConstraintMatchesRow (Some c) (Row n)) nodes"

definition applyFilter :: "Node list \<Rightarrow> (row \<Rightarrow> bool res) \<Rightarrow> Node list res" where
  "applyFilter nodes predicate = filterR (\<lambda>n. predicate (Row n)) nodes"

definition SourceInput_Fetch :: "MemorySource \<Rightarrow> nat \<Rightarrow> FetchRequest \<Rightarrow> Node list res" where
  "SourceInput_Fetch ms cid req =
     (let conn = conns ms cid in
      bindR (getSortedRows ms (conn_Sort conn)) (\<lambda>rows.
      bindR (computeOverlays ms conn req) (\<lambda>overlays.
      bindR (generateWithOverlayInner (MakeComparator (conn_Sort conn) False) overlays rows) (\<lambda>nodes0.
      bindR (case ReqStart req of
               None \<Rightarrow> Inr nodes0
             | Some start \<Rightarrow> applyStart nodes0 start (ReqReverse req) (conn_Sort conn)) (\<lambda>nodes1.
      bindR (case ReqConstraint req of
               None \<Rightarrow> Inr nodes1 | Some c \<Rightarrow> applyConstraint nodes1 c) (\<lambda>nodes2.
      bindR (case FilterPredicate conn of
               None \<Rightarrow> Inr nodes2 | Some pred \<Rightarrow> applyFilter nodes2 pred) (\<lambda>nodes3.
        Inr (if ReqReverse req then rev nodes3 else nodes3))))))))"

section \<open>The row store is a sorted set\<close>

definition rows_ok :: "(string \<Rightarrow> vclass) \<Rightarrow> Ordering \<Rightarrow> row list \<Rightarrow> bool" where
  "rows_ok ty order rs \<longleftrightarrow> (\<forall>r\<in>set rs. row_ok ty order r)"

definition store_ok :: "(string \<Rightarrow> vclass) \<Rightarrow> MemorySource \<Rightarrow> bool" where
  "store_ok ty ms \<longleftrightarrow> sorted_by (source_cmp ms) (data ms) \<and> rows_ok ty (primarySort ms) (data ms)"

lemma store_okD:
  assumes "store_ok ty ms"
  shows "sorted_by (MakeComparator (primarySort ms) False) (data ms)"
    and "set (data ms) \<subseteq> {r. row_ok ty (primarySort ms) r}"
  using assms by (auto simp: store_ok_def rows_ok_def source_cmp_def)

lemma source_search_eq:
  assumes "store_ok ty ms" "row_ok ty (primarySort ms) r"
  shows "source_search ms r = Inr (length (takeWhile (\<lambda>y. ltc (source_cmp ms) y r) (data ms)))"
  using rows.search_spec [OF store_okD [OF assms(1)], of r] assms(2)
  by (simp add: source_search_def source_cmp_def)

lemma source_found_eq:
  assumes "store_ok ty ms" "row_ok ty (primarySort ms) r"
  shows "source_found ms r i = Inr (i < length (data ms) \<and> cval (source_cmp ms) (data ms ! i) r = 0)"
proof (cases "i < length (data ms)")
  case True
  then have "row_ok ty (primarySort ms) (data ms ! i)"
    using store_okD(2) [OF assms(1)] nth_mem [of i "data ms"] by blast
  with True assms(2) show ?thesis
    using rows.cmp_Inr [of "data ms ! i" ty "primarySort ms" r False]
    by (simp add: source_found_def source_cmp_def)
qed (simp add: source_found_def)

lemma source_has_eq:
  assumes "store_ok ty ms" "row_ok ty (primarySort ms) r"
  shows "source_has ms r = Inr (\<exists>y\<in>set (data ms). cval (source_cmp ms) r y = 0)"
  using rows.search_found(1) [OF store_okD [OF assms(1)], of r] assms(2)
  by (simp add: source_has_def source_search_eq [OF assms] source_found_eq [OF assms])
    (simp add: source_cmp_def)

lemma source_insert_eq:
  assumes "store_ok ty ms" "row_ok ty (primarySort ms) r"
  shows "source_insert r ms = Inr (ms\<lparr>data := insert_by (source_cmp ms) r (data ms)\<rparr>)"
  by (simp add: source_insert_def source_search_eq [OF assms] insert_by_def
      flip: takeWhile_eq_take dropWhile_eq_drop)

lemma source_remove_eq:
  assumes "store_ok ty ms" "row_ok ty (primarySort ms) r" "\<exists>y\<in>set (data ms). cval (source_cmp ms) r y = 0"
  shows "source_remove r ms = Inr (ms\<lparr>data := remove_by (source_cmp ms) r (data ms)\<rparr>)"
  using rows.search_found [OF store_okD [OF assms(1)], of r] assms(2,3)
  by (simp add: source_remove_def source_search_eq [OF assms(1,2)] source_found_eq [OF assms(1,2)])
    (simp add: source_cmp_def)

lemma source_remove_missing:
  assumes "store_ok ty ms" "row_ok ty (primarySort ms) r" "\<not> (\<exists>y\<in>set (data ms). cval (source_cmp ms) r y = 0)"
  shows "source_remove r ms = Inl (Panic ''MemorySource.remove: row not found in source data'')"
  using rows.search_found(1) [OF store_okD [OF assms(1)], of r] assms(2,3)
  by (simp add: source_remove_def source_search_eq [OF assms(1,2)] source_found_eq [OF assms(1,2)])
    (auto simp: source_cmp_def)

text \<open>The effect of a change on the store, and when \<open>genPush\<close> lets it pass.\<close>

fun apply_source_change :: "Comparator \<Rightarrow> SourceChange \<Rightarrow> row list \<Rightarrow> row list" where
  "apply_source_change cmp (SourceAdd r) xs = insert_by cmp r xs"
| "apply_source_change cmp (SourceRemove r) xs = remove_by cmp r xs"
| "apply_source_change cmp (SourceEdit r old) xs = insert_by cmp r (remove_by cmp old xs)"

fun change_rows :: "SourceChange \<Rightarrow> row set" where
  "change_rows (SourceAdd r) = {r}"
| "change_rows (SourceRemove r) = {r}"
| "change_rows (SourceEdit r old) = {r, old}"

fun fits :: "Comparator \<Rightarrow> SourceChange \<Rightarrow> row list \<Rightarrow> bool" where
  "fits cmp (SourceAdd r) xs \<longleftrightarrow> (\<forall>y\<in>set xs. cval cmp r y \<noteq> 0)"
| "fits cmp (SourceRemove r) xs \<longleftrightarrow> (\<exists>y\<in>set xs. cval cmp r y = 0)"
| "fits cmp (SourceEdit r old) xs \<longleftrightarrow>
     (\<exists>y\<in>set xs. cval cmp old y = 0) \<and> (\<forall>y\<in>set (remove_by cmp old xs). cval cmp r y \<noteq> 0)"

lemma store_ok_remove:
  "store_ok ty ms \<Longrightarrow> store_ok ty (ms\<lparr>data := remove_by (source_cmp ms) r (data ms)\<rparr>)"
  by (auto simp: store_ok_def rows_ok_def source_cmp_def set_remove_by intro: rows.sorted_remove_by)

lemma store_ok_insert:
  assumes "store_ok ty ms" "row_ok ty (primarySort ms) r" "\<forall>y\<in>set (data ms). cval (source_cmp ms) r y \<noteq> 0"
  shows "store_ok ty (ms\<lparr>data := insert_by (source_cmp ms) r (data ms)\<rparr>)"
  using assms rows.sorted_insert_by [OF store_okD [OF assms(1)], of r]
  by (auto simp: store_ok_def rows_ok_def source_cmp_def)

section \<open>What a fetch returns\<close>

definition holds :: "bool res \<Rightarrow> bool" where
  "holds x \<longleftrightarrow> x = Inr True"

definition total_on :: "(row \<Rightarrow> bool res) \<Rightarrow> row set \<Rightarrow> bool" where
  "total_on f R \<longleftrightarrow> (\<forall>r\<in>R. \<exists>b. f r = Inr b)"

lemma total_on_holds: "total_on f R \<Longrightarrow> r \<in> R \<Longrightarrow> f r = Inr (holds (f r))"
  unfolding total_on_def holds_def by (metis (full_types))

text \<open>The three selections of a fetch, each absent when the request or the connection has none.\<close>

definition start_keeps :: "Ordering \<Rightarrow> FetchRequest \<Rightarrow> row \<Rightarrow> bool" where
  "start_keeps order req r =
     (case ReqStart req of None \<Rightarrow> True | Some st \<Rightarrow> holds (at_or_past st (ReqReverse req) order r))"

definition constraint_keeps :: "FetchRequest \<Rightarrow> row \<Rightarrow> bool" where
  "constraint_keeps req r = holds (ConstraintMatchesRow (ReqConstraint req) r)"

definition filter_keeps :: "Connection \<Rightarrow> row \<Rightarrow> bool" where
  "filter_keeps conn r = (case FilterPredicate conn of None \<Rightarrow> True | Some f \<Rightarrow> holds (f r))"

definition fetch_keeps :: "Connection \<Rightarrow> FetchRequest \<Rightarrow> row \<Rightarrow> bool" where
  "fetch_keeps conn req r \<longleftrightarrow>
     start_keeps (conn_Sort conn) req r \<and> constraint_keeps req r \<and> filter_keeps conn r"

text \<open>
  The specification of a fetch over a set of rows: the rows it keeps, sorted by the ordering of the
  connection, in the direction of the request.
\<close>

definition fetch_spec :: "Connection \<Rightarrow> FetchRequest \<Rightarrow> row list \<Rightarrow> row list" where
  "fetch_spec conn req xs =
     (let ys = filter (fetch_keeps conn req) (sort_by (MakeComparator (conn_Sort conn) False) xs)
      in if ReqReverse req then rev ys else ys)"

text \<open>A request that cannot panic on the rows \<open>R\<close>.\<close>

definition req_ok :: "(string \<Rightarrow> vclass) \<Rightarrow> Connection \<Rightarrow> FetchRequest \<Rightarrow> row set \<Rightarrow> bool" where
  "req_ok ty conn req R \<longleftrightarrow>
     (\<forall>r\<in>R. row_ok ty (conn_Sort conn) r) \<and>
     (\<forall>st. ReqStart req = Some st \<longrightarrow> row_ok ty (conn_Sort conn) (StartRow st)) \<and>
     total_on (ConstraintMatchesRow (ReqConstraint req)) R \<and>
     (\<forall>f. FilterPredicate conn = Some f \<longrightarrow> total_on f R)"

text \<open>A partial cursor compares by the prefix of the ordering that it specifies.\<close>

definition cursor_order :: "row \<Rightarrow> Ordering \<Rightarrow> Ordering" where
  "cursor_order bound order = takeWhile (\<lambda>fd. bound (fst fd) \<noteq> None) order"

lemma CompareWithPartialBound_eq:
  "CompareWithPartialBound bound r order = MakeComparator (cursor_order bound order) False bound r"
  by (induction bound r order rule: CompareWithPartialBound.induct)
    (auto simp: cursor_order_def col_def intro!: bindR_cong)

lemma cursor_order_full:
  "(\<forall>fd\<in>set order. bound (fst fd) \<noteq> None) \<Longrightarrow> cursor_order bound order = order"
  by (simp add: cursor_order_def)

lemma row_ok_cursor: "row_ok ty order r \<Longrightarrow> row_ok ty (cursor_order bound order) r"
  by (auto simp: row_ok_def cursor_order_def dest: set_takeWhileD)

lemma MakeComparator_prefix:
  assumes "row_ok ty order a" "row_ok ty order b" "cval (MakeComparator order rv) a b \<le> 0"
  shows "cval (MakeComparator (takeWhile q order) rv) a b \<le> 0"
  using assms
proof (induction order)
  case (Cons fd order)
  obtain f d where fd: "fd = (f, d)" by (cases fd)
  with Cons.prems have ok: "okval (ty f) (col a f)" "okval (ty f) (col b f)"
    "row_ok ty order a" "row_ok ty order b"
    by (auto simp: row_ok_def)
  obtain c where cmp: "CompareValues (col a f) (col b f) = Inr c"
    using vals.total [of "col a f" "ty f" "col b f"] ok by auto
  show ?case
  proof (cases "q fd")
    case True
    with Cons cmp fd ok show ?thesis by (cases "c = 0") (auto simp: cval_def)
  qed (simp add: cval_def)
qed (simp add: cval_def)

lemma at_or_past_eq:
  assumes "row_ok ty order r" "row_ok ty order (StartRow st)"
  shows "at_or_past st reverse order r =
    (let c = cval (MakeComparator (cursor_order (StartRow st) order) False) (StartRow st) r
     in Inr (if Basis st = ''at'' then (if reverse then c \<ge> 0 else c \<le> 0)
             else (if reverse then c > 0 else c < 0)))"
proof -
  have "MakeComparator (cursor_order (StartRow st) order) False (StartRow st) r =
    Inr (cval (MakeComparator (cursor_order (StartRow st) order) False) (StartRow st) r)"
    using rows.cmp_Inr [of "StartRow st" ty "cursor_order (StartRow st) order" r False]
      row_ok_cursor [of ty order] assms by simp
  then show ?thesis
    by (simp add: at_or_past_def cmpCursorVsRow_def CompareWithPartialBound_eq Let_def)
qed

lemma at_or_past_mono:
  assumes "row_ok ty order a" "row_ok ty order b" "row_ok ty order (StartRow st)"
    and "cval (MakeComparator order False) a b \<le> 0" "at_or_past st False order a = Inr True"
  shows "at_or_past st False order b = Inr True"
proof -
  let ?c = "MakeComparator (cursor_order (StartRow st) order) False"
  have ok: "row_ok ty (cursor_order (StartRow st) order) r" if "row_ok ty order r" for r
    using that by (rule row_ok_cursor)
  have "cval ?c a b \<le> 0"
    unfolding cursor_order_def using assms by (intro MakeComparator_prefix) (auto simp: ltc_def)
  then show ?thesis
    using assms rows.trans [of "StartRow st" ty _ a b False] rows.lt_le_trans [of "StartRow st" ty _ a b False] ok
    by (auto simp: at_or_past_eq Let_def split: if_splits)
qed

lemma drop_until_Inr:
  assumes "\<And>x. x \<in> set xs \<Longrightarrow> p x = Inr (q x)" "sorted_wrt (\<lambda>a b. q a \<longrightarrow> q b) xs"
  shows "drop_until p xs = Inr (filter q xs)"
  using assms
proof (induction xs)
  case (Cons x xs)
  then show ?case by (cases "q x") (auto simp: filter_id_conv)
qed simp

lemma filterR_leaf:
  assumes "\<And>r. r \<in> set xs \<Longrightarrow> p r = Inr (q r)"
  shows "filterR (\<lambda>n. p (Row n)) (map leaf xs) = Inr (map leaf (filter q xs))"
  using assms by (induction xs) auto

lemma drop_until_leaf: "drop_until (\<lambda>n. p (Row n)) (map leaf xs) = bindR (drop_until p xs) (\<lambda>ys. Inr (map leaf ys))"
  by (induction xs) (auto simp: bindR_def split: sum.splits)

lemma applyStart_eq:
  assumes "sorted_wrt (\<lambda>a b. cval (MakeComparator order False) a b \<le> 0) xs" "\<And>r. r \<in> set xs \<Longrightarrow> row_ok ty order r"
    and "row_ok ty order (StartRow st)"
  shows "applyStart (map leaf xs) st reverse order =
    Inr (map leaf (filter (\<lambda>r. holds (at_or_past st reverse order r)) xs))"
proof -
  have t: "at_or_past st reverse order r = Inr (holds (at_or_past st reverse order r))"
    if "r \<in> set xs" for r
    using at_or_past_eq [OF assms(2) [OF that] assms(3), of reverse] by (simp add: holds_def Let_def)
  show ?thesis
  proof (cases reverse)
    case True
    with t filterR_leaf [of xs "at_or_past st True order"] show ?thesis by (simp add: applyStart_def)
  next
    case False
    have "sorted_wrt (\<lambda>a b. holds (at_or_past st False order a) \<longrightarrow> holds (at_or_past st False order b)) xs"
      using assms(1)
      by (rule sorted_wrt_mono_rel [rotated])
        (use at_or_past_mono [OF assms(2) assms(2) assms(3)] in \<open>auto simp: holds_def\<close>)
    with False t have "drop_until (at_or_past st False order) xs =
        Inr (filter (\<lambda>r. holds (at_or_past st False order r)) xs)"
      by (intro drop_until_Inr) simp_all
    with False show ?thesis by (simp add: applyStart_def drop_until_leaf)
  qed
qed

text \<open>Splicing an overlay into sorted rows, and dropping the overlay rows that a fetch rejects.\<close>

definition splice :: "Comparator \<Rightarrow> row option \<times> row option \<Rightarrow> row list \<Rightarrow> row list" where
  "splice cmp = (\<lambda>(add, rm) xs.
     (let ys = (case rm of None \<Rightarrow> xs | Some d \<Rightarrow> remove_by cmp d xs)
      in case add of None \<Rightarrow> ys | Some a \<Rightarrow> insert_after cmp a ys))"

definition keep_if :: "('a \<Rightarrow> bool) \<Rightarrow> 'a option \<Rightarrow> 'a option" where
  "keep_if k x = (case x of None \<Rightarrow> None | Some a \<Rightarrow> if k a then Some a else None)"

lemma keep_if_simps [simp]:
  "keep_if k None = None" "keep_if k (Some a) = (if k a then Some a else None)"
  by (simp_all add: keep_if_def)

lemma keep_if_eq_Some [simp]: "keep_if k x = Some a \<longleftrightarrow> x = Some a \<and> k a"
  by (cases x) auto

lemma keep_overlay_eq:
  "(\<And>r. x = Some r \<Longrightarrow> f r = Inr (k r)) \<Longrightarrow> keep_overlay f x = Inr (keep_if k x)"
  by (cases x) (auto simp: keep_overlay_def)

lemma keep_overlays_eq:
  assumes "\<And>r. add = Some r \<or> rm = Some r \<Longrightarrow> f r = Inr (k r)"
  shows "keep_overlays f (add, rm) = Inr (keep_if k add, keep_if k rm)"
  using keep_overlay_eq [of add f k] keep_overlay_eq [of rm f k] assms by (simp add: keep_overlays_def)

lemma generateWithOverlayInner_eq:
  fixes order :: Ordering
  defines "cmp \<equiv> MakeComparator order False"
  assumes "sorted_by cmp xs" "\<And>r. r \<in> set xs \<or> add = Some r \<or> rm = Some r \<Longrightarrow> row_ok ty order r"
  shows "generateWithOverlayInner cmp (add, rm) xs = Inr (map leaf (splice cmp (add, rm) xs))"
  using assms(2-)
proof (induction xs arbitrary: add rm)
  case Nil
  then show ?case by (cases add; cases rm) (auto simp: splice_def)
next
  case (Cons r xs)
  have r: "row_ok ty order r" and sorted: "sorted_by cmp xs" "\<forall>y\<in>set xs. ltc cmp r y"
    using Cons.prems rows.sorted_by_Cons [of order False r xs] by (auto simp: cmp_def)
  define skip where "skip \<longleftrightarrow> (\<exists>d. rm = Some d \<and> cval cmp d r = 0)"
  define emit where "emit \<longleftrightarrow> (\<exists>a. add = Some a \<and> ltc cmp a r)"
  let ?add = "if emit then None else add" and ?rm = "if skip then None else rm"
  let ?front = "(if emit then [the add] else []) @ (if skip then [] else [r])"
  have c: "cmp x r = Inr (cval cmp x r)" if "add = Some x \<or> rm = Some x" for x
    using rows.cmp_Inr [of x ty order r False] Cons.prems(2) that r unfolding cmp_def by auto
  have skip: "(case rm of None \<Rightarrow> Inr False | Some d \<Rightarrow> bindR (cmp d r) (\<lambda>c. Inr (c = 0))) = Inr skip"
    using c by (cases rm) (auto simp: skip_def)
  have emit: "(case add of None \<Rightarrow> Inr ([], None)
      | Some a \<Rightarrow> bindR (cmp a r) (\<lambda>c. Inr (if c < 0 then ([leaf a], None) else ([], Some a)))) =
      Inr (if emit then [leaf (the add)] else [], ?add)"
    using c by (cases add) (auto simp: emit_def ltc_def)
  have xs: "set xs \<subseteq> Collect (row_ok ty order)" using Cons.prems(2) by auto
  have rest: "splice cmp (None, rm) (r # xs) = (if skip then xs else r # splice cmp (None, ?rm) xs)"
    and sub: "splice cmp (None, ?rm) xs = splice cmp (None, rm) xs"
    using rows.remove_by_eq_id [of order False r xs ty "the rm"] Cons.prems(1,2) r xs
    by (auto simp: splice_def skip_def remove_by_Cons cmp_def split: option.splits)
  have IH: "generateWithOverlayInner cmp (?add, ?rm) xs = Inr (map leaf (splice cmp (?add, ?rm) xs))"
    by (rule Cons.IH) (use Cons.prems(2) sorted in \<open>auto split: if_splits\<close>)
  have step: "generateWithOverlayInner cmp (add, rm) (r # xs) =
    Inr (map leaf (?front @ splice cmp (?add, ?rm) xs))"
    by (simp only: generateWithOverlayInner.simps skip emit bindR_Inr prod.case IH) auto
  have "splice cmp (add, rm) (r # xs) = ?front @ splice cmp (?add, ?rm) xs"
  proof (cases add)
    case None
    then show ?thesis using rest sub by (simp add: emit_def splice_def split: if_splits)
  next
    case (Some a)
    let ?ys = "splice cmp (None, rm) xs"
    have ys: "\<forall>y\<in>set ?ys. ltc cmp r y \<and> row_ok ty order y"
      using sorted Cons.prems(2) by (auto simp: splice_def set_remove_by split: option.splits)
    have lists: "splice cmp (add, rm) (r # xs) = insert_after cmp a (splice cmp (None, rm) (r # xs))"
      "splice cmp (?add, ?rm) xs = (if emit then ?ys else insert_after cmp a ?ys)"
      using Some sub by (auto simp: splice_def)
    have front: "insert_after cmp a ?ys = a # ?ys" if emit
      using that Some ys r rows.lt_trans [of a ty order r "hd ?ys" False] Cons.prems(2) [of a]
      by (cases ?ys) (auto simp: emit_def insert_after_Cons cmp_def)
    with lists rest sub Some show ?thesis by (auto simp: insert_after_Cons splice_def emit_def)
  qed
  with step show ?case by simp
qed

text \<open>The rows a connection sees: those of the store, with the pending change once it was pushed to it.\<close>

definition visible :: "MemorySource \<Rightarrow> Connection \<Rightarrow> row list" where
  "visible ms conn =
     (case overlay ms of
        None \<Rightarrow> data ms
      | Some (epoch, change) \<Rightarrow>
          if LastPushedEpoch conn < epoch then data ms
          else apply_source_change (source_cmp ms) change (data ms))"

fun removed_rows :: "SourceChange \<Rightarrow> row set" where
  "removed_rows (SourceAdd r) = {}"
| "removed_rows (SourceRemove r) = {r}"
| "removed_rows (SourceEdit r old) = {old}"

definition full_start :: "Ordering \<Rightarrow> FetchRequest \<Rightarrow> bool" where
  "full_start order req \<longleftrightarrow>
     (\<forall>st. ReqStart req = Some st \<longrightarrow> (\<forall>fd\<in>set order. StartRow st (fst fd) \<noteq> None))"

definition pending_rows :: "MemorySource \<Rightarrow> row set" where
  "pending_rows ms = (case overlay ms of None \<Rightarrow> {} | Some (epoch, change) \<Rightarrow> change_rows change)"

text \<open>
  The rows that a request can see: \<open>computeOverlays\<close> tests the rows of the pending change against the
  whole cursor row, a column that a partial cursor lacks reading as null, and leaves out those that
  come before it.
\<close>

definition cursor_admits :: "Connection \<Rightarrow> FetchRequest \<Rightarrow> row \<Rightarrow> bool" where
  "cursor_admits conn req r \<longleftrightarrow>
     (case ReqStart req of None \<Rightarrow> True
      | Some st \<Rightarrow> 0 \<le> cval (MakeComparator (conn_Sort conn) (ReqReverse req)) r (StartRow st))"

definition seen_rows :: "MemorySource \<Rightarrow> Connection \<Rightarrow> FetchRequest \<Rightarrow> row list" where
  "seen_rows ms conn req =
     (case overlay ms of
        None \<Rightarrow> data ms
      | Some (epoch, change) \<Rightarrow>
          if LastPushedEpoch conn < epoch then data ms
          else
            (let (add, rm) = overlay_rows change;
                 rest = filter (\<lambda>r. \<not> (rm = Some r \<and> cursor_admits conn req r)) (data ms)
             in case add of None \<Rightarrow> rest
                | Some r \<Rightarrow> if cursor_admits conn req r then insert_by (source_cmp ms) r rest else rest))"

definition overlay_ok :: "(string \<Rightarrow> vclass) \<Rightarrow> MemorySource \<Rightarrow> Connection \<Rightarrow> bool" where
  "overlay_ok ty ms conn \<longleftrightarrow>
     (\<forall>epoch change. overlay ms = Some (epoch, change) \<and> epoch \<le> LastPushedEpoch conn \<longrightarrow>
        fits (source_cmp ms) change (data ms) \<and> removed_rows change \<subseteq> set (data ms) \<and>
        (\<forall>r\<in>change_rows change. row_ok ty (primarySort ms) r))"

definition fetch_ready :: "(string \<Rightarrow> vclass) \<Rightarrow> MemorySource \<Rightarrow> Connection \<Rightarrow> FetchRequest \<Rightarrow> bool" where
  "fetch_ready ty ms conn req \<longleftrightarrow>
     store_ok ty ms \<and>
     separates (MakeComparator (conn_Sort conn) False) (data ms) \<and>
     separates (MakeComparator (conn_Sort conn) False) (visible ms conn) \<and>
     req_ok ty conn req (set (data ms) \<union> pending_rows ms) \<and> overlay_ok ty ms conn"

lemma MakeComparator_reverse:
  "cval (MakeComparator order True) a b = - cval (MakeComparator order False) a b"
  by (induction order True a b rule: MakeComparator.induct)
    (auto simp: cval_def bindR_def Let_def split: sum.splits)

lemma start_full_keeps:
  assumes "row_ok ty order r" "row_ok ty order (StartRow st)" "\<forall>fd\<in>set order. StartRow st (fst fd) \<noteq> None"
    and "holds (at_or_past st reverse order r)"
  shows "0 \<le> cval (MakeComparator order reverse) r (StartRow st)"
proof -
  have "cval (MakeComparator order reverse) r (StartRow st) =
      (if reverse then cval (MakeComparator order False) (StartRow st) r
       else - cval (MakeComparator order False) (StartRow st) r)"
    using MakeComparator_reverse [of order r "StartRow st"]
      rows.antisym [of "StartRow st" ty order r False] assms(1,2) by simp
  then show ?thesis
    using assms(4) at_or_past_eq [OF assms(1,2), of reverse] cursor_order_full [OF assms(3)]
    by (auto simp: holds_def Let_def split: if_splits)
qed

definition overlay_keeps :: "Connection \<Rightarrow> FetchRequest \<Rightarrow> row \<Rightarrow> bool" where
  "overlay_keeps conn req r \<longleftrightarrow>
     cursor_admits conn req r \<and> constraint_keeps req r \<and> filter_keeps conn r"

lemma keep_if_keep_if: "keep_if k (keep_if l x) = keep_if (\<lambda>r. l r \<and> k r) x"
  by (cases x) auto

lemma constraint_None [simp]: "ReqConstraint req = None \<Longrightarrow> constraint_keeps req r"
  by (simp add: constraint_keeps_def ConstraintMatchesRow_def holds_def)

lemma keep_if_True: "(\<And>a. k a) \<Longrightarrow> keep_if k x = x"
  by (cases x) auto

lemma computeOverlays_eq:
  assumes req: "req_ok ty conn req R" and sub: "pending_rows ms \<subseteq> R"
    and ov: "overlay ms = Some (epoch, change)" "epoch \<le> LastPushedEpoch conn"
  shows "computeOverlays ms conn req =
    Inr (keep_if (overlay_keeps conn req) (fst (overlay_rows change)),
         keep_if (overlay_keeps conn req) (snd (overlay_rows change)))"
proof -
  obtain add rm where ar: "overlay_rows change = (add, rm)" by force
  have inR: "r \<in> R" if "add = Some r \<or> rm = Some r" for r
    using sub ov ar that by (cases change) (auto simp: pending_rows_def)
  define ks where "ks = cursor_admits conn req"
  have 1: "(case ReqStart req of None \<Rightarrow> Inr (overlay_rows change)
    | Some start \<Rightarrow> keep_overlays (\<lambda>r. bindR (MakeComparator (conn_Sort conn) (ReqReverse req) r (StartRow start))
        (\<lambda>c. Inr (c \<ge> 0))) (overlay_rows change)) = Inr (keep_if ks add, keep_if ks rm)"
  proof (cases "ReqStart req")
    case None
    then show ?thesis by (simp add: ks_def cursor_admits_def keep_if_True ar)
  next
    case (Some st)
    have "keep_overlays (\<lambda>r. bindR (MakeComparator (conn_Sort conn) (ReqReverse req) r (StartRow st))
        (\<lambda>c. Inr (c \<ge> 0))) (add, rm) = Inr (keep_if ks add, keep_if ks rm)"
    proof (rule keep_overlays_eq)
      fix r assume "add = Some r \<or> rm = Some r"
      then have "row_ok ty (conn_Sort conn) r" "row_ok ty (conn_Sort conn) (StartRow st)"
        using req inR Some by (auto simp: req_ok_def)
      then show "bindR (MakeComparator (conn_Sort conn) (ReqReverse req) r (StartRow st)) (\<lambda>c. Inr (c \<ge> 0)) = Inr (ks r)"
        using rows.cmp_Inr [of r ty "conn_Sort conn" "StartRow st" "ReqReverse req"] Some by (simp add: ks_def cursor_admits_def)
    qed
    with Some show ?thesis by (simp add: ar)
  qed
  have 2: "(case ReqConstraint req of None \<Rightarrow> Inr (keep_if ks add, keep_if ks rm)
    | Some c \<Rightarrow> keep_overlays (ConstraintMatchesRow (Some c)) (keep_if ks add, keep_if ks rm)) =
      Inr (keep_if (\<lambda>r. ks r \<and> constraint_keeps req r) add, keep_if (\<lambda>r. ks r \<and> constraint_keeps req r) rm)"
  proof (cases "ReqConstraint req")
    case (Some c)
    have "keep_overlays (ConstraintMatchesRow (Some c)) (keep_if ks add, keep_if ks rm) =
      Inr (keep_if (constraint_keeps req) (keep_if ks add), keep_if (constraint_keeps req) (keep_if ks rm))"
      using req inR Some total_on_holds [of "ConstraintMatchesRow (Some c)" R]
      by (intro keep_overlays_eq) (auto simp: req_ok_def constraint_keeps_def)
    with Some show ?thesis by (simp add: keep_if_keep_if)
  qed simp
  have 3: "(case FilterPredicate conn of
      None \<Rightarrow> Inr (keep_if (\<lambda>r. ks r \<and> constraint_keeps req r) add, keep_if (\<lambda>r. ks r \<and> constraint_keeps req r) rm)
    | Some pred \<Rightarrow> keep_overlays pred (keep_if (\<lambda>r. ks r \<and> constraint_keeps req r) add,
                                     keep_if (\<lambda>r. ks r \<and> constraint_keeps req r) rm)) =
      Inr (keep_if (overlay_keeps conn req) add, keep_if (overlay_keeps conn req) rm)"
  proof (cases "FilterPredicate conn")
    case None
    then show ?thesis by (simp add: overlay_keeps_def [abs_def] ks_def filter_keeps_def)
  next
    case (Some f)
    have "keep_overlays f (keep_if (\<lambda>r. ks r \<and> constraint_keeps req r) add, keep_if (\<lambda>r. ks r \<and> constraint_keeps req r) rm) =
      Inr (keep_if (filter_keeps conn) (keep_if (\<lambda>r. ks r \<and> constraint_keeps req r) add),
           keep_if (filter_keeps conn) (keep_if (\<lambda>r. ks r \<and> constraint_keeps req r) rm))"
      using req inR Some total_on_holds [of f R]
      by (intro keep_overlays_eq) (auto simp: req_ok_def filter_keeps_def)
    with Some show ?thesis by (simp add: keep_if_keep_if overlay_keeps_def [abs_def] ks_def conj_assoc)
  qed
  show ?thesis using ov ar 1 2 3 by (simp add: computeOverlays_def)
qed

lemma fetch_after_splice:
  assumes ready: "store_ok ty ms" "separates (MakeComparator (conn_Sort conn) False) (data ms)"
    and req: "req_ok ty conn req R" "set (data ms) \<subseteq> R" "set ys \<subseteq> R"
    and srt: "sorted_wrt (\<lambda>a b. cval (MakeComparator (conn_Sort conn) False) a b \<le> 0) ys"
    and gen: "bindR (computeOverlays ms conn req) (\<lambda>overlays.
      generateWithOverlayInner (MakeComparator (conn_Sort conn) False) overlays
        (sort_by (MakeComparator (conn_Sort conn) False) (data ms))) = Inr (map leaf ys)"
    and conn: "conn = conns ms cid"
  shows "SourceInput_Fetch ms cid req =
    Inr (map leaf ((if ReqReverse req then rev else id) (filter (fetch_keeps conn req) ys)))"
proof -
  let ?cmp = "MakeComparator (conn_Sort conn) False"
  have rows: "getSortedRows ms (conn_Sort conn) = Inr (sort_by ?cmp (data ms))"
    using rows.sort_Slice_Inr [of "data ms" ty "conn_Sort conn" False] req
    by (auto simp: getSortedRows_def req_ok_def)
  have ok: "\<forall>r\<in>set ys. row_ok ty (conn_Sort conn) r" using req by (auto simp: req_ok_def)
  let ?zs1 = "filter (start_keeps (conn_Sort conn) req) ys"
  let ?zs2 = "filter (constraint_keeps req) ?zs1"
  let ?zs3 = "filter (filter_keeps conn) ?zs2"
  have 1: "(case ReqStart req of None \<Rightarrow> Inr (map leaf ys)
    | Some start \<Rightarrow> applyStart (map leaf ys) start (ReqReverse req) (conn_Sort conn)) = Inr (map leaf ?zs1)"
    using applyStart_eq [OF srt, of ty] req ok
    by (cases "ReqStart req") (auto simp: start_keeps_def [abs_def] req_ok_def)
  have 2: "(case ReqConstraint req of None \<Rightarrow> Inr (map leaf ?zs1)
    | Some c \<Rightarrow> applyConstraint (map leaf ?zs1) c) = Inr (map leaf ?zs2)"
  proof (cases "ReqConstraint req")
    case (Some c)
    have "ConstraintMatchesRow (Some c) r = Inr (constraint_keeps req r)" if "r \<in> set ?zs1" for r
      using total_on_holds [of "ConstraintMatchesRow (Some c)" R r] req Some that
      by (auto simp: constraint_keeps_def req_ok_def)
    with Some filterR_leaf [of ?zs1 "ConstraintMatchesRow (Some c)"] show ?thesis
      by (simp add: applyConstraint_def)
  qed (simp add: filter_id_conv)
  have 3: "(case FilterPredicate conn of None \<Rightarrow> Inr (map leaf ?zs2)
    | Some pred \<Rightarrow> applyFilter (map leaf ?zs2) pred) = Inr (map leaf ?zs3)"
  proof (cases "FilterPredicate conn")
    case None
    then show ?thesis by (simp add: filter_keeps_def [abs_def])
  next
    case (Some f)
    have "f r = Inr (filter_keeps conn r)" if "r \<in> set ?zs2" for r
      using total_on_holds [of f R r] req Some that by (auto simp: filter_keeps_def req_ok_def)
    with Some filterR_leaf [of ?zs2 f] show ?thesis by (simp add: applyFilter_def)
  qed
  have zs3: "?zs3 = filter (fetch_keeps conn req) ys"
    unfolding filter_filter by (rule filter_cong) (auto simp: fetch_keeps_def)
  obtain ov where ov: "computeOverlays ms conn req = Inr ov"
    "generateWithOverlayInner ?cmp ov (sort_by ?cmp (data ms)) = Inr (map leaf ys)"
    using gen by (auto simp: bindR_eq_Inr)
  have "SourceInput_Fetch ms cid req =
      Inr (if ReqReverse req then rev (map leaf ?zs3) else map leaf ?zs3)"
    unfolding SourceInput_Fetch_def Let_def conn [symmetric] rows ov bindR_Inr 1 2 3 ..
  then show ?thesis unfolding zs3 by (simp add: rev_map)
qed

lemma cursor_admits_cong:
  assumes "row_ok ty (conn_Sort conn) a" "row_ok ty (conn_Sort conn) b"
    and "cval (MakeComparator (conn_Sort conn) False) a b = 0"
    and "\<And>st. ReqStart req = Some st \<Longrightarrow> row_ok ty (conn_Sort conn) (StartRow st)"
  shows "cursor_admits conn req a \<longleftrightarrow> cursor_admits conn req b"
proof (cases "ReqStart req")
  case (Some st)
  then have st: "row_ok ty (conn_Sort conn) (StartRow st)" using assms(4) by blast
  have eq: "cval (MakeComparator (conn_Sort conn) (ReqReverse req)) a b = 0"
    using assms(3) MakeComparator_reverse [of "conn_Sort conn" a b] by (cases "ReqReverse req") simp_all
  from rows.eq_left_lt [OF _ _ _ eq, of ty "StartRow st"] Some st assms(1,2) show ?thesis
    by (auto simp: cursor_admits_def ltc_def)
qed (simp add: cursor_admits_def)

lemma distinct_insert_by: "distinct (insert_by cmp x ys) \<longleftrightarrow> distinct ys \<and> x \<notin> set ys"
  by (induction ys) (auto simp: insert_by_Cons)

text \<open>The contents during a push: what is pending, and the rows that the connection and a request see.\<close>

lemma pending_parts:
  assumes ready: "fetch_ready ty ms conn req"
    and ov: "overlay ms = Some (epoch, change)" "epoch \<le> LastPushedEpoch conn"
    and ar: "overlay_rows change = (add, rm)"
  shows "set (visible ms conn) = (set (data ms) - set_option rm) \<union> set_option add"
    and "set_option rm \<subseteq> set (data ms)" and "set_option add \<subseteq> pending_rows ms"
    and "set_option add \<inter> (set (data ms) - set_option rm) = {}"
    and "set (seen_rows ms conn req) = (set (data ms) - set_option (keep_if (cursor_admits conn req) rm)) \<union>
      set_option (keep_if (cursor_admits conn req) add)"
    and "separates (MakeComparator (conn_Sort conn) False) (seen_rows ms conn req)"
proof -
  let ?cmp = "MakeComparator (conn_Sort conn) False" and ?c = "cursor_admits conn req"
  let ?R = "set (data ms) \<union> pending_rows ms"
  from ready have store: "store_ok ty ms" and sep: "separates ?cmp (data ms)"
    and sepv: "separates ?cmp (visible ms conn)" and req: "req_ok ty conn req ?R"
    and ovok: "overlay_ok ty ms conn"
    by (auto simp: fetch_ready_def)
  have ok: "\<And>r. r \<in> ?R \<Longrightarrow> row_ok ty (conn_Sort conn) r" using req by (auto simp: req_ok_def)
  from ov ovok have fit: "fits (source_cmp ms) change (data ms)" "removed_rows change \<subseteq> set (data ms)"
    unfolding overlay_ok_def by blast+
  have vis: "visible ms conn = apply_source_change (source_cmp ms) change (data ms)"
    using ov by (simp add: visible_def)
  have rmin: "d \<in> set (data ms)" if "rm = Some d" for d
    using fit(2) ar that by (cases change) auto
  have addR: "a \<in> pending_rows ms" if "add = Some a" for a
    using ar ov that by (cases change) (auto simp: pending_rows_def)
  have only: "cval (source_cmp ms) d y = 0 \<longleftrightarrow> y = d" if "d \<in> set (data ms)" "y \<in> set (data ms)" for d y
    using rows.sorted_by_separates [OF store_okD [OF store]] rows.refl [of d ty "primarySort ms" False]
      store_okD(2) [OF store] that by (auto simp: source_cmp_def separates_def)
  have setv: "set (visible ms conn) = (set (data ms) - set_option rm) \<union> set_option add"
    using ar rmin only vis by (cases change) (auto simp: set_remove_by)
  have fresh: "a \<notin> set (data ms) - set_option rm" if "add = Some a" for a
  proof
    assume a: "a \<in> set (data ms) - set_option rm"
    then have "cval (source_cmp ms) a a = 0" using only [of a a] by auto
    with a fit(1) ar that only rmin show False
      by (cases change) (auto simp: set_remove_by)
  qed
  let ?rest = "filter (\<lambda>r. \<not> (rm = Some r \<and> ?c r)) (data ms)"
  have seen: "seen_rows ms conn req = (case keep_if ?c add of None \<Rightarrow> ?rest | Some r \<Rightarrow> insert_by (source_cmp ms) r ?rest)"
    using ov ar by (cases add) (simp_all add: seen_rows_def)
  have setS: "set (seen_rows ms conn req) = (set (data ms) - set_option (keep_if ?c rm)) \<union> set_option (keep_if ?c add)"
    unfolding seen by (cases "keep_if ?c add"; cases rm) (auto split: if_splits)
  have new: "set_option (keep_if ?c add) \<inter> set ?rest = {}"
    using fresh by (cases add) auto
  have "distinct (data ms)" using sep by (simp add: separates_def)
  then have dist: "distinct (seen_rows ms conn req)"
    unfolding seen using new by (cases "keep_if ?c add") (auto simp: distinct_insert_by)
  have "x = y" if x: "x \<in> set (seen_rows ms conn req)" and y: "y \<in> set (seen_rows ms conn req)" and eq: "cval ?cmp x y = 0" for x y
  proof (cases "x \<in> set (data ms) \<and> y \<in> set (data ms)")
    case True
    then show ?thesis using sep eq by (auto simp: separates_def)
  next
    case False
    have in_vis: "z \<in> set (visible ms conn) \<or> rm = Some z \<and> \<not> ?c z" if "z \<in> set (seen_rows ms conn req)" for z
      using that setS setv by auto
    have xR: "row_ok ty (conn_Sort conn) x" and yR: "row_ok ty (conn_Sort conn) y"
      using x y setS addR ok by auto
    have new: "add = Some x \<and> ?c x \<or> add = Some y \<and> ?c y" using False x y setS by auto
    have "?c x \<longleftrightarrow> ?c y" using cursor_admits_cong [OF xR yR eq] req by (auto simp: req_ok_def)
    with new in_vis [OF x] in_vis [OF y] have "x \<in> set (visible ms conn)" "y \<in> set (visible ms conn)" by auto
    then show ?thesis using sepv eq by (auto simp: separates_def)
  qed
  with dist have seps: "separates ?cmp (seen_rows ms conn req)" unfolding separates_def by blast
  show "set (visible ms conn) = (set (data ms) - set_option rm) \<union> set_option add"
    and "set_option rm \<subseteq> set (data ms)" and "set_option add \<subseteq> pending_rows ms"
    and "set_option add \<inter> (set (data ms) - set_option rm) = {}"
    and "set (seen_rows ms conn req) = (set (data ms) - set_option (keep_if ?c rm)) \<union> set_option (keep_if ?c add)"
    and "separates ?cmp (seen_rows ms conn req)"
    using setv rmin addR fresh setS seps by auto
qed

lemma SourceInput_Fetch_seen:
  assumes ready: "fetch_ready ty ms conn req" and conn: "conn = conns ms cid"
  shows "SourceInput_Fetch ms cid req = Inr (map leaf (fetch_spec conn req (seen_rows ms conn req)))"
proof -
  let ?cmp = "MakeComparator (conn_Sort conn) False"
  let ?X = "sort_by ?cmp (data ms)"
  let ?R = "set (data ms) \<union> pending_rows ms"
  from ready have store: "store_ok ty ms" and sep: "separates ?cmp (data ms)"
    and sepv: "separates ?cmp (visible ms conn)" and req: "req_ok ty conn req ?R"
    and ovok: "overlay_ok ty ms conn"
    by (auto simp: fetch_ready_def)
  have ok: "\<And>r. r \<in> ?R \<Longrightarrow> row_ok ty (conn_Sort conn) r" using req by (auto simp: req_ok_def)
  have X: "sorted_by ?cmp ?X" "set ?X = set (data ms)"
    using rows.sorted_sort_by [OF _ sep, of ty] ok by auto
  note X_weak = sorted_by_weak [OF X(1)]
  show ?thesis
  proof (cases "\<exists>epoch change. overlay ms = Some (epoch, change) \<and> epoch \<le> LastPushedEpoch conn")
    case False
    then have none: "computeOverlays ms conn req = Inr (None, None)" and vis: "seen_rows ms conn req = data ms"
      by (auto simp: computeOverlays_def seen_rows_def split: option.splits)
    have "generateWithOverlayInner ?cmp (None, None) ?X = Inr (map leaf ?X)"
      using generateWithOverlayInner_eq [OF X(1), of None None ty] X(2) ok by (simp add: splice_def)
    with none fetch_after_splice [OF store sep req _ _ X_weak _ conn] X(2) vis show ?thesis
      by (simp add: fetch_spec_def Let_def)
  next
    case True
    then obtain epoch change where ov: "overlay ms = Some (epoch, change)" "epoch \<le> LastPushedEpoch conn"
      by blast
    obtain add rm where ar: "overlay_rows change = (add, rm)" by force
    note parts = pending_parts [OF ready ov ar]
    have rmin: "d \<in> set (data ms)" if "rm = Some d" for d using parts(2) that by auto
    have addR: "a \<in> ?R" if "add = Some a" for a using parts(3) that by auto
    have only: "cval c d y = 0 \<longleftrightarrow> y = d"
      if "separates c (data ms)" "cval c d d = 0" "d \<in> set (data ms)" "y \<in> set (data ms)" for c d y
      using that by (auto simp: separates_def)
    have refls: "cval ?cmp d d = 0" if "d \<in> set (data ms)" for d
      using rows.refl [of d ty "conn_Sort conn" False] ok that by auto
    have fresh: "a \<notin> set (data ms) - set_option rm" if "add = Some a" for a using parts(4) that by auto
    let ?c = "cursor_admits conn req"
    note setS = parts(5) and seps = parts(6)
    let ?k = "overlay_keeps conn req" and ?fk = "fetch_keeps conn req"
    let ?Y = "splice ?cmp (keep_if ?k add, keep_if ?k rm) ?X"
    have setY: "set ?Y = (set (data ms) - set_option (keep_if ?k rm)) \<union> set_option (keep_if ?k add)"
      using rmin only [OF sep] refls X(2)
      by (cases rm; cases add) (auto simp: splice_def set_remove_by)
    have fk: "?k r \<longleftrightarrow> ?c r" if "?fk r" for r
      using that by (auto simp: fetch_keeps_def overlay_keeps_def)
    have YR: "set ?Y \<subseteq> ?R" using setY addR by auto
    have base: "sorted_by ?cmp (splice ?cmp (None, keep_if ?k rm) ?X)"
      using X(1) rows.sorted_remove_by [OF X(1)] by (auto simp: splice_def split: option.splits)
    let ?B = "splice ?cmp (None, keep_if ?k rm) ?X"
    have BR: "set ?B \<subseteq> {r. row_ok ty (conn_Sort conn) r}"
      using X(2) ok by (auto simp: splice_def set_remove_by split: option.splits)
    have weak: "sorted_wrt (\<lambda>a b. cval ?cmp a b \<le> 0) ?Y"
    proof (cases "keep_if ?k add")
      case (Some a)
      then have a: "a \<in> {r. row_ok ty (conn_Sort conn) r}" using addR ok by auto
      have "?Y = insert_after ?cmp a ?B" using Some by (simp add: splice_def)
      with rows.weak_insert_after [OF sorted_by_weak [OF base] BR a] show ?thesis by simp
    qed (use sorted_by_weak [OF base] in \<open>simp add: splice_def\<close>)
    have "computeOverlays ms conn req = Inr (keep_if ?k add, keep_if ?k rm)"
      using computeOverlays_eq [OF req _ ov] ar by simp
    moreover have "generateWithOverlayInner ?cmp (keep_if ?k add, keep_if ?k rm) ?X = Inr (map leaf ?Y)"
      using X ok addR rmin by (intro generateWithOverlayInner_eq) auto
    ultimately have fetch: "SourceInput_Fetch ms cid req =
        Inr (map leaf ((if ReqReverse req then rev else id) (filter ?fk ?Y)))"
      using YR by (intro fetch_after_splice [OF store sep req _ _ weak _ conn]) auto
    have sub: "set (filter ?fk ?Y) = set (filter ?fk (seen_rows ms conn req))"
      using setY setS fk by auto
    have X_distinct: "distinct ?B"
      by (rule rows.sorted_by_distinct [OF base BR])
    have "distinct ?Y"
    proof (cases "keep_if ?k add")
      case (Some a)
      then have "a \<notin> set (data ms) - set_option (keep_if ?k rm)"
        using fresh [of a] by auto
      then have "a \<notin> set ?B"
        using only [OF sep] refls X(2) rmin
        by (cases rm) (auto simp: splice_def set_remove_by split: if_splits)
      with Some X_distinct show ?thesis by (simp add: splice_def distinct_insert_after)
    qed (use X_distinct in \<open>simp add: splice_def\<close>)
    then have "separates ?cmp (filter ?fk ?Y)"
      using seps sub unfolding separates_def by auto
    then have strict: "sorted_by ?cmp (filter ?fk ?Y)"
      using weak by (intro strict_of_weak sorted_wrt_filter)
    have okv: "set (seen_rows ms conn req) \<subseteq> {r. row_ok ty (conn_Sort conn) r}"
      using setS addR ok by auto
    have "filter ?fk ?Y = filter ?fk (sort_by ?cmp (seen_rows ms conn req))"
    proof (rule rows.sorted_by_unique [OF strict])
      show "sorted_by ?cmp (filter ?fk (sort_by ?cmp (seen_rows ms conn req)))"
        by (rule rows.sorted_by_filter [OF rows.sorted_sort_by [OF okv seps]])
      show "set (filter ?fk ?Y) = set (filter ?fk (sort_by ?cmp (seen_rows ms conn req)))" using sub by simp
      show "set (filter ?fk ?Y) \<subseteq> {r. row_ok ty (conn_Sort conn) r}" using YR ok by auto
    qed
    with fetch show ?thesis by (simp add: fetch_spec_def Let_def)
  qed
qed

text \<open>A cursor that gives every sort column leaves out no row of the change that it admits.\<close>

lemma fetch_spec_seen:
  assumes ready: "fetch_ready ty ms conn req" and full: "full_start (conn_Sort conn) req"
  shows "fetch_spec conn req (seen_rows ms conn req) = fetch_spec conn req (visible ms conn)"
proof (cases "\<exists>epoch change. overlay ms = Some (epoch, change) \<and> epoch \<le> LastPushedEpoch conn")
  case False
  then have "seen_rows ms conn req = visible ms conn" by (auto simp: seen_rows_def visible_def split: option.splits)
  then show ?thesis by simp
next
  case True
  then obtain epoch change where ov: "overlay ms = Some (epoch, change)" "epoch \<le> LastPushedEpoch conn"
    by blast
  obtain add rm where ar: "overlay_rows change = (add, rm)" by force
  note parts = pending_parts [OF ready ov ar]
  let ?cmp = "MakeComparator (conn_Sort conn) False" and ?fk = "fetch_keeps conn req"
  let ?R = "set (data ms) \<union> pending_rows ms"
  have req: "req_ok ty conn req ?R" and sepv: "separates ?cmp (visible ms conn)"
    using ready by (simp_all add: fetch_ready_def)
  have ok: "\<And>r. r \<in> ?R \<Longrightarrow> row_ok ty (conn_Sort conn) r" using req by (auto simp: req_ok_def)
  have adm: "cursor_admits conn req r" if "?fk r" "r \<in> ?R" for r
    using that start_full_keeps [OF ok, of r] full req
    by (auto simp: fetch_keeps_def cursor_admits_def start_keeps_def full_start_def req_ok_def split: option.splits)
  have R: "set (seen_rows ms conn req) \<subseteq> ?R" "set (visible ms conn) \<subseteq> ?R"
    using parts(1-3,5) by auto
  have rows: "set (seen_rows ms conn req) \<subseteq> {r. row_ok ty (conn_Sort conn) r}" "set (visible ms conn) \<subseteq> {r. row_ok ty (conn_Sort conn) r}"
    using R ok by auto
  have "set (filter ?fk (seen_rows ms conn req)) = set (filter ?fk (visible ms conn))"
    using parts(1-3,5) adm by fastforce
  then have "filter ?fk (sort_by ?cmp (seen_rows ms conn req)) = filter ?fk (sort_by ?cmp (visible ms conn))"
    using rows by (intro rows.sorted_by_unique [of "conn_Sort conn" False _ _ ty] rows.sorted_by_filter
        rows.sorted_sort_by [OF _ parts(6)] rows.sorted_sort_by [OF _ sepv]) auto
  then show ?thesis by (simp add: fetch_spec_def Let_def)
qed

lemma SourceInput_Fetch_visible:
  assumes "fetch_ready ty ms conn req" "full_start (conn_Sort conn) req" and "conn = conns ms cid"
  shows "SourceInput_Fetch ms cid req = Inr (map leaf (fetch_spec conn req (visible ms conn)))"
  using SourceInput_Fetch_seen [OF assms(1,3)] fetch_spec_seen [OF assms(1,2)] by simp

section \<open>Pushing through a predicate\<close>

text \<open>What a predicate makes of a change, and that it is the change of the filtered contents.\<close>

fun split_change :: "(row \<Rightarrow> bool) \<Rightarrow> Change \<Rightarrow> Change option" where
  "split_change q (EditChange n old) =
     (if q (Row old) then (if q (Row n) then Some (EditChange n old) else Some (RemoveChange old))
      else (if q (Row n) then Some (AddChange n) else None))"
| "split_change q ch = (if q (Row (change_node ch)) then Some ch else None)"

lemma FilterPush_split:
  assumes "\<And>r. r \<in> Row ` (case ch of EditChange n old \<Rightarrow> {n, old} | _ \<Rightarrow> {change_node ch}) \<Longrightarrow> f r = Inr (q r)"
  shows "FilterPush push ch out pusher (Some f) =
    (case split_change q ch of None \<Rightarrow> retM [] | Some ch' \<Rightarrow> push out ch' pusher)"
  using assms by (cases ch) (auto simp: FilterPush_def MaybeSplitAndPushEditChange_def)

context ordered_schema
begin

lemma split_change_correct:
  assumes "sorted_by (node_cmp schema) xs" "Row ` set xs \<subseteq> S" "change_possible schema ch xs"
    and "Row (change_node ch) \<in> S"
  shows "filter (\<lambda>n. q (Row n)) (apply_change schema ch xs) =
    (case split_change q ch of
       None \<Rightarrow> filter (\<lambda>n. q (Row n)) xs
     | Some ch' \<Rightarrow> apply_change schema ch' (filter (\<lambda>n. q (Row n)) xs))"
proof (cases ch)
  case (EditChange n old)
  have sub: "set xs \<subseteq> {n. Row n \<in> S}" using assms(2) by auto
  have "sorted_by (node_cmp schema) (remove_by (node_cmp schema) old xs)"
    "set (remove_by (node_cmp schema) old xs) \<subseteq> {n. Row n \<in> S}"
    using nodes.sorted_remove_by [OF assms(1)] sub by (auto simp: set_remove_by)
  then show ?thesis
    using EditChange assms(3,4) nodes.filter_insert_by [of "remove_by (node_cmp schema) old xs" n "\<lambda>n. q (Row n)"]
      nodes.filter_remove_by [OF assms(1) sub, of old "\<lambda>n. q (Row n)"]
    by simp
qed (use assms nodes.filter_insert_by [of xs] nodes.filter_remove_by [of xs] in \<open>auto simp: image_subset_iff subset_eq\<close>)

end

section \<open>The contract of a sorted input\<close>

text \<open>The part of sorted contents that a request with a full start row selects.\<close>

definition start_pos :: "Comparator \<Rightarrow> Start \<Rightarrow> bool \<Rightarrow> Node \<Rightarrow> bool" where
  "start_pos cmp st reverse n =
     (let c = cval cmp (Row n) (StartRow st)
      in if Basis st = ''at'' then (if reverse then c \<le> 0 else c \<ge> 0)
         else (if reverse then c < 0 else c > 0))"

definition select_nodes :: "Comparator \<Rightarrow> FetchRequest \<Rightarrow> Node list \<Rightarrow> Node list" where
  "select_nodes cmp req xs =
     (let ys = (case ReqStart req of None \<Rightarrow> xs | Some st \<Rightarrow> filter (start_pos cmp st (ReqReverse req)) xs)
      in if ReqReverse req then rev ys else ys)"

definition proper_request :: "row set \<Rightarrow> FetchRequest \<Rightarrow> bool" where
  "proper_request S req \<longleftrightarrow>
     (\<forall>st. ReqStart req = Some st \<longrightarrow> StartRow st \<in> S \<and> (Basis st = ''at'' \<or> Basis st = ''after''))"

text \<open>
  What an operator may assume of the input it fetches from: in a good state a fetch leaves the
  state alone and returns the part of the contents \<open>view\<close> that the request selects.  The rows in
  \<open>S\<close> are comparable and specify every sort column.
\<close>

locale sorted_input = ordered_schema schema S
  for schema :: SourceSchema and S :: "row set" +
  fixes fetch :: "'s fetch" and good :: "'s \<Rightarrow> bool" and view :: "'s \<Rightarrow> Constraint option \<Rightarrow> Node list"
  assumes fetch: "good s \<Longrightarrow> proper_request S req \<Longrightarrow>
      fetch req s = (Inr (select_nodes (CompareRows schema) req (view s (ReqConstraint req))), s)"
    and view_sorted: "good s \<Longrightarrow> sorted_by (node_cmp schema) (view s c)"
    and view_rows: "good s \<Longrightarrow> Row ` set (view s c) \<subseteq> S"

section \<open>Pushing to outputs that leave the source alone\<close>

text \<open>The source up to the bookkeeping of a push: overlay, epochs.\<close>

definition same_store :: "MemorySource \<Rightarrow> MemorySource \<Rightarrow> bool" where
  "same_store ms ms' \<longleftrightarrow>
     data ms' = data ms \<and> connections ms' = connections ms \<and> primarySort ms' = primarySort ms \<and>
     tableName ms' = tableName ms \<and> primaryKey ms' = primaryKey ms \<and>
     (\<forall>cid. (conns ms' cid)\<lparr>LastPushedEpoch := 0\<rparr> = (conns ms cid)\<lparr>LastPushedEpoch := 0\<rparr>)"

lemma same_store_refl [simp]: "same_store ms ms"
  by (simp add: same_store_def)

lemma same_store_trans: "same_store a b \<Longrightarrow> same_store b c \<Longrightarrow> same_store a c"
  by (simp add: same_store_def)

lemma same_store_epoch [simp]: "same_store ms (set_epoch cid epoch ms)"
  by (simp add: same_store_def set_epoch_def)

lemma same_store_fields [simp]:
  "same_store ms (ms'\<lparr>overlay := x\<rparr>) = same_store ms ms'"
  "same_store ms (ms'\<lparr>pushEpoch := n\<rparr>) = same_store ms ms'"
  "same_store (ms\<lparr>overlay := x\<rparr>) ms' = same_store ms ms'"
  "same_store (ms\<lparr>pushEpoch := n\<rparr>) ms' = same_store ms ms'"
  by (simp_all add: same_store_def)

text \<open>
  The client of a source: a heap that holds it behind a pointer, and outputs that fetch from it
  but do not write it.
\<close>

locale pushing = pointer p for p :: "('s, MemorySource) ref" +
  fixes push :: "'s push"
  assumes frame: "push out ch pusher s = (r, s') \<Longrightarrow> rd p s' = rd p s"
begin

lemma FilterPush_frame:
  "FilterPush push ch out pusher predicate s = (r, s') \<Longrightarrow> rd p s' = rd p s"
  by (auto simp: FilterPush_def MaybeSplitAndPushEditChange_def bindM_split
      split: option.splits Change.splits if_splits dest: frame)

lemma push_connection_frame:
  assumes "push_connection p push epoch change cid s = (r, s')"
  shows "rd p s' = (if conn_Output (conns (rd p s) cid) = None then rd p s
    else (set_epoch cid epoch (rd p s))\<lparr>overlay := Some (epoch, change)\<rparr>)"
  using assms FilterPush_frame
  by (auto simp: push_connection_def split: option.splits dest!: FilterPush_frame)

lemma push_loop_frame:
  assumes "collectM (push_connection p push epoch change) cids s = (r, s')"
  shows "same_store (rd p s) (rd p s')"
  using assms
proof (induction cids arbitrary: s r)
  case (Cons cid cids)
  have step: "same_store (rd p s) (rd p t)" if "push_connection p push epoch change cid s = (q, t)" for q t
    using push_connection_frame [OF that] by simp
  from Cons.prems consider q where "push_connection p push epoch change cid s = (q, s')"
    | q t q' where "push_connection p push epoch change cid s = (q, t)"
        "collectM (push_connection p push epoch change) cids t = (q', s')"
    by (auto simp: bindM_split)
  then show ?case by cases (blast intro: step Cons.IH same_store_trans)+
qed simp

lemma genPush_frame:
  assumes "genPush p push change s = (r, s')" "overlay (rd p s) = None"
  shows "same_store (rd p s) (rd p s')" "overlay (rd p s') = None"
proof -
  have "same_store (rd p s) (rd p s') \<and> overlay (rd p s') = None"
  proof (cases "validate change (rd p s)")
    case (Inl e)
    with assms show ?thesis by (simp add: genPush_def)
  next
    case (Inr u)
    let ?s1 = "wr p ((rd p s)\<lparr>pushEpoch := pushEpoch (rd p s) + 1\<rparr>) s"
    obtain r2 s2 where run: "collectM (push_connection p push (pushEpoch (rd p s) + 1) change)
        (connections (rd p s)) ?s1 = (r2, s2)" by force
    with assms(1) Inr have "s' = wr p ((rd p s2)\<lparr>overlay := None\<rparr>) s2"
      by (simp add: genPush_def)
    with push_loop_frame [OF run] show ?thesis by simp
  qed
  then show "same_store (rd p s) (rd p s')" "overlay (rd p s') = None" by simp_all
qed

lemma run_connection_frame:
  "run_connection p push change cid s = (r, s') \<Longrightarrow> rd p s' = rd p s"
  by (auto simp: run_connection_def split: option.splits dest: FilterPush_frame)

lemma spawn_all_frame:
  "spawn_all (run_connection p push change) cids s = (r, s') \<Longrightarrow> rd p s' = rd p s"
proof (induction cids arbitrary: s r)
  case (Cons cid cids)
  have step: "rd p t = rd p s" if "goroutine (run_connection p push change cid) s = (q, t)" for q t
    using that by (auto simp: goroutine_def split: prod.splits sum.splits dest: run_connection_frame)
  from Cons.prems consider q where "goroutine (run_connection p push change cid) s = (q, s')"
    | q t q' where "goroutine (run_connection p push change cid) s = (q, t)"
        "spawn_all (run_connection p push change) cids t = (q', s')"
    by (auto simp: bindM_split)
  then show ?case by cases (metis step, metis step Cons.IH)
qed simp

lemma same_store_epochs: "same_store ms (fold (\<lambda>cid. set_epoch cid epoch) cids ms)"
proof (induction cids arbitrary: ms)
  case (Cons cid cids)
  show ?case
    using same_store_trans [OF same_store_epoch Cons.IH, of ms cid epoch] by simp
qed simp

lemma overlay_epochs [simp]: "overlay (fold (\<lambda>cid. set_epoch cid epoch) cids ms) = overlay ms"
  by (induction cids arbitrary: ms) (simp_all add: set_epoch_def)

lemma GenPushParallel_frame:
  assumes "GenPushParallel sched p push change s = (r, s')" "overlay (rd p s) = None"
  shows "same_store (rd p s) (rd p s')" "overlay (rd p s') = None"
proof -
  have "same_store (rd p s) (rd p s') \<and> overlay (rd p s') = None"
  proof (cases "validate change (rd p s)")
    case (Inl e)
    with assms show ?thesis by (simp add: GenPushParallel_def)
  next
    case (Inr u)
    let ?epoch = "pushEpoch (rd p s) + 1"
    let ?ms1 = "(rd p s)\<lparr>pushEpoch := ?epoch\<rparr>"
    let ?ms2 = "fold (\<lambda>cid. set_epoch cid ?epoch) (active_connections ?ms1) ?ms1"
    have same: "same_store (rd p s) ?ms2" using same_store_epochs [of ?ms1] by simp
    show ?thesis
    proof (cases "active_connections ?ms1 = []")
      case True
      with assms Inr same show ?thesis by (auto simp: GenPushParallel_def)
    next
      case False
      let ?body = "if length (active_connections ?ms1) = 1
         then run_connection p push change (hd (active_connections ?ms1))
         else bindM (spawn_all (run_connection p push change) (sched (active_connections ?ms1)))
           (\<lambda>ordered. retM (concat (map (\<lambda>cid. case map_of ordered cid of
             None \<Rightarrow> [] | Some cs \<Rightarrow> cs) (active_connections ?ms1))))"
      obtain r2 s2 where run: "?body (wr p (?ms2\<lparr>overlay := Some (?epoch, change)\<rparr>) s) = (r2, s2)"
        by force
      have "rd p s2 = ?ms2\<lparr>overlay := Some (?epoch, change)\<rparr>"
        using run by (auto simp: bindM_split split: if_splits dest: run_connection_frame spawn_all_frame)
      moreover have "s' = wr p ((rd p s2)\<lparr>overlay := None\<rparr>) s2"
        using assms(1) Inr False run by (simp add: GenPushParallel_def deferM_def split: if_splits)
      ultimately show ?thesis using same by simp
    qed
  qed
  then show "same_store (rd p s) (rd p s')" "overlay (rd p s') = None" by simp_all
qed

end

text \<open>Writing a change that fits, and the whole push: whatever its mode, the store takes the change.\<close>

definition change_ok :: "(string \<Rightarrow> vclass) \<Rightarrow> MemorySource \<Rightarrow> SourceChange \<Rightarrow> bool" where
  "change_ok ty ms change \<longleftrightarrow>
     store_ok ty ms \<and> fits (source_cmp ms) change (data ms) \<and>
     (\<forall>r\<in>change_rows change. row_ok ty (primarySort ms) r)"

lemma apply_change_ok:
  assumes "change_ok ty ms change"
  shows "store_ok ty (ms\<lparr>data := apply_source_change (source_cmp ms) change (data ms)\<rparr>)"
proof (cases change)
  case (SourceEdit r old)
  with assms store_ok_insert [OF store_ok_remove [of ty ms old], of r] show ?thesis
    by (simp add: change_ok_def source_cmp_def)
qed (use assms in \<open>auto simp: change_ok_def intro: store_ok_insert store_ok_remove\<close>)

lemma writeChange_eq:
  assumes "pointer p" "change_ok ty (rd p s) change"
  shows "writeChange p change s =
    (Inr (), wr p ((rd p s)\<lparr>data := apply_source_change (source_cmp (rd p s)) change (data (rd p s))\<rparr>) s)"
proof (cases change)
  case (SourceEdit r old)
  let ?ms = "(rd p s)\<lparr>data := remove_by (source_cmp (rd p s)) old (data (rd p s))\<rparr>"
  have "source_remove old (rd p s) = Inr ?ms" "store_ok ty ?ms"
    using assms SourceEdit by (auto simp: change_ok_def intro: source_remove_eq store_ok_remove)
  moreover from this have "source_insert r ?ms =
      Inr (?ms\<lparr>data := insert_by (source_cmp ?ms) r (data ?ms)\<rparr>)"
    using assms SourceEdit by (intro source_insert_eq [of ty]) (auto simp: change_ok_def)
  ultimately show ?thesis
    using SourceEdit pointer.rd_wr [OF assms(1)] pointer.wr_wr [OF assms(1)]
    by (simp add: source_cmp_def)
next
  case (SourceRemove r)
  with assms have "source_remove r (rd p s) = Inr ((rd p s)\<lparr>data := remove_by (source_cmp (rd p s)) r (data (rd p s))\<rparr>)"
    by (intro source_remove_eq [of ty]) (auto simp: change_ok_def)
  with SourceRemove show ?thesis by simp
qed (use assms in \<open>auto simp: change_ok_def source_insert_eq\<close>)

lemma same_storeD:
  assumes "same_store ms ms'"
  shows "data ms' = data ms" "primarySort ms' = primarySort ms" "source_cmp ms' = source_cmp ms"
    "connections ms' = connections ms"
  using assms by (auto simp: same_store_def source_cmp_def)

lemma same_store_ok: "same_store ms ms' \<Longrightarrow> change_ok ty ms' change = change_ok ty ms change"
  by (simp add: change_ok_def store_ok_def rows_ok_def same_storeD)

lemma change_ok_split:
  assumes "change_ok ty ms (SourceEdit r old)"
  defines "ms1 \<equiv> ms\<lparr>data := remove_by (source_cmp ms) old (data ms)\<rparr>"
  shows "change_ok ty ms (SourceRemove old)" "change_ok ty ms1 (SourceAdd r)"
  using assms store_ok_remove [of ty ms old] by (auto simp: change_ok_def source_cmp_def)

text \<open>
  A step that pushes one change and then writes it, in either mode: \<open>run\<close> is \<open>genPush\<close> or
  \<open>GenPushParallel\<close>.
\<close>

context pushing
begin

lemma push_and_write_step:
  assumes frame: "\<And>c s r s'. run c s = (r, s') \<Longrightarrow> overlay (rd p s) = None \<Longrightarrow>
      same_store (rd p s) (rd p s') \<and> overlay (rd p s') = None"
    and go: "bindM (run change) (\<lambda>results. thenM (writeChange p change) (retM results)) s = (Inr out, s')"
    and ok: "overlay (rd p s) = None" "change_ok ty (rd p s) change"
  shows "same_store ((rd p s)\<lparr>data := apply_source_change (source_cmp (rd p s)) change (data (rd p s))\<rparr>) (rd p s')"
    and "overlay (rd p s') = None"
proof -
  from go obtain r1 s1 where run: "run change s = (Inr r1, s1)"
    and rest: "thenM (writeChange p change) (retM r1) s1 = (Inr out, s')"
    by (auto simp: bindM_split)
  from frame [OF run ok(1)] have same: "same_store (rd p s) (rd p s1)" and none: "overlay (rd p s1) = None"
    by simp_all
  have "writeChange p change s1 = (Inr (), wr p ((rd p s1)\<lparr>data :=
      apply_source_change (source_cmp (rd p s1)) change (data (rd p s1))\<rparr>) s1)"
    using ok(2) same by (intro writeChange_eq [of _ ty] pointer_axioms) (simp add: same_store_ok)
  with rest have "s' = wr p ((rd p s1)\<lparr>data := apply_source_change (source_cmp (rd p s1)) change (data (rd p s1))\<rparr>) s1"
    by simp
  then have "rd p s' = (rd p s1)\<lparr>data := apply_source_change (source_cmp (rd p s1)) change (data (rd p s1))\<rparr>"
    by simp
  with same none show "same_store ((rd p s)\<lparr>data := apply_source_change (source_cmp (rd p s)) change (data (rd p s))\<rparr>) (rd p s')"
    "overlay (rd p s') = None"
    by (simp_all add: same_store_def source_cmp_def)
qed

lemma push_all_store:
  assumes frame: "\<And>c s r s'. run c s = (r, s') \<Longrightarrow> overlay (rd p s) = None \<Longrightarrow>
      same_store (rd p s) (rd p s') \<and> overlay (rd p s') = None"
    and go: "collectM (\<lambda>c. bindM (run c) (\<lambda>results. thenM (writeChange p c) (retM results)))
      (split_edit split change) s = (Inr out, s')"
    and ok: "overlay (rd p s) = None" "change_ok ty (rd p s) change"
  shows "data (rd p s') = apply_source_change (source_cmp (rd p s)) change (data (rd p s))"
    and "overlay (rd p s') = None"
proof -
  let ?step = "\<lambda>c. bindM (run c) (\<lambda>results. thenM (writeChange p c) (retM results))"
  have "data (rd p s') = apply_source_change (source_cmp (rd p s)) change (data (rd p s)) \<and>
    overlay (rd p s') = None"
  proof (cases "split \<and> (\<exists>r old. change = SourceEdit r old)")
    case False
    then have "split_edit split change = [change]" by (cases change; cases split) auto
    with go obtain out1 where "?step change s = (Inr out1, s')" by (auto simp: bindM_split)
    from push_and_write_step [where run = run, OF frame this ok] show ?thesis by (simp add: same_store_def)
  next
    case True
    then obtain r old where ch: "change = SourceEdit r old" "split_edit split change = [SourceRemove old, SourceAdd r]"
      by auto
    with go obtain o1 o2 s1 where steps: "?step (SourceRemove old) s = (Inr o1, s1)"
      "?step (SourceAdd r) s1 = (Inr o2, s')"
      by (auto simp: bindM_split)
    note oks = change_ok_split [of ty "rd p s" r old, folded ch(1), OF ok(2)]
    note first = push_and_write_step [where run = run, OF frame steps(1) ok(1) oks(1)]
    have "change_ok ty (rd p s1) (SourceAdd r)"
      using same_store_ok [OF first(1)] oks(2) by simp
    from push_and_write_step [where run = run, OF frame steps(2) first(2) this] first(1) ch(1) show ?thesis
      by (simp add: same_store_def source_cmp_def)
  qed
  then show "data (rd p s') = apply_source_change (source_cmp (rd p s)) change (data (rd p s))"
    "overlay (rd p s') = None" by simp_all
qed

lemma Push_store:
  assumes "MemorySource_Push sched p push change s = (Inr out, s')"
    and ok: "overlay (rd p s) = None" "change_ok ty (rd p s) change"
  shows "data (rd p s') = apply_source_change (source_cmp (rd p s)) change (data (rd p s))"
    and "overlay (rd p s') = None"
proof -
  have par: "GenPushParallel sched p push c s = (r, s') \<Longrightarrow> overlay (rd p s) = None \<Longrightarrow>
      same_store (rd p s) (rd p s') \<and> overlay (rd p s') = None" for c s r s'
    using GenPushParallel_frame by blast
  have seq: "genPush p push c s = (r, s') \<Longrightarrow> overlay (rd p s) = None \<Longrightarrow>
      same_store (rd p s) (rd p s') \<and> overlay (rd p s') = None" for c s r s'
    using genPush_frame by blast
  show "data (rd p s') = apply_source_change (source_cmp (rd p s)) change (data (rd p s))"
    "overlay (rd p s') = None"
    using assms push_all_store [where run = "GenPushParallel sched p push", OF par _ ok]
      push_all_store [where run = "genPush p push", OF seq _ ok]
    by (auto simp: MemorySource_Push_def genPushAndWriteParallel_def genPushAndWriteWithSplitEdit_def
        genPushAndWrite_def [abs_def] bindM_split split: if_splits)
qed

end

section \<open>Properties\<close>

text \<open>A source of four items with the ordering of its primary key, and two connections.\<close>

definition items :: "rat list \<Rightarrow> MemorySource" where
  "items ns = (NewMemorySourceWithConverter ''items'' [(''id'', ''number'')] [''id''] None)\<lparr>data := map item ns\<rparr>"

definition down_order :: Ordering where
  "down_order = [(''id'', ''desc'')]"

definition wired :: "rat list \<Rightarrow> MemorySource" where
  "wired ns = (let (i1, ms1) = Connect 0 None None None (items ns);
                   (i2, ms2) = Connect 1 (Some down_order) (Some (\<lambda>r. Inr (r \<noteq> item 2))) None ms1
               in snd (SourceInput_SetOutput ThrowOutput i2 (snd (SourceInput_SetOutput ThrowOutput i1 ms2))))"

lemma items_simps [simp]:
  "data (items ns) = map item ns" "primarySort (items ns) = item_order" "overlay (items ns) = None"
  "source_cmp (items ns) = MakeComparator item_order False"
  by (simp_all add: items_def NewMemorySourceWithConverter_def item_order_def source_cmp_def)

text \<open>
  C4. The row store of a source is a sorted set under the primary key: on a well-formed store and a
  row with a comparable key, \<open>has\<close> finds exactly the rows that compare equal, \<open>insert\<close> puts the row
  at its place, \<open>remove\<close> takes the equal row out and panics exactly when there is none, and inserting
  a new key or removing keeps the store well-formed.
\<close>

theorem source_store_is_sorted_set:
  assumes "store_ok ty ms" "row_ok ty (primarySort ms) r"
  defines "present \<equiv> \<exists>y\<in>set (data ms). cval (source_cmp ms) r y = 0"
  shows "source_has ms r = Inr present \<and>
    source_insert r ms = Inr (ms\<lparr>data := insert_by (source_cmp ms) r (data ms)\<rparr>) \<and>
    source_remove r ms =
      (if present then Inr (ms\<lparr>data := remove_by (source_cmp ms) r (data ms)\<rparr>)
       else Inl (Panic ''MemorySource.remove: row not found in source data'')) \<and>
    store_ok ty (ms\<lparr>data := remove_by (source_cmp ms) r (data ms)\<rparr>) \<and>
    (present \<or> store_ok ty (ms\<lparr>data := insert_by (source_cmp ms) r (data ms)\<rparr>))"
  using assms source_has_eq [of ty ms r] source_insert_eq [of ty ms r] source_remove_eq [of ty ms r]
    source_remove_missing [of ty ms r] store_ok_remove [of ty ms r] store_ok_insert [of ty ms r]
  by auto

lemma store_ok_items:
  "sorted_wrt (<) ns \<Longrightarrow> ty ''id'' = CNum \<Longrightarrow> store_ok ty (items ns)"
  by (auto simp: store_ok_def rows_ok_def sorted_by_def ltc_def cval_def sorted_wrt_map elim: sorted_wrt_mono_rel [rotated])

theorem source_store_is_sorted_set_witness:
  "source_has (items [1, 2, 4]) (item 2) = Inr True \<and> source_has (items [1, 2, 4]) (item 3) = Inr False"
  using source_store_is_sorted_set [of "\<lambda>_. CNum" "items [1, 2, 4]" "item 2", OF store_ok_items]
    source_store_is_sorted_set [of "\<lambda>_. CNum" "items [1, 2, 4]" "item 3", OF store_ok_items]
  by (simp add: cval_def)

text \<open>
  C2. A fetch is correct: it returns, for every constraint, start cursor (full or partial), direction
  and connection predicate, the rows seen by the request that satisfy all three, sorted by the
  ordering of the connection (reversed on request).  Seen are the stored rows, with the pending change
  of a push once that change was pushed to this connection; of that change a request with a start
  cursor sees the rows that are not before the cursor row, the columns which the cursor lacks reading
  as null.  When nothing is pending, or there is no cursor, or the cursor gives every sort column, the
  result is the same as over the visible rows, the pending change taken whole.  With a partial cursor
  it can be less: a pending row that the cursor admits is then missing.
\<close>

theorem SourceInput_Fetch_correct:
  assumes "fetch_ready ty ms (conns ms cid) req"
  shows "SourceInput_Fetch ms cid req =
      Inr (map leaf (fetch_spec (conns ms cid) req (seen_rows ms (conns ms cid) req))) \<and>
    (overlay ms = None \<or> full_start (conn_Sort (conns ms cid)) req \<longrightarrow>
      fetch_spec (conns ms cid) req (seen_rows ms (conns ms cid) req) =
      fetch_spec (conns ms cid) req (visible ms (conns ms cid)))"
  using SourceInput_Fetch_seen [OF assms refl] fetch_spec_seen [OF assms]
  by (auto simp: seen_rows_def visible_def)

text \<open>
  An example: the second connection, ordered downwards and filtered, during the push of an add that
  already went to it.
\<close>

definition pending_add :: MemorySource where
  "pending_add = set_epoch 2 1 ((wired [1, 2, 4])\<lparr>overlay := Some (1, SourceAdd (item 3)), pushEpoch := 1\<rparr>)"

definition from_three :: FetchRequest where
  "from_three = \<lparr>ReqConstraint = None, ReqStart = Some \<lparr>StartRow = item 3, Basis = ''at''\<rparr>, ReqReverse = False\<rparr>"

lemma item_down [simp]:
  "MakeComparator down_order b (item m) (item n) =
     Inr (if m < n then (if b then - 1 else 1) else if n < m then (if b then 1 else - 1) else 0)"
  "CompareWithPartialBound (item m) (item n) down_order = Inr (if m < n then 1 else if n < m then - 1 else 0)"
  "row_ok ty down_order (item n) = (ty ''id'' = CNum)"
  by (auto simp: item_def down_order_def CompareValues_num row_ok_def okval_def split: vclass.splits)

lemma item_eq [simp]: "item m = item n \<longleftrightarrow> m = n"
  by (auto simp: item_def fun_upd_def fun_eq_iff)

lemma pending_add_simps [simp]:
  "data pending_add = map item [1, 2, 4]" "primarySort pending_add = item_order"
  "overlay pending_add = Some (1, SourceAdd (item 3))" "source_cmp pending_add = MakeComparator item_order False"
  "conn_Sort (conns pending_add 2) = down_order"
  "FilterPredicate (conns pending_add 2) = Some (\<lambda>r. Inr (r \<noteq> item 2))" "LastPushedEpoch (conns pending_add 2) = 1"
  by (simp_all add: pending_add_def wired_def set_epoch_def Connect_def SourceInput_SetOutput_def items_def
      NewMemorySourceWithConverter_def item_order_def source_cmp_def Let_def)

lemma fetch_ready_pending_add: "fetch_ready (\<lambda>_. CNum) pending_add (conns pending_add 2) from_three"
  by (auto simp: fetch_ready_def store_ok_def rows_ok_def sorted_by_def ltc_def cval_def separates_def
      visible_def req_ok_def pending_rows_def from_three_def total_on_def ConstraintMatchesRow_def
      overlay_ok_def insert_by_Cons)

lemma full_start_pending_add: "full_start down_order from_three"
  by (simp add: full_start_def from_three_def item_def down_order_def)

theorem SourceInput_Fetch_correct_witness:
  "SourceInput_Fetch pending_add 2 from_three = Inr (map leaf [item 3, item 1])"
  unfolding conjunct1 [OF SourceInput_Fetch_correct [OF fetch_ready_pending_add]]
  by (simp add: fetch_spec_def seen_rows_def cursor_admits_def sort_by_def insert_by_Cons ltc_def cval_def fetch_keeps_def
      start_keeps_def constraint_keeps_def filter_keeps_def ConstraintMatchesRow_def holds_def from_three_def
      at_or_past_def cmpCursorVsRow_def)

lemma set_apply_source_change: "set (apply_source_change cmp change xs) \<subseteq> set xs \<union> change_rows change"
  by (cases change) (auto simp: set_remove_by)

lemma fetch_ready_written:
  assumes ready: "fetch_ready ty ms conn req" and ov: "overlay ms = Some (epoch, change)" "epoch \<le> LastPushedEpoch conn"
  defines "ms' \<equiv> ms\<lparr>data := apply_source_change (source_cmp ms) change (data ms), overlay := None\<rparr>"
  shows "fetch_ready ty ms' conn req" "visible ms' conn = visible ms conn"
proof -
  have "change_ok ty ms change"
    using ready ov by (auto simp: fetch_ready_def overlay_ok_def change_ok_def)
  from apply_change_ok [OF this] have "store_ok ty ms'"
    by (simp add: ms'_def store_ok_def source_cmp_def)
  moreover have vis: "visible ms' conn = visible ms conn" "data ms' = visible ms conn"
    using ov by (simp_all add: visible_def ms'_def)
  moreover have "req_ok ty conn req (set (data ms') \<union> pending_rows ms')"
    using ready ov set_apply_source_change [of "source_cmp ms" change "data ms"]
    by (auto simp: fetch_ready_def req_ok_def pending_rows_def total_on_def ms'_def)
  ultimately show "fetch_ready ty ms' conn req" "visible ms' conn = visible ms conn"
    using ready by (auto simp: fetch_ready_def overlay_ok_def ms'_def)
qed

text \<open>
  C3. Fetching while a change is being pushed equals fetching after it was written: for a connection
  that was already sent the change, the overlay answers every request without a start cursor, or whose
  cursor gives every sort column of the connection, exactly as the store with the change in it will.
  (Of a partial cursor this is false, see the example below.)
\<close>

theorem Fetch_during_push_is_Fetch_after_write:
  assumes "fetch_ready ty ms (conns ms cid) req" "full_start (conn_Sort (conns ms cid)) req"
    and "overlay ms = Some (epoch, change)" "epoch \<le> LastPushedEpoch (conns ms cid)"
  shows "SourceInput_Fetch ms cid req =
    SourceInput_Fetch (ms\<lparr>data := apply_source_change (source_cmp ms) change (data ms), overlay := None\<rparr>) cid req"
  using SourceInput_Fetch_visible [OF assms(1,2) refl]
    SourceInput_Fetch_visible [of ty _ "conns ms cid" req cid] assms(2)
    fetch_ready_written [OF assms(1,3,4)] by simp

theorem Fetch_during_push_is_Fetch_after_write_witness:
  "SourceInput_Fetch pending_add 2 from_three =
   SourceInput_Fetch (pending_add\<lparr>data := map item [1, 2, 3, 4], overlay := None\<rparr>) 2 from_three"
  using Fetch_during_push_is_Fetch_after_write [OF fetch_ready_pending_add, of 1 "SourceAdd (item 3)"]
    full_start_pending_add
  by (simp add: insert_by_Cons ltc_def cval_def)

text \<open>
  A partial cursor during a push: ordered by \<open>b\<close> and then downwards by \<open>id\<close>, from \<open>b = 1\<close>, the row
  \<open>(1, 2)\<close> that is being added is not shown although the cursor admits it, since its \<open>id\<close> is compared
  with the null that stands for the missing column; after the write it is.
\<close>

definition pair_row :: "rat \<Rightarrow> rat \<Rightarrow> row" where
  "pair_row b n = [''b'' \<mapsto> num b, ''id'' \<mapsto> num n]"

definition pairs_pending :: "row list \<Rightarrow> (nat \<times> SourceChange) option \<Rightarrow> MemorySource" where
  "pairs_pending rows pending =
     set_epoch 1 1 (snd (Connect 0 (Some [(''b'', ''asc''), (''id'', ''desc'')]) None None
       (NewMemorySourceWithConverter ''pairs'' [(''b'', ''number''), (''id'', ''number'')] [''id''] None)))
     \<lparr>data := rows, overlay := pending, pushEpoch := 1\<rparr>"

definition from_b1 :: FetchRequest where
  "from_b1 = \<lparr>ReqConstraint = None, ReqStart = Some \<lparr>StartRow = [''b'' \<mapsto> num 1], Basis = ''at''\<rparr>,
     ReqReverse = False\<rparr>"

definition fetched_ids :: "Node list res \<Rightarrow> val list option" where
  "fetched_ids r = (case r of Inl _ \<Rightarrow> None | Inr ns \<Rightarrow> Some (map (\<lambda>n. col (Row n) ''id'') ns))"

lemma partial_cursor_misses_pending_row:
  "fetched_ids (SourceInput_Fetch (pairs_pending [pair_row 1 1] (Some (1, SourceAdd (pair_row 1 2)))) 1 from_b1) =
     Some [num 1]"
  "fetched_ids (SourceInput_Fetch (pairs_pending [pair_row 1 1, pair_row 1 2] None) 1 from_b1) =
     Some [num 2, num 1]"
  by code_simp+

end
