(* ===== verification/Json.thy ===== *)
theory Json
  imports Values
begin

text \<open>
  The keys that the operators build with \<open>json.Marshal\<close>: the key of a take state
  (\<open>ivm/take.go\<close>) and of an entry of the exists cache (\<open>ivm/exists.go\<close>).

  Two keys are equal when their texts are.  The model keeps the document instead of its text: a
  number is the rational it denotes, an object has its keys in sorted order as \<open>json.Marshal\<close>
  writes them.  A value with NaN or an infinity has no document; the code ignores the error and
  uses the empty text.  (The texts of an integer and a float of equal value differ beyond
  \<open>2 ^ 53\<close>; rows in the sources hold floats only.)
\<close>

datatype json = JNull | JBool bool | JNum rat | JStr string | JBase64 string | JLiteral string
  | JArr "json list" | JObj "(string \<times> json) list"

fun option_list :: "'a option list \<Rightarrow> 'a list option" where
  "option_list [] = Some []"
| "option_list (x # xs) =
     (case x of None \<Rightarrow> None
      | Some y \<Rightarrow> (case option_list xs of None \<Rightarrow> None | Some ys \<Rightarrow> Some (y # ys)))"

fun json_f64 :: "f64 \<Rightarrow> json option" where
  "json_f64 (Fin x) = Some (JNum x)"
| "json_f64 _ = None"

fun json_marshal :: "val \<Rightarrow> json option" where
  "json_marshal VNull = Some JNull"
| "json_marshal (VBool b) = Some (JBool b)"
| "json_marshal (VStr s) = Some (JStr s)"
| "json_marshal (VInt k n) = Some (JNum (of_int n))"
| "json_marshal (VF64 x) = json_f64 x"
| "json_marshal (VF32 x) = json_f64 x"
| "json_marshal (VBytes s) = Some (JBase64 s)"
| "json_marshal (VJNum s) = Some (JLiteral s)"
| "json_marshal (VArr vs) = map_option JArr (option_list (map json_marshal vs))"
| "json_marshal (VObj kvs) =
     map_option (\<lambda>kjs. JObj (sort_key fst kjs))
       (option_list (map (\<lambda>(k, v). map_option (\<lambda>j. (k, j)) (json_marshal v)) kvs))"

text \<open>The key of a list of values: \<open>None\<close> is the empty text of a failed marshal.\<close>

type_synonym state_key = "json list option"

definition json_key :: "val list \<Rightarrow> state_key" where
  "json_key vs = option_list (map json_marshal vs)"

lemma option_list_Some: "option_list xs = Some ys \<longleftrightarrow> xs = map Some ys"
proof (induction xs arbitrary: ys)
  case (Cons x xs)
  show ?case
    using Cons.IH [of "tl ys"] by (cases ys) (auto split: option.splits)
qed auto

text \<open>Values of one class that compare equal have the same key.\<close>

lemma okval_compare_json:
  assumes "okval t a" "okval t b" "cval CompareValues a b = 0" "normalized a" "normalized b"
  shows "json_marshal a = json_marshal b"
proof -
  have "vcmp a b = 0"
    using assms CompareValues_ok [of t a b] by (simp add: cval_def)
  with assms show ?thesis
    by (cases t; cases a; cases b)
      (auto simp: okval_def vcmp_def strings_Compare_def split: if_splits option.splits
        dest: f64_linear)
qed

end
