(* ===== verification/Take.thy ===== *)
theory Take
  imports Source Json
begin

text \<open>
  The limit operator, \<open>ivm/take.go\<close>.  It keeps, for each value of the partition key, the number of
  rows in the window and the last row of the window (the bound).  Its storage is the in-memory
  storage of the same file.  \<open>fetch\<close> is the fetch of its input, \<open>push\<close> delivers to an output;
  \<open>me\<close> is the operator's own address, which it passes on as the pusher.  The debug output is
  left out.

  The second half proves what the operator is for: after a push its window is the window of the new
  contents of its input, and the changes it sent turn the old window into the new one.
\<close>

section \<open>State\<close>

record TakeState =
  Size :: int
  Bound :: "row option"

record MemoryTakeStorage =
  states :: "state_key \<rightharpoonup> TakeState"
  maxBound :: "row option"

record Take = MemoryTakeStorage +
  take_schema :: SourceSchema
  take_limit :: int
  partitionKey :: "string list"
  rowHiddenFromFetch :: "row option"
  take_output :: Output

definition NewMemoryTakeStorage :: MemoryTakeStorage where
  "NewMemoryTakeStorage = \<lparr>states = Map.empty, maxBound = None\<rparr>"

definition SetTakeState :: "state_key \<Rightarrow> TakeState \<Rightarrow> Take \<Rightarrow> Take" where
  "SetTakeState key st t = t\<lparr>states := (states t)(key \<mapsto> st)\<rparr>"

definition SetMaxBound :: "row \<Rightarrow> Take \<Rightarrow> Take" where
  "SetMaxBound b t = t\<lparr>maxBound := Some b\<rparr>"

definition NewTake :: "SourceSchema \<Rightarrow> int \<Rightarrow> string list \<Rightarrow> Take res" where
  "NewTake schema limit pk =
     (if limit < 0 then Inl (Panic ''Limit must be non-negative'')
      else if Sort schema = None then Inl (Panic ''Take requires sorted input'')
      else Inr \<lparr>states = Map.empty, maxBound = None, take_schema = schema, take_limit = limit,
                partitionKey = pk, rowHiddenFromFetch = None, take_output = ThrowOutput\<rparr>)"

section \<open>Keys\<close>

text \<open>\<open>None\<close> is the nil row of an absent constraint.\<close>

definition GetTakeStateKey :: "string list \<Rightarrow> row option \<Rightarrow> state_key" where
  "GetTakeStateKey pk r =
     json_key (VStr ''take'' # (case r of None \<Rightarrow> [] | Some r \<Rightarrow> map (col r) pk))"

definition constraintToRow :: "Constraint option \<Rightarrow> row option" where
  "constraintToRow c = map_option map_of c"

definition ConstraintMatchesPartitionKey :: "Constraint option \<Rightarrow> string list \<Rightarrow> bool" where
  "ConstraintMatchesPartitionKey constraint pk =
     (case constraint of
        None \<Rightarrow> pk = []
      | Some c \<Rightarrow> pk \<noteq> [] \<and> length pk = length c \<and> list_all (\<lambda>k. map_of c k \<noteq> None) pk)"

fun MakePartitionKeyComparator :: "string list \<Rightarrow> Comparator" where
  "MakePartitionKeyComparator [] a b = Inr 0"
| "MakePartitionKeyComparator (k # pk) a b =
     bindR (CompareValues (col a k) (col b k)) (\<lambda>c.
       if c \<noteq> 0 then Inr c else MakePartitionKeyComparator pk a b)"

section \<open>Fetching\<close>

definition take_compare :: "Take \<Rightarrow> Comparator" where
  "take_compare t = CompareRows (take_schema t)"

definition setTakeState ::
  "('s, Take) ref \<Rightarrow> state_key \<Rightarrow> int \<Rightarrow> row option \<Rightarrow> row option \<Rightarrow> (panic, 's, unit) exec"
where
  "setTakeState p key sz bound mb =
     thenM (updM p (SetTakeState key \<lparr>Size = sz, Bound = bound\<rparr>))
       (case bound of
          None \<Rightarrow> retM ()
        | Some b \<Rightarrow>
          bindM (askM p (\<lambda>t. case mb of
                   None \<Rightarrow> Inr True
                 | Some m \<Rightarrow> bindR (take_compare t b m) (\<lambda>c. Inr (c > 0)))) (\<lambda>raise.
            if raise then updM p (SetMaxBound b) else retM ()))"

text \<open>The first nodes up to the limit, and the state that they are.\<close>

definition initialFetch :: "('s, Take) ref \<Rightarrow> 's fetch \<Rightarrow> FetchRequest \<Rightarrow> (panic, 's, Node list) exec" where
  "initialFetch p fetch req =
     bindM (getM (rd p)) (\<lambda>t.
       if take_limit t = 0 then retM []
       else
         bindM (fetch req) (\<lambda>nodes.
           let result = take (nat (take_limit t)) nodes in
           bindM (getM (\<lambda>s. maxBound (rd p s))) (\<lambda>mb.
           thenM (setTakeState p (GetTakeStateKey (partitionKey t) (constraintToRow (ReqConstraint req)))
                    (int (length result))
                    (if result = [] then None else Some (Row (last result))) mb)
             (retM result))))"

text \<open>The loop of a fetch inside the window: stop behind the bound, leave out the hidden row.\<close>

fun window_nodes :: "Comparator \<Rightarrow> row \<Rightarrow> row option \<Rightarrow> Node list \<Rightarrow> Node list res" where
  "window_nodes cmp bound hidden [] = Inr []"
| "window_nodes cmp bound hidden (n # ns) =
     bindR (cmp bound (Row n)) (\<lambda>c.
       if c < 0 then Inr []
       else bindR (case hidden of
                     None \<Rightarrow> Inr False
                   | Some h \<Rightarrow> bindR (cmp h (Row n)) (\<lambda>d. Inr (d = 0))) (\<lambda>skip.
            bindR (window_nodes cmp bound hidden ns) (\<lambda>rest. Inr (if skip then rest else n # rest))))"

text \<open>The loop of a fetch over all partitions.\<close>

fun partitions_nodes :: "Take \<Rightarrow> row \<Rightarrow> Node list \<Rightarrow> Node list res" where
  "partitions_nodes t mb [] = Inr []"
| "partitions_nodes t mb (n # ns) =
     bindR (take_compare t (Row n) mb) (\<lambda>c.
       if c > 0 then Inr []
       else
         bindR (case states t (GetTakeStateKey (partitionKey t) (Some (Row n))) of
                  None \<Rightarrow> Inr False
                | Some st \<Rightarrow>
                  (case Bound st of
                     None \<Rightarrow> Inr False
                   | Some b \<Rightarrow> bindR (take_compare t b (Row n)) (\<lambda>d. Inr (d \<ge> 0)))) (\<lambda>keep.
         bindR (partitions_nodes t mb ns) (\<lambda>rest. Inr (if keep then n # rest else rest))))"

definition Take_Fetch :: "('s, Take) ref \<Rightarrow> 's fetch \<Rightarrow> FetchRequest \<Rightarrow> (panic, 's, Node list) exec" where
  "Take_Fetch p fetch req =
     bindM (getM (rd p)) (\<lambda>t.
       if partitionKey t = [] \<or>
          (ReqConstraint req \<noteq> None \<and> ConstraintMatchesPartitionKey (ReqConstraint req) (partitionKey t))
       then
         (case states t (GetTakeStateKey (partitionKey t) (constraintToRow (ReqConstraint req))) of
            None \<Rightarrow> initialFetch p fetch req
          | Some st \<Rightarrow>
            (case Bound st of
               None \<Rightarrow> retM []
             | Some b \<Rightarrow>
               bindM (fetch req) (\<lambda>nodes.
               askM p (\<lambda>t. window_nodes (take_compare t) b (rowHiddenFromFetch t) nodes))))
       else
         (case maxBound t of
            None \<Rightarrow> retM []
          | Some mb \<Rightarrow> bindM (fetch req) (\<lambda>nodes. askM p (\<lambda>t. partitions_nodes t mb nodes))))"

section \<open>Pushing\<close>

definition take_emit :: "('s, Take) ref \<Rightarrow> opid \<Rightarrow> 's push \<Rightarrow> Change \<Rightarrow> (panic, 's, Change list) exec" where
  "take_emit p me push ch = bindM (getM (\<lambda>s. take_output (rd p s))) (\<lambda>out. push out ch me)"

definition both :: "(panic, 's, Change list) exec \<Rightarrow> (panic, 's, Change list) exec \<Rightarrow> (panic, 's, Change list) exec"
where
  "both m n = bindM m (\<lambda>xs. bindM n (\<lambda>ys. retM (xs @ ys)))"

definition pushWithRowHiddenFromFetch ::
  "('s, Take) ref \<Rightarrow> opid \<Rightarrow> 's push \<Rightarrow> row \<Rightarrow> Change \<Rightarrow> (panic, 's, Change list) exec"
where
  "pushWithRowHiddenFromFetch p me push r ch =
     thenM (updM p (\<lambda>t. t\<lparr>rowHiddenFromFetch := Some r\<rparr>))
       (deferM (\<lambda>s. wr p ((rd p s)\<lparr>rowHiddenFromFetch := None\<rparr>) s) (take_emit p me push ch))"

text \<open>The constraint of a row's partition; the state is looked up under the same key.\<close>

definition partition_constraint :: "string list \<Rightarrow> row \<Rightarrow> Constraint option" where
  "partition_constraint pk r =
     (if pk = [] then None else Some (fold (\<lambda>k c. put k (col r k) c) pk []))"

definition start_request :: "Constraint option \<Rightarrow> row \<Rightarrow> string \<Rightarrow> bool \<Rightarrow> FetchRequest" where
  "start_request c r basis reverse =
     \<lparr>ReqConstraint = c, ReqStart = Some \<lparr>StartRow = r, Basis = basis\<rparr>, ReqReverse = reverse\<rparr>"

definition first_of :: "'a list \<Rightarrow> 'a option" where
  "first_of xs = (case xs of [] \<Rightarrow> None | x # _ \<Rightarrow> Some x)"

definition second_of :: "'a list \<Rightarrow> 'a option" where
  "second_of xs = (case xs of _ # y # _ \<Rightarrow> Some y | _ \<Rightarrow> None)"

text \<open>
  In the definitions below \<open>t\<close> is the operator's state at the start of the push, \<open>st\<close> the state
  of the partition, \<open>mb\<close> the greatest bound.
\<close>

definition Take_PushAdd ::
  "('s, Take) ref \<Rightarrow> opid \<Rightarrow> 's fetch \<Rightarrow> 's push \<Rightarrow> Take \<Rightarrow> state_key \<Rightarrow> TakeState \<Rightarrow> Constraint option \<Rightarrow>
   Node \<Rightarrow> (panic, 's, Change list) exec"
where
  "Take_PushAdd p me fetch push t key st c node =
     (let cmp = take_compare t; mb = maxBound t in
      if Size st < take_limit t then
        bindM (liftM (case Bound st of
                 None \<Rightarrow> Inr (Row node)
               | Some b \<Rightarrow> bindR (cmp b (Row node)) (\<lambda>d. Inr (if d < 0 then Row node else b)))) (\<lambda>newBound.
        thenM (setTakeState p key (Size st + 1) (Some newBound) mb)
          (take_emit p me push (AddChange node)))
      else
        (case Bound st of
           None \<Rightarrow> retM []
         | Some b \<Rightarrow>
           bindM (liftM (cmp (Row node) b)) (\<lambda>d.
             if d \<ge> 0 then retM []
             else
               bindM (if take_limit t = 1 then
                        bindM (fetch (start_request c b ''at'' False)) (\<lambda>ns. retM (first_of ns, None))
                      else
                        bindM (fetch (start_request c b ''at'' True)) (\<lambda>ns. retM (first_of ns, second_of ns)))
                 (\<lambda>(boundNode, beforeBoundNode).
                 case boundNode of
                   None \<Rightarrow> failM (Panic ''Take: boundNode must be found during fetch'')
                 | Some bn \<Rightarrow>
                   bindM (liftM (case beforeBoundNode of
                            None \<Rightarrow> Inr (Row node)
                          | Some bb \<Rightarrow> bindR (cmp (Row node) (Row bb)) (\<lambda>d.
                              Inr (if d \<le> 0 then Row bb else Row node)))) (\<lambda>newBound.
                   thenM (setTakeState p key (Size st) (Some newBound) mb)
                     (both (pushWithRowHiddenFromFetch p me push (Row node) (RemoveChange bn))
                       (take_emit p me push (AddChange node))))))))"

text \<open>The scan from the bound on: the last node seen, up to the first beyond the bound.\<close>

fun bound_scan :: "Comparator \<Rightarrow> row \<Rightarrow> (Node \<times> bool) option \<Rightarrow> Node list \<Rightarrow> (Node \<times> bool) option res" where
  "bound_scan cmp b acc [] = Inr acc"
| "bound_scan cmp b acc (n # ns) =
     bindR (cmp (Row n) b) (\<lambda>d. if d > 0 then Inr (Some (n, True)) else bound_scan cmp b (Some (n, False)) ns)"

definition Take_PushRemove ::
  "('s, Take) ref \<Rightarrow> opid \<Rightarrow> 's fetch \<Rightarrow> 's push \<Rightarrow> Take \<Rightarrow> state_key \<Rightarrow> TakeState \<Rightarrow> Constraint option \<Rightarrow>
   Node \<Rightarrow> (panic, 's, Change list) exec"
where
  "Take_PushRemove p me fetch push t key st c node =
     (let cmp = take_compare t; mb = maxBound t in
      case Bound st of
        None \<Rightarrow> retM []
      | Some b \<Rightarrow>
        bindM (liftM (cmp (Row node) b)) (\<lambda>compToBound.
          if compToBound > 0 then retM []
          else
            bindM (fetch (start_request c b ''after'' True)) (\<lambda>before.
            bindM (liftM (case first_of before of
                     None \<Rightarrow> Inr None
                   | Some bb \<Rightarrow> bindR (cmp (Row bb) b) (\<lambda>d. Inr (Some (bb, d > 0))))) (\<lambda>acc.
            bindM (case acc of
                     Some (bb, True) \<Rightarrow> retM acc
                   | _ \<Rightarrow> bindM (fetch (start_request c b ''at'' False)) (\<lambda>ns. liftM (bound_scan cmp b acc ns)))
              (\<lambda>newBound.
              case newBound of
                Some (nb, True) \<Rightarrow>
                  both (take_emit p me push (RemoveChange node))
                    (thenM (setTakeState p key (Size st) (Some (Row nb)) mb)
                      (take_emit p me push (AddChange nb)))
              | _ \<Rightarrow>
                  thenM (case newBound of
                           Some (nb, _) \<Rightarrow> setTakeState p key (Size st - 1) (Some (Row nb)) mb
                         | None \<Rightarrow> setTakeState p key 0 None mb)
                    (take_emit p me push (RemoveChange node)))))))"

text \<open>The three cases of an edit, by the position of the old row relative to the bound.\<close>

definition replaceBoundAndForward ::
  "('s, Take) ref \<Rightarrow> opid \<Rightarrow> 's push \<Rightarrow> Take \<Rightarrow> state_key \<Rightarrow> TakeState \<Rightarrow> Node \<Rightarrow> Node \<Rightarrow>
   (panic, 's, Change list) exec"
where
  "replaceBoundAndForward p me push t key st node old =
     thenM (setTakeState p key (Size st) (Some (Row node)) (maxBound t))
       (take_emit p me push (EditChange node old))"

definition Take_EditBound ::
  "('s, Take) ref \<Rightarrow> opid \<Rightarrow> 's fetch \<Rightarrow> 's push \<Rightarrow> Take \<Rightarrow> state_key \<Rightarrow> TakeState \<Rightarrow> Constraint option \<Rightarrow>
   row \<Rightarrow> int \<Rightarrow> Node \<Rightarrow> Node \<Rightarrow> (panic, 's, Change list) exec"
where
  "Take_EditBound p me fetch push t key st c b newCmp node old =
     (if newCmp = 0 then take_emit p me push (EditChange node old)
      else if newCmp < 0 then
        (if take_limit t = 1 then replaceBoundAndForward p me push t key st node old
         else
           bindM (fetch (start_request c b ''after'' True)) (\<lambda>ns.
             case first_of ns of
               None \<Rightarrow> failM (Panic ''Take.pushEditChange: beforeBoundNode must be found when oldCmp==0, newCmp<0, size>1'')
             | Some bb \<Rightarrow>
                 thenM (setTakeState p key (Size st) (Some (Row bb)) (maxBound t))
                   (take_emit p me push (EditChange node old))))
      else
        bindM (fetch (start_request c b ''at'' False)) (\<lambda>ns.
          case first_of ns of
            None \<Rightarrow> failM (Panic ''Take: newBoundNode must be found during fetch'')
          | Some nb \<Rightarrow>
            bindM (liftM (take_compare t (Row nb) (Row node))) (\<lambda>d.
              if d = 0 then replaceBoundAndForward p me push t key st node old
              else
                thenM (setTakeState p key (Size st) (Some (Row nb)) (maxBound t))
                  (both (pushWithRowHiddenFromFetch p me push (Row nb) (RemoveChange old))
                    (take_emit p me push (AddChange nb))))))"

definition Take_EditOutside ::
  "('s, Take) ref \<Rightarrow> opid \<Rightarrow> 's fetch \<Rightarrow> 's push \<Rightarrow> Take \<Rightarrow> state_key \<Rightarrow> TakeState \<Rightarrow> Constraint option \<Rightarrow>
   row \<Rightarrow> int \<Rightarrow> Node \<Rightarrow> (panic, 's, Change list) exec"
where
  "Take_EditOutside p me fetch push t key st c b newCmp node =
     (if newCmp = 0 then failM (Panic ''Take pushEditChange: newCmp must not be 0 when oldCmp > 0 (duplicate PK)'')
      else if newCmp > 0 then retM []
      else
        bindM (fetch (start_request c b ''at'' True)) (\<lambda>ns.
          case first_of ns of
            None \<Rightarrow> failM (Panic ''Take: oldBoundNode must be found during fetch'')
          | Some ob \<Rightarrow>
            (case second_of ns of
               None \<Rightarrow>
                 thenM (setTakeState p key (Size st + 1) (Some b) (maxBound t))
                   (take_emit p me push (AddChange node))
             | Some nb \<Rightarrow>
                 thenM (setTakeState p key (Size st) (Some (Row nb)) (maxBound t))
                   (both (pushWithRowHiddenFromFetch p me push (Row node) (RemoveChange ob))
                     (take_emit p me push (AddChange node))))))"

definition Take_EditInside ::
  "('s, Take) ref \<Rightarrow> opid \<Rightarrow> 's fetch \<Rightarrow> 's push \<Rightarrow> Take \<Rightarrow> state_key \<Rightarrow> TakeState \<Rightarrow> Constraint option \<Rightarrow>
   row \<Rightarrow> int \<Rightarrow> Node \<Rightarrow> Node \<Rightarrow> (panic, 's, Change list) exec"
where
  "Take_EditInside p me fetch push t key st c b newCmp node old =
     (if newCmp = 0 then failM (Panic ''Take pushEditChange: newCmp must not be 0 when oldCmp < 0 (duplicate PK)'')
      else if newCmp < 0 then take_emit p me push (EditChange node old)
      else
        bindM (fetch (start_request c b ''after'' False)) (\<lambda>ns.
          case first_of ns of
            None \<Rightarrow> failM (Panic ''Take: afterBoundNode must be found during fetch'')
          | Some ab \<Rightarrow>
            bindM (liftM (take_compare t (Row ab) (Row node))) (\<lambda>d.
              if d = 0 then replaceBoundAndForward p me push t key st node old
              else
                both (take_emit p me push (RemoveChange old))
                  (thenM (setTakeState p key (Size st) (Some (Row ab)) (maxBound t))
                    (take_emit p me push (AddChange ab))))))"

definition Take_PushEdit ::
  "('s, Take) ref \<Rightarrow> opid \<Rightarrow> 's fetch \<Rightarrow> 's push \<Rightarrow> Node \<Rightarrow> Node \<Rightarrow> (panic, 's, Change list) exec"
where
  "Take_PushEdit p me fetch push node old =
     bindM (getM (rd p)) (\<lambda>t.
     bindM (liftM (if partitionKey t = [] then Inr 0
                   else MakePartitionKeyComparator (partitionKey t) (Row old) (Row node))) (\<lambda>pc.
       if pc \<noteq> 0 then failM (Panic ''Unexpected change of partition key'')
       else
         let key = GetTakeStateKey (partitionKey t) (Some (Row old));
             c = partition_constraint (partitionKey t) (Row old) in
         (case states t key of
            None \<Rightarrow> retM []
          | Some st \<Rightarrow>
            (case Bound st of
               None \<Rightarrow> failM (Panic ''Bound should be set'')
             | Some b \<Rightarrow>
               bindM (liftM (take_compare t (Row old) b)) (\<lambda>oldCmp.
               bindM (liftM (take_compare t (Row node) b)) (\<lambda>newCmp.
                 if oldCmp = 0 then Take_EditBound p me fetch push t key st c b newCmp node old
                 else if oldCmp > 0 then Take_EditOutside p me fetch push t key st c b newCmp node
                 else Take_EditInside p me fetch push t key st c b newCmp node old))))))"

definition Take_Push ::
  "('s, Take) ref \<Rightarrow> opid \<Rightarrow> 's fetch \<Rightarrow> 's push \<Rightarrow> Change \<Rightarrow> (panic, 's, Change list) exec"
where
  "Take_Push p me fetch push change =
     (case change of
        EditChange node old \<Rightarrow> Take_PushEdit p me fetch push node old
      | _ \<Rightarrow>
        bindM (getM (rd p)) (\<lambda>t.
          let r = Row (change_node change);
              key = GetTakeStateKey (partitionKey t) (Some r);
              c = partition_constraint (partitionKey t) r in
          (case states t key of
             None \<Rightarrow> retM []
           | Some st \<Rightarrow>
             (case change of
                AddChange node \<Rightarrow> Take_PushAdd p me fetch push t key st c node
              | RemoveChange node \<Rightarrow> Take_PushRemove p me fetch push t key st c node
              | ChildChange node name ch \<Rightarrow>
                (case Bound st of
                   None \<Rightarrow> retM []
                 | Some b \<Rightarrow> bindM (liftM (take_compare t (Row node) b)) (\<lambda>d.
                     if d \<le> 0 then take_emit p me push change else retM []))))))"

section \<open>The window\<close>

text \<open>The state describes the window of the contents \<open>xs\<close>.\<close>

definition window_ok :: "row set \<Rightarrow> SourceSchema \<Rightarrow> int \<Rightarrow> Node list \<Rightarrow> TakeState \<Rightarrow> bool" where
  "window_ok S schema limit xs st \<longleftrightarrow>
     Size st = int (length (take (nat limit) xs)) \<and>
     (case Bound st of
        None \<Rightarrow> xs = []
      | Some b \<Rightarrow> xs \<noteq> [] \<and> b \<in> S \<and> cval (CompareRows schema) b (Row (last (take (nat limit) xs))) = 0)"

text \<open>The node whose partition a push looks up: the old one of an edit.\<close>

fun match_row :: "Change \<Rightarrow> Node" where
  "match_row (EditChange _ old) = old"
| "match_row ch = change_node ch"

fun nodes_of :: "Change \<Rightarrow> Node set" where
  "nodes_of (EditChange n old) = {n, old}"
| "nodes_of ch = {change_node ch}"

text \<open>
  The operator in its place: a sorted input, and an output that logs what it gets and leaves the
  operator alone, as long as the nodes are \<open>sendable\<close>.
\<close>

definition take_setup :: "Take \<Rightarrow> SourceSchema \<times> int \<times> string list \<times> Output" where
  "take_setup t = (take_schema t, take_limit t, partitionKey t, take_output t)"

lemma take_setup_kept [simp]:
  "take_setup (SetTakeState key st t) = take_setup t" "take_setup (SetMaxBound b t) = take_setup t"
  "take_setup (t\<lparr>rowHiddenFromFetch := r\<rparr>) = take_setup t"
  by (simp_all add: take_setup_def SetTakeState_def SetMaxBound_def)

locale take_context = pointer p + sorted_input schema S fetch good view
  for p :: "('s, Take) ref" and schema :: SourceSchema and S :: "row set" and fetch :: "'s fetch"
    and good :: "'s \<Rightarrow> bool" and view :: "'s \<Rightarrow> Constraint option \<Rightarrow> Node list" +
  fixes me :: opid and push :: "'s push" and log :: "'s \<Rightarrow> Change list" and sendable :: "Node \<Rightarrow> bool"
  assumes wr_frame: "take_setup t = take_setup (rd p s) \<Longrightarrow> good (wr p t s) = good s"
      "view (wr p t s) = view s" "log (wr p t s) = log s"
    and push: "good s \<Longrightarrow> \<forall>n\<in>nodes_of ch. sendable n \<Longrightarrow> \<exists>s'. push (take_output (rd p s)) ch me s = (Inr [], s') \<and> good s' \<and>
      log s' = log s @ [ch] \<and> rd p s' = rd p s \<and> view s' = view s"
begin

abbreviation ncmp :: "Node \<Rightarrow> Node \<Rightarrow> int res" where
  "ncmp \<equiv> node_cmp schema"

lemma cmp_leaf: "cval (CompareRows schema) (Row n) b = cval ncmp n (leaf b)"
  "cval (CompareRows schema) b (Row n) = cval ncmp (leaf b) n"
  by (simp_all add: cval_def node_cmp_def)

lemma cmp_rows: "a \<in> S \<Longrightarrow> b \<in> S \<Longrightarrow> CompareRows schema a b = Inr (cval (CompareRows schema) a b)"
  using nodes.cmp_Inr [of "leaf a" "leaf b"] by (simp add: node_cmp_def cval_def)

text \<open>A step that ends normally, sends \<open>cs\<close> and leaves \<open>st\<close> as the state of the key.\<close>

definition sends ::
  "(panic, 's, Change list) exec \<Rightarrow> 's \<Rightarrow> state_key \<Rightarrow> Change list \<Rightarrow> TakeState \<Rightarrow> bool" where
  "sends m s key cs st \<longleftrightarrow> (\<forall>ch\<in>set cs. \<forall>n\<in>nodes_of ch. sendable n) \<longrightarrow>
     (\<exists>s'. m s = (Inr [], s') \<and> good s' \<and> view s' = view s \<and> log s' = log s @ cs \<and>
       states (rd p s') key = Some st)"

definition bounded :: "row option \<Rightarrow> bool" where
  "bounded mb \<longleftrightarrow> (\<forall>m. mb = Some m \<longrightarrow> m \<in> S)"

lemma emit_run:
  assumes "good s" "\<forall>n\<in>nodes_of ch. sendable n"
  obtains s' where "take_emit p me push ch s = (Inr [], s')" "good s'" "log s' = log s @ [ch]"
    "rd p s' = rd p s" "view s' = view s"
  using push [OF assms] by (auto simp: take_emit_def)

lemma sends_emit:
  assumes "good s" "states (rd p s) key = Some st"
  shows "sends (take_emit p me push ch) s key [ch] st"
  unfolding sends_def
proof
  assume "\<forall>ch\<in>set [ch]. \<forall>n\<in>nodes_of ch. sendable n"
  then have ok: "\<forall>n\<in>nodes_of ch. sendable n" by simp
  show "\<exists>s'. take_emit p me push ch s = (Inr [], s') \<and> good s' \<and> view s' = view s \<and> log s' = log s @ [ch] \<and>
      states (rd p s') key = Some st"
    by (rule emit_run [OF assms(1) ok]) (use assms(2) in simp)
qed

lemma set_run:
  assumes "take_schema (rd p s) = schema" "b \<in> S" "bounded mb"
  obtains t where "setTakeState p key sz (Some b) mb s = (Inr (), wr p t s)"
    "states t key = Some \<lparr>Size = sz, Bound = Some b\<rparr>" "take_setup t = take_setup (rd p s)"
proof -
  let ?t = "SetTakeState key \<lparr>Size = sz, Bound = Some b\<rparr> (rd p s)"
  have schema: "take_schema ?t = schema" using assms by (simp add: SetTakeState_def)
  obtain r where "(case mb of None \<Rightarrow> Inr True
      | Some m \<Rightarrow> bindR (take_compare ?t b m) (\<lambda>c. Inr (c > 0))) = (Inr r :: bool res)"
    using assms schema cmp_rows [of b] by (cases mb) (auto simp: take_compare_def bounded_def)
  then have "setTakeState p key sz (Some b) mb s = (Inr (), wr p (if r then SetMaxBound b ?t else ?t) s)"
    by (cases mb) (simp_all add: setTakeState_def)
  then show thesis
    by (rule that) (simp_all, simp_all add: SetTakeState_def SetMaxBound_def)
qed

lemma sends_set_emit:
  assumes "good s" "take_schema (rd p s) = schema" "b \<in> S" "bounded mb"
  shows "sends (thenM (setTakeState p key sz (Some b) mb) (take_emit p me push ch)) s key [ch]
    \<lparr>Size = sz, Bound = Some b\<rparr>"
proof -
  obtain t where t: "setTakeState p key sz (Some b) mb s = (Inr (), wr p t s)"
    "states t key = Some \<lparr>Size = sz, Bound = Some b\<rparr>" "take_setup t = take_setup (rd p s)"
    using set_run [OF assms(2-)] by blast
  have "sends (take_emit p me push ch) (wr p t s) key [ch] \<lparr>Size = sz, Bound = Some b\<rparr>"
    using assms(1) t(2,3) by (intro sends_emit) (simp_all add: wr_frame)
  with t(1) show ?thesis by (simp add: sends_def wr_frame)
qed

lemma hidden_run:
  assumes "good s" "states (rd p s) key = Some st"
  shows "sends (pushWithRowHiddenFromFetch p me push r ch) s key [ch] st"
  unfolding sends_def
proof
  let ?s = "wr p ((rd p s)\<lparr>rowHiddenFromFetch := Some r\<rparr>) s"
  assume "\<forall>ch\<in>set [ch]. \<forall>n\<in>nodes_of ch. sendable n"
  then obtain s' where "take_emit p me push ch ?s = (Inr [], s')" "good s'" "log s' = log s @ [ch]"
    "rd p s' = (rd p s)\<lparr>rowHiddenFromFetch := Some r\<rparr>" "view s' = view s"
    using emit_run [of ?s ch] assms(1) by (auto simp: wr_frame)
  with assms(2) show "\<exists>s'. pushWithRowHiddenFromFetch p me push r ch s = (Inr [], s') \<and> good s' \<and> view s' = view s \<and>
      log s' = log s @ [ch] \<and> states (rd p s') key = Some st"
    by (simp add: pushWithRowHiddenFromFetch_def wr_frame)
qed

lemma sends_both:
  assumes first: "sends m s key [ch] st"
    and rest: "\<And>s'. good s' \<Longrightarrow> view s' = view s \<Longrightarrow> states (rd p s') key = Some st \<Longrightarrow> sends m' s' key [ch'] st'"
  shows "sends (both m m') s key [ch, ch'] st'"
  unfolding sends_def
proof
  assume "\<forall>ch\<in>set [ch, ch']. \<forall>n\<in>nodes_of ch. sendable n"
  with first obtain s1 where s1: "m s = (Inr [], s1)" "good s1" "view s1 = view s" "log s1 = log s @ [ch]"
    "states (rd p s1) key = Some st" and ok: "\<forall>ch\<in>set [ch']. \<forall>n\<in>nodes_of ch. sendable n"
    by (auto simp: sends_def)
  from rest [OF s1(2,3,5)] ok s1 show "\<exists>s'. both m m' s = (Inr [], s') \<and> good s' \<and> view s' = view s \<and>
      log s' = log s @ [ch, ch'] \<and> states (rd p s') key = Some st'"
    by (auto simp: sends_def both_def)
qed

lemma sends_set_both:
  assumes "good s" "take_schema (rd p s) = schema" "b \<in> S" "bounded mb"
  shows "sends (thenM (setTakeState p key sz (Some b) mb)
      (both (pushWithRowHiddenFromFetch p me push r ch) (take_emit p me push ch'))) s key [ch, ch']
    \<lparr>Size = sz, Bound = Some b\<rparr>"
proof -
  let ?st = "\<lparr>Size = sz, Bound = Some b\<rparr>"
  obtain t where t: "setTakeState p key sz (Some b) mb s = (Inr (), wr p t s)" "states t key = Some ?st"
    "take_setup t = take_setup (rd p s)"
    using set_run [OF assms(2-)] by blast
  have "sends (both (pushWithRowHiddenFromFetch p me push r ch) (take_emit p me push ch')) (wr p t s) key [ch, ch'] ?st"
    by (rule sends_both [OF hidden_run sends_emit]) (use assms(1) t(2,3) in \<open>simp_all add: wr_frame\<close>)
  with t(1) show ?thesis by (simp add: sends_def wr_frame)
qed

lemma sends_emit_set_emit:
  assumes "good s" "take_schema (rd p s) = schema" "b \<in> S" "bounded mb"
  shows "sends (both (take_emit p me push ch)
      (thenM (setTakeState p key sz (Some b) mb) (take_emit p me push ch'))) s key [ch, ch']
    \<lparr>Size = sz, Bound = Some b\<rparr>"
  unfolding sends_def
proof
  assume ok: "\<forall>ch\<in>set [ch, ch']. \<forall>n\<in>nodes_of ch. sendable n"
  obtain s1 where s1: "take_emit p me push ch s = (Inr [], s1)" "good s1" "log s1 = log s @ [ch]"
    "rd p s1 = rd p s" "view s1 = view s"
    using emit_run [OF assms(1), of ch] ok by auto
  with sends_set_emit [OF s1(2), of b mb key sz ch'] assms ok
  show "\<exists>s'. both (take_emit p me push ch) (thenM (setTakeState p key sz (Some b) mb) (take_emit p me push ch')) s =
      (Inr [], s') \<and> good s' \<and> view s' = view s \<and> log s' = log s @ [ch, ch'] \<and>
      states (rd p s') key = Some \<lparr>Size = sz, Bound = Some b\<rparr>"
    by (auto simp: sends_def both_def)
qed

end

text \<open>Lists around a bound: what precedes it, what is level with it, what follows it.\<close>

context take_context
begin

definition around :: "row \<Rightarrow> Node list \<Rightarrow> Node list \<Rightarrow> Node list \<Rightarrow> bool" where
  "around b A M R \<longleftrightarrow> b \<in> S \<and> Row ` set (A @ M @ R) \<subseteq> S \<and>
     (\<forall>x\<in>set A. cval ncmp x (leaf b) < 0) \<and> (\<forall>x\<in>set M. cval ncmp x (leaf b) = 0) \<and>
     (\<forall>x\<in>set R. cval ncmp x (leaf b) > 0)"

lemma fetch_around:
  assumes "good s" "view s c = A @ M @ R" "around b A M R"
  shows "fetch (start_request c b ''at'' False) s = (Inr (M @ R), s)"
    and "fetch (start_request c b ''after'' False) s = (Inr R, s)"
    and "fetch (start_request c b ''at'' True) s = (Inr (rev (A @ M)), s)"
    and "fetch (start_request c b ''after'' True) s = (Inr (rev A), s)"
proof -
  have sel: "fetch (start_request c b basis rv) s =
      (Inr (select_nodes (CompareRows schema) (start_request c b basis rv) (A @ M @ R)), s)"
    if "basis = ''at'' \<or> basis = ''after''" for basis rv
    using fetch [OF assms(1), of "start_request c b basis rv"] assms(2,3) that
    by (simp add: start_request_def around_def proper_request_def)
  have A: "\<forall>x\<in>set A. cval ncmp x (leaf b) < 0" and M: "\<forall>x\<in>set M. cval ncmp x (leaf b) = 0"
    and R: "\<forall>x\<in>set R. cval ncmp x (leaf b) > 0"
    using assms(3) by (simp_all add: around_def)
  have lr: "filter (\<lambda>n. 0 \<le> cval ncmp n (leaf b)) (A @ M @ R) = M @ R"
    "filter (\<lambda>n. 0 < cval ncmp n (leaf b)) (A @ M @ R) = R"
    "filter (\<lambda>n. cval ncmp n (leaf b) \<le> 0) (A @ M @ R) = A @ M"
    "filter (\<lambda>n. cval ncmp n (leaf b) < 0) (A @ M @ R) = A"
    using A M R by (simp_all add: less_imp_le filter_id_conv filter_empty_conv not_le not_less)
  show "fetch (start_request c b ''at'' False) s = (Inr (M @ R), s)"
    "fetch (start_request c b ''after'' False) s = (Inr R, s)"
    "fetch (start_request c b ''at'' True) s = (Inr (rev (A @ M)), s)"
    "fetch (start_request c b ''after'' True) s = (Inr (rev A), s)"
    unfolding sel [of "''at''", simplified] sel [of "''after''", simplified]
    by (simp_all add: select_nodes_def start_request_def start_pos_def [abs_def] cmp_leaf Let_def lr
        del: filter_append rev_append)
qed

text \<open>Where a node lies relative to a bound decides where a change acts.\<close>

lemma around_rows: "around b A M R \<Longrightarrow> x \<in> set (A @ M @ R) \<Longrightarrow> Row x \<in> S"
  by (auto simp: around_def)

lemma around_bound: "around b A M R \<Longrightarrow> Row (leaf b) \<in> S"
  by (simp add: around_def)

lemma above_all:
  assumes "around b A M R" "Row n \<in> S" "cval ncmp n (leaf b) > 0" "x \<in> set (A @ M)"
  shows "ltc ncmp x n"
proof -
  have "Row x \<in> S" "cval ncmp x (leaf b) \<le> 0"
    using assms(4) around_rows [OF assms(1), of x] assms(1) by (auto simp: around_def)
  with assms nodes.le_lt_trans [of x "leaf b" n] nodes.antisym [of n "leaf b"] around_bound
  show ?thesis by (simp add: ltc_def)
qed

lemma below_all:
  assumes "around b A M R" "Row n \<in> S" "cval ncmp n (leaf b) < 0" "x \<in> set (M @ R)"
  shows "ltc ncmp n x"
proof -
  have "Row x \<in> S" "cval ncmp x (leaf b) \<ge> 0"
    using assms(4) around_rows [OF assms(1), of x] assms(1) by (auto simp: around_def)
  with assms nodes.lt_le_trans [of n "leaf b" x] nodes.antisym [of x "leaf b"] around_bound
  show ?thesis by (simp add: ltc_def)
qed

lemma level_all:
  assumes "around b A M R" "Row n \<in> S" "cval ncmp n (leaf b) = 0"
  shows "\<And>x. x \<in> set A \<Longrightarrow> ltc ncmp x n" "\<And>x. x \<in> set R \<Longrightarrow> ltc ncmp n x"
proof -
  have B: "Row (leaf b) \<in> S" using assms(1) by (rule around_bound)
  have sym: "cval ncmp (leaf b) n = 0" using nodes.eq_sym [of n "leaf b"] assms(2,3) B by simp
  show "ltc ncmp x n" if "x \<in> set A" for x
    using that assms(1) sym nodes.lt_le_trans [of x "leaf b" n] around_rows [OF assms(1), of x] assms(2) B
    by (simp add: around_def ltc_def)
  show "ltc ncmp n x" if "x \<in> set R" for x
  proof -
    have "Row x \<in> S" "cval ncmp x (leaf b) > 0"
      using that assms(1) around_rows [OF assms(1), of x] by (auto simp: around_def)
    then show ?thesis
      using assms(2,3) B nodes.le_lt_trans [of n "leaf b" x] nodes.antisym [of x "leaf b"]
      by (simp add: ltc_def)
  qed
qed

lemma around_insert:
  assumes "around b A M R" "Row n \<in> S"
  shows "cval ncmp n (leaf b) < 0 \<Longrightarrow> around b (insert_by ncmp n A) M R"
    and "cval ncmp n (leaf b) > 0 \<Longrightarrow> around b A M (insert_by ncmp n R)"
    and "cval ncmp n (leaf b) = 0 \<Longrightarrow> around b A [n] R"
  using assms by (auto simp: around_def)

lemma around_remove:
  assumes "around b A M R"
  shows "around b (remove_by ncmp n A) M R" "around b A (remove_by ncmp n M) R"
    "around b A M (remove_by ncmp n R)" "around b A [] R"
  using assms by (auto simp: around_def set_remove_by)

lemma insert_around:
  assumes "around b A M R" "Row n \<in> S"
  shows "cval ncmp n (leaf b) < 0 \<Longrightarrow> insert_by ncmp n (A @ M @ R) = insert_by ncmp n A @ M @ R"
    and "cval ncmp n (leaf b) > 0 \<Longrightarrow> insert_by ncmp n (A @ M @ R) = A @ M @ insert_by ncmp n R"
    and "cval ncmp n (leaf b) = 0 \<Longrightarrow> insert_by ncmp n (A @ R) = A @ [n] @ R"
proof -
  have sub: "set (M @ R) \<subseteq> {n. Row n \<in> S}" "set R \<subseteq> {n. Row n \<in> S}"
    using assms(1) by (auto simp: around_def)
  show "insert_by ncmp n (A @ M @ R) = insert_by ncmp n A @ M @ R" if "cval ncmp n (leaf b) < 0"
    using nodes.insert_by_left [OF _ sub(1), of n A] below_all [OF assms that] assms(2) by simp
  show "insert_by ncmp n (A @ M @ R) = A @ M @ insert_by ncmp n R" if "cval ncmp n (leaf b) > 0"
    using nodes.insert_by_right [of "A @ M" n R] above_all [OF assms that] by simp
  show "insert_by ncmp n (A @ R) = A @ [n] @ R" if "cval ncmp n (leaf b) = 0"
    using nodes.insert_by_right [of A n R] nodes.insert_by_left [OF _ sub(2), of n "[]"]
      level_all [OF assms that] assms(2) by simp
qed

lemma remove_around:
  assumes "around b A M R" "Row n \<in> S"
  shows "cval ncmp n (leaf b) < 0 \<Longrightarrow> remove_by ncmp n (A @ M @ R) = remove_by ncmp n A @ M @ R"
    and "cval ncmp n (leaf b) > 0 \<Longrightarrow> remove_by ncmp n (A @ M @ R) = A @ M @ remove_by ncmp n R"
    and "cval ncmp n (leaf b) = 0 \<Longrightarrow> remove_by ncmp n (A @ M @ R) = A @ remove_by ncmp n M @ R"
proof -
  have sub: "set A \<subseteq> {n. Row n \<in> S}" "set M \<subseteq> {n. Row n \<in> S}" "set R \<subseteq> {n. Row n \<in> S}"
    using assms(1) by (auto simp: around_def)
  note apart = nodes.remove_by_apart [of n, OF _ sub(1)] nodes.remove_by_apart [of n, OF _ sub(2)]
    nodes.remove_by_apart [of n, OF _ sub(3)]
  show "remove_by ncmp n (A @ M @ R) = remove_by ncmp n A @ M @ R" if "cval ncmp n (leaf b) < 0"
    using apart below_all [OF assms that] assms(2) by (simp add: nodes.remove_by_append)
  show "remove_by ncmp n (A @ M @ R) = A @ M @ remove_by ncmp n R" if "cval ncmp n (leaf b) > 0"
    using apart above_all [OF assms that] assms(2) by (simp add: nodes.remove_by_append)
  show "remove_by ncmp n (A @ M @ R) = A @ remove_by ncmp n M @ R" if "cval ncmp n (leaf b) = 0"
    using apart level_all [OF assms that] assms(2) by (simp add: nodes.remove_by_append)
qed

text \<open>The window of sorted contents, cut at the bound.\<close>

lemma window_split:
  assumes "window_ok S schema (int L) xs st" "Bound st = Some b" "1 \<le> L"
    and "sorted_by ncmp xs" "Row ` set xs \<subseteq> S"
  obtains A m R where "xs = A @ [m] @ R" "take L xs = A @ [m]" "around b A [m] R"
    "R = [] \<or> length (A @ [m]) = L" "length (A @ [m]) \<le> L" "Size st = int (length (A @ [m]))"
proof -
  have ne: "take L xs \<noteq> []" and b: "b \<in> S" "cval (CompareRows schema) b (Row (last (take L xs))) = 0"
    and size: "Size st = int (length (take L xs))"
    using assms(1-3) by (auto simp: window_ok_def)
  define A m R where "A = butlast (take L xs)" and "m = last (take L xs)" and "R = drop L xs"
  have parts: "take L xs = A @ [m]" "xs = A @ [m] @ R"
    using append_butlast_last_id [OF ne] append_take_drop_id [of L xs]
    by (simp_all only: A_def m_def R_def append_assoc [symmetric])
  have inS: "m \<in> {n. Row n \<in> S}" "leaf b \<in> {n. Row n \<in> S}" "\<And>x. x \<in> set (A @ R) \<Longrightarrow> x \<in> {n. Row n \<in> S}"
    using assms(5) parts(2) b by auto
  have level: "cval ncmp (leaf b) m = 0" "cval ncmp m (leaf b) = 0"
    using b(2) nodes.eq_sym [of "leaf b" m] inS by (simp_all add: cmp_leaf m_def)
  have order: "\<And>x. x \<in> set A \<Longrightarrow> ltc ncmp x m" "\<And>x. x \<in> set R \<Longrightarrow> ltc ncmp m x"
    using assms(4) unfolding parts(2) by (auto simp: nodes.sorted_by_append nodes.sorted_by_Cons)
  have "around b A [m] R"
    unfolding around_def
    using b(1) inS level order nodes.eq_right_lt [OF inS(1,2)] nodes.gt_iff nodes.eq_left_lt [OF inS(1,2)]
    by (auto simp: ltc_def)
  moreover have "R = [] \<or> length (A @ [m]) = L" "length (A @ [m]) \<le> L"
    using arg_cong [OF parts(1), of length] by (auto simp: R_def)
  ultimately show thesis using that [OF parts(2,1)] size parts(1) by simp
qed

text \<open>A push moves the window: what it sends and what it stores agree on the new window.\<close>

definition moves ::
  "(panic, 's, Change list) exec \<Rightarrow> 's \<Rightarrow> state_key \<Rightarrow> nat \<Rightarrow> Node list \<Rightarrow> Node list \<Rightarrow> bool" where
  "moves m s key L xs ys \<longleftrightarrow>
     (\<exists>cs st. sends m s key cs st \<and> (\<forall>ch\<in>set cs. nodes_of ch \<subseteq> set xs \<union> set ys) \<and>
       foldl (\<lambda>zs ch. apply_change schema ch zs) (take L xs) cs = take L ys \<and>
       window_ok S schema (int L) ys st)"

lemma movesI:
  assumes "sends m s key cs \<lparr>Size = int (length W), Bound = Some b\<rparr>"
    and "foldl (\<lambda>zs ch. apply_change schema ch zs) (take L xs) cs = W"
    and "ys = W @ R" "R = [] \<or> length W = L" "length W \<le> L" "W \<noteq> []"
    and "b \<in> S" "cval ncmp (leaf b) (last W) = 0" and "\<forall>ch\<in>set cs. nodes_of ch \<subseteq> set xs \<union> set ys"
  shows "moves m s key L xs ys"
proof -
  have "take L ys = W" using assms(3-5) by auto
  with assms show ?thesis
    unfolding moves_def window_ok_def
    by (intro exI [of _ cs] exI [of _ "\<lparr>Size = int (length W), Bound = Some b\<rparr>"]) (auto simp: cmp_leaf)
qed

end

section \<open>Every push moves the window\<close>

context take_context
begin

text \<open>The operator before a push to a partition it has a state for.\<close>

definition ready :: "'s \<Rightarrow> state_key \<Rightarrow> nat \<Rightarrow> Node list \<Rightarrow> TakeState \<Rightarrow> bool" where
  "ready s key L xs st \<longleftrightarrow>
     good s \<and> take_schema (rd p s) = schema \<and> take_limit (rd p s) = int L \<and> 1 \<le> L \<and>
     bounded (maxBound (rd p s)) \<and> states (rd p s) key = Some st \<and>
     window_ok S schema (int L) xs st \<and> sorted_by ncmp xs \<and> Row ` set xs \<subseteq> S"

lemma readyD:
  assumes "ready s key L xs st"
  shows "good s" "take_schema (rd p s) = schema" "take_limit (rd p s) = int L" "1 \<le> L"
    "bounded (maxBound (rd p s))" "states (rd p s) key = Some st" "window_ok S schema (int L) xs st"
    "sorted_by ncmp xs" "Row ` set xs \<subseteq> S" "take_compare (rd p s) = CompareRows schema"
  using assms by (simp_all add: ready_def take_compare_def)

lemma row_cmp: "Row x \<in> S \<Longrightarrow> b \<in> S \<Longrightarrow> CompareRows schema (Row x) b = Inr (cval ncmp x (leaf b))"
  and cmp_row: "Row x \<in> S \<Longrightarrow> b \<in> S \<Longrightarrow> CompareRows schema b (Row x) = Inr (cval ncmp (leaf b) x)"
  and node_cmps: "Row x \<in> S \<Longrightarrow> Row y \<in> S \<Longrightarrow> CompareRows schema (Row x) (Row y) = Inr (cval ncmp x y)"
  using cmp_rows [of "Row x" b] cmp_rows [of b "Row x"] cmp_rows [of "Row x" "Row y"]
  by (simp_all add: cmp_leaf node_cmp_def [abs_def] cval_def)

lemma cmp_leaf_Row [simp]: "cval ncmp x (leaf (Row y)) = cval ncmp x y" "cval ncmp (leaf (Row x)) y = cval ncmp x y"
  by (simp_all add: node_cmp_def cval_def)

lemma leaf_row: "Row x \<in> S \<Longrightarrow> cval ncmp (leaf (Row x)) x = 0"
  using nodes.refl [of x] by (simp add: node_cmp_def cval_def)

lemma ready_split:
  assumes "ready s key L xs st" "Bound st = Some b"
  obtains A m R where "xs = A @ [m] @ R" "take L xs = A @ [m]" "around b A [m] R"
    "R = [] \<or> length (A @ [m]) = L" "length (A @ [m]) \<le> L" "Size st = int (length (A @ [m]))"
  using window_split [OF readyD(7) [OF assms(1)] assms(2) readyD(4,8,9) [OF assms(1)]] by blast

lemma unmoved:
  assumes "ready s key L xs st" "take L ys = take L xs" "ys \<noteq> []" "xs \<noteq> []"
  shows "moves (retM []) s key L xs ys"
  unfolding moves_def
proof (intro exI conjI)
  show "sends (retM []) s key [] st"
    using readyD(1,6) [OF assms(1)] by (simp add: sends_def)
  show "window_ok S schema (int L) ys st"
    using readyD(7) [OF assms(1)] assms by (auto simp: window_ok_def split: option.splits)
qed (simp_all add: assms)

text \<open>The last node of what precedes the bound after an insertion there.\<close>

lemma last_before:
  assumes "around b A M R" "sorted_by ncmp A" "Row n \<in> S"
  obtains y where "first_of (rev (insert_by ncmp n A)) = Some y" "last (insert_by ncmp n A) = y"
    "Row y \<in> S" "cval ncmp n y \<le> 0"
proof -
  have ne: "insert_by ncmp n A \<noteq> []" by (metis length_insert_by length_0_conv nat.distinct(1))
  then have "first_of (rev (insert_by ncmp n A)) = Some (last (insert_by ncmp n A))"
    by (cases "insert_by ncmp n A" rule: rev_cases) (simp_all add: first_of_def)
  moreover have "last (insert_by ncmp n A) \<in> insert n (set A)"
    using last_in_set [OF ne] by simp
  then have "Row (last (insert_by ncmp n A)) \<in> S" using assms by (auto simp: around_def)
  moreover have "cval ncmp n (last (insert_by ncmp n A)) \<le> 0"
    using assms by (intro nodes.last_insert_by) (auto simp: around_def)
  ultimately show thesis using that by blast
qed

lemma second_of_Cons [simp]: "second_of (x # xs) = first_of xs"
  by (cases xs) (simp_all add: second_of_def first_of_def)

lemma first_of_simps [simp]: "first_of [] = None" "first_of (x # xs) = Some x"
  by (simp_all add: first_of_def)

lemma push_add:
  assumes ready: "ready s key L xs st" and n: "Row n \<in> S" "\<forall>x\<in>set xs. cval ncmp n x \<noteq> 0"
    and view: "view s c = insert_by ncmp n xs"
  shows "moves (Take_PushAdd p me fetch push (rd p s) key st c n) s key L xs (insert_by ncmp n xs)"
proof (cases "Bound st")
  case None
  then have xs: "xs = []" and size: "Size st = 0" "0 < L"
    using readyD(4,7) [OF ready] by (auto simp: window_ok_def)
  have "Take_PushAdd p me fetch push (rd p s) key st c n =
      thenM (setTakeState p key 1 (Some (Row n)) (maxBound (rd p s))) (take_emit p me push (AddChange n))"
    using None size readyD(3) [OF ready] by (auto simp: Take_PushAdd_def fun_eq_iff Let_def)
  then show ?thesis
    using xs size n(1) sends_set_emit [OF readyD(1,2) [OF ready] n(1) readyD(5) [OF ready]] leaf_row [OF n(1)]
    by (intro movesI [where W = "[n]" and R = "[]" and cs = "[AddChange n]" and b = "Row n"]) simp_all
next
  case (Some b)
  note R = readyD [OF ready]
  obtain A m R where parts: "xs = A @ [m] @ R" "take L xs = A @ [m]" "around b A [m] R"
    "R = [] \<or> length (A @ [m]) = L" "length (A @ [m]) \<le> L" "Size st = int (length (A @ [m]))"
    using ready_split [OF ready Some] by blast
  have b: "b \<in> S" and m: "Row m \<in> S" "cval ncmp m (leaf b) = 0" "cval ncmp (leaf b) m = 0"
    using parts(3) nodes.eq_sym [of m "leaf b"] by (auto simp: around_def)
  have sortedA: "sorted_by ncmp A" and ltm: "\<forall>x\<in>set A. ltc ncmp x m"
    using R(8) unfolding parts(1) by (auto simp: nodes.sorted_by_append)
  have ne: "cval ncmp n (leaf b) \<noteq> 0"
    using n nodes.eq_left_eq [of n "leaf b" m] b m parts(1) by auto
  have flip: "cval ncmp (leaf b) n = - cval ncmp n (leaf b)"
    using nodes.antisym [of n "leaf b"] n(1) b by simp
  note ins = insert_around [OF parts(3) n(1), folded parts(1)]
  let ?send = "\<lambda>nb sz. thenM (setTakeState p key sz (Some nb) (maxBound (rd p s))) (take_emit p me push (AddChange n))"
  consider (grow) "length (A @ [m]) < L" | (full) "length (A @ [m]) = L" using parts(5) by linarith
  then show ?thesis
  proof cases
    case grow
    then have none: "R = []" using parts(4) by auto
    have run: "Take_PushAdd p me fetch push (rd p s) key st c n s =
        ?send (if cval ncmp (leaf b) n < 0 then Row n else b) (Size st + 1) s"
      using grow parts(6) R(3,10) Some n(1) b by (simp add: Take_PushAdd_def cmp_row Let_def)
    show ?thesis
    proof (cases "cval ncmp n (leaf b) < 0")
      case True
      then show ?thesis
        using run flip ins(1) none grow parts(2,6) sends_set_emit [OF R(1,2) b R(5)] b m(3)
        by (intro movesI [where W = "insert_by ncmp n A @ [m]" and R = "[]" and cs = "[AddChange n]" and b = b])
          (simp_all add: sends_def parts(1))
    next
      case False
      then show ?thesis
        using run flip ne ins(2) none grow parts(2,6) sends_set_emit [OF R(1,2) n(1) R(5)] n(1) leaf_row [OF n(1)]
        by (intro movesI [where W = "A @ [m, n]" and R = "[]" and cs = "[AddChange n]" and b = "Row n"])
          (simp_all add: sends_def parts(1))
    qed
  next
    case full
    show ?thesis
    proof (cases "cval ncmp n (leaf b) < 0")
      case False
      then have "Take_PushAdd p me fetch push (rd p s) key st c n s = retM [] s"
        using full parts(6) R(3,10) Some n(1) b by (simp add: Take_PushAdd_def row_cmp Let_def)
      moreover have "L - length A = Suc 0" using full by simp
      then have "moves (retM []) s key L xs (insert_by ncmp n xs)"
        using False ne ins(2) full parts(1) by (intro unmoved [OF ready]) simp_all
      ultimately show ?thesis by (simp add: moves_def sends_def)
    next
      case True
      obtain y where y: "first_of (rev (insert_by ncmp n A)) = Some y" "last (insert_by ncmp n A) = y"
        "Row y \<in> S" "cval ncmp n y \<le> 0"
        using last_before [OF parts(3) sortedA n(1)] by blast
      note around' = around_insert(1) [OF parts(3) n(1) True]
      have viewV: "view s c = insert_by ncmp n A @ [m] @ R" using view ins(1) [OF True] by simp
      note fetches = fetch_around [OF R(1) viewV around']
      define nb where "nb = (if L = 1 then Row n else Row y)"
      have "L = 1 \<Longrightarrow> A = []" using full by simp
      then have nb: "nb \<in> S" "cval ncmp (leaf nb) (last (insert_by ncmp n A)) = 0"
        using n(1) y(2,3) leaf_row by (auto simp: nb_def)
      have run: "Take_PushAdd p me fetch push (rd p s) key st c n s =
          thenM (setTakeState p key (Size st) (Some nb) (maxBound (rd p s)))
            (both (pushWithRowHiddenFromFetch p me push (Row n) (RemoveChange m))
              (take_emit p me push (AddChange n))) s"
        using full parts(6) R(3,10) Some n(1) b True fetches(1,3) y
        by (cases "L = 1") (simp_all add: Take_PushAdd_def row_cmp node_cmps Let_def nb_def)
      have "remove_by ncmp m (A @ [m]) = A"
        using nodes.remove_by_apart [of m A] ltm m(1) around_rows [OF parts(3)] nodes.refl [of m]
        by (simp add: nodes.remove_by_append remove_by_Cons subset_eq)
      moreover have "length (insert_by ncmp n A) = L" "insert_by ncmp n A \<noteq> []"
        using full y(1) by auto
      ultimately show ?thesis
        using run parts(2,6) full sends_set_both [OF R(1,2) nb(1) R(5)] nb ins(1) [OF True]
        by (intro movesI [where W = "insert_by ncmp n A" and R = "m # R"
              and cs = "[RemoveChange m, AddChange n]" and b = nb]) (simp_all add: sends_def)
    qed
  qed
qed

lemma bound_scan_around:
  assumes "around b A M R"
  shows "bound_scan (CompareRows schema) b acc (M @ R) =
    Inr (case R of y # _ \<Rightarrow> Some (y, True) | [] \<Rightarrow> if M = [] then acc else Some (last M, False))"
proof -
  have b: "b \<in> S" and M: "\<And>x. x \<in> set M \<Longrightarrow> Row x \<in> S \<and> cval ncmp x (leaf b) = 0"
    and R: "\<And>x. x \<in> set R \<Longrightarrow> Row x \<in> S \<and> cval ncmp x (leaf b) > 0"
    using assms by (auto simp: around_def)
  have R': "bound_scan (CompareRows schema) b acc R =
      Inr (case R of y # _ \<Rightarrow> Some (y, True) | [] \<Rightarrow> acc)" for acc
    using R b by (cases R) (simp_all add: row_cmp)
  have "bound_scan (CompareRows schema) b acc (M @ R) =
      bound_scan (CompareRows schema) b (if M = [] then acc else Some (last M, False)) R"
    using M by (induction M arbitrary: acc) (simp_all add: row_cmp b)
  then show ?thesis unfolding R' by (cases R) simp_all
qed

lemma sends_clear_emit:
  assumes "good s"
  shows "sends (thenM (setTakeState p key sz None mb) (take_emit p me push ch)) s key [ch]
    \<lparr>Size = sz, Bound = None\<rparr>"
proof -
  let ?t = "SetTakeState key \<lparr>Size = sz, Bound = None\<rparr> (rd p s)"
  have "sends (take_emit p me push ch) (wr p ?t s) key [ch] \<lparr>Size = sz, Bound = None\<rparr>"
    using assms by (intro sends_emit) (simp_all add: wr_frame, simp add: SetTakeState_def)
  moreover have "setTakeState p key sz None mb s = (Inr (), wr p ?t s)"
    by (simp add: setTakeState_def)
  ultimately show ?thesis by (simp add: sends_def wr_frame)
qed

lemma Take_PushRemove_run:
  assumes ready: "ready s key L xs st" and b: "Bound st = Some b" and n: "Row n \<in> S" "cval ncmp n (leaf b) \<le> 0"
    and view: "view s c = A @ M @ R" "around b A M R"
  shows "Take_PushRemove p me fetch push (rd p s) key st c n s =
    (case R of
       y # _ \<Rightarrow> both (take_emit p me push (RemoveChange n))
                 (thenM (setTakeState p key (Size st) (Some (Row y)) (maxBound (rd p s)))
                   (take_emit p me push (AddChange y)))
     | [] \<Rightarrow> thenM (if A @ M = [] then setTakeState p key 0 None (maxBound (rd p s))
                    else setTakeState p key (Size st - 1) (Some (Row (last (A @ M)))) (maxBound (rd p s)))
               (take_emit p me push (RemoveChange n))) s"
proof -
  note Rd = readyD [OF ready]
  note fetches = fetch_around [OF Rd(1) view]
  have bS: "b \<in> S" using view(2) by (simp add: around_def)
  have d: "CompareRows schema (Row n) b = Inr (cval ncmp n (leaf b))" using n bS by (simp add: row_cmp)
  let ?acc = "case rev A of [] \<Rightarrow> None | x # _ \<Rightarrow> Some (x, False)"
  have acc: "(case first_of (rev A) of None \<Rightarrow> Inr None
      | Some bb \<Rightarrow> bindR (CompareRows schema (Row bb) b) (\<lambda>d. Inr (Some (bb, d > 0)))) = Inr ?acc"
  proof (cases "rev A")
    case (Cons x ys)
    then have "x \<in> set A" by (metis list.set_intros(1) set_rev)
    then have "Row x \<in> S" "cval ncmp x (leaf b) < 0" using view(2) by (auto simp: around_def)
    with Cons bS show ?thesis by (simp add: row_cmp)
  qed simp
  have lastA: "?acc = (if A = [] then None else Some (last A, False))"
    by (cases A rule: rev_cases) simp_all
  have scan: "bound_scan (CompareRows schema) b ?acc (M @ R) =
      Inr (case R of y # _ \<Rightarrow> Some (y, True) | [] \<Rightarrow> if M = [] then ?acc else Some (last M, False))"
    by (rule bound_scan_around [OF view(2)])
  have second: "(case ?acc of Some (bb, True) \<Rightarrow> retM ?acc
      | _ \<Rightarrow> bindM (fetch (start_request c b ''at'' False)) (\<lambda>ns. liftM (bound_scan (CompareRows schema) b ?acc ns))) s =
      (Inr (case R of y # _ \<Rightarrow> Some (y, True) | [] \<Rightarrow> if M = [] then ?acc else Some (last M, False)), s)"
    using scan fetches(1) by (cases "rev A") simp_all
  show ?thesis
    using b d n(2) fetches(4) acc second lastA Rd(10)
    by (cases R; cases M rule: rev_cases; cases A rule: rev_cases) (simp_all add: Take_PushRemove_def Let_def)
qed

text \<open>A removal inside the window: \<open>A @ M\<close> is what is left of it, \<open>R\<close> what lies beyond.\<close>

lemma push_remove_inside:
  assumes ready: "ready s key L xs st" and b: "Bound st = Some b" and n: "Row n \<in> S" "cval ncmp n (leaf b) \<le> 0"
    and view: "view s c = ys" "ys = A @ M @ R" "around b A M R"
    and old: "remove_by ncmp n (take L xs) = A @ M" "Size st = int (length (A @ M)) + 1"
      "R = [] \<or> Size st = int L" "Size st \<le> int L"
    and sorted: "sorted_by ncmp ys" and mem: "n \<in> set xs"
  shows "moves (Take_PushRemove p me fetch push (rd p s) key st c n) s key L xs ys"
proof -
  note Rd = readyD [OF ready]
  note run = Take_PushRemove_run [OF ready b n view(1) [unfolded view(2)] view(3)]
  have rows: "Row x \<in> S" if "x \<in> set ys" for x
    using that around_rows [OF view(3)] view(2) by simp
  show ?thesis
  proof (cases R)
    case (Cons y R')
    have y: "Row y \<in> S" using rows [of y] view(2) Cons by simp
    have "\<forall>z\<in>set (A @ M). ltc ncmp z y"
      using sorted unfolding view(2) Cons by (auto simp: nodes.sorted_by_append)
    then have "insert_by ncmp y (A @ M) = A @ M @ [y]"
      using nodes.insert_by_right [of "A @ M" y "[]"] by simp
    moreover have "sends (Take_PushRemove p me fetch push (rd p s) key st c n) s key [RemoveChange n, AddChange y]
        \<lparr>Size = int L, Bound = Some (Row y)\<rparr>"
      using run Cons old(3) sends_emit_set_emit [OF Rd(1,2) y Rd(5)] by (simp add: sends_def)
    moreover have "length (A @ M @ [y]) = L"
      using old(2,3) Cons by simp_all
    ultimately show ?thesis
      using Cons old(1) view(2) y leaf_row [OF y] mem
      by (intro movesI [where W = "A @ M @ [y]" and R = R' and cs = "[RemoveChange n, AddChange y]" and b = "Row y"])
        simp_all
  next
    case Nil
    show ?thesis
    proof (cases "A @ M = []")
      case True
      have "sends (Take_PushRemove p me fetch push (rd p s) key st c n) s key [RemoveChange n] \<lparr>Size = 0, Bound = None\<rparr>"
        using run Nil True sends_clear_emit [OF Rd(1)] by (simp add: sends_def)
      then show ?thesis
        unfolding moves_def window_ok_def using True Nil view(2) old(1) mem
        by (intro exI [of _ "[RemoveChange n]"] exI [of _ "\<lparr>Size = 0, Bound = None\<rparr>"]) simp
    next
      case False
      then have "last (A @ M) \<in> set ys" using view(2) last_in_set [OF False] by auto
      then have l: "Row (last (A @ M)) \<in> S" using rows by blast
      have sz: "Size st - 1 = int (length (A @ M))" "length (A @ M) \<le> L" using old by simp_all
      have "sends (Take_PushRemove p me fetch push (rd p s) key st c n) s key [RemoveChange n]
          \<lparr>Size = int (length (A @ M)), Bound = Some (Row (last (A @ M)))\<rparr>"
        using run Nil False sz sends_set_emit [OF Rd(1,2) l Rd(5)] by (auto simp: sends_def)
      then show ?thesis
        using False Nil view(2) old sz l leaf_row [OF l] mem
        by (intro movesI [where W = "A @ M" and R = "[]" and cs = "[RemoveChange n]" and b = "Row (last (A @ M))"])
          simp_all
    qed
  qed
qed

lemma push_remove:
  assumes ready: "ready s key L xs st" and n: "n \<in> set xs"
    and view: "view s c = remove_by ncmp n xs"
  shows "moves (Take_PushRemove p me fetch push (rd p s) key st c n) s key L xs (remove_by ncmp n xs)"
proof -
  note Rd = readyD [OF ready]
  have nS: "Row n \<in> S" using n Rd(9) by auto
  have "xs \<noteq> []" using n by auto
  then obtain b where b: "Bound st = Some b" using Rd(7) by (auto simp: window_ok_def split: option.splits)
  obtain A m R where parts: "xs = A @ [m] @ R" "take L xs = A @ [m]" "around b A [m] R"
    "R = [] \<or> length (A @ [m]) = L" "length (A @ [m]) \<le> L" "Size st = int (length (A @ [m]))"
    using ready_split [OF ready b] by blast
  have bS: "b \<in> S" using parts(3) by (simp add: around_def)
  have sub: "set xs \<subseteq> {n. Row n \<in> S}" using Rd(9) by auto
  have sorted: "sorted_by ncmp (remove_by ncmp n xs)" by (rule nodes.sorted_remove_by [OF Rd(8)])
  have one: "Suc (length (remove_by ncmp n zs)) = length zs" if "n \<in> set zs" "set zs \<subseteq> set xs" "sorted_by ncmp zs" for zs
    using arg_cong [OF nodes.insert_remove_by [OF that(3) _ that(1)], of length] that(2) sub by auto
  note rem = remove_around [OF parts(3) nS, folded parts(1)]
  have sw: "sorted_by ncmp (A @ [m])" "sorted_by ncmp A"
    using Rd(8) unfolding parts(1) by (auto simp: sorted_by_def sorted_wrt_append)
  consider (out) "cval ncmp n (leaf b) > 0" | (inA) "cval ncmp n (leaf b) < 0" | (level) "cval ncmp n (leaf b) = 0"
    by linarith
  then show ?thesis
  proof cases
    case out
    then have "n \<in> set R" using n parts(1,3) by (auto simp: around_def)
    then have full: "L = Suc (length A)" using parts(4) by auto
    have "Take_PushRemove p me fetch push (rd p s) key st c n s = retM [] s"
      using b out Rd(10) nS bS by (simp add: Take_PushRemove_def row_cmp Let_def)
    moreover have "moves (retM []) s key L xs (remove_by ncmp n xs)"
      using rem(2) [OF out] full parts(1) by (intro unmoved [OF ready]) simp_all
    ultimately show ?thesis by (simp add: moves_def sends_def)
  next
    case inA
    then have nA: "n \<in> set A" using n parts(1,3) by (auto simp: around_def)
    have "remove_by ncmp n (A @ [m]) = remove_by ncmp n A @ [m]"
      using remove_around(1) [of b A "[m]" "[]" n] parts(3) inA nS by (auto simp: around_def)
    moreover have "Suc (length (remove_by ncmp n A)) = length A"
      using one [OF nA _ sw(2)] parts(1) by auto
    ultimately show ?thesis
      using push_remove_inside [OF ready b nS _ view rem(1) [OF inA] around_remove(1) [OF parts(3)] _ _ _ _ sorted n]
        inA parts(2,4,5,6) by auto
  next
    case level
    then have "n = m" using n parts(1,3) by (auto simp: around_def)
    moreover have "remove_by ncmp n (A @ [m]) = A @ remove_by ncmp n [m]"
      using remove_around(3) [of b A "[m]" "[]" n] parts(3) level nS by (auto simp: around_def)
    ultimately have rm: "remove_by ncmp n (A @ [m]) = A" "remove_by ncmp n [m] = []"
      using nodes.refl [of m] nS by (simp_all add: remove_by_Cons)
    then have ys: "remove_by ncmp n xs = A @ [] @ R" using rem(3) [OF level] by simp
    show ?thesis
      using push_remove_inside [OF ready b nS _ view ys around_remove(4) [OF parts(3)] _ _ _ _ sorted n]
        level rm parts by auto
  qed
qed

text \<open>The first node behind the bound after an insertion there.\<close>

lemma first_after:
  assumes "around b A M R" "Row n \<in> S" "\<forall>x\<in>set R. cval ncmp n x \<noteq> 0"
  obtains z Z where "insert_by ncmp n R = z # Z" "Row z \<in> S" "z = n \<and> Z = R \<and> cval ncmp z n = 0 \<or> z \<in> set R \<and> cval ncmp z n \<noteq> 0"
proof (cases R)
  case Nil
  then show thesis using that [of n "[]"] assms(2) nodes.refl [of n] by simp
next
  case (Cons x xs)
  then have x: "Row x \<in> S" using assms(1) by (auto simp: around_def)
  show thesis
  proof (cases "ltc ncmp x n")
    case True
    then have "cval ncmp x n \<noteq> 0" by (simp add: ltc_def)
    then show thesis
      using that [of x "insert_by ncmp n xs"] Cons x True by (simp add: insert_by_Cons)
  next
    case False
    then show thesis
      using that [of n R] Cons assms(2) nodes.refl [of n] by (simp add: insert_by_Cons)
  qed
qed

lemma window_parts:
  assumes ready: "ready s key L xs st" and parts: "xs = A @ [m] @ R" "around b A [m] R"
  shows "sorted_by ncmp A" "remove_by ncmp m (A @ [m]) = A" "cval ncmp (leaf b) m = 0" "Row m \<in> S" "b \<in> S"
    "\<And>x. x \<in> set xs \<Longrightarrow> Row x \<in> S" "distinct xs" "cval ncmp m (leaf b) = 0"
proof -
  note Rd = readyD [OF ready]
  show S: "Row m \<in> S" "b \<in> S" and lv: "cval ncmp m (leaf b) = 0" using parts(2) by (simp_all add: around_def)
  show sortedA: "sorted_by ncmp A" using Rd(8) unfolding parts(1) by (auto simp: nodes.sorted_by_append)
  show "cval ncmp (leaf b) m = 0" using lv S nodes.eq_sym [of m "leaf b"] by simp
  show rows: "Row x \<in> S" if "x \<in> set xs" for x using that Rd(9) by auto
  show "distinct xs" using nodes.sorted_by_distinct [OF Rd(8)] rows by auto
  have "\<forall>x\<in>set A. ltc ncmp x m" using Rd(8) unfolding parts(1) by (auto simp: nodes.sorted_by_append)
  then show "remove_by ncmp m (A @ [m]) = A"
    using nodes.remove_by_apart [of m A] S rows parts(1) nodes.refl [of m]
    by (simp add: nodes.remove_by_append remove_by_Cons subset_eq)
qed

text \<open>Edits of the bound row itself.\<close>

lemma edit_bound:
  assumes ready: "ready s key L xs st" and b: "Bound st = Some b"
    and parts: "xs = A @ [m] @ R" "take L xs = A @ [m]" "around b A [m] R"
      "R = [] \<or> length (A @ [m]) = L" "length (A @ [m]) \<le> L" "Size st = int (length (A @ [m]))"
    and n: "Row n \<in> S" "\<forall>x\<in>set xs. cval ncmp n x = 0 \<longrightarrow> x = m"
    and view: "view s c = insert_by ncmp n (remove_by ncmp m xs)"
  shows "moves (Take_EditBound p me fetch push (rd p s) key st c b (cval ncmp n (leaf b)) n m) s key L xs
    (insert_by ncmp n (remove_by ncmp m xs))"
proof -
  have mem: "m \<in> set xs" using parts(1) by simp
  note Rd = readyD [OF ready]
  note W = window_parts [OF ready parts(1,3)]
  let ?run = "Take_EditBound p me fetch push (rd p s) key st c b (cval ncmp n (leaf b)) n m"
  have st: "st = \<lparr>Size = int (length (A @ [m])), Bound = Some b\<rparr>" using b parts(6) by simp
  have rm: "remove_by ncmp m xs = A @ [] @ R"
    using remove_around(3) [OF parts(3) W(4,8)] nodes.refl [of m] W(4) parts(1) by (simp add: remove_by_Cons)
  have ar: "around b A [] R" by (rule around_remove(4) [OF parts(3)])
  note ins = insert_around [OF ar n(1)] and insA = insert_around [OF around_remove(4) [OF parts(3)] n(1)]
  have arA: "around b A [] []" using ar by (auto simp: around_def)
  note old = insert_around [OF arA n(1), simplified]
  consider (level) "cval ncmp n (leaf b) = 0" | (below) "cval ncmp n (leaf b) < 0" | (above) "cval ncmp n (leaf b) > 0"
    by linarith
  then show ?thesis
  proof cases
    case level
    then have "cval ncmp (leaf b) n = 0" using nodes.eq_sym [of n "leaf b"] n(1) W(5) by simp
    moreover have "sends ?run s key [EditChange n m] st"
      using level sends_emit [OF Rd(1,6)] by (simp add: Take_EditBound_def)
    ultimately show ?thesis
      using mem st parts(2,4,5) W(2,5) rm ins(3) [OF level] old(3) [OF level]
      by (intro movesI [where W = "A @ [n]" and R = R and cs = "[EditChange n m]" and b = b]) simp_all
  next
    case below
    obtain y where y: "first_of (rev (insert_by ncmp n A)) = Some y" "last (insert_by ncmp n A) = y"
      "Row y \<in> S" "cval ncmp n y \<le> 0"
      using last_before [OF ar W(1) n(1)] by blast
    have viewV: "view s c = insert_by ncmp n A @ [] @ R" using view rm ins(1) [OF below] by simp
    note fetches = fetch_around [OF Rd(1) viewV around_insert(1) [OF ar n(1) below]]
    define nb where "nb = (if L = 1 then Row n else Row y)"
    have "L = 1 \<Longrightarrow> A = []" using parts(5) by simp
    then have nb: "nb \<in> S" "cval ncmp (leaf nb) (last (insert_by ncmp n A)) = 0"
      using n(1) y(2,3) leaf_row by (auto simp: nb_def)
    have "?run s = thenM (setTakeState p key (Size st) (Some nb) (maxBound (rd p s)))
        (take_emit p me push (EditChange n m)) s"
      using below Rd(3) fetches(4) y(1)
      by (cases "L = 1") (simp_all add: Take_EditBound_def replaceBoundAndForward_def nb_def)
    then have "sends ?run s key [EditChange n m] \<lparr>Size = int (length (A @ [m])), Bound = Some nb\<rparr>"
      using sends_set_emit [OF Rd(1,2) nb(1) Rd(5)] parts(6) by (simp add: sends_def)
    moreover have "insert_by ncmp n A \<noteq> []" using y(1) by auto
    ultimately show ?thesis
      using mem parts(2,4,5) W(2) nb rm ins(1) [OF below]
      by (intro movesI [where W = "insert_by ncmp n A" and R = R and cs = "[EditChange n m]" and b = nb]) simp_all
  next
    case above
    have "\<forall>x\<in>set R. cval ncmp n x \<noteq> 0" using n(2) W(7) parts(1) by auto
    then obtain z Z where z: "insert_by ncmp n R = z # Z" "Row z \<in> S"
      "z = n \<and> Z = R \<and> cval ncmp z n = 0 \<or> z \<in> set R \<and> cval ncmp z n \<noteq> 0"
      using first_after [OF ar n(1)] by blast
    have viewV: "view s c = A @ [] @ insert_by ncmp n R" using view rm ins(2) [OF above] by simp
    note fetches = fetch_around [OF Rd(1) viewV around_insert(2) [OF ar n(1) above]]
    have ys: "insert_by ncmp n (remove_by ncmp m xs) = (A @ [z]) @ Z" using rm ins(2) [OF above] z(1) by simp
    show ?thesis
    proof (cases "cval ncmp z n = 0")
      case True
      then have zn: "z = n" "Z = R" using z(3) by auto
      have "?run s = replaceBoundAndForward p me push (rd p s) key st n m s"
        using above fetches(1) z(1,2) True n(1) Rd(10) by (simp add: Take_EditBound_def node_cmps)
      then have "sends ?run s key [EditChange n m] \<lparr>Size = int (length (A @ [m])), Bound = Some (Row n)\<rparr>"
        using sends_set_emit [OF Rd(1,2) n(1) Rd(5)] parts(6) by (simp add: sends_def replaceBoundAndForward_def)
      then show ?thesis
        using mem parts(2,4,5) W(2) ys zn n(1) leaf_row [OF n(1)] old(2) [OF above]
        by (intro movesI [where W = "A @ [n]" and R = R and cs = "[EditChange n m]" and b = "Row n"]) simp_all
    next
      case False
      then have zR: "z \<in> set R" using z(3) by auto
      have "?run s = thenM (setTakeState p key (Size st) (Some (Row z)) (maxBound (rd p s)))
          (both (pushWithRowHiddenFromFetch p me push (Row z) (RemoveChange m)) (take_emit p me push (AddChange z))) s"
        using above fetches(1) z(1,2) False n(1) Rd(10) by (simp add: Take_EditBound_def node_cmps)
      then have "sends ?run s key [RemoveChange m, AddChange z] \<lparr>Size = int (length (A @ [m])), Bound = Some (Row z)\<rparr>"
        using sends_set_both [OF Rd(1,2) z(2) Rd(5)] parts(6) by (simp add: sends_def)
      moreover have "insert_by ncmp z A = A @ [z]"
        using insert_around(2) [OF arA z(2)] zR parts(3) by (simp add: around_def)
      ultimately show ?thesis
        using mem parts(2,4,5) W(2) ys z(2) zR leaf_row [OF z(2)]
        by (intro movesI [where W = "A @ [z]" and R = Z and cs = "[RemoveChange m, AddChange z]" and b = "Row z"]) auto
    qed
  qed
qed

text \<open>Edits of a row beyond the bound: \<open>R'\<close> is what lies beyond without the old row.\<close>

lemma edit_outside:
  assumes ready: "ready s key L xs st" and b: "Bound st = Some b"
    and parts: "xs = A @ [m] @ R" "take L xs = A @ [m]" "around b A [m] R"
      "length (A @ [m]) = L" "Size st = int (length (A @ [m]))"
    and n: "Row n \<in> S" "cval ncmp n m \<noteq> 0"
    and rm: "remove_by ncmp old xs = A @ [m] @ R'" and ar: "around b A [m] R'"
    and view: "view s c = insert_by ncmp n (remove_by ncmp old xs)"
  shows "moves (Take_EditOutside p me fetch push (rd p s) key st c b (cval ncmp n (leaf b)) n) s key L xs
    (insert_by ncmp n (remove_by ncmp old xs))"
proof -
  note Rd = readyD [OF ready]
  note W = window_parts [OF ready parts(1,3)]
  let ?run = "Take_EditOutside p me fetch push (rd p s) key st c b (cval ncmp n (leaf b)) n"
  note ins = insert_around [OF ar n(1)]
  have L: "L - length A = Suc 0" using parts(4) by simp
  have ne: "cval ncmp n (leaf b) \<noteq> 0"
    using n nodes.eq_left_eq [of n "leaf b" m] W(3,4,5) by auto
  show ?thesis
  proof (cases "cval ncmp n (leaf b) < 0")
    case False
    then have "?run s = retM [] s" using ne by (simp add: Take_EditOutside_def)
    moreover have "moves (retM []) s key L xs (insert_by ncmp n (remove_by ncmp old xs))"
      using False ne ins(2) L parts(1) rm by (intro unmoved [OF ready]) simp_all
    ultimately show ?thesis by (simp add: moves_def sends_def)
  next
    case True
    obtain y where y: "first_of (rev (insert_by ncmp n A)) = Some y" "last (insert_by ncmp n A) = y"
      "Row y \<in> S" "cval ncmp n y \<le> 0"
      using last_before [OF ar W(1) n(1)] by blast
    have viewV: "view s c = insert_by ncmp n A @ [m] @ R'" using view rm ins(1) [OF True] by simp
    note fetches = fetch_around [OF Rd(1) viewV around_insert(1) [OF ar n(1) True]]
    have "?run s = thenM (setTakeState p key (Size st) (Some (Row y)) (maxBound (rd p s)))
        (both (pushWithRowHiddenFromFetch p me push (Row n) (RemoveChange m)) (take_emit p me push (AddChange n))) s"
      using True ne fetches(3) y(1) by (simp add: Take_EditOutside_def)
    then have "sends ?run s key [RemoveChange m, AddChange n] \<lparr>Size = int (length (A @ [m])), Bound = Some (Row y)\<rparr>"
      using sends_set_both [OF Rd(1,2) y(3) Rd(5)] parts(5) by (simp add: sends_def)
    moreover have "insert_by ncmp n A \<noteq> []" using y(1) by auto
    ultimately show ?thesis
      using parts(2,4) W(2) y rm ins(1) [OF True] leaf_row [OF y(3)]
      by (intro movesI [where W = "insert_by ncmp n A" and R = "m # R'" and cs = "[RemoveChange m, AddChange n]" and b = "Row y"])
        auto
  qed
qed

text \<open>Edits of a row before the bound: \<open>A'\<close> is what precedes it without the old row.\<close>

lemma edit_inside:
  assumes ready: "ready s key L xs st" and b: "Bound st = Some b"
    and parts: "xs = A @ [m] @ R" "take L xs = A @ [m]" "around b A [m] R"
      "R = [] \<or> length (A @ [m]) = L" "length (A @ [m]) \<le> L" "Size st = int (length (A @ [m]))"
    and n: "Row n \<in> S" "cval ncmp n m \<noteq> 0" "\<forall>x\<in>set R. cval ncmp n x \<noteq> 0"
    and rm: "remove_by ncmp old xs = A' @ [m] @ R" "remove_by ncmp old (A @ [m]) = A' @ [m]"
      "Suc (length A') = length A"
    and ar: "around b A' [m] R"
    and view: "view s c = insert_by ncmp n (remove_by ncmp old xs)" and mem: "old \<in> set xs"
  shows "moves (Take_EditInside p me fetch push (rd p s) key st c b (cval ncmp n (leaf b)) n old) s key L xs
    (insert_by ncmp n (remove_by ncmp old xs))"
proof -
  note Rd = readyD [OF ready]
  note W = window_parts [OF ready parts(1,3)]
  let ?run = "Take_EditInside p me fetch push (rd p s) key st c b (cval ncmp n (leaf b)) n old"
  have st: "st = \<lparr>Size = int (length (A @ [m])), Bound = Some b\<rparr>" using b parts(6) by simp
  note ins = insert_around [OF ar n(1)]
  have arA: "around b A' [m] []" using ar by (auto simp: around_def)
  note insA = insert_around [OF arA n(1), simplified]
  have ne: "cval ncmp n (leaf b) \<noteq> 0"
    using n nodes.eq_left_eq [of n "leaf b" m] W(3,4,5) by auto
  show ?thesis
  proof (cases "cval ncmp n (leaf b) < 0")
    case True
    then have "sends ?run s key [EditChange n old] st"
      using sends_emit [OF Rd(1,6)] by (simp add: Take_EditInside_def)
    then show ?thesis
      using st parts(2,4,5) W(3,5) rm ins(1) [OF True] insA(1) [OF True] mem
      by (intro movesI [where W = "insert_by ncmp n A' @ [m]" and R = R and cs = "[EditChange n old]" and b = b])
        simp_all
  next
    case False
    then have above: "cval ncmp n (leaf b) > 0" using ne by simp
    obtain z Z where z: "insert_by ncmp n R = z # Z" "Row z \<in> S"
      "z = n \<and> Z = R \<and> cval ncmp z n = 0 \<or> z \<in> set R \<and> cval ncmp z n \<noteq> 0"
      using first_after [OF ar n(1,3)] by blast
    have viewV: "view s c = A' @ [m] @ insert_by ncmp n R" using view rm(1) ins(2) [OF above] by simp
    note fetches = fetch_around [OF Rd(1) viewV around_insert(2) [OF ar n(1) above]]
    have ys: "insert_by ncmp n (remove_by ncmp old xs) = (A' @ [m, z]) @ Z" using rm(1) ins(2) [OF above] z(1) by simp
    show ?thesis
    proof (cases "cval ncmp z n = 0")
      case True
      then have zn: "z = n" "Z = R" using z(3) by auto
      have "?run s = replaceBoundAndForward p me push (rd p s) key st n old s"
        using above fetches(2) z(1,2) True n(1) Rd(10) by (simp add: Take_EditInside_def node_cmps)
      then have "sends ?run s key [EditChange n old] \<lparr>Size = int (length (A @ [m])), Bound = Some (Row n)\<rparr>"
        using sends_set_emit [OF Rd(1,2) n(1) Rd(5)] parts(6) by (simp add: sends_def replaceBoundAndForward_def)
      then show ?thesis
        using mem parts(2,4,5) rm ys zn n(1) leaf_row [OF n(1)] insA(2) [OF above]
        by (intro movesI [where W = "A' @ [m, n]" and R = R and cs = "[EditChange n old]" and b = "Row n"]) simp_all
    next
      case zne: False
      then have zR: "z \<in> set R" using z(3) by auto
      have "?run s = both (take_emit p me push (RemoveChange old))
          (thenM (setTakeState p key (Size st) (Some (Row z)) (maxBound (rd p s))) (take_emit p me push (AddChange z))) s"
        using above fetches(2) z(1,2) zne n(1) Rd(10) by (simp add: Take_EditInside_def node_cmps)
      then have "sends ?run s key [RemoveChange old, AddChange z] \<lparr>Size = int (length (A @ [m])), Bound = Some (Row z)\<rparr>"
        using sends_emit_set_emit [OF Rd(1,2) z(2) Rd(5)] parts(6) by (simp add: sends_def)
      moreover have "insert_by ncmp z (A' @ [m]) = A' @ [m, z]"
        using insert_around(2) [OF arA z(2)] zR parts(3) by (simp add: around_def)
      moreover have "length (A @ [m]) = L" using zR parts(4) by auto
      ultimately show ?thesis
        using mem parts(2,5) rm ys z(2) leaf_row [OF z(2)]
        by (intro movesI [where W = "A' @ [m, z]" and R = Z and cs = "[RemoveChange old, AddChange z]" and b = "Row z"])
          auto
    qed
  qed
qed

lemma push_edit:
  assumes ready: "ready s key L xs st" and n: "Row n \<in> S" "\<forall>x\<in>set xs. cval ncmp n x = 0 \<longrightarrow> x = old"
    and old: "old \<in> set xs"
    and same: "partitionKey (rd p s) = [] \<or>
      MakePartitionKeyComparator (partitionKey (rd p s)) (Row old) (Row n) = Inr 0"
    and key: "key = GetTakeStateKey (partitionKey (rd p s)) (Some (Row old))"
    and view: "view s (partition_constraint (partitionKey (rd p s)) (Row old)) = insert_by ncmp n (remove_by ncmp old xs)"
  shows "moves (Take_PushEdit p me fetch push n old) s key L xs (insert_by ncmp n (remove_by ncmp old xs))"
proof -
  note Rd = readyD [OF ready]
  have oS: "Row old \<in> S" using old Rd(9) by auto
  have "xs \<noteq> []" using old by auto
  then obtain b where b: "Bound st = Some b" using Rd(7) by (auto simp: window_ok_def split: option.splits)
  obtain A m R where parts: "xs = A @ [m] @ R" "take L xs = A @ [m]" "around b A [m] R"
    "R = [] \<or> length (A @ [m]) = L" "length (A @ [m]) \<le> L" "Size st = int (length (A @ [m]))"
    using ready_split [OF ready b] by blast
  note W = window_parts [OF ready parts(1,3)]
  let ?c = "partition_constraint (partitionKey (rd p s)) (Row old)"
  let ?oc = "cval ncmp old (leaf b)" and ?nc = "cval ncmp n (leaf b)"
  have run: "Take_PushEdit p me fetch push n old s =
      (if ?oc = 0 then Take_EditBound p me fetch push (rd p s) key st ?c b ?nc n old
       else if ?oc > 0 then Take_EditOutside p me fetch push (rd p s) key st ?c b ?nc n
       else Take_EditInside p me fetch push (rd p s) key st ?c b ?nc n old) s"
    using same key Rd(6,10) b row_cmp [OF oS W(5)] row_cmp [OF n(1) W(5)]
    by (auto simp: Take_PushEdit_def Let_def)
  note rem = remove_around [OF parts(3) oS, folded parts(1)]
  consider (level) "?oc = 0" | (out) "?oc > 0" | (inA) "?oc < 0" by linarith
  then show ?thesis
  proof cases
    case level
    then have "old = m" using old parts(1,3) by (auto simp: around_def)
    moreover have "moves (Take_EditBound p me fetch push (rd p s) key st ?c b ?nc n m) s key L xs
        (insert_by ncmp n (remove_by ncmp m xs))" if "old = m"
      using edit_bound [OF ready b parts n(1), of ?c] n(2) view that by simp
    ultimately show ?thesis using run level by (simp add: moves_def sends_def)
  next
    case out
    then have oR: "old \<in> set R" using old parts(1,3) by (auto simp: around_def)
    then have "cval ncmp n m \<noteq> 0" "length (A @ [m]) = L" using n(2) parts(1,4) W(7) by auto
    from edit_outside [OF ready b parts(1-3) this(2) parts(6) n(1) this(1) rem(2) [OF out] around_remove(3) [OF parts(3)] view]
    show ?thesis using run out by (simp add: moves_def sends_def)
  next
    case inA
    then have oA: "old \<in> set A" using old parts(1,3) by (auto simp: around_def)
    have "cval ncmp n m \<noteq> 0" "\<forall>x\<in>set R. cval ncmp n x \<noteq> 0" using n(2) parts(1) W(7) oA by auto
    moreover have "remove_by ncmp old (A @ [m]) = remove_by ncmp old A @ [m]"
      using remove_around(1) [of b A "[m]" "[]" old] parts(3) inA oS by (auto simp: around_def)
    moreover have "Suc (length (remove_by ncmp old A)) = length A"
      using arg_cong [OF nodes.insert_remove_by [OF W(1) _ oA], of length] parts(3) by (auto simp: around_def)
    ultimately show ?thesis
      using edit_inside [OF ready b parts n(1) _ _ rem(1) [OF inA] _ _ around_remove(1) [OF parts(3)] view old] run inA
      by (simp add: moves_def sends_def)
  qed
qed

text \<open>
  The operator's theorem: whatever change the input makes to its contents, the push moves the
  window of the row's partition.
\<close>

theorem Take_Push_moves:
  assumes ready: "ready s key L xs st" and possible: "change_possible schema change xs"
    and key: "key = GetTakeStateKey (partitionKey (rd p s)) (Some (Row (match_row change)))"
    and view: "view s (partition_constraint (partitionKey (rd p s)) (Row (match_row change))) = apply_change schema change xs"
    and plain: "\<And>node name ch. change \<noteq> ChildChange node name ch" and row: "Row (change_node change) \<in> S"
    and same: "\<And>node old. change = EditChange node old \<Longrightarrow> partitionKey (rd p s) = [] \<or>
      MakePartitionKeyComparator (partitionKey (rd p s)) (Row old) (Row node) = Inr 0"
  shows "moves (Take_Push p me fetch push change) s key L xs (apply_change schema change xs)"
proof (cases change)
  case (AddChange n)
  then have "Take_Push p me fetch push change s = Take_PushAdd p me fetch push (rd p s) key st
      (partition_constraint (partitionKey (rd p s)) (Row n)) n s"
    using readyD(6) [OF ready] key by (simp add: Take_Push_def Let_def)
  moreover note push_add [OF ready _ _ view [unfolded AddChange apply_change.simps]]
  ultimately show ?thesis using AddChange possible row by (simp add: moves_def sends_def)
next
  case (RemoveChange n)
  then have "Take_Push p me fetch push change s = Take_PushRemove p me fetch push (rd p s) key st
      (partition_constraint (partitionKey (rd p s)) (Row n)) n s"
    using readyD(6) [OF ready] key by (simp add: Take_Push_def Let_def)
  moreover note push_remove [OF ready _ view [unfolded RemoveChange apply_change.simps]]
  ultimately show ?thesis using RemoveChange possible by (simp add: moves_def sends_def)
next
  case (EditChange n old)
  then show ?thesis
    using push_edit [OF ready _ _ _ same] key view possible row by (simp add: Take_Push_def)
qed (use plain in auto)

end

end
