(* ===== verification/Skip.thy ===== *)
theory Skip
  imports Source
begin

text \<open>
  The cursor operator, \<open>ivm/skip.go\<close>: it hides the rows before a bound.  (The comparison with a
  partial cursor of the same file is in \<open>Source\<close>, which uses it too.)
\<close>

record Skip =
  skip_schema :: SourceSchema
  boundRow :: row
  boundExclusive :: bool
  skip_output :: Output

definition NewSkip :: "SourceSchema \<Rightarrow> row \<Rightarrow> bool \<Rightarrow> Skip res" where
  "NewSkip schema r exclusive =
     (if Sort schema = None then Inl (Panic ''Skip requires sorted input'')
      else Inr \<lparr>skip_schema = schema, boundRow = r, boundExclusive = exclusive, skip_output = ThrowOutput\<rparr>)"

definition schema_sort :: "SourceSchema \<Rightarrow> Ordering" where
  "schema_sort schema = (case Sort schema of None \<Rightarrow> [] | Some order \<Rightarrow> order)"

definition shouldBePresent :: "Skip \<Rightarrow> row \<Rightarrow> bool res" where
  "shouldBePresent sk r =
     bindR (CompareWithPartialBound (boundRow sk) r (schema_sort (skip_schema sk))) (\<lambda>cmp.
       Inr (cmp < 0 \<or> (cmp = 0 \<and> \<not> boundExclusive sk)))"

definition basisFromExclusive :: "bool \<Rightarrow> string" where
  "basisFromExclusive exclusive = (if exclusive then ''after'' else ''at'')"

text \<open>The effective start of a request; \<open>None\<close> for a request that is known to be empty.\<close>

definition getStart :: "Skip \<Rightarrow> FetchRequest \<Rightarrow> Start option option res" where
  "getStart sk req =
     (let boundStart = \<lparr>StartRow = boundRow sk, Basis = basisFromExclusive (boundExclusive sk)\<rparr> in
      case ReqStart req of
        None \<Rightarrow> Inr (Some (if ReqReverse req then None else Some boundStart))
      | Some start \<Rightarrow>
        bindR (CompareRows (skip_schema sk) (boundRow sk) (StartRow start)) (\<lambda>cmp. Inr (
          if \<not> ReqReverse req then
            Some (Some (if cmp > 0 then boundStart
                        else if cmp = 0 then
                          (if boundExclusive sk \<or> Basis start = ''after''
                           then \<lparr>StartRow = boundRow sk, Basis = ''after''\<rparr> else boundStart)
                        else start))
          else if cmp > 0 then None
          else if cmp = 0 then
            (if \<not> boundExclusive sk \<and> Basis start = ''at'' then Some (Some boundStart) else None)
          else Some (Some start))))"

text \<open>The loop that stops at the first node before the bound.\<close>

fun takeWhileR :: "('a \<Rightarrow> 'e + bool) \<Rightarrow> 'a list \<Rightarrow> 'e + 'a list" where
  "takeWhileR f [] = Inr []"
| "takeWhileR f (x # xs) =
     bindR (f x) (\<lambda>b. if b then bindR (takeWhileR f xs) (\<lambda>ys. Inr (x # ys)) else Inr [])"

definition Skip_Fetch :: "('s, Skip) ref \<Rightarrow> 's fetch \<Rightarrow> FetchRequest \<Rightarrow> (panic, 's, Node list) exec" where
  "Skip_Fetch p fetch req =
     bindM (getM (rd p)) (\<lambda>sk.
     bindM (liftM (getStart sk req)) (\<lambda>start.
       case start of
         None \<Rightarrow> retM []
       | Some st \<Rightarrow>
         bindM (fetch (req\<lparr>ReqStart := st\<rparr>)) (\<lambda>nodes.
           if \<not> ReqReverse req then retM nodes
           else liftM (takeWhileR (\<lambda>n. shouldBePresent sk (Row n)) nodes))))"

definition Skip_Push :: "('s, Skip) ref \<Rightarrow> opid \<Rightarrow> 's push \<Rightarrow> Change \<Rightarrow> (panic, 's, Change list) exec" where
  "Skip_Push p me push change =
     bindM (getM (rd p)) (\<lambda>sk.
       case change of
         EditChange node old \<Rightarrow>
           MaybeSplitAndPushEditChange push node old (shouldBePresent sk) (skip_output sk) me
       | _ \<Rightarrow> bindM (liftM (shouldBePresent sk (Row (change_node change)))) (\<lambda>b.
                if b then push (skip_output sk) change me else retM []))"

section \<open>A skip is a sorted input again\<close>

lemma takeWhileR_Inr:
  "(\<And>x. x \<in> set xs \<Longrightarrow> f x = Inr (q x)) \<Longrightarrow> takeWhileR f xs = Inr (takeWhile q xs)"
  by (induction xs) auto

lemma takeWhile_upward:
  assumes "sorted_wrt (\<lambda>a b. q a \<longrightarrow> q b) xs"
  shows "takeWhile q (rev xs) = rev (filter q xs)"
  using assms
proof (induction xs)
  case (Cons x xs)
  show ?case
  proof (cases "q x")
    case True
    with Cons.prems have "\<forall>y\<in>set xs. q y" by simp
    with True show ?thesis by (simp add: filter_True takeWhile_append2)
  next
    case False
    have "takeWhile q (rev xs @ [x]) = takeWhile q (rev xs)"
    proof (cases "\<forall>y\<in>set xs. q y")
      case True
      then have "takeWhile q (rev xs) = rev xs" by (simp add: takeWhile_eq_all_conv)
      moreover have "takeWhile q (rev xs @ [x]) = rev xs"
        by (subst takeWhile_append2) (use True False in auto)
      ultimately show ?thesis by (simp only:)
    qed (auto simp: takeWhile_append)
    with False Cons show ?thesis by simp
  qed
qed simp

text \<open>
  The state of the operator: its bound specifies every sort column, so that the comparison with the
  bound is that of the schema.
\<close>

definition skip_ok :: "SourceSchema \<Rightarrow> row set \<Rightarrow> Skip \<Rightarrow> bool" where
  "skip_ok schema S sk \<longleftrightarrow>
     skip_schema sk = schema \<and> boundRow sk \<in> S \<and>
     (\<forall>r\<in>S. CompareWithPartialBound (boundRow sk) r (schema_sort schema) = CompareRows schema (boundRow sk) r)"

definition present :: "SourceSchema \<Rightarrow> Skip \<Rightarrow> row \<Rightarrow> bool" where
  "present schema sk r \<longleftrightarrow>
     (let c = cval (CompareRows schema) (boundRow sk) r in c < 0 \<or> (c = 0 \<and> \<not> boundExclusive sk))"

locale skip_input = pointer p + sorted_input schema S fetch good view
  for p :: "('s, Skip) ref" and schema :: SourceSchema and S :: "row set" and fetch :: "'s fetch"
    and good :: "'s \<Rightarrow> bool" and view :: "'s \<Rightarrow> Constraint option \<Rightarrow> Node list" +
  assumes skip: "good s \<Longrightarrow> skip_ok schema S (rd p s)"
begin

abbreviation rcmp :: "row \<Rightarrow> row \<Rightarrow> int" where
  "rcmp a b \<equiv> cval (CompareRows schema) a b"

definition skipped :: "'s \<Rightarrow> Constraint option \<Rightarrow> Node list" where
  "skipped s c = filter (\<lambda>n. present schema (rd p s) (Row n)) (view s c)"

lemma bound_antisym: "a \<in> S \<Longrightarrow> b \<in> S \<Longrightarrow> rcmp b a = - rcmp a b"
  using comparator.antisym [OF row_order] by blast

lemma bound_trans: "a \<in> S \<Longrightarrow> b \<in> S \<Longrightarrow> c \<in> S \<Longrightarrow> rcmp a b \<le> 0 \<Longrightarrow> rcmp b c \<le> 0 \<Longrightarrow> rcmp a c \<le> 0"
  using comparator.trans [OF row_order] by blast

lemma rcmp_eq:
  assumes "a \<in> S" "b \<in> S" "c \<in> S" "rcmp a b = 0"
  shows "rcmp c a < 0 \<longleftrightarrow> rcmp c b < 0" "rcmp c a > 0 \<longleftrightarrow> rcmp c b > 0" "rcmp c a = 0 \<longleftrightarrow> rcmp c b = 0"
  using comparator.eq_right_lt [OF row_order assms] comparator.eq_left_lt [OF row_order assms]
    bound_antisym [of a c] bound_antisym [of b c] assms
  by (auto simp: ltc_def)

lemma shouldBePresent_eq:
  assumes "skip_ok schema S sk" "r \<in> S"
  shows "shouldBePresent sk r = Inr (present schema sk r)"
  using assms comparator.cmp_Inr [OF row_order, of "boundRow sk" r]
  by (auto simp: shouldBePresent_def skip_ok_def present_def Let_def)

lemma present_upward:
  assumes "skip_ok schema S sk" "a \<in> S" "b \<in> S" "rcmp a b \<le> 0" "present schema sk a"
  shows "present schema sk b"
proof -
  have B: "boundRow sk \<in> S" using assms(1) by (simp add: skip_ok_def)
  show ?thesis
    using assms(5) bound_trans [OF B assms(2,3)] comparator.lt_le_trans [OF row_order B assms(2,3)] assms(4)
    by (auto simp: present_def Let_def)
qed

text \<open>What \<open>getStart\<close> decides, as a predicate on the rows that are present.\<close>

lemma getStart_selects:
  assumes ok: "skip_ok schema S sk" and req: "proper_request S req" and rows: "Row ` set xs \<subseteq> S"
  obtains (empty) "getStart sk req = Inr None"
      "select_nodes (CompareRows schema) req (filter (\<lambda>n. present schema sk (Row n)) xs) = []"
  | (start) st where "getStart sk req = Inr (Some st)" "proper_request S (req\<lparr>ReqStart := st\<rparr>)"
      "select_nodes (CompareRows schema) req (filter (\<lambda>n. present schema sk (Row n)) xs) =
        (if ReqReverse req then rev else id) (filter (\<lambda>n. present schema sk (Row n))
          (case st of None \<Rightarrow> xs | Some st \<Rightarrow> filter (start_pos (CompareRows schema) st (ReqReverse req)) xs))"
      "\<not> ReqReverse req \<Longrightarrow> \<exists>st'. st = Some st' \<and>
        (\<forall>n\<in>set xs. start_pos (CompareRows schema) st' False n \<longrightarrow> present schema sk (Row n))"
proof -
  let ?B = "boundRow sk"
  let ?bs = "\<lparr>StartRow = ?B, Basis = basisFromExclusive (boundExclusive sk)\<rparr>"
  let ?af = "\<lparr>StartRow = ?B, Basis = ''after''\<rparr>"
  have B: "?B \<in> S" using ok by (simp add: skip_ok_def)
  have anti: "rcmp (Row n) ?B = - rcmp ?B (Row n)" if "n \<in> set xs" for n
    using bound_antisym [OF B] rows that by auto
  have bs: "start_pos (CompareRows schema) ?bs False n = present schema sk (Row n)" if "n \<in> set xs" for n
    using anti [OF that] by (auto simp: start_pos_def present_def basisFromExclusive_def Let_def)
  have af: "start_pos (CompareRows schema) ?af False n \<Longrightarrow> present schema sk (Row n)" if "n \<in> set xs" for n
    using anti [OF that] by (auto simp: start_pos_def present_def Let_def)
  show thesis
  proof (cases "ReqStart req")
    case None
    show thesis
    proof (cases "ReqReverse req")
      case True
      show thesis
        by (rule start [of None]) (use None True req in \<open>auto simp: getStart_def Let_def proper_request_def select_nodes_def\<close>)
    next
      case False
      have "filter (start_pos (CompareRows schema) ?bs False) xs = filter (\<lambda>n. present schema sk (Row n)) xs"
        by (rule filter_cong) (use bs in auto)
      then show thesis
        by (intro start [of "Some ?bs"])
          (use None False B bs in \<open>auto simp: getStart_def Let_def proper_request_def select_nodes_def basisFromExclusive_def\<close>)
    qed
  next
    case (Some st)
    let ?t = "StartRow st"
    have t: "?t \<in> S" and basis: "Basis st = ''at'' \<or> Basis st = ''after''"
      using req Some by (auto simp: proper_request_def)
    have cmp: "CompareRows (skip_schema sk) ?B ?t = Inr (rcmp ?B ?t)"
      using ok comparator.cmp_Inr [OF row_order B t] by (simp add: skip_ok_def)
    define x where "x n = rcmp ?B (Row n)" for n
    define y where "y n = rcmp ?t (Row n)" for n
    have xy: "rcmp ?B ?t > 0 \<Longrightarrow> x n \<le> 0 \<Longrightarrow> y n < 0" "rcmp ?B ?t = 0 \<Longrightarrow> (x n < 0 \<longleftrightarrow> y n < 0) \<and> (x n = 0 \<longleftrightarrow> y n = 0)"
      "rcmp ?B ?t < 0 \<Longrightarrow> y n \<le> 0 \<Longrightarrow> x n < 0" if "n \<in> set xs" for n
    proof -
      have r: "Row n \<in> S" using rows that by auto
      show "rcmp ?B ?t > 0 \<Longrightarrow> x n \<le> 0 \<Longrightarrow> y n < 0"
        using comparator.lt_le_trans [OF row_order t B r] bound_antisym [OF B t] by (simp add: x_def y_def)
      show "rcmp ?B ?t < 0 \<Longrightarrow> y n \<le> 0 \<Longrightarrow> x n < 0"
        using comparator.lt_le_trans [OF row_order B t r] by (simp add: x_def y_def)
      show "rcmp ?B ?t = 0 \<Longrightarrow> (x n < 0 \<longleftrightarrow> y n < 0) \<and> (x n = 0 \<longleftrightarrow> y n = 0)"
        using rcmp_eq [OF B t r] bound_antisym [OF B r] bound_antisym [OF t r] by (simp add: x_def y_def)
    qed
    have pr: "present schema sk (Row n) \<longleftrightarrow> x n < 0 \<or> (x n = 0 \<and> \<not> boundExclusive sk)" for n
      by (simp add: present_def x_def Let_def)
    have pos: "start_pos (CompareRows schema) \<lparr>StartRow = ?B, Basis = bb\<rparr> rv n =
        (if bb = ''at'' then (if rv then x n \<ge> 0 else x n \<le> 0) else (if rv then x n > 0 else x n < 0))"
      "start_pos (CompareRows schema) st rv n =
        (if Basis st = ''at'' then (if rv then y n \<ge> 0 else y n \<le> 0) else (if rv then y n > 0 else y n < 0))"
      if "n \<in> set xs" for n rv bb
      using bound_antisym [OF B, of "Row n"] bound_antisym [OF t, of "Row n"] rows that
      by (auto simp: start_pos_def x_def y_def Let_def)
    show thesis
    proof (cases "ReqReverse req \<and> (rcmp ?B ?t > 0 \<or> (rcmp ?B ?t = 0 \<and> (boundExclusive sk \<or> Basis st = ''after'')))")
      case True
      have "\<not> (present schema sk (Row n) \<and> start_pos (CompareRows schema) st True n)" if "n \<in> set xs" for n
        using True xy [OF that] basis by (auto simp: pr pos [OF that])
      then show thesis
        using True Some cmp basis by (intro empty) (auto simp: getStart_def Let_def select_nodes_def filter_empty_conv)
    next
      case False
      define st' where "st' = (if rcmp ?B ?t < 0 then st
        else if rcmp ?B ?t = 0 \<and> (boundExclusive sk \<or> Basis st = ''after'') then ?af else ?bs)"
      have same: "present schema sk (Row n) \<and> start_pos (CompareRows schema) st' (ReqReverse req) n \<longleftrightarrow>
          present schema sk (Row n) \<and> start_pos (CompareRows schema) st (ReqReverse req) n" if "n \<in> set xs" for n
        using False xy [OF that] basis
        by (cases rule: linorder_cases [of "rcmp ?B ?t" 0]; cases "ReqReverse req") (auto simp: st'_def pr pos [OF that] basisFromExclusive_def)
      have up: "present schema sk (Row n)" if "\<not> ReqReverse req" "n \<in> set xs" "start_pos (CompareRows schema) st' False n" for n
        using that(1,3) xy [OF that(2)] basis
        by (auto simp: st'_def pr pos [OF that(2)] basisFromExclusive_def split: if_splits)
      have "getStart sk req = Inr (Some (Some st'))"
        using False Some cmp basis by (auto simp: getStart_def st'_def Let_def)
      moreover have "proper_request S (req\<lparr>ReqStart := Some st'\<rparr>)"
        using t B basis by (auto simp: proper_request_def st'_def basisFromExclusive_def)
      moreover have "filter (\<lambda>n. present schema sk (Row n)) (filter (start_pos (CompareRows schema) st' (ReqReverse req)) xs) =
          filter (start_pos (CompareRows schema) st (ReqReverse req)) (filter (\<lambda>n. present schema sk (Row n)) xs)"
        unfolding filter_filter by (rule filter_cong) (use same in auto)
      ultimately show thesis
        using Some up by (intro start [of "Some st'"]) (auto simp: select_nodes_def)
    qed
  qed
qed

lemma skip_fetch:
  assumes good: "good s" and req: "proper_request S req"
  shows "Skip_Fetch p fetch req s = (Inr (select_nodes (CompareRows schema) req (skipped s (ReqConstraint req))), s)"
proof -
  let ?sk = "rd p s" and ?xs = "view s (ReqConstraint req)"
  have ok: "skip_ok schema S ?sk" and rows: "Row ` set ?xs \<subseteq> S" and sorted: "sorted_by (node_cmp schema) ?xs"
    using skip [OF good] view_rows [OF good] view_sorted [OF good] by auto
  show ?thesis
  proof (rule getStart_selects [OF ok req rows])
    assume "getStart ?sk req = Inr None"
      "select_nodes (CompareRows schema) req (filter (\<lambda>n. present schema ?sk (Row n)) ?xs) = []"
    then show ?thesis by (simp add: Skip_Fetch_def skipped_def)
  next
    fix st
    assume st: "getStart ?sk req = Inr (Some st)" "proper_request S (req\<lparr>ReqStart := st\<rparr>)"
      "select_nodes (CompareRows schema) req (filter (\<lambda>n. present schema ?sk (Row n)) ?xs) =
        (if ReqReverse req then rev else id) (filter (\<lambda>n. present schema ?sk (Row n))
          (case st of None \<Rightarrow> ?xs | Some st \<Rightarrow> filter (start_pos (CompareRows schema) st (ReqReverse req)) ?xs))"
      "\<not> ReqReverse req \<Longrightarrow> \<exists>st'. st = Some st' \<and>
        (\<forall>n\<in>set ?xs. start_pos (CompareRows schema) st' False n \<longrightarrow> present schema ?sk (Row n))"
    let ?ys = "case st of None \<Rightarrow> ?xs | Some st \<Rightarrow> filter (start_pos (CompareRows schema) st (ReqReverse req)) ?xs"
    have f: "fetch (req\<lparr>ReqStart := st\<rparr>) s = (Inr ((if ReqReverse req then rev else id) ?ys), s)"
      using fetch [OF good st(2)] by (cases st) (simp_all add: select_nodes_def Let_def)
    have sub: "set ?ys \<subseteq> set ?xs" by (auto split: option.splits)
    show ?thesis
    proof (cases "ReqReverse req")
      case False
      then have "filter (\<lambda>n. present schema ?sk (Row n)) ?ys = ?ys"
        using st(4) by (auto simp: filter_id_conv)
      with False st(1,3) f show ?thesis by (simp add: Skip_Fetch_def skipped_def)
    next
      case True
      have "sorted_by (node_cmp schema) ?ys" using sorted by (auto intro: nodes.sorted_by_filter split: option.splits)
      then have "sorted_wrt (\<lambda>a b. rcmp (Row a) (Row b) \<le> 0) ?ys"
        unfolding sorted_by_def by (rule sorted_wrt_mono_rel [rotated]) (auto simp: ltc_def node_cmp_def cval_def)
      then have "sorted_wrt (\<lambda>a b. present schema ?sk (Row a) \<longrightarrow> present schema ?sk (Row b)) ?ys"
        by (rule sorted_wrt_mono_rel [rotated]) (use sub rows present_upward [OF ok] in blast)
      note stop = takeWhile_upward [OF this]
      have "takeWhileR (\<lambda>n. shouldBePresent ?sk (Row n)) (rev ?ys) = Inr (takeWhile (\<lambda>n. present schema ?sk (Row n)) (rev ?ys))"
        using sub rows shouldBePresent_eq [OF ok] by (intro takeWhileR_Inr) auto
      with True st(1,3) f stop show ?thesis by (simp add: Skip_Fetch_def skipped_def)
    qed
  qed
qed

end

sublocale skip_input \<subseteq> out: sorted_input schema S "Skip_Fetch p fetch" good skipped
proof
  show "Skip_Fetch p fetch req s = (Inr (select_nodes (CompareRows schema) req (skipped s (ReqConstraint req))), s)"
    if "good s" "proper_request S req" for s req
    using that by (rule skip_fetch)
  show "sorted_by (node_cmp schema) (skipped s c)" if "good s" for s c
    using view_sorted [OF that] by (simp add: skipped_def nodes.sorted_by_filter)
  show "Row ` set (skipped s c) \<subseteq> S" if "good s" for s c
    using view_rows [OF that] by (auto simp: skipped_def)
qed

end
