(* ===== verification/FilterChain.thy ===== *)
theory FilterChain
  imports Source
begin

text \<open>
  The filter chain: \<open>ivm/filter.go\<close> and \<open>ivm/filter_operators.go\<close>.

  A filter operator has no fetch.  It answers \<open>Filter(node)\<close> by asking the next one, through the
  parameter \<open>filt\<close>; \<open>beginF\<close> and \<open>endF\<close> are \<open>BeginFilter\<close> and \<open>EndFilter\<close> of the next one.
  \<open>FilterStart\<close> and \<open>FilterEnd\<close> adapt a chain to the operators around it.
\<close>

type_synonym 's filt = "Output \<Rightarrow> Node \<Rightarrow> (panic, 's, bool) exec"
type_synonym 's bracket = "Output \<Rightarrow> (panic, 's, unit) exec"

record Filter =
  filter_schema :: SourceSchema
  filter_predicate :: "(row \<Rightarrow> bool res)"
  filter_output :: Output

definition NewFilter :: "SourceSchema \<Rightarrow> (row \<Rightarrow> bool res) \<Rightarrow> Filter" where
  "NewFilter schema predicate =
     \<lparr>filter_schema = schema, filter_predicate = predicate, filter_output = ThrowOutput\<rparr>"

definition Filter_Filter :: "('s, Filter) ref \<Rightarrow> 's filt \<Rightarrow> Node \<Rightarrow> (panic, 's, bool) exec" where
  "Filter_Filter p filt node =
     bindM (getM (rd p)) (\<lambda>f.
     bindM (liftM (filter_predicate f (Row node))) (\<lambda>b.
       if b then filt (filter_output f) node else retM False))"

definition Filter_Push :: "('s, Filter) ref \<Rightarrow> opid \<Rightarrow> 's push \<Rightarrow> Change \<Rightarrow> (panic, 's, Change list) exec" where
  "Filter_Push p me push change =
     bindM (getM (rd p)) (\<lambda>f. FilterPush push change (filter_output f) me (Some (filter_predicate f)))"

section \<open>The two ends of a chain\<close>

record FilterStart =
  fstart_schema :: SourceSchema
  fstart_output :: Output

definition NewFilterStart :: "SourceSchema \<Rightarrow> FilterStart" where
  "NewFilterStart schema = \<lparr>fstart_schema = schema, fstart_output = ThrowOutput\<rparr>"

definition FilterStart_Push ::
  "('s, FilterStart) ref \<Rightarrow> opid \<Rightarrow> 's push \<Rightarrow> Change \<Rightarrow> (panic, 's, Change list) exec" where
  "FilterStart_Push p me push change =
     bindM (getM (rd p)) (\<lambda>f. push (fstart_output f) change me)"

definition FilterStart_Fetch ::
  "('s, FilterStart) ref \<Rightarrow> 's fetch \<Rightarrow> 's filt \<Rightarrow> 's bracket \<Rightarrow> 's bracket \<Rightarrow> FetchRequest \<Rightarrow>
   (panic, 's, Node list) exec"
where
  "FilterStart_Fetch p fetch filt beginF endF req =
     bindM (getM (rd p)) (\<lambda>f.
       thenM (beginF (fstart_output f))
         (finallyM (endF (fstart_output f))
           (bindM (fetch req) (\<lambda>nodes. filterM (filt (fstart_output f)) nodes))))"

text \<open>The start that a \<open>FilterEnd\<close> fetches through is given by its address.\<close>

record FilterEnd =
  fend_schema :: SourceSchema
  fend_start :: opid
  fend_output :: Output

definition NewFilterEnd :: "SourceSchema \<Rightarrow> opid \<Rightarrow> FilterEnd" where
  "NewFilterEnd schema start = \<lparr>fend_schema = schema, fend_start = start, fend_output = ThrowOutput\<rparr>"

definition FilterEnd_Filter :: "Node \<Rightarrow> (panic, 's, bool) exec" where
  "FilterEnd_Filter node = retM True"

definition FilterEnd_Push ::
  "('s, FilterEnd) ref \<Rightarrow> opid \<Rightarrow> 's push \<Rightarrow> Change \<Rightarrow> (panic, 's, Change list) exec" where
  "FilterEnd_Push p me push change = bindM (getM (rd p)) (\<lambda>f. push (fend_output f) change me)"

section \<open>A chain filters\<close>

text \<open>
  A chain whose operators answer by the predicate \<open>q\<close> of the rows, without touching the state in
  the bracket: a fetch through it is a sorted input that shows the rows satisfying \<open>q\<close>.
\<close>

locale filter_chain = sorted_input schema S fetch good view
  for schema :: SourceSchema and S :: "row set" and fetch :: "'s fetch"
    and good :: "'s \<Rightarrow> bool" and view :: "'s \<Rightarrow> Constraint option \<Rightarrow> Node list" +
  fixes p :: "('s, FilterStart) ref" and filt :: "'s filt" and beginF endF :: "'s bracket"
    and q :: "'s \<Rightarrow> Node \<Rightarrow> bool"
  assumes filt: "good s \<Longrightarrow> Row n \<in> S \<Longrightarrow> filt (fstart_output (rd p s)) n s = (Inr (q s n), s)"
    and brackets: "good s \<Longrightarrow> beginF (fstart_output (rd p s)) s = (Inr (), s)"
      "good s \<Longrightarrow> endF (fstart_output (rd p s)) s = (Inr (), s)"
begin

definition passing :: "'s \<Rightarrow> Constraint option \<Rightarrow> Node list" where
  "passing s c = filter (q s) (view s c)"

lemma chain_fetch:
  assumes "good s" "proper_request S req"
  shows "FilterStart_Fetch p fetch filt beginF endF req s =
    (Inr (select_nodes (CompareRows schema) req (passing s (ReqConstraint req))), s)"
proof -
  let ?ns = "select_nodes (CompareRows schema) req (view s (ReqConstraint req))"
  have "filter (q s) ?ns = select_nodes (CompareRows schema) req (passing s (ReqConstraint req))"
    by (auto simp: select_nodes_def passing_def Let_def rev_filter conj_commute split: option.splits)
  moreover have "filt (fstart_output (rd p s)) n s = (Inr (q s n), s)" if "n \<in> set ?ns" for n
    using that view_rows [OF assms(1), of "ReqConstraint req"] filt assms(1)
    by (auto simp: select_nodes_def Let_def image_subset_iff split: if_splits option.splits)
  ultimately show ?thesis
    using fetch [OF assms] filterM_pure [of ?ns "filt (fstart_output (rd p s))" s "q s"] brackets assms(1)
    by (simp add: FilterStart_Fetch_def finallyM_def)
qed

end

sublocale filter_chain \<subseteq> out: sorted_input schema S "FilterStart_Fetch p fetch filt beginF endF" good passing
proof
  show "FilterStart_Fetch p fetch filt beginF endF req s =
      (Inr (select_nodes (CompareRows schema) req (passing s (ReqConstraint req))), s)"
    if "good s" "proper_request S req" for s req
    using that by (rule chain_fetch)
  show "sorted_by (node_cmp schema) (passing s c)" if "good s" for s c
    using view_sorted [OF that] by (simp add: passing_def nodes.sorted_by_filter)
  show "Row ` set (passing s c) \<subseteq> S" if "good s" for s c
    using view_rows [OF that, of c] by (auto simp: passing_def)
qed

end
