(* ===== verification/Exists.thy ===== *)
theory Exists
  imports FilterChain Json
begin

text \<open>
  \<open>ivm/exists.go\<close>: the filter operator that keeps the nodes whose relationship is non-empty, or
  empty for NOT EXISTS.

  A relationship is a thunk that \<open>force\<close> evaluates.  The cache is a map from keys to the answers
  of earlier calls within one bracket.  \<open>pushMu\<close> is the lock that \<open>Push\<close> holds while it runs: a
  push that re-enters the same operator waits for itself.  \<open>cacheMu\<close> guards single map accesses
  and has no effect on a run.
\<close>

datatype ExistsType = ExistsTypeExists | ExistsTypeNotExists

record Exists =
  exists_schema :: SourceSchema
  exists_relationship :: string
  exists_not :: bool
  parentJoinKey :: CompoundKey
  noSizeReuse :: bool
  exists_cache :: "state_key \<rightharpoonup> bool"
  exists_output :: Output
  inPush :: bool
  pushMu :: bool

fun compoundKeysEqual :: "CompoundKey \<Rightarrow> CompoundKey \<Rightarrow> bool" where
  "compoundKeysEqual [] [] = True"
| "compoundKeysEqual (x # xs) (y # ys) = (x = y \<and> compoundKeysEqual xs ys)"
| "compoundKeysEqual _ _ = False"

definition NewExists :: "SourceSchema \<Rightarrow> string \<Rightarrow> CompoundKey \<Rightarrow> ExistsType \<Rightarrow> Exists res" where
  "NewExists schema relationshipName key existsType =
     (if map_of (SchemaRelationships schema) relationshipName = None
      then Inl (Panic (''Input schema missing '' @ relationshipName))
      else Inr \<lparr>exists_schema = schema, exists_relationship = relationshipName,
                exists_not = (existsType = ExistsTypeNotExists), parentJoinKey = key,
                noSizeReuse = compoundKeysEqual key (PrimaryKey schema), exists_cache = Map.empty,
                exists_output = ThrowOutput, inPush = False, pushMu = False\<rparr>)"

definition Exists_SetFilterOutput :: "Output \<Rightarrow> Exists \<Rightarrow> Exists" where
  "Exists_SetFilterOutput out e = e\<lparr>exists_output := out\<rparr>"

definition Exists_Begin :: "('s, Exists) ref \<Rightarrow> 's bracket \<Rightarrow> (panic, 's, unit) exec" where
  "Exists_Begin p beginF = bindM (getM (rd p)) (\<lambda>e. beginF (exists_output e))"

definition Exists_End :: "('s, Exists) ref \<Rightarrow> 's bracket \<Rightarrow> (panic, 's, unit) exec" where
  "Exists_End p endF =
     thenM (updM p (\<lambda>e. e\<lparr>exists_cache := Map.empty\<rparr>)) (bindM (getM (rd p)) (\<lambda>e. endF (exists_output e)))"

section \<open>Sizes, cached\<close>

definition fetchSize :: "('s, Exists) ref \<Rightarrow> 's force \<Rightarrow> Node \<Rightarrow> (panic, 's, nat) exec" where
  "fetchSize p force node =
     bindM (getM (rd p)) (\<lambda>e.
       case rel_of node (exists_relationship e) of
         ThNil \<Rightarrow> failM (Panic (''Exists: relationship '' @ exists_relationship e @ '' not found on node''))
       | t \<Rightarrow> bindM (force t) (\<lambda>nodes. retM (length nodes)))"

definition fetchExists :: "('s, Exists) ref \<Rightarrow> 's force \<Rightarrow> Node \<Rightarrow> (panic, 's, bool) exec" where
  "fetchExists p force node = bindM (fetchSize p force node) (\<lambda>n. retM (n > 0))"

definition getCacheKey :: "Node \<Rightarrow> CompoundKey \<Rightarrow> state_key" where
  "getCacheKey node key = json_key (map (col (Row node)) key)"

definition filterWithExists :: "Exists \<Rightarrow> bool \<Rightarrow> bool" where
  "filterWithExists e ex = (if exists_not e then \<not> ex else ex)"

definition Exists_Filter :: "('s, Exists) ref \<Rightarrow> 's force \<Rightarrow> 's filt \<Rightarrow> Node \<Rightarrow> (panic, 's, bool) exec" where
  "Exists_Filter p force filt node =
     bindM (getM (rd p)) (\<lambda>e.
     bindM (if \<not> noSizeReuse e \<and> \<not> inPush e
            then (let key = getCacheKey node (parentJoinKey e) in
                  case exists_cache e key of
                    Some cached \<Rightarrow> retM cached
                  | None \<Rightarrow>
                      bindM (fetchExists p force node) (\<lambda>ex.
                      thenM (updM p (\<lambda>e. e\<lparr>exists_cache := (exists_cache e)(key \<mapsto> ex)\<rparr>)) (retM ex)))
            else fetchExists p force node) (\<lambda>ex.
     bindM (getM (rd p)) (\<lambda>e.
       if filterWithExists e ex then filt (exists_output e) node else retM False)))"

section \<open>Pushes\<close>

definition pushWithFilter ::
  "('s, Exists) ref \<Rightarrow> opid \<Rightarrow> 's force \<Rightarrow> 's push \<Rightarrow> Change \<Rightarrow> bool option \<Rightarrow> (panic, 's, Change list) exec"
where
  "pushWithFilter p me force push change ex =
     bindM (case ex of Some b \<Rightarrow> retM b | None \<Rightarrow> fetchExists p force (change_node change)) (\<lambda>b.
     bindM (getM (rd p)) (\<lambda>e.
       if filterWithExists e b then push (exists_output e) change me else retM []))"

definition with_rel :: "Node \<Rightarrow> string \<Rightarrow> Node list \<Rightarrow> Node" where
  "with_rel node name nodes = Node (Row node) (put name (ThNodes nodes) (Relationships node))"

fun exists_push_body ::
  "('s, Exists) ref \<Rightarrow> opid \<Rightarrow> 's force \<Rightarrow> 's push \<Rightarrow> Change \<Rightarrow> (panic, 's, Change list) exec" where
  "exists_push_body p me force push (ChildChange node name child) =
     bindM (getM (rd p)) (\<lambda>e.
       if name \<noteq> exists_relationship e then pushWithFilter p me force push (ChildChange node name child) None
       else case child of
         AddChange added \<Rightarrow>
           bindM (fetchSize p force node) (\<lambda>n.
             if n = 1 then
               (if exists_not e
                then push (exists_output e) (RemoveChange (with_rel node (exists_relationship e) [])) me
                else push (exists_output e) (AddChange node) me)
             else pushWithFilter p me force push (ChildChange node name child) (Some (n > 0)))
       | RemoveChange removed \<Rightarrow>
           bindM (fetchSize p force node) (\<lambda>n.
             if n = 0 then
               (if exists_not e
                then push (exists_output e) (AddChange node) me
                else push (exists_output e) (RemoveChange (with_rel node (exists_relationship e) [removed])) me)
             else pushWithFilter p me force push (ChildChange node name child) (Some (n > 0)))
       | _ \<Rightarrow> pushWithFilter p me force push (ChildChange node name child) None)"
| "exists_push_body p me force push change = pushWithFilter p me force push change None"

definition Exists_Push ::
  "('s, Exists) ref \<Rightarrow> opid \<Rightarrow> 's force \<Rightarrow> 's push \<Rightarrow> Change \<Rightarrow> (panic, 's, Change list) exec" where
  "Exists_Push p me force push change =
     bindM (getM (rd p)) (\<lambda>e.
       if pushMu e then failM Deadlock
       else thenM (updM p (\<lambda>e. e\<lparr>pushMu := True, inPush := True\<rparr>))
         (deferM (\<lambda>s. wr p ((rd p s)\<lparr>inPush := False, pushMu := False\<rparr>) s)
           (exists_push_body p me force push change)))"

section \<open>What an exists filter sends\<close>

text \<open>
  Whether a node with \<open>n\<close> related nodes is visible, and what has to be sent for a child change
  that takes the number from \<open>before\<close> to \<open>after\<close>.
\<close>

definition shows_size :: "Exists \<Rightarrow> nat \<Rightarrow> bool" where
  "shows_size e n = filterWithExists e (n > 0)"

fun size_before :: "Change \<Rightarrow> nat \<Rightarrow> nat" where
  "size_before (AddChange _) after = after - 1"
| "size_before (RemoveChange _) after = Suc after"
| "size_before _ after = after"

fun rel_before :: "Change \<Rightarrow> Node list" where
  "rel_before (RemoveChange n) = [n]"
| "rel_before _ = []"

definition exists_sends :: "Exists \<Rightarrow> Node \<Rightarrow> Change \<Rightarrow> nat \<Rightarrow> Change list" where
  "exists_sends e node child after =
     (case (shows_size e (size_before child after), shows_size e after) of
        (True, True) \<Rightarrow> [ChildChange node (exists_relationship e) child]
      | (False, True) \<Rightarrow> [AddChange node]
      | (True, False) \<Rightarrow> [RemoveChange (with_rel node (exists_relationship e) (rel_before child))]
      | (False, False) \<Rightarrow> [])"

definition send_all :: "'s push \<Rightarrow> Output \<Rightarrow> opid \<Rightarrow> Change list \<Rightarrow> (panic, 's, Change list) exec" where
  "send_all push out me chs = collectM (\<lambda>ch. push out ch me) chs"

lemma exists_sends_flags [simp]: "exists_sends (e\<lparr>pushMu := a, inPush := b\<rparr>) = exists_sends e"
proof -
  have "shows_size (e\<lparr>pushMu := a, inPush := b\<rparr>) = shows_size e"
    by (intro ext) (simp add: shows_size_def filterWithExists_def)
  then show ?thesis by (intro ext) (auto simp: exists_sends_def split: bool.splits)
qed

lemma send_all_simps [simp]:
  "send_all push out me [] s = (Inr [], s)"
  "send_all push out me [ch] s = push out ch me s"
  by (auto simp: send_all_def bindM_def split: prod.splits sum.splits)

lemma fetchSize_run [simp]:
  assumes "rel_of node (exists_relationship (rd p s)) \<noteq> ThNil"
    and "force (rel_of node (exists_relationship (rd p s))) s = (Inr nodes, s)"
  shows "fetchSize p force node s = (Inr (length nodes), s)"
  using assms by (cases "rel_of node (exists_relationship (rd p s))") (simp_all add: fetchSize_def)

lemma exists_push_body_child:
  assumes "rel_of node (exists_relationship (rd p s)) \<noteq> ThNil"
    and "force (rel_of node (exists_relationship (rd p s))) s = (Inr nodes, s)"
    and "\<And>n. child = AddChange n \<Longrightarrow> nodes \<noteq> []"
  shows "exists_push_body p me force push (ChildChange node (exists_relationship (rd p s)) child) s =
    send_all push (exists_output (rd p s)) me (exists_sends (rd p s) node child (length nodes)) s"
proof -
  have size: "fetchSize p force node s = (Inr (length nodes), s)"
    by (rule fetchSize_run) (use assms in simp_all)
  show ?thesis
  proof (cases child)
    case (AddChange n)
    then have "length nodes = 1 \<or> Suc 0 < length nodes" using assms(3) by (cases nodes) auto
    then show ?thesis
      using AddChange size
      by (cases "exists_not (rd p s)"; elim disjE)
        (auto simp: exists_sends_def shows_size_def filterWithExists_def pushWithFilter_def split: bool.splits)
  next
    case (RemoveChange n)
    then show ?thesis
      using size by (cases "exists_not (rd p s)"; cases "length nodes = 0")
        (auto simp: exists_sends_def shows_size_def filterWithExists_def pushWithFilter_def)
  qed (use size in \<open>auto simp: exists_sends_def shows_size_def filterWithExists_def pushWithFilter_def fetchExists_def\<close>)
qed

section \<open>The cache\<close>

text \<open>
  The cache is sound for the contents \<open>kids\<close> of the relationships of the nodes in \<open>N\<close> when every
  entry answers for all of them with its key; and it stays so when nodes with one key agree on whether
  there are children, which is shown for the children of a join in \<open>SemiJoin\<close>.
\<close>

definition cache_sound :: "Node set \<Rightarrow> (Node \<Rightarrow> Node list) \<Rightarrow> Exists \<Rightarrow> bool" where
  "cache_sound N kids e \<longleftrightarrow>
     (\<forall>key v. \<forall>n\<in>N. exists_cache e key = Some v \<longrightarrow> getCacheKey n (parentJoinKey e) = key \<longrightarrow> v = (kids n \<noteq> []))"

definition key_decides :: "Node set \<Rightarrow> (Node \<Rightarrow> Node list) \<Rightarrow> CompoundKey \<Rightarrow> bool" where
  "key_decides N kids key \<longleftrightarrow>
     (\<forall>m\<in>N. \<forall>n\<in>N. getCacheKey m key = getCacheKey n key \<longrightarrow> (kids m = []) = (kids n = []))"

lemma fetchExists_run [simp]:
  assumes "rel_of node (exists_relationship (rd p s)) \<noteq> ThNil"
    and "force (rel_of node (exists_relationship (rd p s))) s = (Inr nodes, s)"
  shows "fetchExists p force node s = (Inr (nodes \<noteq> []), s)"
  using assms by (simp add: fetchExists_def)

lemma cache_sound_put:
  assumes "cache_sound N kids e" "key_decides N kids (parentJoinKey e)" "node \<in> N"
  shows "cache_sound N kids (e\<lparr>exists_cache := (exists_cache e)(getCacheKey node (parentJoinKey e) \<mapsto> kids node \<noteq> [])\<rparr>)"
  unfolding cache_sound_def
proof (intro allI ballI impI)
  fix key v n
  assume n: "n \<in> N"
  let ?e = "e\<lparr>exists_cache := (exists_cache e)(getCacheKey node (parentJoinKey e) \<mapsto> kids node \<noteq> [])\<rparr>"
  assume hit: "exists_cache ?e key = Some v" and key: "getCacheKey n (parentJoinKey ?e) = key"
  show "v = (kids n \<noteq> [])"
  proof (cases "key = getCacheKey node (parentJoinKey e)")
    case True
    then have "(kids n = []) = (kids node = [])"
      using assms(2) [unfolded key_decides_def, rule_format, OF n assms(3)] key by simp
    with True hit show ?thesis by simp
  next
    case False
    with hit key assms(1) n show ?thesis by (simp add: cache_sound_def)
  qed
qed

lemma Exists_Filter_hit:
  assumes "noSizeReuse (rd p s) \<or> inPush (rd p s)"
    and "fetchExists p force node s = (Inr b, s)"
  shows "Exists_Filter p force filt node s =
    (if filterWithExists (rd p s) b then filt (exists_output (rd p s)) node s else (Inr False, s))"
  using assms(1) unfolding Exists_Filter_def Let_def by (elim disjE) (simp_all add: assms(2))

lemma Exists_Filter_cached:
  assumes "noSizeReuse (rd p s) = False" "inPush (rd p s) = False"
    and "exists_cache (rd p s) (getCacheKey node (parentJoinKey (rd p s))) = Some b"
  shows "Exists_Filter p force filt node s =
    (if filterWithExists (rd p s) b then filt (exists_output (rd p s)) node s else (Inr False, s))"
  unfolding Exists_Filter_def Let_def by (simp add: assms)

lemma Exists_Filter_miss:
  assumes "pointer p" "noSizeReuse (rd p s) = False" "inPush (rd p s) = False"
    and "exists_cache (rd p s) (getCacheKey node (parentJoinKey (rd p s))) = None"
    and "fetchExists p force node s = (Inr b, s)"
  defines "s' \<equiv> wr p ((rd p s)\<lparr>exists_cache := (exists_cache (rd p s))(getCacheKey node (parentJoinKey (rd p s)) \<mapsto> b)\<rparr>) s"
  shows "Exists_Filter p force filt node s =
    (if filterWithExists (rd p s) b then filt (exists_output (rd p s)) node s' else (Inr False, s'))"
  unfolding Exists_Filter_def Let_def
  by (simp add: assms(2-5) pointer.rd_wr [OF assms(1)] filterWithExists_def s'_def)

lemma Exists_Filter_run:
  assumes p: "pointer p"
    and sound: "inPush (rd p s) \<or> cache_sound N kids (rd p s) \<and> key_decides N kids (parentJoinKey (rd p s))" "node \<in> N"
    and rel: "rel_of node (exists_relationship (rd p s)) \<noteq> ThNil"
    and force: "force (rel_of node (exists_relationship (rd p s))) s = (Inr (kids node), s)"
  shows "\<exists>c. (inPush (rd p s) \<or> cache_sound N kids ((rd p s)\<lparr>exists_cache := c\<rparr>)) \<and>
    Exists_Filter p force filt node s =
      (if filterWithExists (rd p s) (kids node \<noteq> [])
       then filt (exists_output (rd p s)) node (wr p ((rd p s)\<lparr>exists_cache := c\<rparr>) s)
       else (Inr False, wr p ((rd p s)\<lparr>exists_cache := c\<rparr>) s))"
proof -
  let ?key = "getCacheKey node (parentJoinKey (rd p s))"
  have ex: "fetchExists p force node s = (Inr (kids node \<noteq> []), s)"
    by (rule fetchExists_run) (use rel force in simp_all)
  have same: "(rd p s)\<lparr>exists_cache := exists_cache (rd p s)\<rparr> = rd p s" by simp
  have unchanged: ?thesis
    if "Exists_Filter p force filt node s =
      (if filterWithExists (rd p s) (kids node \<noteq> []) then filt (exists_output (rd p s)) node s else (Inr False, s))"
    unfolding that
    by (rule exI [of _ "exists_cache (rd p s)"]) (use sound(1) in \<open>auto simp: same pointer.wr_rd [OF p]\<close>)
  consider "noSizeReuse (rd p s) \<or> inPush (rd p s)"
    | "noSizeReuse (rd p s) = False" "inPush (rd p s) = False" "exists_cache (rd p s) ?key = None"
    | v where "noSizeReuse (rd p s) = False" "inPush (rd p s) = False" "exists_cache (rd p s) ?key = Some v"
    by auto
  then show ?thesis
  proof cases
    case 1
    then show ?thesis by (intro unchanged Exists_Filter_hit ex)
  next
    case 2
    then have s2: "cache_sound N kids (rd p s)" "key_decides N kids (parentJoinKey (rd p s))" using sound(1) by simp_all
    show ?thesis
      by (rule exI, rule conjI, rule disjI2, rule cache_sound_put [OF s2 sound(2)], rule Exists_Filter_miss [OF p 2 ex])
  next
    case 3
    then have "v = (kids node \<noteq> [])" using sound by (simp add: cache_sound_def)
    with 3 show ?thesis by (intro unchanged Exists_Filter_cached) simp_all
  qed
qed

section \<open>Properties\<close>

text \<open>
  C10. The push of an exists filter keeps its output in step with the relationship: for an add or
  remove in its relationship, with \<open>nodes\<close> the children after the change, it forwards the change
  when the parent was and stays visible, sends an add when the parent becomes visible, a remove
  (carrying the contents of the relationship as they were) when it stops being visible, and nothing
  when it stays hidden, for EXISTS and NOT EXISTS; the lock and the push flag are released.
\<close>

theorem Exists_Push_transitions:
  fixes p :: "('s, Exists) ref"
  assumes "pointer p" "\<not> pushMu (rd p s)"
    and "rel_of node (exists_relationship (rd p s)) \<noteq> ThNil"
    and "force (rel_of node (exists_relationship (rd p s))) (wr p ((rd p s)\<lparr>pushMu := True, inPush := True\<rparr>) s) =
      (Inr nodes, wr p ((rd p s)\<lparr>pushMu := True, inPush := True\<rparr>) s)"
    and "\<And>n. child = AddChange n \<Longrightarrow> nodes \<noteq> []"
  shows "Exists_Push p me force push (ChildChange node (exists_relationship (rd p s)) child) s =
    deferM (\<lambda>s. wr p ((rd p s)\<lparr>inPush := False, pushMu := False\<rparr>) s)
      (send_all push (exists_output (rd p s)) me (exists_sends (rd p s) node child (length nodes)))
      (wr p ((rd p s)\<lparr>pushMu := True, inPush := True\<rparr>) s)"
proof -
  let ?s = "wr p ((rd p s)\<lparr>pushMu := True, inPush := True\<rparr>) s"
  have rd: "rd p ?s = (rd p s)\<lparr>pushMu := True, inPush := True\<rparr>"
    using assms(1) by (simp add: pointer.rd_wr)
  have "exists_push_body p me force push (ChildChange node (exists_relationship (rd p ?s)) child) ?s =
    send_all push (exists_output (rd p ?s)) me (exists_sends (rd p ?s) node child (length nodes)) ?s"
    by (rule exists_push_body_child) (use assms rd in auto)
  then show ?thesis
    using assms(2) rd by (simp add: Exists_Push_def deferM_def del: exists_push_body.simps)
qed

definition one_exists :: Exists where
  "one_exists = \<lparr>exists_schema = item_schema, exists_relationship = ''sub'', exists_not = False,
     parentJoinKey = [''id''], noSizeReuse = False, exists_cache = Map.empty, exists_output = ThrowOutput,
     inPush = False, pushMu = False\<rparr>"

definition echo :: "'s push" where
  "echo out ch pusher = retM [ch]"

fun force_nodes :: "thunk \<Rightarrow> (panic, 's, Node list) exec" where
  "force_nodes (ThNodes ns) s = (Inr ns, s)"
| "force_nodes t s = (Inl NilDereference, s)"

theorem Exists_Push_transitions_witness:
  "fst (Exists_Push self 1 force_nodes echo
     (ChildChange (Node (item 1) [(''sub'', ThNodes [])]) ''sub'' (RemoveChange (leaf (item 7)))) one_exists) =
   Inr [RemoveChange (Node (item 1) [(''sub'', ThNodes [leaf (item 7)])])]"
  using Exists_Push_transitions [of self one_exists "Node (item 1) [(''sub'', ThNodes [])]" force_nodes "[]"
      "RemoveChange (leaf (item 7))" 1 echo, OF self.pointer_axioms]
  by (simp add: one_exists_def rel_of_def exists_sends_def shows_size_def filterWithExists_def with_rel_def
      echo_def deferM_def)

end
