(* ===== verification/Join.thy ===== *)
theory Join
  imports Source
begin

text \<open>
  \<open>ivm/join.go\<close>: a hierarchical join.  A parent node gets a relationship whose thunk fetches the
  matching children; \<open>join_children\<close> is the closure \<open>childStream\<close>, with the operator's address and
  the parent row as captured variables.  While a child change is pushed to the parents one by one,
  the parents not yet reached still show the children as they were.
\<close>

record Join =
  join_schema :: SourceSchema
  join_childSchema :: SourceSchema
  join_parentKey :: CompoundKey
  join_childKey :: CompoundKey
  join_relationship :: string
  join_output :: Output
  inprogressChildChange :: "Change option"
  inprogressChildChangePosition :: "row option"

text \<open>The schema of the child as a relationship, and the schema of the join.\<close>

definition relationship_schema :: "SourceSchema \<Rightarrow> bool \<Rightarrow> bool \<Rightarrow> string \<Rightarrow> SourceSchema" where
  "relationship_schema child hidden scalar system =
     SourceSchema (TableName child) (Columns child) (PrimaryKey child) (SchemaRelationships child)
       hidden scalar system (CompareRows child) (Sort child)"

definition joined_schema :: "SourceSchema \<Rightarrow> string \<Rightarrow> SourceSchema \<Rightarrow> SourceSchema" where
  "joined_schema parent name rel =
     SourceSchema (TableName parent) (Columns parent) (PrimaryKey parent)
       (put name rel (SchemaRelationships parent)) (IsHidden parent) False (System parent)
       (CompareRows parent) (Sort parent)"

text \<open>The arguments of \<open>NewJoin\<close> and \<open>NewFlippedJoin\<close>: addresses and schemas of both inputs first.\<close>

definition NewJoin ::
  "opid \<Rightarrow> SourceSchema \<Rightarrow> opid \<Rightarrow> SourceSchema \<Rightarrow> CompoundKey \<Rightarrow> CompoundKey \<Rightarrow> string \<Rightarrow> bool \<Rightarrow> bool \<Rightarrow>
   string \<Rightarrow> Join res"
where
  "NewJoin parent parentSchema child childSchema pk ck name hidden scalar system =
     (if parent = child then Inl (Panic ''Parent and child must be different operators'')
      else if length pk \<noteq> length ck
      then Inl (Panic ''The parentKey and childKey keys must have same length'')
      else Inr \<lparr>join_schema = joined_schema parentSchema name (relationship_schema childSchema hidden scalar system),
                join_childSchema = childSchema, join_parentKey = pk, join_childKey = ck,
                join_relationship = name, join_output = ThrowOutput, inprogressChildChange = None,
                inprogressChildChangePosition = None\<rparr>)"

definition Join_SetOutput :: "Output \<Rightarrow> Join \<Rightarrow> Join" where
  "Join_SetOutput out j = j\<lparr>join_output := out\<rparr>"

definition processParentNode :: "opid \<Rightarrow> Join \<Rightarrow> Node \<Rightarrow> Node" where
  "processParentNode me j n =
     Node (Row n) (put (join_relationship j) (ThJoinChild me (Row n)) (Relationships n))"

definition key_request :: "Constraint \<Rightarrow> FetchRequest" where
  "key_request c = \<lparr>ReqConstraint = Some c, ReqStart = None, ReqReverse = False\<rparr>"

text \<open>The overlay on the children of the parent \<open>row\<close>.\<close>

definition join_overlay :: "Join \<Rightarrow> row \<Rightarrow> Node list \<Rightarrow> Node list res" where
  "join_overlay j row nodes =
     (case inprogressChildChange j of
        None \<Rightarrow> Inr nodes
      | Some change \<Rightarrow>
          bindR (IsJoinMatch row (join_parentKey j) (Row (change_node change)) (join_childKey j)) (\<lambda>match.
            if \<not> match then Inr nodes
            else case inprogressChildChangePosition j of
              None \<Rightarrow> Inr nodes
            | Some pos \<Rightarrow>
                bindR (CompareRows (join_schema j) row pos) (\<lambda>c.
                  if c > 0 then
                    (if Sort (join_childSchema j) = None
                     then GenerateWithOverlayUnordered nodes change (join_childSchema j)
                     else GenerateWithOverlay nodes change (Some (join_childSchema j)))
                  else Inr nodes)))"

definition join_children :: "('s, Join) ref \<Rightarrow> 's fetch \<Rightarrow> row \<Rightarrow> (panic, 's, Node list) exec" where
  "join_children p fetchChild row =
     bindM (getM (rd p)) (\<lambda>j.
     bindM (case BuildJoinConstraint row (join_parentKey j) (join_childKey j) of
              None \<Rightarrow> retM []
            | Some c \<Rightarrow> fetchChild (key_request c)) (\<lambda>nodes.
     askM p (\<lambda>j. join_overlay j row nodes)))"

definition Join_Fetch :: "('s, Join) ref \<Rightarrow> opid \<Rightarrow> 's fetch \<Rightarrow> FetchRequest \<Rightarrow> (panic, 's, Node list) exec" where
  "Join_Fetch p me fetchParent req =
     bindM (fetchParent req) (\<lambda>nodes.
     bindM (getM (rd p)) (\<lambda>j. retM (map (processParentNode me j) nodes)))"

definition Join_pushParent :: "('s, Join) ref \<Rightarrow> opid \<Rightarrow> 's push \<Rightarrow> Change \<Rightarrow> (panic, 's, Change list) exec" where
  "Join_pushParent p me push change =
     bindM (getM (rd p)) (\<lambda>j.
       case change of
         AddChange n \<Rightarrow> push (join_output j) (AddChange (processParentNode me j n)) me
       | RemoveChange n \<Rightarrow> push (join_output j) (RemoveChange (processParentNode me j n)) me
       | ChildChange n name child \<Rightarrow> push (join_output j) (ChildChange (processParentNode me j n) name child) me
       | EditChange n old \<Rightarrow>
           bindM (liftM (RowEqualsForCompoundKey (Row old) (Row n) (join_parentKey j))) (\<lambda>same.
             if \<not> same then failM (Panic ''Parent edit must not change relationship.'')
             else push (join_output j) (EditChange (processParentNode me j n) (processParentNode me j old)) me))"

text \<open>The body of the loop over the matching parents.\<close>

definition join_push_to ::
  "('s, Join) ref \<Rightarrow> opid \<Rightarrow> 's push \<Rightarrow> Change \<Rightarrow> Node \<Rightarrow> (panic, 's, Change list) exec" where
  "join_push_to p me push change n =
     thenM (updM p (\<lambda>j. j\<lparr>inprogressChildChangePosition := Some (Row n)\<rparr>))
       (bindM (getM (rd p)) (\<lambda>j.
         push (join_output j) (ChildChange (processParentNode me j n) (join_relationship j) change) me))"

definition Join_pushChildChange ::
  "('s, Join) ref \<Rightarrow> opid \<Rightarrow> 's fetch \<Rightarrow> 's push \<Rightarrow> row \<Rightarrow> Change \<Rightarrow> (panic, 's, Change list) exec" where
  "Join_pushChildChange p me fetchParent push childRow change =
     thenM (updM p (\<lambda>j. j\<lparr>inprogressChildChange := Some change, inprogressChildChangePosition := None\<rparr>))
       (deferM (\<lambda>s. wr p ((rd p s)\<lparr>inprogressChildChange := None\<rparr>) s)
         (bindM (getM (rd p)) (\<lambda>j.
            case BuildJoinConstraint childRow (join_childKey j) (join_parentKey j) of
              None \<Rightarrow> retM []
            | Some c \<Rightarrow>
                bindM (fetchParent (key_request c)) (\<lambda>parents.
                  collectM (join_push_to p me push change) parents))))"

definition Join_pushChild ::
  "('s, Join) ref \<Rightarrow> opid \<Rightarrow> 's fetch \<Rightarrow> 's push \<Rightarrow> Change \<Rightarrow> (panic, 's, Change list) exec" where
  "Join_pushChild p me fetchParent push change =
     bindM (getM (rd p)) (\<lambda>j.
       case change of
         EditChange n old \<Rightarrow>
           bindM (liftM (RowEqualsForCompoundKey (Row old) (Row n) (join_childKey j))) (\<lambda>same.
             if \<not> same then failM (Panic ''Child edit must not change relationship.'')
             else Join_pushChildChange p me fetchParent push (Row n) change)
       | _ \<Rightarrow> Join_pushChildChange p me fetchParent push (Row (change_node change)) change)"

section \<open>A join is a sorted input again\<close>

locale join_input = sorted_input schema S fetch good view
  for schema :: SourceSchema and S :: "row set" and fetch :: "'s fetch"
    and good :: "'s \<Rightarrow> bool" and view :: "'s \<Rightarrow> Constraint option \<Rightarrow> Node list" +
  fixes p :: "('s, Join) ref" and me :: opid and name :: string and rel :: SourceSchema
  assumes joined: "good s \<Longrightarrow> join_schema (rd p s) = joined_schema schema name rel"
begin

definition with_children :: "'s \<Rightarrow> Constraint option \<Rightarrow> Node list" where
  "with_children s c = map (processParentNode me (rd p s)) (view s c)"

lemma Row_processParentNode [simp]: "Row (processParentNode me j n) = Row n"
  by (simp add: processParentNode_def)

lemma select_processParentNode:
  "map (processParentNode me j) (select_nodes cmp req xs) = select_nodes cmp req (map (processParentNode me j) xs)"
proof -
  have pos: "start_pos cmp st reverse (processParentNode me j n) = start_pos cmp st reverse n" for st reverse n
    by (simp add: start_pos_def)
  show ?thesis
    by (cases "ReqStart req") (simp_all add: select_nodes_def Let_def filter_map comp_def rev_map pos)
qed

lemma join_fetch:
  assumes "good s" "proper_request S req"
  shows "Join_Fetch p me fetch req s =
    (Inr (select_nodes (CompareRows schema) req (with_children s (ReqConstraint req))), s)"
  using fetch [OF assms] by (simp add: Join_Fetch_def with_children_def select_processParentNode)

end

sublocale join_input \<subseteq> out: sorted_input "joined_schema schema name rel" S "Join_Fetch p me fetch" good with_children
proof (intro sorted_input.intro ordered_schema.intro sorted_input_axioms.intro)
  have cmp: "CompareRows (joined_schema schema name rel) = CompareRows schema"
    by (simp add: joined_schema_def)
  have ncmp: "node_cmp (joined_schema schema name rel) = node_cmp schema"
    by (intro ext) (simp add: node_cmp_def cmp)
  show "comparator (CompareRows (joined_schema schema name rel)) S"
    unfolding cmp by (rule row_order)
  show "Join_Fetch p me fetch req s =
      (Inr (select_nodes (CompareRows (joined_schema schema name rel)) req (with_children s (ReqConstraint req))), s)"
    if "good s" "proper_request S req" for s req
    unfolding cmp using that by (rule join_fetch)
  show "sorted_by (node_cmp (joined_schema schema name rel)) (with_children s c)" if "good s" for s c
    using view_sorted [OF that, of c]
    by (simp add: ncmp with_children_def sorted_by_def sorted_wrt_map ltc_def [abs_def] cval_def [abs_def] node_cmp_def [abs_def] cmp)
  show "Row ` set (with_children s c) \<subseteq> S" if "good s" for s c
    using view_rows [OF that, of c] by (auto simp: with_children_def)
qed

section \<open>Children during a push\<close>

text \<open>
  The children of a matching parent while a child change is in progress: as before the change for
  the parents behind the position, as after it for the others.
\<close>

lemma join_overlay_position:
  assumes "CompareRows (join_childSchema j) = MakeComparator order False" "Sort (join_childSchema j) \<noteq> None"
    and "inprogressChildChange j = Some change" "inprogressChildChangePosition j = Some pos"
    and "IsJoinMatch row (join_parentKey j) (Row (change_node change)) (join_childKey j) = Inr True"
    and "CompareRows (join_schema j) row pos = Inr c"
    and "sorted_by (node_cmp (join_childSchema j)) xs" "\<forall>n\<in>set xs. row_ok ty order (Row n)"
    and "row_ok ty order (Row (change_node change))" "change_possible (join_childSchema j) change xs"
    and "change_type change \<noteq> ChangeTypeChild"
  shows "join_overlay j row (apply_change (join_childSchema j) change xs) =
    Inr (if c > 0 then xs else apply_change (join_childSchema j) change xs)"
proof -
  have "GenerateWithOverlay (apply_change (join_childSchema j) change xs) change (Some (join_childSchema j)) = Inr xs"
    using assms(7-11) by (intro ordered_schema.overlay_undoes [OF schema_ordered [OF assms(1), of ty]]) auto
  then show ?thesis using assms(2-6) by (auto simp: join_overlay_def)
qed

lemma collectM_positions:
  assumes "pointer p" and push: "\<And>ch s. push out ch me s = (Inr (emit (rd p s) ch), s)"
    and "join_output (rd p s) = out"
  shows "\<exists>pos. collectM (join_push_to p me push change) ns s =
    (Inr (concat (map (\<lambda>n. emit ((rd p s)\<lparr>inprogressChildChangePosition := Some (Row n)\<rparr>)
        (ChildChange (processParentNode me (rd p s) n) (join_relationship (rd p s)) change)) ns)),
     wr p ((rd p s)\<lparr>inprogressChildChangePosition := pos\<rparr>) s)"
  using assms(3)
proof (induction ns arbitrary: s)
  case Nil
  have "(rd p s)\<lparr>inprogressChildChangePosition := inprogressChildChangePosition (rd p s)\<rparr> = rd p s" by simp
  then have "s = wr p ((rd p s)\<lparr>inprogressChildChangePosition := inprogressChildChangePosition (rd p s)\<rparr>) s"
    using pointer.wr_rd [OF assms(1), of s] by simp
  then show ?case by (intro exI [of _ "inprogressChildChangePosition (rd p s)"]) simp
next
  case (Cons n ns)
  let ?s = "wr p ((rd p s)\<lparr>inprogressChildChangePosition := Some (Row n)\<rparr>) s"
  have rd: "rd p ?s = (rd p s)\<lparr>inprogressChildChangePosition := Some (Row n)\<rparr>"
    using pointer.rd_wr [OF assms(1)] by simp
  have proc: "processParentNode me ((rd p s)\<lparr>inprogressChildChangePosition := pos\<rparr>) = processParentNode me (rd p s)" for pos
    by (intro ext) (simp add: processParentNode_def)
  have step: "join_push_to p me push change n s =
      (Inr (emit ((rd p s)\<lparr>inprogressChildChangePosition := Some (Row n)\<rparr>)
        (ChildChange (processParentNode me (rd p s) n) (join_relationship (rd p s)) change)), ?s)"
    using Cons.prems push by (simp add: join_push_to_def rd proc)
  obtain pos where "collectM (join_push_to p me push change) ns ?s =
    (Inr (concat (map (\<lambda>n. emit ((rd p ?s)\<lparr>inprogressChildChangePosition := Some (Row n)\<rparr>)
        (ChildChange (processParentNode me (rd p ?s) n) (join_relationship (rd p ?s)) change)) ns)),
     wr p ((rd p ?s)\<lparr>inprogressChildChangePosition := pos\<rparr>) ?s)"
    using Cons.IH [of ?s] Cons.prems rd by auto
  then show ?case
    using step by (intro exI [of _ pos]) (simp add: rd proc pointer.wr_wr [OF assms(1)])
qed

lemma Join_pushChildChange_run:
  assumes "pointer p" and push: "\<And>ch s. push (join_output (rd p s0)) ch me s = (Inr (emit (rd p s) ch), s)"
    and "BuildJoinConstraint childRow (join_childKey (rd p s0)) (join_parentKey (rd p s0)) = Some c"
    and "\<And>j. fetchParent (key_request c) (wr p j s0) = (Inr ns, wr p j s0)"
  shows "\<exists>pos. Join_pushChildChange p me fetchParent push childRow change s0 =
    (Inr (concat (map (\<lambda>n. emit ((rd p s0)\<lparr>inprogressChildChange := Some change, inprogressChildChangePosition := Some (Row n)\<rparr>)
        (ChildChange (processParentNode me (rd p s0) n) (join_relationship (rd p s0)) change)) ns)),
     wr p ((rd p s0)\<lparr>inprogressChildChangePosition := pos, inprogressChildChange := None\<rparr>) s0)"
proof -
  let ?j = "(rd p s0)\<lparr>inprogressChildChange := Some change, inprogressChildChangePosition := None\<rparr>"
  note heap = pointer.rd_wr [OF assms(1)] pointer.wr_wr [OF assms(1)]
  have proc: "processParentNode me ?j = processParentNode me (rd p s0)"
    by (intro ext) (simp add: processParentNode_def)
  obtain pos where "collectM (join_push_to p me push change) ns (wr p ?j s0) =
    (Inr (concat (map (\<lambda>n. emit (?j\<lparr>inprogressChildChangePosition := Some (Row n)\<rparr>)
        (ChildChange (processParentNode me ?j n) (join_relationship ?j) change)) ns)),
     wr p (?j\<lparr>inprogressChildChangePosition := pos\<rparr>) (wr p ?j s0))"
    using collectM_positions [OF assms(1), of push "join_output (rd p s0)" me emit "wr p ?j s0" change ns] push
    by (auto simp: heap)
  then show ?thesis
    using assms(3,4) by (intro exI [of _ pos]) (simp add: Join_pushChildChange_def heap proc)
qed

section \<open>Properties\<close>

text \<open>
  C12. While a join pushes a child change to the matching parents, every parent shows the children it
  should: forcing the relationship of a parent behind the current position yields the children
  before the change, forcing that of the current or an earlier parent yields those after it.
\<close>

theorem join_children_during_push:
  assumes "CompareRows (join_childSchema (rd p s)) = MakeComparator order False"
    and "Sort (join_childSchema (rd p s)) \<noteq> None"
    and "inprogressChildChange (rd p s) = Some change" "inprogressChildChangePosition (rd p s) = Some pos"
    and "IsJoinMatch row (join_parentKey (rd p s)) (Row (change_node change)) (join_childKey (rd p s)) = Inr True"
    and "CompareRows (join_schema (rd p s)) row pos = Inr d"
    and "sorted_by (node_cmp (join_childSchema (rd p s))) xs" "\<forall>n\<in>set xs. row_ok ty order (Row n)"
    and "row_ok ty order (Row (change_node change))" "change_possible (join_childSchema (rd p s)) change xs"
    and "change_type change \<noteq> ChangeTypeChild"
    and "BuildJoinConstraint row (join_parentKey (rd p s)) (join_childKey (rd p s)) = Some c"
    and "fetchChild (key_request c) s = (Inr (apply_change (join_childSchema (rd p s)) change xs), s)"
  shows "join_children p fetchChild row s =
    (Inr (if d > 0 then xs else apply_change (join_childSchema (rd p s)) change xs), s)"
  using join_overlay_position [OF assms(1-11)] assms(12,13) by (simp add: join_children_def)

definition one_join :: Join where
  "one_join = \<lparr>join_schema = joined_schema item_schema ''sub'' item_schema, join_childSchema = item_schema,
     join_parentKey = [''id''], join_childKey = [''id''], join_relationship = ''sub'', join_output = ThrowOutput,
     inprogressChildChange = Some (AddChange (leaf (item 1))), inprogressChildChangePosition = Some (item 0)\<rparr>"

lemma joined_schema_simps [simp]:
  "CompareRows (joined_schema schema name rel) = CompareRows schema" "Sort (joined_schema schema name rel) = Sort schema"
  by (simp_all add: joined_schema_def)

lemma col_item [simp]: "col (item n) ''id'' = num n"
  by (simp add: item_def)

lemma ValuesEqual_num [simp]: "ValuesEqual (num a) (num b) = Inr (a = b)"
  by (auto simp: ValuesEqual_def CompareValues_num iface_eq_def f64_eq_iff)

theorem join_children_during_push_witness:
  "join_children self (\<lambda>req s. (Inr [leaf (item 1)], s)) (item 1) one_join = (Inr [], one_join)"
  using join_children_during_push [of self one_join item_order "AddChange (leaf (item 1))" "item 0" "item 1" 1 "[]"
      "\<lambda>_. CNum" "[(''id'', num 1)]" "\<lambda>req s. (Inr [leaf (item 1)], s)"]
  by (simp add: one_join_def item_schema_def sorted_by_def BuildJoinConstraint_def)

text \<open>
  C13. The push of a child change through a join sends one child change per matching parent, in the
  order of the parent's fetch and with the position at that parent, and leaves no change in
  progress; \<open>emit\<close> is whatever the output answers for the state of the join that it sees.
\<close>

theorem Join_pushChild_visits_parents:
  fixes p :: "('s, Join) ref"
  assumes "pointer p" and "\<And>ch s. push (join_output (rd p s0)) ch me s = (Inr (emit (rd p s) ch), s)"
    and "change = AddChange child \<or> change = RemoveChange child"
    and "BuildJoinConstraint (Row child) (join_childKey (rd p s0)) (join_parentKey (rd p s0)) = Some c"
    and "\<And>j. fetchParent (key_request c) (wr p j s0) = (Inr ns, wr p j s0)"
  shows "\<exists>pos. Join_pushChild p me fetchParent push change s0 =
    (Inr (concat (map (\<lambda>n. emit ((rd p s0)\<lparr>inprogressChildChange := Some change, inprogressChildChangePosition := Some (Row n)\<rparr>)
        (ChildChange (processParentNode me (rd p s0) n) (join_relationship (rd p s0)) change)) ns)),
     wr p ((rd p s0)\<lparr>inprogressChildChangePosition := pos, inprogressChildChange := None\<rparr>) s0)"
  using Join_pushChildChange_run [where push = push and emit = emit and change = change and fetchParent = fetchParent,
      OF assms(1,2,4,5)] assms(3)
  by (auto simp: Join_pushChild_def)

theorem Join_pushChild_visits_parents_witness:
  "\<exists>pos. Join_pushChild self 5 (\<lambda>req s. (Inr [leaf (item 3)], s))
     (\<lambda>out ch pusher s. (Inr [ch], s)) (RemoveChange (leaf (item 3))) one_join =
   (Inr [ChildChange (Node (item 3) [(''sub'', ThJoinChild 5 (item 3))]) ''sub'' (RemoveChange (leaf (item 3)))],
    one_join\<lparr>inprogressChildChangePosition := pos, inprogressChildChange := None\<rparr>)"
  using Join_pushChild_visits_parents [of self "\<lambda>out ch pusher s. (Inr [ch], s)" one_join 5 "\<lambda>j ch. [ch]"
      "RemoveChange (leaf (item 3))" "leaf (item 3)" "[(''id'', num 3)]" "\<lambda>req s. (Inr [leaf (item 3)], s)"
      "[leaf (item 3)]", OF self.pointer_axioms]
  by (simp add: one_join_def BuildJoinConstraint_def processParentNode_def)

end
