(* ===== verification/Fan.thy ===== *)
theory Fan
  imports FilterChain
begin

text \<open>
  Forking and merging: \<open>ivm/fan_out.go\<close>, \<open>ivm/fan_in.go\<close>, \<open>ivm/union_fan_out.go\<close>,
  \<open>ivm/union_fan_in.go\<close> and \<open>ivm/push_accumulated.go\<close>.

  A fan-out pushes a change into every branch; the branches' results wait in the fan-in, which then
  sends at most one change for all of them.
\<close>

section \<open>Collapsing the pushes of the branches\<close>

text \<open>The map from change types to the candidate of that type.\<close>

type_synonym candidates = "ChangeType \<Rightarrow> Change option"

fun collect_candidates ::
  "(Change \<Rightarrow> Change \<Rightarrow> Change res) \<Rightarrow> Change list \<Rightarrow> candidates \<Rightarrow> candidates res" where
  "collect_candidates merge [] cands = Inr cands"
| "collect_candidates merge (ch # chs) cands =
     bindR (case cands (change_type ch) of None \<Rightarrow> Inr ch | Some existing \<Rightarrow> merge existing ch) (\<lambda>merged.
       collect_candidates merge chs (cands(change_type ch := Some merged)))"

text \<open>The nodes of an edit candidate; reading \<open>OldNode\<close> of another change is a nil dereference.\<close>

definition collapse_edit ::
  "(Change \<Rightarrow> Change \<Rightarrow> Change res) \<Rightarrow> candidates \<Rightarrow> Change res" where
  "collapse_edit merge cands =
     (let add = cands ChangeTypeAdd; rm = cands ChangeTypeRemove in
      case cands ChangeTypeEdit of
        Some ed \<Rightarrow>
          bindR (case add of None \<Rightarrow> Inr ed | Some a \<Rightarrow> merge ed a) (\<lambda>ed1.
            case rm of None \<Rightarrow> Inr ed1 | Some r \<Rightarrow> merge ed1 r)
      | None \<Rightarrow>
        (case (add, rm) of
           (Some a, Some r) \<Rightarrow> Inr (EditChange (change_node a) (change_node r))
         | (Some a, None) \<Rightarrow> Inr a
         | (None, Some r) \<Rightarrow> Inr r
         | (None, None) \<Rightarrow> Inl (Panic ''PushAccumulated EDIT: expected hasEdit||hasAdd||hasRemove, got none'')))"

definition collapse_child :: "(Change \<Rightarrow> Change) \<Rightarrow> candidates \<Rightarrow> Change res" where
  "collapse_child fill cands =
     (case cands ChangeTypeChild of
        Some c \<Rightarrow> Inr c
      | None \<Rightarrow>
        (case (cands ChangeTypeAdd, cands ChangeTypeRemove) of
           (Some a, Some r) \<Rightarrow> Inl (Panic ''Fan-in:child expected either add or remove, not both'')
         | (Some a, None) \<Rightarrow> Inr (fill a)
         | (None, Some r) \<Rightarrow> Inr (fill r)
         | (None, None) \<Rightarrow> Inl (Panic ''PushAccumulated CHILD: expected hasChild||hasAdd||hasRemove, got none'')))"

definition collapse ::
  "(Change \<Rightarrow> Change \<Rightarrow> Change res) \<Rightarrow> (Change \<Rightarrow> Change) \<Rightarrow> ChangeType \<Rightarrow> Change list \<Rightarrow> Change option res"
where
  "collapse merge fill ty chs =
     (if chs = [] then Inr None
      else bindR (collect_candidates merge chs (\<lambda>_. None)) (\<lambda>cands.
        case ty of
          ChangeTypeRemove \<Rightarrow>
            (case cands ChangeTypeRemove of
               None \<Rightarrow> Inl (Panic ''pushAccumulatedChanges: REMOVE expected but not found in candidates'')
             | Some c \<Rightarrow> Inr (Some (fill c)))
        | ChangeTypeAdd \<Rightarrow>
            (case cands ChangeTypeAdd of
               None \<Rightarrow> Inl (Panic ''pushAccumulatedChanges: ADD expected but not found in candidates'')
             | Some c \<Rightarrow> Inr (Some (fill c)))
        | ChangeTypeEdit \<Rightarrow> bindR (collapse_edit merge cands) (\<lambda>c. Inr (Some (fill c)))
        | ChangeTypeChild \<Rightarrow> bindR (collapse_child fill cands) (\<lambda>c. Inr (Some c))))"

definition PushAccumulatedChanges ::
  "'s push \<Rightarrow> Change list \<Rightarrow> Output \<Rightarrow> opid \<Rightarrow> ChangeType \<Rightarrow> (Change \<Rightarrow> Change \<Rightarrow> Change res) \<Rightarrow>
   (Change \<Rightarrow> Change) \<Rightarrow> (panic, 's, Change list) exec"
where
  "PushAccumulatedChanges push acc out pusher ty merge fill =
     bindM (liftM (collapse merge fill ty acc)) (\<lambda>c.
       case c of None \<Rightarrow> retM [] | Some ch \<Rightarrow> push out ch pusher)"

section \<open>Merging relationships\<close>

type_synonym rels = "(string \<times> thunk) list"

definition mergeRelationshipMaps :: "rels \<Rightarrow> rels \<Rightarrow> rels" where
  "mergeRelationshipMaps left right = fold (\<lambda>(k, v). put k v) left right"

definition merge_nodes :: "Node \<Rightarrow> Node \<Rightarrow> Node" where
  "merge_nodes left right = Node (Row left) (mergeRelationshipMaps (Relationships left) (Relationships right))"

fun MergeRelationships :: "Change \<Rightarrow> Change \<Rightarrow> Change res" where
  "MergeRelationships (AddChange l) (AddChange r) = Inr (AddChange (merge_nodes l r))"
| "MergeRelationships (RemoveChange l) (RemoveChange r) = Inr (RemoveChange (merge_nodes l r))"
| "MergeRelationships (EditChange l lo) (EditChange r ro) = Inr (EditChange (merge_nodes l r) (merge_nodes lo ro))"
| "MergeRelationships (ChildChange l name ch) (ChildChange r name' ch') = Inr (ChildChange (merge_nodes l r) name ch)"
| "MergeRelationships (EditChange l lo) (AddChange r) = Inr (EditChange (merge_nodes l r) lo)"
| "MergeRelationships (EditChange l lo) (RemoveChange r) = Inr (EditChange l (merge_nodes lo r))"
| "MergeRelationships _ (AddChange r) = Inl NilDereference"
| "MergeRelationships _ (RemoveChange r) = Inl NilDereference"
| "MergeRelationships _ _ = Inl (Panic ''unreachable: mergeRelationships'')"

definition mergeEmpty :: "rels \<Rightarrow> (string \<times> SourceSchema) list \<Rightarrow> rels" where
  "mergeEmpty rels schemaRels =
     fold (\<lambda>(name, _) rs. if map_of rs name = None then put name ThNil rs else rs) schemaRels rels"

definition fill_node :: "SourceSchema \<Rightarrow> Node \<Rightarrow> Node" where
  "fill_node schema n = Node (Row n) (mergeEmpty (Relationships n) (SchemaRelationships schema))"

fun MakeAddEmptyRelationships :: "SourceSchema \<Rightarrow> Change \<Rightarrow> Change" where
  "MakeAddEmptyRelationships schema (ChildChange n name ch) = ChildChange n name ch"
| "MakeAddEmptyRelationships schema (AddChange n) =
     (if SchemaRelationships schema = [] then AddChange n else AddChange (fill_node schema n))"
| "MakeAddEmptyRelationships schema (RemoveChange n) =
     (if SchemaRelationships schema = [] then RemoveChange n else RemoveChange (fill_node schema n))"
| "MakeAddEmptyRelationships schema (EditChange n old) =
     (if SchemaRelationships schema = [] then EditChange n old
      else EditChange (fill_node schema n) (fill_node schema old))"

section \<open>Fan-out and fan-in of a filter chain\<close>

record FanOut =
  fanout_schema :: SourceSchema
  fanout_outputs :: "Output list"
  fanout_fanIn :: "opid option"
  fanout_destroyCount :: nat

record FanIn =
  fanin_inputs :: "opid list"
  fanin_schema :: SourceSchema
  fanin_output :: Output
  fanin_accumulated :: "Change list"

definition NewFanOut :: "SourceSchema \<Rightarrow> FanOut" where
  "NewFanOut schema = \<lparr>fanout_schema = schema, fanout_outputs = [], fanout_fanIn = None, fanout_destroyCount = 0\<rparr>"

definition FanOut_SetFanIn :: "opid \<Rightarrow> FanOut \<Rightarrow> FanOut" where
  "FanOut_SetFanIn fanIn fo = fo\<lparr>fanout_fanIn := Some fanIn\<rparr>"

definition FanOut_SetFilterOutput :: "Output \<Rightarrow> FanOut \<Rightarrow> FanOut" where
  "FanOut_SetFilterOutput out fo = fo\<lparr>fanout_outputs := fanout_outputs fo @ [out]\<rparr>"

text \<open>The state of a \<open>Destroy\<close>, and whether the call reaches the input.\<close>

definition FanOut_Destroy :: "FanOut \<Rightarrow> (bool \<times> FanOut) res" where
  "FanOut_Destroy fo =
     (if fanout_destroyCount fo < length (fanout_outputs fo)
      then (let n = fanout_destroyCount fo + 1
            in Inr (n = length (fanout_outputs fo), fo\<lparr>fanout_destroyCount := n\<rparr>))
      else Inl (Panic ''FanOut already destroyed once for each output''))"

definition FanOut_Begin :: "('s, FanOut) ref \<Rightarrow> 's bracket \<Rightarrow> (panic, 's, unit) exec" where
  "FanOut_Begin p beginF = bindM (getM (\<lambda>s. fanout_outputs (rd p s))) (forM beginF)"

definition FanOut_End :: "('s, FanOut) ref \<Rightarrow> 's bracket \<Rightarrow> (panic, 's, unit) exec" where
  "FanOut_End p endF = bindM (getM (\<lambda>s. fanout_outputs (rd p s))) (forM endF)"

definition FanOut_Filter :: "('s, FanOut) ref \<Rightarrow> 's filt \<Rightarrow> Node \<Rightarrow> (panic, 's, bool) exec" where
  "FanOut_Filter p filt node =
     bindM (getM (\<lambda>s. fanout_outputs (rd p s))) (\<lambda>outs. anyM (\<lambda>out. filt out node) outs)"

text \<open>\<open>done\<close> is \<open>FanOutDonePushingToAllBranches\<close> of the fan-in at an address.\<close>

definition FanOut_Push ::
  "('s, FanOut) ref \<Rightarrow> opid \<Rightarrow> 's push \<Rightarrow> (opid \<Rightarrow> ChangeType \<Rightarrow> (panic, 's, Change list) exec) \<Rightarrow>
   Change \<Rightarrow> (panic, 's, Change list) exec"
where
  "FanOut_Push p me push done change =
     bindM (getM (\<lambda>s. fanout_outputs (rd p s))) (\<lambda>outs.
     bindM (collectM (\<lambda>out. push out change me) outs) (\<lambda>results.
     bindM (getM (\<lambda>s. fanout_fanIn (rd p s))) (\<lambda>fanIn.
       case fanIn of
         None \<Rightarrow> failM (Panic ''fan-out must have a corresponding fan-in set!'')
       | Some fi \<Rightarrow> bindM (done fi (change_type change)) (\<lambda>merged. retM (results @ merged)))))"

definition NewFanIn :: "FanOut \<Rightarrow> opid list \<Rightarrow> FanIn" where
  "NewFanIn fo inputs = \<lparr>fanin_inputs = inputs, fanin_schema = fanout_schema fo,
     fanin_output = ThrowOutput, fanin_accumulated = []\<rparr>"

definition FanIn_Filter :: "('s, FanIn) ref \<Rightarrow> 's filt \<Rightarrow> Node \<Rightarrow> (panic, 's, bool) exec" where
  "FanIn_Filter p filt node = bindM (getM (\<lambda>s. fanin_output (rd p s))) (\<lambda>out. filt out node)"

definition FanIn_Push :: "('s, FanIn) ref \<Rightarrow> Change \<Rightarrow> (panic, 's, Change list) exec" where
  "FanIn_Push p change =
     thenM (updM p (\<lambda>fi. fi\<lparr>fanin_accumulated := fanin_accumulated fi @ [change]\<rparr>)) (retM [])"

definition identity :: "Change \<Rightarrow> Change \<Rightarrow> Change res" where
  "identity existing incoming = Inr existing"

definition FanOutDonePushingToAllBranches ::
  "('s, FanIn) ref \<Rightarrow> opid \<Rightarrow> 's push \<Rightarrow> ChangeType \<Rightarrow> (panic, 's, Change list) exec"
where
  "FanOutDonePushingToAllBranches p me push ty =
     bindM (getM (rd p)) (\<lambda>fi.
       if fanin_inputs fi = [] then
         (if fanin_accumulated fi \<noteq> []
          then failM (Panic ''If there are no inputs then fan-in should not receive any pushes.'')
          else retM [])
       else
         bindM (PushAccumulatedChanges push (fanin_accumulated fi) (fanin_output fi) me ty identity id) (\<lambda>result.
         thenM (updM p (\<lambda>fi. fi\<lparr>fanin_accumulated := []\<rparr>)) (retM result)))"

section \<open>Fan-out and fan-in of inputs\<close>

record UnionFanOut =
  ufo_destroyCount :: nat
  ufo_unionFanIn :: "opid option"
  ufo_schema :: SourceSchema
  ufo_outputs :: "Output list"

record UnionFanIn =
  ufi_inputs :: "opid list"
  ufi_schema :: SourceSchema
  fanOutPushStarted :: bool
  ufi_output :: Output
  ufi_accumulated :: "Change list"

definition NewUnionFanOut :: "SourceSchema \<Rightarrow> UnionFanOut" where
  "NewUnionFanOut schema =
     \<lparr>ufo_destroyCount = 0, ufo_unionFanIn = None, ufo_schema = schema, ufo_outputs = []\<rparr>"

definition UnionFanOut_SetFanIn :: "opid \<Rightarrow> UnionFanOut \<Rightarrow> UnionFanOut res" where
  "UnionFanOut_SetFanIn fanIn ufo =
     (if ufo_unionFanIn ufo \<noteq> None then Inl (Panic ''FanIn already set for this FanOut'')
      else Inr (ufo\<lparr>ufo_unionFanIn := Some fanIn\<rparr>))"

definition UnionFanOut_SetOutput :: "Output \<Rightarrow> UnionFanOut \<Rightarrow> UnionFanOut" where
  "UnionFanOut_SetOutput out ufo = ufo\<lparr>ufo_outputs := ufo_outputs ufo @ [out]\<rparr>"

definition UnionFanOut_Destroy :: "UnionFanOut \<Rightarrow> (bool \<times> UnionFanOut) res" where
  "UnionFanOut_Destroy ufo =
     (if ufo_destroyCount ufo < length (ufo_outputs ufo)
      then (let n = ufo_destroyCount ufo + 1
            in Inr (n = length (ufo_outputs ufo), ufo\<lparr>ufo_destroyCount := n\<rparr>))
      else Inl (Panic ''FanOut already destroyed once for each output''))"

text \<open>The results of the branch pushes are dropped; only the fan-in's are returned.\<close>

definition UnionFanOut_Push ::
  "('s, UnionFanOut) ref \<Rightarrow> opid \<Rightarrow> 's push \<Rightarrow> (opid \<Rightarrow> (panic, 's, unit) exec) \<Rightarrow>
   (opid \<Rightarrow> ChangeType \<Rightarrow> (panic, 's, Change list) exec) \<Rightarrow> Change \<Rightarrow> (panic, 's, Change list) exec"
where
  "UnionFanOut_Push p me push started done change =
     bindM (getM (\<lambda>s. ufo_unionFanIn (rd p s))) (\<lambda>fanIn.
       case fanIn of
         None \<Rightarrow> failM (Panic ''UnionFanIn not set'')
       | Some fi \<Rightarrow>
         thenM (started fi)
           (bindM (getM (\<lambda>s. ufo_outputs (rd p s))) (\<lambda>outs.
            bindM (collectM (\<lambda>out. push out change me) outs) (\<lambda>_. done fi (change_type change)))))"

text \<open>The schema of a union: the relationships of the fan-out and those the branches add.\<close>

fun merge_branch_rels ::
  "(string \<times> SourceSchema) list \<Rightarrow> (string \<times> SourceSchema) list \<Rightarrow> string list \<Rightarrow> (string \<times> SourceSchema) list \<Rightarrow>
   ((string \<times> SourceSchema) list \<times> string list) res"
where
  "merge_branch_rels fanOutRels [] seen rels = Inr (rels, seen)"
| "merge_branch_rels fanOutRels ((name, sch) # others) seen rels =
     (if map_of fanOutRels name \<noteq> None then merge_branch_rels fanOutRels others seen rels
      else if name \<in> set seen
      then Inl (Panic (''Relationship '' @ name @ '' exists in multiple upstream inputs to union fan-in''))
      else merge_branch_rels fanOutRels others (name # seen) (put name sch rels))"

fun union_rels ::
  "SourceSchema \<Rightarrow> SourceSchema list \<Rightarrow> string list \<Rightarrow> (string \<times> SourceSchema) list \<Rightarrow>
   (string \<times> SourceSchema) list res"
where
  "union_rels fo [] seen rels = Inr rels"
| "union_rels fo (sch # schs) seen rels =
     (if TableName fo \<noteq> TableName sch then Inl (Panic ''Table name mismatch in union fan-in'')
      else if length (PrimaryKey fo) \<noteq> length (PrimaryKey sch) then Inl (Panic ''Primary key mismatch in union fan-in'')
      else if System fo \<noteq> System sch then Inl (Panic ''System mismatch in union fan-in'')
      else bindR (merge_branch_rels (SchemaRelationships fo) (SchemaRelationships sch) seen rels) (\<lambda>(rels', seen').
        union_rels fo schs seen' rels'))"

definition NewUnionFanIn :: "SourceSchema \<Rightarrow> (opid \<times> SourceSchema) list \<Rightarrow> UnionFanIn res" where
  "NewUnionFanIn fo inputs =
     (if Sort fo = None then Inl (Panic ''UnionFanIn requires sorted input'')
      else bindR (union_rels fo (map snd inputs) [] (SchemaRelationships fo)) (\<lambda>rels.
        Inr \<lparr>ufi_inputs = map fst inputs,
             ufi_schema = SourceSchema (TableName fo) (Columns fo) (PrimaryKey fo) rels (IsHidden fo) False
               (System fo) (CompareRows fo) (Sort fo),
             fanOutPushStarted = False, ufi_output = ThrowOutput, ufi_accumulated = []\<rparr>))"

text \<open>
  \<open>MergeFetches\<close>: the positions are kept as the remaining suffixes.  \<open>min_head\<close> scans the heads
  and replaces its candidate only by a smaller one.
\<close>

fun min_head ::
  "Comparator \<Rightarrow> (nat \<times> Node) option \<Rightarrow> nat \<Rightarrow> Node list list \<Rightarrow> (nat \<times> Node) option res" where
  "min_head cmp best i [] = Inr best"
| "min_head cmp best i ([] # fs) = min_head cmp best (Suc i) fs"
| "min_head cmp best i ((n # ns) # fs) =
     bindR (case best of None \<Rightarrow> Inr True | Some (_, m) \<Rightarrow> bindR (cmp (Row n) (Row m)) (\<lambda>c. Inr (c < 0))) (\<lambda>b.
       min_head cmp (if b then Some (i, n) else best) (Suc i) fs)"

lemma min_head_index:
  assumes "min_head cmp best i fs = Inr (Some (j, n))"
    "\<And>k m. best = Some (k, m) \<Longrightarrow> k < i"
  shows "best = Some (j, n) \<or> (i \<le> j \<and> j - i < length fs \<and> (\<exists>ns. fs ! (j - i) = n # ns))"
  using assms
proof (induction cmp best i fs rule: min_head.induct)
  case (2 cmp best i fs)
  have "best = Some (j, n) \<or> (Suc i \<le> j \<and> j - Suc i < length fs \<and> (\<exists>ns. fs ! (j - Suc i) = n # ns))"
    by (rule "2.IH") (use 2 in \<open>auto simp: less_Suc_eq\<close>)
  then show ?case by (auto simp: nth_Cons' Suc_diff_le)
next
  case (3 cmp best i m ns fs)
  then obtain b where b: "min_head cmp (if b then Some (i, m) else best) (Suc i) fs = Inr (Some (j, n))"
    "(case best of None \<Rightarrow> Inr True | Some (_, l) \<Rightarrow> bindR (cmp (Row m) (Row l)) (\<lambda>c. Inr (c < 0))) = (Inr b :: bool res)"
    by (auto simp: bindR_eq_Inr)
  have "(if b then Some (i, m) else best) = Some (j, n) \<or>
      (Suc i \<le> j \<and> j - Suc i < length fs \<and> (\<exists>ns. fs ! (j - Suc i) = n # ns))"
    by (rule "3.IH" [OF b(2,1)]) (use "3.prems"(2) in \<open>auto simp: less_Suc_eq split: if_splits\<close>)
  then show ?case by (auto simp: nth_Cons' Suc_diff_le split: if_splits)
qed simp

lemma sum_list_tl:
  "j < length fs \<Longrightarrow> fs ! j \<noteq> [] \<Longrightarrow> sum_list (map length (fs[j := tl (fs ! j)])) < sum_list (map length fs)"
proof (induction fs arbitrary: j)
  case (Cons f fs)
  then show ?case by (cases j) auto
qed simp

function merge_loop :: "Comparator \<Rightarrow> Node option \<Rightarrow> Node list list \<Rightarrow> Node list res" where
  "merge_loop cmp lastNode fs =
     (case min_head cmp None 0 fs of
        Inl e \<Rightarrow> Inl e
      | Inr None \<Rightarrow> Inr []
      | Inr (Some (j, n)) \<Rightarrow>
          bindR (case lastNode of None \<Rightarrow> Inr False | Some l \<Rightarrow> bindR (cmp (Row l) (Row n)) (\<lambda>c. Inr (c = 0))) (\<lambda>dup.
            if dup then merge_loop cmp lastNode (fs[j := tl (fs ! j)])
            else bindR (merge_loop cmp (Some n) (fs[j := tl (fs ! j)])) (\<lambda>rest. Inr (n # rest))))"
  by pat_completeness auto
termination
proof (relation "measure (\<lambda>(cmp, l, fs). sum_list (map length fs))", goal_cases)
  case (2 cmp l fs a b j n dup)
  then show ?case using min_head_index [of cmp None 0 fs j n] sum_list_tl [of j fs] by auto
next
  case (3 cmp l fs a b j n dup)
  then show ?case using min_head_index [of cmp None 0 fs j n] sum_list_tl [of j fs] by auto
qed simp

declare merge_loop.simps [simp del]

definition MergeFetches :: "Node list list \<Rightarrow> Comparator \<Rightarrow> Node list res" where
  "MergeFetches fetches cmp = merge_loop cmp None fetches"

definition UnionFanIn_Fetch ::
  "('s, UnionFanIn) ref \<Rightarrow> (opid \<Rightarrow> 's fetch) \<Rightarrow> FetchRequest \<Rightarrow> (panic, 's, Node list) exec" where
  "UnionFanIn_Fetch p fetchOf req =
     bindM (getM (rd p)) (\<lambda>ufi.
     bindM (mapM (\<lambda>input. fetchOf input req) (ufi_inputs ufi)) (\<lambda>fetches.
       liftM (MergeFetches fetches (CompareRows (ufi_schema ufi)))))"

text \<open>
  A change from inside the fan-out: it is forwarded unless another branch still has the row.  The
  loop returns at the first branch that does; \<open>hadMatch\<close> is its other result.
\<close>

fun other_branches ::
  "(opid \<Rightarrow> 's fetch) \<Rightarrow> FetchRequest \<Rightarrow> opid \<Rightarrow> opid list \<Rightarrow> bool \<Rightarrow> (panic, 's, bool \<times> bool) exec" where
  "other_branches fetchOf req pusher [] hadMatch = retM (False, hadMatch)"
| "other_branches fetchOf req pusher (i # is) hadMatch =
     (if i = pusher then other_branches fetchOf req pusher is True
      else bindM (fetchOf i req) (\<lambda>ns.
        if ns \<noteq> [] then retM (True, hadMatch) else other_branches fetchOf req pusher is hadMatch))"

definition pushInternalChange ::
  "('s, UnionFanIn) ref \<Rightarrow> opid \<Rightarrow> (opid \<Rightarrow> 's fetch) \<Rightarrow> 's push \<Rightarrow> Change \<Rightarrow> opid \<Rightarrow> (panic, 's, Change list) exec"
where
  "pushInternalChange p me fetchOf push change pusher =
     bindM (getM (rd p)) (\<lambda>ufi.
       if change_type change = ChangeTypeChild then push (ufi_output ufi) change me
       else if change_type change \<noteq> ChangeTypeAdd \<and> change_type change \<noteq> ChangeTypeRemove
       then failM (Panic ''UnionFanIn: expected add or remove change type'')
       else
         let r = Row (change_node change);
             req = empty_request\<lparr>ReqConstraint :=
               Some (fold (\<lambda>k c. put k (col r k) c) (PrimaryKey (ufi_schema ufi)) [])\<rparr> in
         bindM (other_branches fetchOf req pusher (ufi_inputs ufi) False) (\<lambda>(found, hadMatch).
           if found then retM []
           else if \<not> hadMatch then failM (Panic ''Pusher was not one of the inputs to union-fan-in!'')
           else bindM (getM (\<lambda>s. ufi_output (rd p s))) (\<lambda>out. push out change me)))"

definition UnionFanIn_Push ::
  "('s, UnionFanIn) ref \<Rightarrow> opid \<Rightarrow> (opid \<Rightarrow> 's fetch) \<Rightarrow> 's push \<Rightarrow> Change \<Rightarrow> opid \<Rightarrow> (panic, 's, Change list) exec"
where
  "UnionFanIn_Push p me fetchOf push change pusher =
     bindM (getM (\<lambda>s. fanOutPushStarted (rd p s))) (\<lambda>started.
       if \<not> started then pushInternalChange p me fetchOf push change pusher
       else thenM (updM p (\<lambda>ufi. ufi\<lparr>ufi_accumulated := ufi_accumulated ufi @ [change]\<rparr>)) (retM []))"

definition FanOutStartedPushing :: "('s, UnionFanIn) ref \<Rightarrow> (panic, 's, unit) exec" where
  "FanOutStartedPushing p =
     stepM p (\<lambda>ufi. if fanOutPushStarted ufi
       then Inl (Panic ''UnionFanIn: fanOutStartedPushing called while already pushing'')
       else Inr (ufi\<lparr>fanOutPushStarted := True\<rparr>))"

definition FanOutDonePushing ::
  "('s, UnionFanIn) ref \<Rightarrow> opid \<Rightarrow> 's push \<Rightarrow> ChangeType \<Rightarrow> (panic, 's, Change list) exec" where
  "FanOutDonePushing p me push ty =
     thenM (stepM p (\<lambda>ufi. if \<not> fanOutPushStarted ufi
         then Inl (Panic ''UnionFanIn: fanOutDonePushing called without fanOutStartedPushing'')
         else Inr (ufi\<lparr>fanOutPushStarted := False\<rparr>)))
       (bindM (getM (rd p)) (\<lambda>ufi.
          if ufi_inputs ufi = [] then retM []
          else thenM (updM p (\<lambda>ufi. ufi\<lparr>ufi_accumulated := []\<rparr>))
            (if ufi_accumulated ufi = [] then retM []
             else PushAccumulatedChanges push (ufi_accumulated ufi) (ufi_output ufi) me ty
               MergeRelationships (MakeAddEmptyRelationships (ufi_schema ufi)))))"

section \<open>A fan of filters is their disjunction\<close>

text \<open>
  When every branch sends what its predicate makes of a change, the fan-in sends what the
  disjunction of the predicates makes of it.
\<close>

lemma collect_first:
  "collect_candidates (\<lambda>a b. Inr a) chs cands =
     Inr (\<lambda>ty. case cands ty of Some c \<Rightarrow> Some c | None \<Rightarrow> find (\<lambda>ch. change_type ch = ty) chs)"
proof (induction chs arbitrary: cands)
  case Nil
  show ?case by (auto intro!: ext split: option.splits)
next
  case (Cons ch chs)
  show ?case
    by (cases "cands (change_type ch)") (auto simp: Cons split: option.splits intro!: ext)
qed

lemma collapse_identity:
  "collapse identity fill ty chs =
     (if chs = [] then Inr None
      else let cands = (\<lambda>ty. find (\<lambda>ch. change_type ch = ty) chs) in
        case ty of
          ChangeTypeRemove \<Rightarrow>
            (case cands ChangeTypeRemove of
               None \<Rightarrow> Inl (Panic ''pushAccumulatedChanges: REMOVE expected but not found in candidates'')
             | Some c \<Rightarrow> Inr (Some (fill c)))
        | ChangeTypeAdd \<Rightarrow>
            (case cands ChangeTypeAdd of
               None \<Rightarrow> Inl (Panic ''pushAccumulatedChanges: ADD expected but not found in candidates'')
             | Some c \<Rightarrow> Inr (Some (fill c)))
        | ChangeTypeEdit \<Rightarrow> bindR (collapse_edit identity cands) (\<lambda>c. Inr (Some (fill c)))
        | ChangeTypeChild \<Rightarrow> bindR (collapse_child fill cands) (\<lambda>c. Inr (Some c)))"
proof -
  have id: "identity = (\<lambda>a b. Inr a)" by (intro ext) (simp add: identity_def)
  have "collect_candidates identity chs (\<lambda>_. None) = Inr (\<lambda>ty. find (\<lambda>ch. change_type ch = ty) chs)"
    unfolding id collect_first by simp
  then show ?thesis unfolding collapse_def Let_def by (cases ty) simp_all
qed

definition branch_changes :: "Change \<Rightarrow> (row \<Rightarrow> bool) list \<Rightarrow> Change list" where
  "branch_changes ch qs = List.map_filter (\<lambda>q. split_change q ch) qs"

lemma find_const:
  assumes "\<forall>x\<in>set xs. P x \<longrightarrow> x = a" "P a"
  shows "find P xs = (if a \<in> set xs then Some a else None)"
  using assms(1)
proof (induction xs)
  case (Cons x xs)
  then have IH: "find P xs = (if a \<in> set xs then Some a else None)" by simp
  show ?case
  proof (cases "P x")
    case True
    then have "x = a" using Cons.prems by simp
    with True show ?thesis by simp
  next
    case False
    then have "x \<noteq> a" using assms(2) by blast
    with False IH show ?thesis by simp
  qed
qed simp

lemma set_branch_changes: "set (branch_changes ch qs) = {c. \<exists>q\<in>set qs. split_change q ch = Some c}"
  by (induction qs) (auto simp: branch_changes_def List.map_filter_simps split: option.splits)

lemma branch_changes_edit:
  "EditChange n old \<in> set (branch_changes (EditChange n old) qs) \<longleftrightarrow> (\<exists>q\<in>set qs. q (Row n) \<and> q (Row old))"
  "AddChange n \<in> set (branch_changes (EditChange n old) qs) \<longleftrightarrow> (\<exists>q\<in>set qs. q (Row n) \<and> \<not> q (Row old))"
  "RemoveChange old \<in> set (branch_changes (EditChange n old) qs) \<longleftrightarrow> (\<exists>q\<in>set qs. \<not> q (Row n) \<and> q (Row old))"
  "set (branch_changes (EditChange n old) qs) \<subseteq> {EditChange n old, AddChange n, RemoveChange old}"
  by (auto simp: set_branch_changes split: if_splits)

lemma branch_changes_other:
  assumes "\<And>n old. ch \<noteq> EditChange n old"
  shows "ch \<in> set (branch_changes ch qs) \<longleftrightarrow> (\<exists>q\<in>set qs. q (Row (change_node ch)))"
    and "set (branch_changes ch qs) \<subseteq> {ch}"
    and "split_change q ch = (if q (Row (change_node ch)) then Some ch else None)"
  using assms by (cases ch; auto simp: set_branch_changes split: if_splits)+

lemma collapse_edit_branches:
  "collapse identity id ChangeTypeEdit (branch_changes (EditChange n old) qs) =
     Inr (split_change (\<lambda>r. \<exists>q\<in>set qs. q r) (EditChange n old))"
proof -
  let ?bs = "branch_changes (EditChange n old) qs"
  note mem = branch_changes_edit [where n = n and old = old and qs = qs]
  have only: "x = EditChange n old \<or> x = AddChange n \<or> x = RemoveChange old" if "x \<in> set ?bs" for x
    using mem(4) that by blast
  have u: "x = a" if "x \<in> set ?bs" "change_type x = change_type a"
      "a = EditChange n old \<or> a = AddChange n \<or> a = RemoveChange old" for x a
    using only [OF that(1)] that(2,3) by auto
  have f: "find (\<lambda>c. change_type c = change_type a) ?bs = (if a \<in> set ?bs then Some a else None)"
    if "a = EditChange n old \<or> a = AddChange n \<or> a = RemoveChange old" for a
  proof (rule find_const)
    show "\<forall>x\<in>set ?bs. change_type x = change_type a \<longrightarrow> x = a" using u that by metis
  qed simp
  have finds: "find (\<lambda>c. change_type c = ChangeTypeEdit) ?bs = (if EditChange n old \<in> set ?bs then Some (EditChange n old) else None)"
    "find (\<lambda>c. change_type c = ChangeTypeAdd) ?bs = (if AddChange n \<in> set ?bs then Some (AddChange n) else None)"
    "find (\<lambda>c. change_type c = ChangeTypeRemove) ?bs = (if RemoveChange old \<in> set ?bs then Some (RemoveChange old) else None)"
    using f [of "EditChange n old"] f [of "AddChange n"] f [of "RemoveChange old"] by simp_all
  have sides: "(\<exists>q\<in>set qs. q (Row old)) \<longleftrightarrow> EditChange n old \<in> set ?bs \<or> RemoveChange old \<in> set ?bs"
    "(\<exists>q\<in>set qs. q (Row n)) \<longleftrightarrow> EditChange n old \<in> set ?bs \<or> AddChange n \<in> set ?bs"
    unfolding mem(1-3) by auto
  show ?thesis
  proof (cases ?bs)
    case Nil
    then show ?thesis using sides by (auto simp: collapse_def)
  next
    case (Cons b bs)
    then have "b \<in> set ?bs" by simp
    from only [OF this] this have some: "EditChange n old \<in> set ?bs \<or> AddChange n \<in> set ?bs \<or> RemoveChange old \<in> set ?bs"
      by blast
    have "collapse identity id ChangeTypeEdit ?bs =
        bindR (collapse_edit identity (\<lambda>ty. find (\<lambda>ch. change_type ch = ty) ?bs)) (\<lambda>c. Inr (Some c))"
      using Cons unfolding collapse_identity Let_def by simp
    also have "... = Inr (split_change (\<lambda>r. \<exists>q\<in>set qs. q r) (EditChange n old))"
      using some unfolding collapse_edit_def Let_def finds split_change.simps sides
      by (cases "EditChange n old \<in> set ?bs"; cases "AddChange n \<in> set ?bs"; cases "RemoveChange old \<in> set ?bs")
        (simp_all add: identity_def)
    finally show ?thesis .
  qed
qed

lemma collapse_branches:
  "collapse identity id (change_type ch) (branch_changes ch qs) =
     Inr (split_change (\<lambda>r. \<exists>q\<in>set qs. q r) ch)"
proof (cases "\<exists>n old. ch = EditChange n old")
  case True
  then show ?thesis using collapse_edit_branches by auto
next
  case False
  let ?bs = "branch_changes ch qs"
  from False have other: "\<And>n old. ch \<noteq> EditChange n old" by blast
  note mem = branch_changes_other [OF other]
  have found: "find (\<lambda>c. change_type c = change_type ch) ?bs = (if ch \<in> set ?bs then Some ch else None)"
    by (rule find_const) (use mem(2) [of qs] in auto)
  have split: "split_change (\<lambda>r. \<exists>q\<in>set qs. q r) ch = (if ch \<in> set ?bs then Some ch else None)"
    using mem(1) [of qs] mem(3) [of "\<lambda>r. \<exists>q\<in>set qs. q r"] by simp
  show ?thesis
  proof (cases ?bs)
    case Nil
    then show ?thesis using split by (simp add: collapse_def)
  next
    case (Cons b bs)
    then have "b \<in> set ?bs" by simp
    then have some: "ch \<in> set ?bs" "?bs \<noteq> []" using mem(2) [of qs] by auto
    have "find (\<lambda>c. change_type c = change_type ch) ?bs = Some ch" using found some(1) by simp
    then have "collapse identity id (change_type ch) ?bs = Inr (Some ch)"
      unfolding collapse_identity Let_def if_not_P [OF some(2)]
      by (cases ch) (use other in \<open>auto simp: collapse_child_def\<close>)
    with some(1) split show ?thesis by simp
  qed
qed

section \<open>Merging sorted fetches\<close>

context ordered_schema
begin

lemma min_head_None: "min_head cmp best i fs = Inr None \<Longrightarrow> best = None \<and> (\<forall>f\<in>set fs. f = [])"
proof (induction cmp best i fs rule: min_head.induct)
  case (3 cmp best i n ns fs)
  then obtain b where "(if b then Some (i, n) else best) = None"
      "(case best of None \<Rightarrow> Inr True | Some (_, m) \<Rightarrow> bindR (cmp (Row n) (Row m)) (\<lambda>c. Inr (c < 0))) = (Inr b :: bool res)"
    by (auto simp: bindR_eq_Inr)
  then show ?case by (auto split: if_splits)
qed auto

lemma head_step:
  assumes "Row n \<in> S" "\<And>k m. best = Some (k, m) \<Longrightarrow> Row m \<in> S"
  shows "(case best of None \<Rightarrow> Inr True
      | Some (_, m) \<Rightarrow> bindR (CompareRows schema (Row n) (Row m)) (\<lambda>c. Inr (c < 0))) =
    (Inr (\<forall>k m. best = Some (k, m) \<longrightarrow> cval (node_cmp schema) n m < 0) :: bool res)"
  using assms row_compare_Inr [of n] by (cases best) auto

lemma min_head_total:
  assumes "\<forall>f\<in>set fs. Row ` set f \<subseteq> S" "\<And>k m. best = Some (k, m) \<Longrightarrow> Row m \<in> S"
  shows "\<exists>r. min_head (CompareRows schema) best i fs = Inr r"
  using assms
proof (induction fs arbitrary: best i)
  case (Cons f fs)
  show ?case
  proof (cases f)
    case Nil
    then show ?thesis using Cons by simp
  next
    case (Cons n ns)
    then have n: "Row n \<in> S" using Cons.prems(1) by simp
    define b where "b \<longleftrightarrow> (\<forall>k m. best = Some (k, m) \<longrightarrow> cval (node_cmp schema) n m < 0)"
    note b = head_step [where best = best, OF n Cons.prems(2), folded b_def]
    have "Row m \<in> S" if "(if b then Some (i, n) else best) = Some (k, m)" for k m
      using that Cons.prems(2) [of k m] n by (auto split: if_splits)
    moreover have "\<forall>f\<in>set fs. Row ` set f \<subseteq> S" using Cons.prems(1) by simp
    ultimately have "\<exists>r. min_head (CompareRows schema) (if b then Some (i, n) else best) (Suc i) fs = Inr r"
      by (rule Cons.IH [rotated])
    with b Cons show ?thesis by simp
  qed
qed simp

lemma min_head_le:
  assumes "min_head (CompareRows schema) best i fs = Inr (Some (j, n))"
    and "\<forall>f\<in>set fs. Row ` set f \<subseteq> S" "\<And>k m. best = Some (k, m) \<Longrightarrow> Row m \<in> S"
  shows "Row n \<in> S \<and> (\<forall>g\<in>set fs. g \<noteq> [] \<longrightarrow> cval (node_cmp schema) n (hd g) \<le> 0) \<and>
    (\<forall>k m. best = Some (k, m) \<longrightarrow> cval (node_cmp schema) n m \<le> 0)"
  using assms
proof (induction fs arbitrary: best i)
  case Nil
  then show ?case using nodes.refl by simp
next
  case (Cons f fs)
  show ?case
  proof (cases f)
    case Nil
    then show ?thesis using Cons.IH [of best "Suc i"] Cons.prems by auto
  next
    case f: (Cons x xs)
    then have x: "Row x \<in> S" using Cons.prems(2) by simp
    define b where "b \<longleftrightarrow> (\<forall>k m. best = Some (k, m) \<longrightarrow> cval (node_cmp schema) x m < 0)"
    note b = head_step [where best = best, OF x Cons.prems(3), folded b_def] b_def
    let ?best = "if b then Some (i, x) else best"
    have run: "min_head (CompareRows schema) ?best (Suc i) fs = Inr (Some (j, n))" using Cons.prems(1) b(1) f by simp
    have best: "Row m \<in> S" if "?best = Some (k, m)" for k m
      using that Cons.prems(3) [of k m] x by (auto split: if_splits)
    have "\<forall>f\<in>set fs. Row ` set f \<subseteq> S" using Cons.prems(2) by simp
    note IH = Cons.IH [OF run this best]
    have "cval (node_cmp schema) n x \<le> 0 \<and> (\<forall>k m. best = Some (k, m) \<longrightarrow> cval (node_cmp schema) n m \<le> 0)"
    proof (cases b)
      case True
      then have nx: "cval (node_cmp schema) n x \<le> 0" "Row n \<in> S" using IH by auto
      have "cval (node_cmp schema) n m \<le> 0" if "best = Some (k, m)" for k m
        using nodes.trans [of n x m] nx x Cons.prems(3) [OF that] True b(2) that by simp
      with nx show ?thesis by blast
    next
      case False
      then obtain k m where m: "best = Some (k, m)" "\<not> cval (node_cmp schema) x m < 0" using b(2) by auto
      then have nm: "cval (node_cmp schema) n m \<le> 0" "Row n \<in> S" using IH False by auto
      have "cval (node_cmp schema) m x \<le> 0" using m(2) nodes.antisym [of x m] x Cons.prems(3) [OF m(1)] by simp
      then have "cval (node_cmp schema) n x \<le> 0" using nodes.trans [of n m x] nm x Cons.prems(3) [OF m(1)] by simp
      with nm m(1) show ?thesis by auto
    qed
    with IH f show ?thesis by auto
  qed
qed

text \<open>What the loop returns: a sorted list with one node for each node it was given.\<close>

definition merged :: "Node option \<Rightarrow> Node list list \<Rightarrow> Node list \<Rightarrow> bool" where
  "merged lastNode fs ys \<longleftrightarrow>
     sorted_by (node_cmp schema) ys \<and> set ys \<subseteq> \<Union> (set ` set fs) \<and>
     (\<forall>l y. lastNode = Some l \<longrightarrow> y \<in> set ys \<longrightarrow> ltc (node_cmp schema) l y) \<and>
     (\<forall>f\<in>set fs. \<forall>x\<in>set f. (\<exists>y\<in>set ys. cval (node_cmp schema) x y = 0) \<or>
        (\<exists>l. lastNode = Some l \<and> cval (node_cmp schema) x l = 0))"

definition mergeable :: "Node option \<Rightarrow> Node list list \<Rightarrow> bool" where
  "mergeable lastNode fs \<longleftrightarrow>
     (\<forall>f\<in>set fs. sorted_by (node_cmp schema) f \<and> Row ` set f \<subseteq> S) \<and>
     (\<forall>l. lastNode = Some l \<longrightarrow> Row l \<in> S \<and> (\<forall>f\<in>set fs. \<forall>x\<in>set f. cval (node_cmp schema) l x \<le> 0))"

lemma advance_sets:
  assumes "j < length fs" "fs ! j = n # ns"
  shows "\<Union> (set ` set fs) = insert n (\<Union> (set ` set (fs[j := ns])))"
proof -
  have fs: "fs = take j fs @ (n # ns) # drop (Suc j) fs" using id_take_nth_drop [OF assms(1)] assms(2) by simp
  have upd: "fs[j := ns] = take j fs @ ns # drop (Suc j) fs" using assms(1) by (rule upd_conv_take_nth_drop)
  have "\<Union> (set ` set (xs @ (n # ns) # zs)) = insert n (\<Union> (set ` set (xs @ ns # zs)))" for xs zs
    by auto
  then show ?thesis unfolding upd by (subst fs)
qed

lemma mergeable_advance:
  assumes ok: "mergeable lastNode fs" and j: "j < length fs" "fs ! j = n # ns"
    and least: "\<forall>f\<in>set fs. f \<noteq> [] \<longrightarrow> cval (node_cmp schema) n (hd f) \<le> 0"
  shows "mergeable (Some n) (fs[j := ns])" "mergeable lastNode (fs[j := ns])" "Row n \<in> S"
proof -
  have f: "n # ns \<in> set fs" using j nth_mem by metis
  then have "sorted_by (node_cmp schema) (n # ns) \<and> Row ` set (n # ns) \<subseteq> S"
    using ok by (simp only: mergeable_def)
  then have ns: "sorted_by (node_cmp schema) ns" "Row ` set ns \<subseteq> S" and n: "Row n \<in> S"
    by (simp_all add: nodes.sorted_by_Cons)
  have sub: "g \<in> set fs \<or> g = ns" if "g \<in> set (fs[j := ns])" for g
    using that set_update_subset_insert [of fs j ns] by blast
  have le: "cval (node_cmp schema) n x \<le> 0" if "g \<in> set fs" "x \<in> set g" for g x
  proof (cases g)
    case (Cons y ys)
    then have "sorted_by (node_cmp schema) (y # ys) \<and> Row ` set (y # ys) \<subseteq> S"
      using ok that(1) by (simp only: mergeable_def)
    moreover have "cval (node_cmp schema) n y \<le> 0"
      using least that(1) Cons by fastforce
    ultimately show ?thesis
      using that(2) Cons n nodes.trans [of n y x] by (auto simp: nodes.sorted_by_Cons ltc_def less_imp_le)
  qed (use that in simp)
  have each: "sorted_by (node_cmp schema) g \<and> Row ` set g \<subseteq> S" if "g \<in> set (fs[j := ns])" for g
    using sub [OF that] ns ok by (meson mergeable_def)
  have "cval (node_cmp schema) n x \<le> 0" if "g \<in> set (fs[j := ns])" "x \<in> set g" for g x
    using sub [OF that(1)] that(2) le [of g x] le [OF f, of x] by auto
  then show "mergeable (Some n) (fs[j := ns])"
    using each n unfolding mergeable_def by simp
  have "cval (node_cmp schema) l x \<le> 0" if "lastNode = Some l" "g \<in> set (fs[j := ns])" "x \<in> set g" for l g x
    using sub [OF that(2)] that f ok by (auto simp: mergeable_def)
  then show "mergeable lastNode (fs[j := ns])"
    using each ok unfolding mergeable_def by simp
  show "Row n \<in> S" by (rule n)
qed

lemma merge_loop_spec:
  assumes "mergeable lastNode fs"
  shows "\<exists>ys. merge_loop (CompareRows schema) lastNode fs = Inr ys \<and> merged lastNode fs ys"
  using assms
proof (induction "sum_list (map length fs)" arbitrary: lastNode fs rule: less_induct)
  case less
  have rows: "\<forall>f\<in>set fs. Row ` set f \<subseteq> S" using less.prems by (auto simp: mergeable_def)
  obtain r where r: "min_head (CompareRows schema) None 0 fs = Inr r"
    using min_head_total [OF rows, of None] by auto
  show ?case
  proof (cases r)
    case None
    then have "\<forall>f\<in>set fs. f = []" using min_head_None r by blast
    moreover have "merge_loop (CompareRows schema) lastNode fs = Inr []"
      using r None by (subst merge_loop.simps) simp
    ultimately show ?thesis by (auto simp: merged_def sorted_by_def)
  next
    case (Some jn)
    obtain j n where jn: "jn = (j, n)" by (cases jn)
    then obtain ns where j: "j < length fs" "fs ! j = n # ns"
      using min_head_index [of "CompareRows schema" None 0 fs j n] r Some by auto
    have least: "\<forall>f\<in>set fs. f \<noteq> [] \<longrightarrow> cval (node_cmp schema) n (hd f) \<le> 0"
      using min_head_le [of None 0 fs j n] r Some jn rows by blast
    note adv = mergeable_advance [OF less.prems j least]
    have smaller: "sum_list (map length (fs[j := ns])) < sum_list (map length fs)"
      using sum_list_tl [of j fs] j by simp
    have nin: "n # ns \<in> set fs" using j nth_mem by metis
    note sets = advance_sets [OF j]
    have cover: "x = n \<or> (\<exists>g\<in>set (fs[j := ns]). x \<in> set g)" if "f \<in> set fs" "x \<in> set f" for f x
      using sets that by blast
    define dup where "dup \<longleftrightarrow> (\<exists>l. lastNode = Some l \<and> cval (node_cmp schema) l n = 0)"
    have dup: "(case lastNode of None \<Rightarrow> Inr False
        | Some l \<Rightarrow> bindR (CompareRows schema (Row l) (Row n)) (\<lambda>c. Inr (c = 0))) = (Inr dup :: bool res)"
      using less.prems adv(3) row_compare_Inr [of _ n] by (cases lastNode) (auto simp: dup_def mergeable_def)
    have unfold: "merge_loop (CompareRows schema) lastNode fs =
        (if dup then merge_loop (CompareRows schema) lastNode (fs[j := ns])
         else bindR (merge_loop (CompareRows schema) (Some n) (fs[j := ns])) (\<lambda>rest. Inr (n # rest)))"
      using r Some jn j dup by (subst merge_loop.simps) simp
    show ?thesis
    proof (cases dup)
      case True
      then obtain l where l: "lastNode = Some l" "cval (node_cmp schema) l n = 0" by (auto simp: dup_def)
      obtain ys where ys: "merge_loop (CompareRows schema) lastNode (fs[j := ns]) = Inr ys" "merged lastNode (fs[j := ns]) ys"
        using less.hyps [OF smaller adv(2)] by blast
      have "Row l \<in> S" using less.prems l(1) by (simp add: mergeable_def)
      then have "cval (node_cmp schema) n l = 0" using l(2) adv(3) nodes.eq_sym [of l n] by simp
      then have "(\<exists>y\<in>set ys. cval (node_cmp schema) x y = 0) \<or> cval (node_cmp schema) x l = 0"
        if "f \<in> set fs" "x \<in> set f" for f x
        using ys(2) l(1) cover [OF that] by (auto simp: merged_def)
      with ys(2) l(1) sets have "merged lastNode fs ys" by (auto simp: merged_def)
      with ys(1) True unfold show ?thesis by simp
    next
      case False
      obtain ys where ys: "merge_loop (CompareRows schema) (Some n) (fs[j := ns]) = Inr ys" "merged (Some n) (fs[j := ns]) ys"
        using less.hyps [OF smaller adv(1)] by blast
      have lt: "ltc (node_cmp schema) l n" if "lastNode = Some l" for l
        using that less.prems nin False by (force simp: mergeable_def dup_def ltc_def)
      have "Row y \<in> S" if "f \<in> set (fs[j := ns])" "y \<in> set f" for f y
        using adv(1) that by (auto simp only: mergeable_def)
      then have S: "\<forall>y\<in>set ys. Row y \<in> S" using ys(2) by (auto simp: merged_def)
      have "merged lastNode fs (n # ys)"
        unfolding merged_def
      proof (intro conjI allI impI ballI)
        show "sorted_by (node_cmp schema) (n # ys)" using ys(2) by (simp add: merged_def nodes.sorted_by_Cons)
        show "set (n # ys) \<subseteq> \<Union> (set ` set fs)" using ys(2) sets by (auto simp: merged_def)
        show "ltc (node_cmp schema) l y" if "lastNode = Some l" "y \<in> set (n # ys)" for l y
          using that lt [OF that(1)] ys(2) S adv(3) less.prems nodes.lt_trans [of l n y]
          by (auto simp: merged_def mergeable_def)
        show "(\<exists>y\<in>set (n # ys). cval (node_cmp schema) x y = 0) \<or> (\<exists>l. lastNode = Some l \<and> cval (node_cmp schema) x l = 0)"
          if "f \<in> set fs" "x \<in> set f" for f x
        proof -
          have "x = n \<or> x \<in> \<Union> (set ` set (fs[j := ns]))" using sets that by blast
          then show ?thesis using ys(2) nodes.refl [of n] adv(3) by (auto simp: merged_def)
        qed
      qed
      with ys(1) False unfold show ?thesis by simp
    qed
  qed
qed

lemma MergeFetches_spec:
  assumes "\<forall>f\<in>set fs. sorted_by (node_cmp schema) f \<and> Row ` set f \<subseteq> S"
  shows "\<exists>ys. MergeFetches fs (CompareRows schema) = Inr ys \<and> sorted_by (node_cmp schema) ys \<and>
    set ys \<subseteq> \<Union> (set ` set fs) \<and> (\<forall>f\<in>set fs. \<forall>x\<in>set f. \<exists>y\<in>set ys. cval (node_cmp schema) x y = 0)"
  using merge_loop_spec [of None fs] assms by (auto simp: MergeFetches_def mergeable_def merged_def)

end

section \<open>Properties\<close>

text \<open>
  C6. A fan of filters is their disjunction: when every branch of a fan-out forwards what its
  predicate makes of a change, \<open>PushAccumulatedChanges\<close> sends downstream exactly what the
  disjunction of all the predicates makes of it (nothing, the change, or an add, remove or edit for
  an edit), and never panics.
\<close>

theorem PushAccumulatedChanges_is_disjunction:
  "PushAccumulatedChanges push (branch_changes ch qs) out pusher (change_type ch) identity id =
     (case split_change (\<lambda>r. \<exists>q\<in>set qs. q r) ch of None \<Rightarrow> retM [] | Some ch' \<Rightarrow> push out ch' pusher)"
  by (simp add: PushAccumulatedChanges_def collapse_branches)

text \<open>
  C7. \<open>MergeFetches\<close> merges the sorted streams of the branches of a union: the result is sorted
  without duplicates, contains only nodes of the branches, and every node of a branch is represented
  by an equal one.
\<close>

theorem MergeFetches_correct:
  assumes "CompareRows schema = MakeComparator order False"
    and "\<forall>f\<in>set fs. sorted_by (node_cmp schema) f \<and> (\<forall>n\<in>set f. row_ok ty order (Row n))"
  shows "\<exists>ys. MergeFetches fs (CompareRows schema) = Inr ys \<and> sorted_by (node_cmp schema) ys \<and>
    set ys \<subseteq> \<Union> (set ` set fs) \<and> (\<forall>f\<in>set fs. \<forall>x\<in>set f. \<exists>y\<in>set ys. cval (node_cmp schema) x y = 0)"
  using assms(2) by (intro ordered_schema.MergeFetches_spec [OF schema_ordered [OF assms(1), of ty]]) auto

theorem MergeFetches_correct_witness:
  "\<exists>ys. MergeFetches [[leaf (item 1), leaf (item 3)], [leaf (item 2), leaf (item 3)]] (CompareRows item_schema) = Inr ys \<and>
    sorted_by (node_cmp item_schema) ys \<and> set ys \<subseteq> leaf ` item ` {1, 2, 3}"
  using MergeFetches_correct [of item_schema item_order "[[leaf (item 1), leaf (item 3)], [leaf (item 2), leaf (item 3)]]" "\<lambda>_. CNum"]
  by (auto simp: sorted_by_def ltc_def cval_def)

end
