(* ===== verification/FlippedJoin.thy ===== *)
theory FlippedJoin
  imports Join Fan
begin

text \<open>
  \<open>ivm/flipped_join.go\<close>: an inner join that fetches the children first and then their parents.

  The parent iterators are the lists of the parents not yet consumed, one per child node.
  \<open>flipped_children\<close> is the closure \<open>childNodeStream\<close> with the operator's address and the parent
  row as captured variables.
\<close>

record FlippedJoin =
  fj_schema :: SourceSchema
  fj_parentSchema :: SourceSchema
  fj_childSchema :: SourceSchema
  fj_parentKey :: CompoundKey
  fj_childKey :: CompoundKey
  fj_relationship :: string
  fj_output :: Output
  fj_change :: "Change option"
  fj_position :: "row option"

definition NewFlippedJoin ::
  "opid \<Rightarrow> SourceSchema \<Rightarrow> opid \<Rightarrow> SourceSchema \<Rightarrow> CompoundKey \<Rightarrow> CompoundKey \<Rightarrow> string \<Rightarrow> bool \<Rightarrow> string \<Rightarrow>
   FlippedJoin res"
where
  "NewFlippedJoin parent parentSchema child childSchema pk ck name hidden system =
     (if parent = child then Inl (Panic ''Parent and child must be different operators'')
      else if length pk \<noteq> length ck
      then Inl (Panic ''The parentKey and childKey keys must have same length'')
      else Inr \<lparr>fj_schema = joined_schema parentSchema name (relationship_schema childSchema hidden False system),
                fj_parentSchema = parentSchema, fj_childSchema = childSchema, fj_parentKey = pk, fj_childKey = ck,
                fj_relationship = name, fj_output = ThrowOutput, fj_change = None, fj_position = None\<rparr>)"

definition FlippedJoin_SetOutput :: "Output \<Rightarrow> FlippedJoin \<Rightarrow> FlippedJoin" where
  "FlippedJoin_SetOutput out fj = fj\<lparr>fj_output := out\<rparr>"

section \<open>Constraints\<close>

fun indexOf :: "CompoundKey \<Rightarrow> string \<Rightarrow> nat option" where
  "indexOf [] s = None"
| "indexOf (k # key) s = (if k = s then Some 0 else map_option Suc (indexOf key s))"

text \<open>Translating a constraint on the parent: \<open>None\<close> when no column of it is in the join key.\<close>

fun child_constraint :: "FlippedJoin \<Rightarrow> Constraint \<Rightarrow> Constraint option \<Rightarrow> Constraint option res" where
  "child_constraint fj [] acc = Inr acc"
| "child_constraint fj ((k, v) # c) acc =
     (case indexOf (fj_parentKey fj) k of
        None \<Rightarrow> child_constraint fj c acc
      | Some i \<Rightarrow>
          if i < length (fj_childKey fj)
          then child_constraint fj c (Some (put (fj_childKey fj ! i) v (case acc of None \<Rightarrow> [] | Some a \<Rightarrow> a)))
          else Inl (Panic ''index out of range''))"

fun constraintsAreCompatible :: "Constraint \<Rightarrow> Constraint \<Rightarrow> bool res" where
  "constraintsAreCompatible [] b = Inr True"
| "constraintsAreCompatible ((k, v) # a) b =
     (case map_of b k of
        None \<Rightarrow> constraintsAreCompatible a b
      | Some bv \<Rightarrow> bindR (ValuesEqual v bv) (\<lambda>eq. if \<not> eq then Inr False else constraintsAreCompatible a b))"

definition mergeConstraints :: "Constraint option \<Rightarrow> Constraint option \<Rightarrow> Constraint option" where
  "mergeConstraints existing additional =
     (case (existing, additional) of
        (None, None) \<Rightarrow> None
      | (Some e, None) \<Rightarrow> Some e
      | (None, Some a) \<Rightarrow> Some a
      | (Some e, Some a) \<Rightarrow> Some (foldl (\<lambda>m (k, v). put k v m) e a))"

section \<open>Fetch\<close>

text \<open>The node of a remove in progress is shown again, at its place among the children.\<close>

definition reinsert_removed :: "FlippedJoin \<Rightarrow> Node list \<Rightarrow> Node list res" where
  "reinsert_removed fj children =
     (case fj_change fj of
        Some (RemoveChange removed) \<Rightarrow>
          bindR (sort_Search (length children) (\<lambda>i.
            bindR (CompareRows (fj_childSchema fj) (Row removed) (Row (children ! i))) (\<lambda>c. Inr (c \<le> 0)))) (\<lambda>i.
              Inr (take i children @ removed # drop i children))
      | _ \<Rightarrow> Inr children)"

definition parents_of ::
  "FlippedJoin \<Rightarrow> 's fetch \<Rightarrow> FetchRequest \<Rightarrow> Node \<Rightarrow> (panic, 's, Node list) exec" where
  "parents_of fj fetchParent req child =
     (case BuildJoinConstraint (Row child) (fj_childKey fj) (fj_parentKey fj) of
        None \<Rightarrow> retM []
      | Some c \<Rightarrow>
          bindM (liftM (case ReqConstraint req of
                          None \<Rightarrow> Inr True | Some rc \<Rightarrow> constraintsAreCompatible c rc)) (\<lambda>ok.
            if \<not> ok then retM []
            else fetchParent \<lparr>ReqConstraint = mergeConstraints (ReqConstraint req) (Some c),
                              ReqStart = ReqStart req, ReqReverse = ReqReverse req\<rparr>))"

text \<open>The least head of the iterators, and the iterators whose head is equal to it.\<close>

fun min_parents ::
  "Comparator \<Rightarrow> bool \<Rightarrow> (Node \<times> nat list) option \<Rightarrow> nat \<Rightarrow> Node list list \<Rightarrow> (Node \<times> nat list) option res"
where
  "min_parents cmp reverse best i [] = Inr best"
| "min_parents cmp reverse best i ([] # fs) = min_parents cmp reverse best (Suc i) fs"
| "min_parents cmp reverse None i ((n # ns) # fs) = min_parents cmp reverse (Some (n, [i])) (Suc i) fs"
| "min_parents cmp reverse (Some (m, is)) i ((n # ns) # fs) =
     bindR (cmp (Row n) (Row m)) (\<lambda>c.
       let c = (if reverse then - c else c) in
       min_parents cmp reverse
         (if c = 0 then Some (m, is @ [i]) else if c < 0 then Some (n, [i]) else Some (m, is)) (Suc i) fs)"

definition advance_iters :: "nat list \<Rightarrow> Node list list \<Rightarrow> Node list list" where
  "advance_iters is fs = map (\<lambda>i. if i \<in> set is then tl (fs ! i) else fs ! i) [0..<length fs]"

definition flipped_overlay :: "FlippedJoin \<Rightarrow> Node \<Rightarrow> Node list \<Rightarrow> Node list res" where
  "flipped_overlay fj parent related =
     (case (fj_change fj, fj_position fj) of
        (Some change, Some pos) \<Rightarrow>
          bindR (IsJoinMatch (Row (change_node change)) (fj_childKey fj) (Row parent) (fj_parentKey fj)) (\<lambda>match.
            if \<not> match then Inr related
            else bindR (CompareRows (fj_parentSchema fj) (Row parent) pos) (\<lambda>c.
              case change of
                RemoveChange removed \<Rightarrow>
                  if c \<le> 0
                  then filterR (\<lambda>n. bindR (CompareRows (fj_childSchema fj) (Row n) (Row removed)) (\<lambda>c. Inr (c \<noteq> 0))) related
                  else Inr related
              | _ \<Rightarrow>
                  if c \<le> 0 then Inr related
                  else GenerateWithOverlay related change (Some (fj_childSchema fj))))
      | _ \<Rightarrow> Inr related)"

definition flipped_node :: "FlippedJoin \<Rightarrow> Node \<Rightarrow> thunk \<Rightarrow> Node" where
  "flipped_node fj parent t = Node (Row parent) (mergeRelationshipMaps (Relationships parent) [(fj_relationship fj, t)])"

lemma min_parents_index:
  assumes "min_parents cmp reverse best i fs = Inr (Some (n, is))"
    and "\<And>m js. best = Some (m, js) \<Longrightarrow> js \<noteq> [] \<and> (\<forall>j\<in>set js. P j)"
    and "\<And>k. k < length fs \<Longrightarrow> fs ! k \<noteq> [] \<Longrightarrow> P (i + k)"
  shows "is \<noteq> [] \<and> (\<forall>j\<in>set is. P j)"
  using assms
proof (induction cmp reverse best i fs rule: min_parents.induct)
  case (2 cmp reverse best i fs)
  have step: "P (Suc i + k)" if "k < length fs" "fs ! k \<noteq> []" for k
    using "2.prems"(3) [of "Suc k"] that by simp
  show ?case
    by (rule "2.IH" [OF _ "2.prems"(2) step]) (use "2.prems"(1) in simp)
next
  case (3 cmp reverse i m ns fs)
  have "P (Suc i + k)" if "k < length fs" "fs ! k \<noteq> []" for k
    using "3.prems"(3) [of "Suc k"] that by simp
  moreover have "P i" using "3.prems"(3) [of 0] by simp
  ultimately show ?case
    by (intro "3.IH") (use "3.prems"(1) in auto)
next
  case (4 cmp reverse l js i m ns fs)
  from "4.prems"(1) obtain c where c: "cmp (Row m) (Row l) = Inr c" 
    "min_parents cmp reverse (if (if reverse then - c else c) = 0 then Some (l, js @ [i])
       else if (if reverse then - c else c) < 0 then Some (m, [i]) else Some (l, js)) (Suc i) fs = Inr (Some (n, is))"
    by (auto simp: bindR_eq_Inr Let_def)
  have next_ok: "P (Suc i + k)" if "k < length fs" "fs ! k \<noteq> []" for k
    using "4.prems"(3) [of "Suc k"] that by simp
  have js: "js \<noteq> []" "\<forall>j\<in>set js. P j" and i: "P i"
    using "4.prems"(2) [OF refl] "4.prems"(3) [of 0] by simp_all
  have best: "ks \<noteq> [] \<and> (\<forall>j\<in>set ks. P j)"
    if "(if (if reverse then - c else c) = 0 then Some (l, js @ [i])
       else if (if reverse then - c else c) < 0 then Some (m, [i]) else Some (l, js)) = Some (k, ks)" for k ks
  proof -
    have "ks = js @ [i] \<or> ks = [i] \<or> ks = js" using that by (metis option.inject prod.inject)
    then show ?thesis using js i by auto
  qed
  show ?case
    by (rule "4.IH" [OF c(1) refl c(2) best next_ok])
qed simp

lemma advance_iters_less:
  assumes "is \<noteq> []" "\<forall>i\<in>set is. i < length fs \<and> fs ! i \<noteq> []"
  shows "sum_list (map length (advance_iters is fs)) < sum_list (map length fs)"
proof -
  obtain i where i: "i \<in> set is" using assms(1) by (cases "is") auto
  have "(\<Sum>j<length fs. length (if j \<in> set is then tl (fs ! j) else fs ! j)) < (\<Sum>j<length fs. length (fs ! j))"
    using i assms(2) by (intro sum_strict_mono_ex1) auto
  moreover have "sum_list (map length (advance_iters is fs)) =
      (\<Sum>j<length fs. length (if j \<in> set is then tl (fs ! j) else fs ! j))"
    by (simp add: advance_iters_def comp_def interv_sum_list_conv_sum_set_nat lessThan_atLeast0)
  moreover have "sum_list (map length fs) = (\<Sum>j<length fs. length (fs ! j))"
    by (simp add: sum_list_sum_nth lessThan_atLeast0)
  ultimately show ?thesis by simp
qed

function flipped_loop :: "FlippedJoin \<Rightarrow> bool \<Rightarrow> Node list \<Rightarrow> Node list list \<Rightarrow> Node list res" where
  "flipped_loop fj reverse children fs =
     (case min_parents (CompareRows (fj_schema fj)) reverse None 0 fs of
        Inl e \<Rightarrow> Inl e
      | Inr None \<Rightarrow> Inr []
      | Inr (Some (n, is)) \<Rightarrow>
          bindR (flipped_overlay fj n (map ((!) children) is)) (\<lambda>related.
          bindR (flipped_loop fj reverse children (advance_iters is fs)) (\<lambda>rest.
            Inr ((if related \<noteq> [] then [flipped_node fj n (ThNodes related)] else []) @ rest))))"
  by pat_completeness auto
termination
proof (relation "measure (\<lambda>(fj, r, cs, fs). sum_list (map length fs))", goal_cases)
  case (2 fj reverse children fs a b n "is" related)
  then have "is \<noteq> [] \<and> (\<forall>i\<in>set is. i < length fs \<and> fs ! i \<noteq> [])"
    using min_parents_index [of "CompareRows (fj_schema fj)" reverse None 0 fs n "is" "\<lambda>i. i < length fs \<and> fs ! i \<noteq> []"]
    by simp
  then show ?case using advance_iters_less [of "is" fs] by simp
qed simp

declare flipped_loop.simps [simp del]

definition FlippedJoin_Fetch ::
  "('s, FlippedJoin) ref \<Rightarrow> 's fetch \<Rightarrow> 's fetch \<Rightarrow> FetchRequest \<Rightarrow> (panic, 's, Node list) exec"
where
  "FlippedJoin_Fetch p fetchParent fetchChild req =
     bindM (getM (rd p)) (\<lambda>fj.
     bindM (liftM (case ReqConstraint req of None \<Rightarrow> Inr None | Some c \<Rightarrow> child_constraint fj c None)) (\<lambda>cc.
     bindM (fetchChild \<lparr>ReqConstraint = cc, ReqStart = None, ReqReverse = False\<rparr>) (\<lambda>fetched.
     bindM (askM p (\<lambda>fj. reinsert_removed fj fetched)) (\<lambda>children.
     bindM (mapM (parents_of fj fetchParent req) children) (\<lambda>fs.
       askM p (\<lambda>fj. flipped_loop fj (ReqReverse req) children fs))))))"

section \<open>Pushes\<close>

definition flipped_children ::
  "('s, FlippedJoin) ref \<Rightarrow> 's fetch \<Rightarrow> row \<Rightarrow> (panic, 's, Node list) exec" where
  "flipped_children p fetchChild row =
     bindM (getM (rd p)) (\<lambda>fj.
       case BuildJoinConstraint row (fj_parentKey fj) (fj_childKey fj) of
         None \<Rightarrow> retM []
       | Some c \<Rightarrow> fetchChild (key_request c))"

text \<open>The loop over the parents of a changed child; \<open>ex\<close> is the variable \<open>exists\<close>.\<close>

fun flipped_push_loop ::
  "('s, FlippedJoin) ref \<Rightarrow> opid \<Rightarrow> 's fetch \<Rightarrow> 's push \<Rightarrow> Change \<Rightarrow> bool \<Rightarrow> Node list \<Rightarrow>
   (panic, 's, Change list) exec"
where
  "flipped_push_loop p me fetchChild push change ex [] = retM []"
| "flipped_push_loop p me fetchChild push change ex (n # ns) =
     thenM (updM p (\<lambda>fj. fj\<lparr>fj_change := Some change, fj_position := Some (Row n)\<rparr>))
     (bindM (if ex then retM True
             else bindM (flipped_children p fetchChild (Row n)) (\<lambda>children.
               askM p (\<lambda>fj. anyR (\<lambda>m.
                 bindR (CompareRows (fj_childSchema fj) (Row m) (Row (change_node change))) (\<lambda>c. Inr (c \<noteq> 0)))
                 children))) (\<lambda>ex.
      bindM (getM (rd p)) (\<lambda>fj.
      bindM (push (fj_output fj)
               (if ex then ChildChange (flipped_node fj n (ThFlippedChild me (Row n))) (fj_relationship fj) change
                else (let out = flipped_node fj n (ThNodes [change_node change]) in
                      if change_type change = ChangeTypeAdd then AddChange out else RemoveChange out)) me) (\<lambda>r.
      bindM (flipped_push_loop p me fetchChild push change ex ns) (\<lambda>rs. retM (r @ rs))))))"

definition FlippedJoin_pushChildChange ::
  "('s, FlippedJoin) ref \<Rightarrow> opid \<Rightarrow> 's fetch \<Rightarrow> 's fetch \<Rightarrow> 's push \<Rightarrow> Change \<Rightarrow> bool \<Rightarrow> (panic, 's, Change list) exec"
where
  "FlippedJoin_pushChildChange p me fetchParent fetchChild push change ex =
     thenM (updM p (\<lambda>fj. fj\<lparr>fj_change := Some change, fj_position := None\<rparr>))
       (deferM (\<lambda>s. wr p ((rd p s)\<lparr>fj_change := None\<rparr>) s)
         (bindM (getM (rd p)) (\<lambda>fj.
            case BuildJoinConstraint (Row (change_node change)) (fj_childKey fj) (fj_parentKey fj) of
              None \<Rightarrow> retM []
            | Some c \<Rightarrow>
                bindM (fetchParent (key_request c)) (flipped_push_loop p me fetchChild push change ex))))"

fun FlippedJoin_pushChild ::
  "('s, FlippedJoin) ref \<Rightarrow> opid \<Rightarrow> 's fetch \<Rightarrow> 's fetch \<Rightarrow> 's push \<Rightarrow> Change \<Rightarrow> (panic, 's, Change list) exec"
where
  "FlippedJoin_pushChild p me fetchParent fetchChild push (EditChange n old) =
     bindM (askM p (\<lambda>fj. RowEqualsForCompoundKey (Row old) (Row n) (fj_childKey fj))) (\<lambda>same.
       if \<not> same then failM (Panic ''Child edit must not change relationship.'')
       else FlippedJoin_pushChildChange p me fetchParent fetchChild push (EditChange n old) True)"
| "FlippedJoin_pushChild p me fetchParent fetchChild push (ChildChange n name ch) =
     FlippedJoin_pushChildChange p me fetchParent fetchChild push (ChildChange n name ch) True"
| "FlippedJoin_pushChild p me fetchParent fetchChild push change =
     FlippedJoin_pushChildChange p me fetchParent fetchChild push change False"

definition flip_node :: "opid \<Rightarrow> FlippedJoin \<Rightarrow> Node \<Rightarrow> Node" where
  "flip_node me fj n = flipped_node fj n (ThFlippedChild me (Row n))"

definition FlippedJoin_pushParent ::
  "('s, FlippedJoin) ref \<Rightarrow> opid \<Rightarrow> 's fetch \<Rightarrow> 's push \<Rightarrow> Change \<Rightarrow> (panic, 's, Change list) exec" where
  "FlippedJoin_pushParent p me fetchChild push change =
     bindM (flipped_children p fetchChild (Row (change_node change))) (\<lambda>children.
     if children = [] then retM []
     else bindM (getM (rd p)) (\<lambda>fj.
       case change of
         AddChange n \<Rightarrow> push (fj_output fj) (AddChange (flip_node me fj n)) me
       | RemoveChange n \<Rightarrow> push (fj_output fj) (RemoveChange (flip_node me fj n)) me
       | ChildChange n name child \<Rightarrow> push (fj_output fj) (ChildChange (flip_node me fj n) name child) me
       | EditChange n old \<Rightarrow>
           bindM (liftM (RowEqualsForCompoundKey (Row old) (Row n) (fj_parentKey fj))) (\<lambda>same.
             if \<not> same then failM (Panic ''Parent edit must not change relationship.'')
             else push (fj_output fj) (EditChange (flip_node me fj n) (flip_node me fj old)) me)))"

section \<open>The merge of the parents\<close>

text \<open>The comparison of nodes in the direction of a request.\<close>

definition directed :: "bool \<Rightarrow> Comparator \<Rightarrow> Node \<Rightarrow> Node \<Rightarrow> int res" where
  "directed reverse cmp a b = bindR (cmp (Row a) (Row b)) (\<lambda>c. Inr (if reverse then - c else c))"

fun equal_heads :: "(Node \<Rightarrow> Node \<Rightarrow> int res) \<Rightarrow> Node \<Rightarrow> nat \<Rightarrow> Node list list \<Rightarrow> nat list" where
  "equal_heads C n i [] = []"
| "equal_heads C n i (f # fs) =
     (if f \<noteq> [] \<and> cval C n (hd f) = 0 then [i] else []) @ equal_heads C n (Suc i) fs"

lemma equal_heads_filter:
  "equal_heads C n i fs =
     filter (\<lambda>j. fs ! (j - i) \<noteq> [] \<and> cval C n (hd (fs ! (j - i))) = 0) [i..<i + length fs]"
proof (induction fs arbitrary: i)
  case (Cons f fs)
  have "filter (\<lambda>j. (f # fs) ! (j - i) \<noteq> [] \<and> cval C n (hd ((f # fs) ! (j - i))) = 0) [Suc i..<Suc i + length fs] =
      filter (\<lambda>j. fs ! (j - Suc i) \<noteq> [] \<and> cval C n (hd (fs ! (j - Suc i))) = 0) [Suc i..<Suc i + length fs]"
    by (rule filter_cong) (auto simp: nth_Cons')
  then show ?case by (simp add: Cons upt_rec [of i] del: upt_Suc)
qed simp

locale parent_merge = comparator C M
  for C :: "Node \<Rightarrow> Node \<Rightarrow> int res" and M :: "Node set" +
  fixes cmp :: Comparator and reverse :: bool
  assumes C: "C = directed reverse cmp"
begin

lemma compare_heads: "a \<in> M \<Longrightarrow> b \<in> M \<Longrightarrow> \<exists>c. cmp (Row a) (Row b) = Inr c \<and> cval C a b = (if reverse then - c else c)"
  using cmp_Inr [of a b] by (auto simp: C directed_def bindR_eq_Inr)

lemma min_parents_some:
  assumes "m \<in> M" "\<forall>f\<in>set fs. set f \<subseteq> M"
  shows "\<exists>n is. min_parents cmp reverse (Some (m, js)) i fs = Inr (Some (n, is)) \<and> n \<in> M \<and> cval C n m \<le> 0 \<and>
    (\<forall>f\<in>set fs. f \<noteq> [] \<longrightarrow> cval C n (hd f) \<le> 0) \<and>
    is = (if cval C n m = 0 then js else []) @ equal_heads C n i fs \<and> (n = m \<or> (\<exists>f\<in>set fs. f \<noteq> [] \<and> n = hd f))"
  using assms
proof (induction fs arbitrary: i m js)
  case Nil
  then show ?case by (simp add: refl)
next
  case (Cons f fs)
  show ?case
  proof (cases f)
    case Nil
    with Cons.IH [of m js "Suc i"] Cons.prems show ?thesis by simp
  next
    case (Cons x xs)
    then have x: "x \<in> M" using Cons.prems by simp
    from compare_heads [OF x Cons.prems(1)] obtain c where
      c: "cmp (Row x) (Row m) = Inr c" "cval C x m = (if reverse then - c else c)" by blast
    have step: "min_parents cmp reverse (Some (m, js)) i (f # fs) = min_parents cmp reverse
        (if cval C x m = 0 then Some (m, js @ [i]) else if cval C x m < 0 then Some (x, [i]) else Some (m, js)) (Suc i) fs"
      using c(1) unfolding Cons c(2) by simp
    consider "cval C x m = 0" | "cval C x m < 0" | "0 < cval C x m" by linarith
    then show ?thesis
    proof cases
      case 1
      from Cons.IH [of m "js @ [i]" "Suc i"] Cons.prems obtain n "is" where n:
        "min_parents cmp reverse (Some (m, js @ [i])) (Suc i) fs = Inr (Some (n, is))" "n \<in> M" "cval C n m \<le> 0"
        "\<forall>f\<in>set fs. f \<noteq> [] \<longrightarrow> cval C n (hd f) \<le> 0"
        "is = (if cval C n m = 0 then js @ [i] else []) @ equal_heads C n (Suc i) fs"
        "n = m \<or> (\<exists>f\<in>set fs. f \<noteq> [] \<and> n = hd f)"
        by auto
      have mx: "cval C m x = 0" using 1 eq_sym x Cons.prems(1) by simp
      have "cval C n x \<le> 0" using trans [of n m x] n(2,3) x Cons.prems(1) mx by simp
      moreover have "cval C n x = 0 \<longleftrightarrow> cval C n m = 0"
        using eq_left_eq [of m x n] antisym [of n m] antisym [of n x] n(2) x Cons.prems(1) mx by simp
      ultimately show ?thesis
        unfolding step using n 1 Cons by (intro exI [of _ n] exI [of _ "is"]) auto
    next
      case 2
      from Cons.IH [of x "[i]" "Suc i"] Cons.prems x obtain n "is" where n:
        "min_parents cmp reverse (Some (x, [i])) (Suc i) fs = Inr (Some (n, is))" "n \<in> M" "cval C n x \<le> 0"
        "\<forall>f\<in>set fs. f \<noteq> [] \<longrightarrow> cval C n (hd f) \<le> 0"
        "is = (if cval C n x = 0 then [i] else []) @ equal_heads C n (Suc i) fs"
        "n = x \<or> (\<exists>f\<in>set fs. f \<noteq> [] \<and> n = hd f)"
        by auto
      have "cval C n m < 0" using le_lt_trans [of n x m] n(2,3) 2 x Cons.prems(1) by simp
      with n 2 Cons show ?thesis
        unfolding step by (intro exI [of _ n] exI [of _ "is"]) auto
    next
      case 3
      from Cons.IH [of m js "Suc i"] Cons.prems obtain n "is" where n:
        "min_parents cmp reverse (Some (m, js)) (Suc i) fs = Inr (Some (n, is))" "n \<in> M" "cval C n m \<le> 0"
        "\<forall>f\<in>set fs. f \<noteq> [] \<longrightarrow> cval C n (hd f) \<le> 0"
        "is = (if cval C n m = 0 then js else []) @ equal_heads C n (Suc i) fs"
        "n = m \<or> (\<exists>f\<in>set fs. f \<noteq> [] \<and> n = hd f)"
        by auto
      have "cval C m x < 0" using 3 antisym [of m x] x Cons.prems(1) by simp
      then have "cval C n x < 0" using le_lt_trans [of n m x] n(2,3) x Cons.prems(1) by simp
      with n 3 Cons show ?thesis
        unfolding step by (intro exI [of _ n] exI [of _ "is"]) auto
    qed
  qed
qed

lemma min_parents_none:
  assumes "\<forall>f\<in>set fs. set f \<subseteq> M"
  shows "(\<forall>f\<in>set fs. f = []) \<and> min_parents cmp reverse None i fs = Inr None \<or>
    (\<exists>n is. min_parents cmp reverse None i fs = Inr (Some (n, is)) \<and> n \<in> M \<and>
      (\<forall>f\<in>set fs. f \<noteq> [] \<longrightarrow> cval C n (hd f) \<le> 0) \<and> is = equal_heads C n i fs \<and> (\<exists>f\<in>set fs. f \<noteq> [] \<and> n = hd f))"
  using assms
proof (induction fs arbitrary: i)
  case (Cons f fs)
  show ?case
  proof (cases f)
    case Nil
    with Cons.IH [of "Suc i"] Cons.prems show ?thesis by auto
  next
    case (Cons x xs)
    then have x: "x \<in> M" using Cons.prems by simp
    with min_parents_some [of x fs "[i]" "Suc i"] Cons.prems Cons show ?thesis by auto
  qed
qed simp

end

definition matching :: "(Node \<Rightarrow> Node \<Rightarrow> int res) \<Rightarrow> Node list list \<Rightarrow> Node \<Rightarrow> nat list" where
  "matching C fs n = filter (\<lambda>i. \<exists>x\<in>set (fs ! i). cval C n x = 0) [0..<length fs]"

context parent_merge
begin

lemma advance_nth:
  "i < length fs \<Longrightarrow> advance_iters is fs ! i = (if i \<in> set is then tl (fs ! i) else fs ! i)"
  "length (advance_iters is fs) = length fs"
  by (simp_all add: advance_iters_def)

lemma least_head:
  assumes "f \<noteq> [] \<longrightarrow> cval C n (hd f) \<le> 0" "sorted_by C f" "set f \<subseteq> M" "n \<in> M"
  shows "(\<exists>x\<in>set f. cval C n x = 0) \<longleftrightarrow> f \<noteq> [] \<and> cval C n (hd f) = 0"
    and "x \<in> set (if f \<noteq> [] \<and> cval C n (hd f) = 0 then tl f else f) \<Longrightarrow> ltc C n x"
proof -
  show "x \<in> set (if f \<noteq> [] \<and> cval C n (hd f) = 0 then tl f else f) \<Longrightarrow> ltc C n x"
  proof (cases f)
    case (Cons h t)
    then have t: "ltc C n y" if "y \<in> set t" for y
      using that assms le_lt_trans [of n h y] by (auto simp: sorted_by_Cons ltc_def)
    assume "x \<in> set (if f \<noteq> [] \<and> cval C n (hd f) = 0 then tl f else f)"
    then consider "x \<in> set t" | "x = h" "cval C n h \<noteq> 0" using Cons by (auto split: if_splits)
    then show ?thesis using t assms(1) Cons by cases (auto simp: ltc_def)
  qed simp
  show "(\<exists>x\<in>set f. cval C n x = 0) \<longleftrightarrow> f \<noteq> [] \<and> cval C n (hd f) = 0"
  proof (cases f)
    case (Cons h t)
    then have t: "ltc C n y" if "y \<in> set t" for y
      using that assms le_lt_trans [of n h y] by (auto simp: sorted_by_Cons ltc_def)
    then have "cval C n y \<noteq> 0" if "y \<in> set t" for y using that by (fastforce simp: ltc_def)
    then show ?thesis using Cons by auto
  qed simp
qed

lemma advance_step:
  assumes fs: "\<forall>f\<in>set fs. sorted_by C f \<and> set f \<subseteq> M" and n: "n \<in> M"
    and least: "\<forall>f\<in>set fs. f \<noteq> [] \<longrightarrow> cval C n (hd f) \<le> 0"
  defines "fs' \<equiv> advance_iters (equal_heads C n 0 fs) fs"
  shows "matching C fs n = equal_heads C n 0 fs"
    and "\<forall>f\<in>set fs'. sorted_by C f \<and> set f \<subseteq> M"
    and "\<forall>f\<in>set fs'. \<forall>x\<in>set f. ltc C n x"
    and "n' \<in> M \<Longrightarrow> ltc C n n' \<Longrightarrow> matching C fs' n' = matching C fs n'"
    and "\<forall>f\<in>set fs. \<forall>x\<in>set f. cval C n x = 0 \<or> (\<exists>g\<in>set fs'. x \<in> set g)"
    and "\<forall>g\<in>set fs'. set g \<subseteq> \<Union> (set ` set fs)"
proof -
  have f: "f \<noteq> [] \<longrightarrow> cval C n (hd f) \<le> 0" "sorted_by C f" "set f \<subseteq> M" if "f \<in> set fs" for f
    using that fs least by auto
  have eqs: "i \<in> set (equal_heads C n 0 fs) \<longleftrightarrow> i < length fs \<and> fs ! i \<noteq> [] \<and> cval C n (hd (fs ! i)) = 0" for i
    by (auto simp: equal_heads_filter)
  have adv: "fs' ! i = (if fs ! i \<noteq> [] \<and> cval C n (hd (fs ! i)) = 0 then tl (fs ! i) else fs ! i)" if "i < length fs" for i
    using that eqs [of i] by (simp add: fs'_def advance_nth)
  have len: "length fs' = length fs" by (simp add: fs'_def advance_nth)
  have nth: "\<exists>i<length fs. g = fs' ! i" if "g \<in> set fs'" for g
    using that len by (auto simp: in_set_conv_nth)
  show "matching C fs n = equal_heads C n 0 fs"
  proof -
    have "(\<exists>x\<in>set (fs ! i). cval C n x = 0) \<longleftrightarrow> fs ! i \<noteq> [] \<and> cval C n (hd (fs ! i)) = 0" if "i < length fs" for i
      using least_head(1) [OF f n] nth_mem [OF that] by blast
    then show ?thesis unfolding matching_def equal_heads_filter by (intro filter_cong) auto
  qed
  have tails: "sorted_by C (tl g) \<and> set (tl g) \<subseteq> M" if "sorted_by C g" "set g \<subseteq> M" for g
    using that by (cases g) (auto simp: sorted_by_Cons)
  show "\<forall>f\<in>set fs'. sorted_by C f \<and> set f \<subseteq> M"
    using nth adv tails f(2,3) nth_mem by (metis (no_types, lifting))
  show above: "\<forall>f\<in>set fs'. \<forall>x\<in>set f. ltc C n x"
  proof (intro ballI)
    fix g x assume "g \<in> set fs'" "x \<in> set g"
    then obtain i where i: "i < length fs" "x \<in> set (fs' ! i)" using nth by blast
    then show "ltc C n x" using adv [OF i(1)] least_head(2) [OF f n, of "fs ! i" x] by simp
  qed
  show "matching C fs' n' = matching C fs n'" if n': "n' \<in> M" "ltc C n n'"
  proof -
    have "(\<exists>x\<in>set (fs' ! i). cval C n' x = 0) \<longleftrightarrow> (\<exists>x\<in>set (fs ! i). cval C n' x = 0)" if i: "i < length fs" for i
    proof (cases "fs ! i \<noteq> [] \<and> cval C n (hd (fs ! i)) = 0")
      case True
      then obtain h t where ht: "fs ! i = h # t" "cval C n h = 0" by (cases "fs ! i") auto
      then have h: "h \<in> M" using f(3) [OF nth_mem [OF i]] by simp
      have "ltc C h n'" using n' eq_left_lt [OF n h n'(1) ht(2)] by blast
      then have "cval C n' h \<noteq> 0" using antisym [OF h n'(1)] by (simp add: ltc_def)
      then show ?thesis using adv [OF i] True ht by simp
    next
      case False
      then have "fs' ! i = fs ! i" using adv [OF i] by argo
      then show ?thesis by simp
    qed
    then show ?thesis unfolding matching_def len by (intro filter_cong) auto
  qed
  show "\<forall>f\<in>set fs. \<forall>x\<in>set f. cval C n x = 0 \<or> (\<exists>g\<in>set fs'. x \<in> set g)"
  proof (intro ballI)
    fix g x assume "g \<in> set fs" "x \<in> set g"
    then obtain i where i: "i < length fs" "g = fs ! i" by (auto simp: in_set_conv_nth)
    then have "fs' ! i \<in> set fs'" using len by simp
    moreover have "cval C n x = 0 \<or> x \<in> set (fs' ! i)"
      using adv [OF i(1)] i(2) \<open>x \<in> set g\<close> by (cases "fs ! i") auto
    ultimately show "cval C n x = 0 \<or> (\<exists>g\<in>set fs'. x \<in> set g)" by blast
  qed
  show "\<forall>g\<in>set fs'. set g \<subseteq> \<Union> (set ` set fs)"
  proof
    fix g assume "g \<in> set fs'"
    then obtain i where i: "i < length fs" "g = fs' ! i" using nth by blast
    then have "set g \<subseteq> set (fs ! i)" using adv [OF i(1)] by (cases "fs ! i") auto
    then show "set g \<subseteq> \<Union> (set ` set fs)" using i(1) by force
  qed
qed

end

definition shown_parent :: "FlippedJoin \<Rightarrow> (Node \<Rightarrow> Node list) \<Rightarrow> Node \<Rightarrow> Node list" where
  "shown_parent fj ov n = (if ov n \<noteq> [] then [flipped_node fj n (ThNodes (ov n))] else [])"

definition parents_merged :: "(Node \<Rightarrow> Node \<Rightarrow> int res) \<Rightarrow> Node list list \<Rightarrow> Node list \<Rightarrow> bool" where
  "parents_merged C fs ys \<longleftrightarrow>
     sorted_by C ys \<and> set ys \<subseteq> \<Union> (set ` set fs) \<and> (\<forall>f\<in>set fs. \<forall>x\<in>set f. \<exists>y\<in>set ys. cval C y x = 0)"

context parent_merge
begin

lemma flipped_loop_spec:
  assumes "cmp = CompareRows (fj_schema fj)" and "\<forall>f\<in>set fs. sorted_by C f \<and> set f \<subseteq> M"
    and "\<forall>f\<in>set fs. \<forall>n\<in>set f. flipped_overlay fj n (map ((!) children) (matching C fs n)) = Inr (ov n)"
  shows "\<exists>ys. parents_merged C fs ys \<and> flipped_loop fj reverse children fs = Inr (concat (map (shown_parent fj ov) ys))"
  using assms(2,3)
proof (induction "sum_list (map length fs)" arbitrary: fs rule: less_induct)
  case less
  have M: "\<forall>f\<in>set fs. set f \<subseteq> M" using less.prems(1) by blast
  from min_parents_none [OF M, of 0] show ?case
  proof (elim disjE exE conjE)
    assume empty: "\<forall>f\<in>set fs. f = []" "min_parents cmp reverse None 0 fs = Inr None"
    then have "flipped_loop fj reverse children fs = Inr []"
      using assms(1) by (simp add: flipped_loop.simps)
    moreover have "parents_merged C fs []" using empty(1) by (auto simp: parents_merged_def sorted_by_def)
    ultimately show ?thesis by (intro exI [of _ "[]"]) simp
  next
    fix n "is" assume n: "min_parents cmp reverse None 0 fs = Inr (Some (n, is))" "n \<in> M"
      "\<forall>f\<in>set fs. f \<noteq> [] \<longrightarrow> cval C n (hd f) \<le> 0" "is = equal_heads C n 0 fs" "\<exists>f\<in>set fs. f \<noteq> [] \<and> n = hd f"
    let ?fs = "advance_iters is fs"
    note adv = advance_step [OF less.prems(1) n(2,3), folded n(4)]
    have inn: "\<exists>f\<in>set fs. n \<in> set f" using n(5) hd_in_set by blast
    have ne: "is \<noteq> [] \<and> (\<forall>i\<in>set is. i < length fs \<and> fs ! i \<noteq> [])"
      using min_parents_index [OF n(1), of "\<lambda>i. i < length fs \<and> fs ! i \<noteq> []"] by simp
    have ov: "flipped_overlay fj n (map ((!) children) is) = Inr (ov n)"
      using less.prems(2) inn unfolding adv(1) [symmetric] by blast
    have mem: "x \<in> M \<and> ltc C n x \<and> (\<exists>f\<in>set fs. x \<in> set f)" if "g \<in> set ?fs" "x \<in> set g" for g x
      using that adv(2,3,6) by blast
    have ov': "\<forall>g\<in>set ?fs. \<forall>x\<in>set g. flipped_overlay fj x (map ((!) children) (matching C ?fs x)) = Inr (ov x)"
    proof (intro ballI)
      fix g x assume "g \<in> set ?fs" "x \<in> set g"
      note x = mem [OF this]
      then have "matching C ?fs x = matching C fs x" using adv(4) by blast
      then show "flipped_overlay fj x (map ((!) children) (matching C ?fs x)) = Inr (ov x)"
        using less.prems(2) x by auto
    qed
    from less.hyps [OF advance_iters_less adv(2) ov'] ne obtain ys where
      ys: "parents_merged C ?fs ys" "flipped_loop fj reverse children ?fs = Inr (concat (map (shown_parent fj ov) ys))"
      by blast
    have "flipped_loop fj reverse children fs = Inr (concat (map (shown_parent fj ov) (n # ys)))"
      using n(1) assms(1) ov ys(2) by (subst flipped_loop.simps) (simp add: shown_parent_def)
    moreover have "parents_merged C fs (n # ys)"
      unfolding parents_merged_def
    proof (intro conjI ballI)
      have "ltc C n y" if "y \<in> set ys" for y using that ys(1) mem by (auto simp: parents_merged_def)
      then show "sorted_by C (n # ys)" using ys(1) by (simp add: sorted_by_Cons parents_merged_def)
      show "set (n # ys) \<subseteq> \<Union> (set ` set fs)" using ys(1) mem inn by (auto simp: parents_merged_def)
      show "\<exists>y\<in>set (n # ys). cval C y x = 0" if "f \<in> set fs" "x \<in> set f" for f x
        using adv(5) that ys(1) by (fastforce simp: parents_merged_def)
    qed
    ultimately show ?thesis by blast
  qed
qed

end

lemma comparator_directed:
  "comparator (directed reverse (MakeComparator order False)) {n. row_ok ty order (Row n)}"
proof -
  note ord = rows.comparator_axioms [of order False ty]
  have eq: "directed reverse (MakeComparator order False) a b =
      Inr (if reverse then - cval (MakeComparator order False) (Row a) (Row b) else cval (MakeComparator order False) (Row a) (Row b))"
    if "row_ok ty order (Row a)" "row_ok ty order (Row b)" for a b
    using rows.cmp_Inr [of "Row a" ty order "Row b" False] that by (simp add: directed_def)
  show ?thesis
  proof (unfold_locales, goal_cases)
    case (1 a b) then show ?case using eq [of a b] by simp
  next
    case (2 a b) then show ?case
      using eq [of a b] eq [of b a] rows.antisym [of "Row a" ty order "Row b" False] by (simp add: cval_def)
  next
    case (3 a b c) then show ?case
      using eq [of a b] eq [of b c] eq [of a c] rows.trans [of "Row a" ty order "Row b" "Row c" False]
        rows.trans [of "Row c" ty order "Row b" "Row a" False]
        rows.antisym [of "Row a" ty order "Row b" False] rows.antisym [of "Row b" ty order "Row c" False]
        rows.antisym [of "Row a" ty order "Row c" False]
      by (auto simp: cval_def split: if_splits)
  qed
qed

interpretation flipped: parent_merge
  "directed reverse (MakeComparator order False)" "{n. row_ok ty order (Row n)}" "MakeComparator order False" reverse
  for reverse order ty
  by (intro parent_merge.intro comparator_directed parent_merge_axioms.intro refl)

lemma map_matching:
  "map ((!) children) (matching C (map pf children) n) = filter (\<lambda>c. \<exists>x\<in>set (pf c). cval C n x = 0) children"
proof -
  have "matching C (map pf children) n = filter (\<lambda>i. \<exists>x\<in>set (pf (children ! i)). cval C n x = 0) [0..<length children]"
    unfolding matching_def length_map by (intro filter_cong) auto
  then show ?thesis
    using filter_map [of "\<lambda>c. \<exists>x\<in>set (pf c). cval C n x = 0" "(!) children" "[0..<length children]"]
    by (simp add: comp_def map_nth)
qed

lemma shown_all:
  assumes "\<And>y. y \<in> set ys \<Longrightarrow> ov y \<noteq> []"
  shows "concat (map (shown_parent fj ov) ys) = map (\<lambda>n. flipped_node fj n (ThNodes (ov n))) ys"
  using assms by (induction ys) (auto simp: shown_parent_def)

section \<open>Properties\<close>

text \<open>
  C14. A fetch through a flipped join is an inner join in parent order: with no change in progress it
  returns one node per distinct parent of the fetched children, in the order and direction of the
  request, and each carries, in their order, exactly the children whose parents include it.
\<close>

theorem FlippedJoin_Fetch_correct:
  fixes p :: "('s, FlippedJoin) ref" and pf :: "Node \<Rightarrow> Node list"
  assumes "fj_change (rd p s) = None" "CompareRows (fj_schema (rd p s)) = MakeComparator order False"
    and "(case ReqConstraint req of None \<Rightarrow> Inr None | Some c \<Rightarrow> child_constraint (rd p s) c None) = (Inr cc :: Constraint option res)"
    and "fetchChild \<lparr>ReqConstraint = cc, ReqStart = None, ReqReverse = False\<rparr> s = (Inr children, s)"
    and "\<forall>c\<in>set children. parents_of (rd p s) fetchParent req c s = (Inr (pf c), s) \<and>
      sorted_by (directed (ReqReverse req) (MakeComparator order False)) (pf c) \<and> (\<forall>n\<in>set (pf c). row_ok ty order (Row n))"
  shows "\<exists>ys. parents_merged (directed (ReqReverse req) (MakeComparator order False)) (map pf children) ys \<and>
    FlippedJoin_Fetch p fetchParent fetchChild req s =
      (Inr (map (\<lambda>n. flipped_node (rd p s) n (ThNodes (filter
        (\<lambda>c. \<exists>x\<in>set (pf c). cval (directed (ReqReverse req) (MakeComparator order False)) n x = 0) children))) ys), s)"
proof -
  let ?C = "directed (ReqReverse req) (MakeComparator order False)" and ?fj = "rd p s"
  let ?ov = "\<lambda>n. map ((!) children) (matching ?C (map pf children) n)"
  have sorted: "\<forall>f\<in>set (map pf children). sorted_by ?C f \<and> set f \<subseteq> {n. row_ok ty order (Row n)}"
    using assms(5) by auto
  have ov: "\<forall>f\<in>set (map pf children). \<forall>n\<in>set f. flipped_overlay ?fj n (?ov n) = Inr (?ov n)"
    using assms(1) by (simp add: flipped_overlay_def)
  obtain ys where ys: "parents_merged ?C (map pf children) ys"
    "flipped_loop ?fj (ReqReverse req) children (map pf children) = Inr (concat (map (shown_parent ?fj ?ov) ys))"
    using flipped.flipped_loop_spec [OF assms(2) [symmetric] sorted ov] by blast
  have "?ov y \<noteq> []" if "y \<in> set ys" for y
  proof -
    have "y \<in> \<Union> (set ` set (map pf children))" using that ys(1) unfolding parents_merged_def by blast
    then obtain c where c: "c \<in> set children" "y \<in> set (pf c)" by auto
    then have "cval ?C y y = 0" using flipped.refl [of y ty order "ReqReverse req"] assms(5) by auto
    with c show ?thesis unfolding map_matching by (auto simp: filter_empty_conv)
  qed
  moreover have "mapM (parents_of ?fj fetchParent req) children s = (Inr (map pf children), s)"
    by (rule mapM_pure) (use assms(5) in blast)
  ultimately have "FlippedJoin_Fetch p fetchParent fetchChild req s =
      (Inr (map (\<lambda>n. flipped_node ?fj n (ThNodes (?ov n))) ys), s)"
    using ys(2) assms(1,3,4) by (simp add: FlippedJoin_Fetch_def reinsert_removed_def shown_all)
  with ys(1) show ?thesis unfolding map_matching by blast
qed

definition one_flipped :: FlippedJoin where
  "one_flipped = \<lparr>fj_schema = joined_schema item_schema ''sub'' item_schema, fj_parentSchema = item_schema,
     fj_childSchema = item_schema, fj_parentKey = [''id''], fj_childKey = [''id''], fj_relationship = ''sub'',
     fj_output = ThrowOutput, fj_change = None, fj_position = None\<rparr>"

definition fetch_both :: "FetchRequest \<Rightarrow> (panic, FlippedJoin, Node list) exec" where
  "fetch_both req s = (Inr (case ReqConstraint req of
      None \<Rightarrow> [leaf (item 1), leaf (item 2)] | Some c \<Rightarrow> if map_of c ''id'' = Some (num 2) then [leaf (item 2)] else []), s)"

theorem FlippedJoin_Fetch_correct_witness:
  "\<exists>ys. set ys \<subseteq> {leaf (item 2)} \<and>
    FlippedJoin_Fetch self fetch_both fetch_both empty_request one_flipped =
      (Inr (map (\<lambda>n. flipped_node one_flipped n (ThNodes (filter
        (\<lambda>c. \<exists>x\<in>set (if c = leaf (item 2) then [leaf (item 2)] else []).
           cval (directed False (MakeComparator item_order False)) n x = 0) [leaf (item 1), leaf (item 2)]))) ys), one_flipped)"
  using FlippedJoin_Fetch_correct [of self one_flipped item_order empty_request None fetch_both
      "[leaf (item 1), leaf (item 2)]" fetch_both "\<lambda>c. if c = leaf (item 2) then [leaf (item 2)] else []" "\<lambda>_. CNum"]
  by (auto simp: one_flipped_def empty_request_def fetch_both_def parents_of_def BuildJoinConstraint_def
      mergeConstraints_def sorted_by_def parents_merged_def)

section \<open>Pushes of children\<close>

definition flipped_sends :: "opid \<Rightarrow> FlippedJoin \<Rightarrow> Change \<Rightarrow> bool \<Rightarrow> Node \<Rightarrow> Change" where
  "flipped_sends me fj change others n =
     (if others then ChildChange (flip_node me fj n) (fj_relationship fj) change
      else if change_type change = ChangeTypeAdd then AddChange (flipped_node fj n (ThNodes [change_node change]))
      else RemoveChange (flipped_node fj n (ThNodes [change_node change])))"

definition same_wiring :: "FlippedJoin \<Rightarrow> FlippedJoin \<Rightarrow> bool" where
  "same_wiring a b \<longleftrightarrow> a\<lparr>fj_change := None, fj_position := None\<rparr> = b\<lparr>fj_change := None, fj_position := None\<rparr>"

lemma same_wiring_refl [simp]: "same_wiring a a"
  by (simp add: same_wiring_def)

lemma same_wiringD:
  assumes "same_wiring a b"
  shows "fj_output a = fj_output b" "fj_parentKey a = fj_parentKey b" "fj_childKey a = fj_childKey b"
    "fj_childSchema a = fj_childSchema b" "fj_relationship a = fj_relationship b"
    "flip_node me a n = flip_node me b n" "flipped_node a n t = flipped_node b n t"
  using assms by (cases a; cases b; simp add: same_wiring_def flip_node_def flipped_node_def)+

lemma flipped_push_loop_run:
  assumes p: "pointer p" and push: "\<And>ch s. push (fj_output fj) ch me s = (Inr (emit ch), s)"
    and kids: "\<forall>n\<in>set ns. \<exists>c. BuildJoinConstraint (Row n) (fj_parentKey fj) (fj_childKey fj) = Some c \<and>
      (\<forall>s. fetchChild (key_request c) s = (Inr kids, s))"
    and cmp: "\<forall>m\<in>set kids. CompareRows (fj_childSchema fj) (Row m) (Row (change_node change)) = Inr (d m)"
    and wired: "same_wiring (rd p s) fj" and ex: "ex \<longrightarrow> (\<exists>m\<in>set kids. d m \<noteq> 0)"
  shows "\<exists>fj'. same_wiring fj' fj \<and> flipped_push_loop p me fetchChild push change ex ns s =
    (Inr (concat (map (\<lambda>n. emit (flipped_sends me fj change (\<exists>m\<in>set kids. d m \<noteq> 0) n)) ns)), wr p fj' s)"
  using kids wired ex
proof (induction ns arbitrary: s ex)
  case Nil
  then show ?case
    by (intro exI [of _ "rd p s"]) (simp add: pointer.wr_rd [OF p])
next
  case (Cons n ns)
  let ?others = "\<exists>m\<in>set kids. d m \<noteq> 0"
  let ?j = "(rd p s)\<lparr>fj_change := Some change, fj_position := Some (Row n)\<rparr>"
  let ?s = "wr p ?j s"
  have rd: "rd p ?s = ?j" by (rule pointer.rd_wr [OF p])
  have j: "same_wiring ?j fj" using Cons.prems(2) by (simp add: same_wiring_def)
  note wire = same_wiringD [OF j]
  have stream: "flipped_children p fetchChild (Row n) ?s = (Inr kids, ?s)"
    using Cons.prems(1) by (auto simp: flipped_children_def rd wire simp del: FlippedJoin.simps)
  have any: "anyR (\<lambda>m. bindR (CompareRows (fj_childSchema ?j) (Row m) (Row (change_node change))) (\<lambda>c. Inr (c \<noteq> 0))) kids =
      (Inr (list_ex (\<lambda>m. d m \<noteq> 0) kids) :: bool res)"
    by (rule anyR_Inr) (use cmp wire(4) in simp)
  have decide: "(if ex then retM True else bindM (flipped_children p fetchChild (Row n)) (\<lambda>children.
      askM p (\<lambda>fj. anyR (\<lambda>m. bindR (CompareRows (fj_childSchema fj) (Row m) (Row (change_node change))) (\<lambda>c. Inr (c \<noteq> 0))) children))) ?s =
      (Inr ?others, ?s)"
    using Cons.prems(3) stream any rd by (cases ex) (auto simp: list_ex_iff)
  obtain fj' where IH: "same_wiring fj' fj" "flipped_push_loop p me fetchChild push change ?others ns ?s =
      (Inr (concat (map (\<lambda>n. emit (flipped_sends me fj change ?others n)) ns)), wr p fj' ?s)"
    using Cons.IH [of ?s ?others] Cons.prems(1) j rd by auto
  show ?case
    using IH decide push rd wire
    by (intro exI [of _ fj'])
      (simp add: flipped_sends_def flip_node_def Let_def pointer.wr_wr [OF p] del: FlippedJoin.simps)
qed

text \<open>
  C15. Pushing an added or removed child through a flipped join keeps the inner join up to date: when
  the parents have other children the change is forwarded as a child change of every parent, and
  when they have none every parent itself is added or removed, carrying just that child; nothing is
  left in progress.
\<close>

theorem FlippedJoin_pushChild_transitions:
  fixes p :: "('s, FlippedJoin) ref"
  assumes "pointer p" and "\<And>ch s. push (fj_output (rd p s0)) ch me s = (Inr (emit ch), s)"
    and "change = AddChange child \<or> change = RemoveChange child"
    and "BuildJoinConstraint (Row child) (fj_childKey (rd p s0)) (fj_parentKey (rd p s0)) = Some c"
    and "\<And>s. fetchParent (key_request c) s = (Inr ns, s)"
    and "\<forall>n\<in>set ns. \<exists>c. BuildJoinConstraint (Row n) (fj_parentKey (rd p s0)) (fj_childKey (rd p s0)) = Some c \<and>
      (\<forall>s. fetchChild (key_request c) s = (Inr kids, s))"
    and "\<forall>m\<in>set kids. CompareRows (fj_childSchema (rd p s0)) (Row m) (Row child) = Inr (d m)"
  shows "\<exists>fj'. same_wiring fj' (rd p s0) \<and> fj_change fj' = None \<and>
    FlippedJoin_pushChild p me fetchParent fetchChild push change s0 =
      (Inr (concat (map (\<lambda>n. emit (flipped_sends me (rd p s0) change (\<exists>m\<in>set kids. d m \<noteq> 0) n)) ns)), wr p fj' s0)"
proof -
  let ?fj = "rd p s0"
  let ?j = "?fj\<lparr>fj_change := Some change, fj_position := None\<rparr>"
  let ?s = "wr p ?j s0"
  have rd: "rd p ?s = ?j" by (rule pointer.rd_wr [OF assms(1)])
  have node: "change_node change = child" using assms(3) by auto
  have "same_wiring (rd p ?s) ?fj" by (simp add: rd same_wiring_def)
  then obtain fj' where fj': "same_wiring fj' ?fj" "flipped_push_loop p me fetchChild push change False ns ?s =
      (Inr (concat (map (\<lambda>n. emit (flipped_sends me ?fj change (\<exists>m\<in>set kids. d m \<noteq> 0) n)) ns)), wr p fj' ?s)"
    using flipped_push_loop_run [where push = push and emit = emit and me = me and fj = ?fj and ns = ns and
        kids = kids and fetchChild = fetchChild and d = d and change = change and s = ?s and ex = False,
        OF assms(1,2,6)] assms(7) node by auto
  have wired: "same_wiring (fj'\<lparr>fj_change := None\<rparr>) ?fj" using fj'(1) by (simp add: same_wiring_def)
  have "FlippedJoin_pushChild p me fetchParent fetchChild push change s0 =
      FlippedJoin_pushChildChange p me fetchParent fetchChild push change False s0"
    using assms(3) by auto
  also have "... = (Inr (concat (map (\<lambda>n. emit (flipped_sends me ?fj change (\<exists>m\<in>set kids. d m \<noteq> 0) n)) ns)),
      wr p (fj'\<lparr>fj_change := None\<rparr>) s0)"
    using fj'(2) assms(4,5) node
    by (simp add: FlippedJoin_pushChildChange_def rd pointer.rd_wr [OF assms(1)] pointer.wr_wr [OF assms(1)])
  finally show ?thesis using wired by (intro exI [of _ "fj'\<lparr>fj_change := None\<rparr>"]) simp
qed

theorem FlippedJoin_pushChild_transitions_witness:
  "fst (FlippedJoin_pushChild self 3 (\<lambda>req s. (Inr [leaf (item 2)], s)) (\<lambda>req s. (Inr [leaf (item 2)], s))
     (\<lambda>out ch pusher s. (Inr [ch], s)) (AddChange (leaf (item 2))) one_flipped) =
   Inr [AddChange (flipped_node one_flipped (leaf (item 2)) (ThNodes [leaf (item 2)]))]"
  using FlippedJoin_pushChild_transitions [of self "\<lambda>out ch pusher s. (Inr [ch], s)" one_flipped 3 "\<lambda>ch. [ch]"
      "AddChange (leaf (item 2))" "leaf (item 2)" "[(''id'', num 2)]" "\<lambda>req s. (Inr [leaf (item 2)], s)"
      "[leaf (item 2)]" "\<lambda>req s. (Inr [leaf (item 2)], s)" "[leaf (item 2)]" "\<lambda>_. 0", OF self.pointer_axioms]
  by (auto simp: one_flipped_def BuildJoinConstraint_def flipped_sends_def)

end
