(* ===== verification/Streamer.thy ===== *)
theory Streamer
  imports Source
begin

text \<open>
  \<open>engine/streamer.go\<close> and the output of a pipeline in \<open>engine/engine.go\<close>
  (\<open>pipelineOutput\<close>, \<open>materializeChange\<close>, \<open>materializeNode\<close>): nested changes become one flat
  \<open>RowChange\<close> per row.

  \<open>force\<close> evaluates a relationship.  \<open>streamNodes\<close> recurses along the schema and needs no bound;
  \<open>materializeNode\<close> recurses along whatever the thunks yield and takes a bound on that depth.
  The order of the rows of different relationships is that of the association list; Go's map
  iteration picks any.
\<close>

datatype RowChangeType = RowChangeAdd | RowChangeRemove | RowChangeEdit

record RowChange =
  rc_type :: RowChangeType
  rc_queryID :: string
  rc_table :: string
  rc_key :: "(string \<times> val) list"
  rc_row :: "row option"

record accEntry =
  acc_queryID :: string
  acc_schema :: SourceSchema
  acc_changes :: "Change list"

record Streamer =
  accumulated :: "accEntry list"

definition NewStreamer :: Streamer where
  "NewStreamer = \<lparr>accumulated = []\<rparr>"

definition Accumulate :: "string \<Rightarrow> SourceSchema \<Rightarrow> Change list \<Rightarrow> Streamer \<Rightarrow> Streamer" where
  "Accumulate queryID schema changes st =
     st\<lparr>accumulated := accumulated st @ [\<lparr>acc_queryID = queryID, acc_schema = schema, acc_changes = changes\<rparr>]\<rparr>"

definition row_key :: "SourceSchema \<Rightarrow> row \<Rightarrow> (string \<times> val) list" where
  "row_key schema r = map (\<lambda>pk. (pk, col r pk)) (remdups (PrimaryKey schema))"

definition row_change :: "string \<Rightarrow> SourceSchema \<Rightarrow> RowChangeType \<Rightarrow> row \<Rightarrow> RowChange" where
  "row_change queryID schema ty r =
     \<lparr>rc_type = ty, rc_queryID = queryID, rc_table = TableName schema, rc_key = row_key schema r,
      rc_row = (if ty = RowChangeRemove then None else Some r)\<rparr>"

lemma map_of_size:
  "map_of rels name = Some sch \<Longrightarrow> size sch < Suc (size_list (size_prod (\<lambda>_. 0) size) rels)"
  by (induction rels) (auto split: if_splits)

function streamNodes ::
  "'s force \<Rightarrow> string \<Rightarrow> SourceSchema \<Rightarrow> RowChangeType \<Rightarrow> Node \<Rightarrow> (panic, 's, RowChange list) exec" where
  "streamNodes force queryID schema ty node =
     (if System schema = ''permissions'' then retM []
      else bindM (collectM (\<lambda>(name, t).
             case map_of (SchemaRelationships schema) name of
               None \<Rightarrow> retM []
             | Some childSchema \<Rightarrow>
                 bindM (force t) (\<lambda>children.
                   collectM (\<lambda>child. streamNodes force queryID childSchema ty child) children))
             (Relationships node)) (\<lambda>rest.
           retM (row_change queryID schema ty (Row node) # rest)))"
  by pat_completeness auto
termination
proof (relation "measure (\<lambda>(f, q, schema, t, n). size schema)", goal_cases)
  case (2 force queryID schema ty node x name t childSchema children child)
  then show ?case using map_of_size [of "SchemaRelationships schema" name childSchema] by (cases schema) simp
qed simp

declare streamNodes.simps [simp del]

fun streamChange ::
  "'s force \<Rightarrow> string \<Rightarrow> SourceSchema \<Rightarrow> Change \<Rightarrow> (panic, 's, RowChange list) exec" where
  "streamChange force queryID schema (AddChange n) =
     (if System schema = ''permissions'' then retM [] else streamNodes force queryID schema RowChangeAdd n)"
| "streamChange force queryID schema (RemoveChange n) =
     (if System schema = ''permissions'' then retM [] else streamNodes force queryID schema RowChangeRemove n)"
| "streamChange force queryID schema (EditChange n old) =
     (if System schema = ''permissions'' then retM [] else retM [row_change queryID schema RowChangeEdit (Row n)])"
| "streamChange force queryID schema (ChildChange n name child) =
     (if System schema = ''permissions'' then retM []
      else case map_of (SchemaRelationships schema) name of
        None \<Rightarrow> retM []
      | Some childSchema \<Rightarrow> streamChange force queryID childSchema child)"

definition streamChanges ::
  "'s force \<Rightarrow> string \<Rightarrow> SourceSchema \<Rightarrow> Change list \<Rightarrow> (panic, 's, RowChange list) exec" where
  "streamChanges force queryID schema changes = collectM (streamChange force queryID schema) changes"

text \<open>The drain: a panic in it leaves the entries where they are.\<close>

definition Stream :: "('s, Streamer) ref \<Rightarrow> 's force \<Rightarrow> (panic, 's, RowChange list) exec" where
  "Stream p force =
     bindM (getM (rd p)) (\<lambda>st.
     bindM (collectM (\<lambda>e. streamChanges force (acc_queryID e) (acc_schema e) (acc_changes e)) (accumulated st)) (\<lambda>result.
     thenM (updM p (\<lambda>st. st\<lparr>accumulated := []\<rparr>)) (retM result)))"

section \<open>The output of a pipeline\<close>

fun materializeNode :: "nat \<Rightarrow> 's force \<Rightarrow> Node \<Rightarrow> (panic, 's, Node) exec" where
  "materializeNode 0 force node = failM OutOfFuel"
| "materializeNode (Suc k) force node =
     bindM (mapM (\<lambda>(name, t).
         bindM (force t) (\<lambda>children.
         bindM (mapM (materializeNode k force) children) (\<lambda>ms. retM (name, ThNodes ms)))) (Relationships node)) (\<lambda>rels.
     retM (Node (Row node) rels))"

fun materializeChange :: "nat \<Rightarrow> 's force \<Rightarrow> Change \<Rightarrow> (panic, 's, Change) exec" where
  "materializeChange k force (AddChange n) = bindM (materializeNode k force n) (\<lambda>m. retM (AddChange m))"
| "materializeChange k force (RemoveChange n) = bindM (materializeNode k force n) (\<lambda>m. retM (RemoveChange m))"
| "materializeChange k force (ChildChange n name child) =
     bindM (materializeNode k force n) (\<lambda>m. retM (ChildChange m name child))"
| "materializeChange k force (EditChange n old) =
     bindM (materializeNode k force n) (\<lambda>m. bindM (materializeNode k force old) (\<lambda>o'. retM (EditChange m o')))"

definition pipelineOutput_Push ::
  "('s, Streamer) ref \<Rightarrow> nat \<Rightarrow> 's force \<Rightarrow> string \<Rightarrow> SourceSchema \<Rightarrow> Change \<Rightarrow> (panic, 's, Change list) exec"
where
  "pipelineOutput_Push p k force queryID schema change =
     bindM (materializeChange k force change) (\<lambda>m.
     thenM (updM p (Accumulate queryID schema [m])) (retM []))"

end
