(* ===== verification/World.thy ===== *)
theory World
  imports Take Skip Exists FlippedJoin Streamer
begin

text \<open>
  The object graph of a running engine.  Every Go object has an address (\<open>opid\<close>); the heap keeps
  the objects of each type in a map of its own, so that the pointers to different objects are
  independent.  \<open>kind\<close> is the dynamic type of an address, with the inputs wired to it.

  \<open>nested n\<close> are the dynamic method calls \<open>Fetch\<close>, \<open>Push\<close>, \<open>Filter\<close>, \<open>BeginFilter\<close>, \<open>EndFilter\<close> and
  the evaluation of a relationship closure, with at most \<open>n\<close> nested calls: an operator's method runs
  with \<open>nested n\<close> as the calls it makes.  A run that needs more is \<open>OutOfFuel\<close>.
\<close>

datatype oper = OpNone
  | OpSource opid nat
  | OpSkip opid
  | OpFilterStart opid
  | OpFilter opid
  | OpExists opid
  | OpFanOut opid
  | OpFanIn "opid list"
  | OpFilterEnd opid opid
  | OpTake opid
  | OpJoin opid opid
  | OpFlipped opid opid
  | OpUnionFanOut opid
  | OpUnionFanIn "opid list"

record world =
  kind :: "opid \<Rightarrow> oper"
  sources :: "opid \<Rightarrow> MemorySource"
  inputs :: "opid \<Rightarrow> SourceInput"
  skips :: "opid \<Rightarrow> Skip"
  fstarts :: "opid \<Rightarrow> FilterStart"
  filters :: "opid \<Rightarrow> Filter"
  existss :: "opid \<Rightarrow> Exists"
  fanouts :: "opid \<Rightarrow> FanOut"
  fanins :: "opid \<Rightarrow> FanIn"
  fends :: "opid \<Rightarrow> FilterEnd"
  takes :: "opid \<Rightarrow> Take"
  joins :: "opid \<Rightarrow> Join"
  flippeds :: "opid \<Rightarrow> FlippedJoin"
  ufanouts :: "opid \<Rightarrow> UnionFanOut"
  ufanins :: "opid \<Rightarrow> UnionFanIn"
  streamer :: Streamer
  next_op :: opid

text \<open>The heap without objects; what an address of another type holds is never read.\<close>

definition empty_world :: world where
  "empty_world = \<lparr>kind = (\<lambda>_. OpNone), sources = (\<lambda>_. NewMemorySourceWithConverter [] [] [] None),
     inputs = (\<lambda>_. undefined), skips = (\<lambda>_. undefined), fstarts = (\<lambda>_. undefined), filters = (\<lambda>_. undefined),
     existss = (\<lambda>_. undefined), fanouts = (\<lambda>_. undefined), fanins = (\<lambda>_. undefined), fends = (\<lambda>_. undefined),
     takes = (\<lambda>_. undefined), joins = (\<lambda>_. undefined), flippeds = (\<lambda>_. undefined),
     ufanouts = (\<lambda>_. undefined), ufanins = (\<lambda>_. undefined), streamer = NewStreamer, next_op = 0\<rparr>"

section \<open>Pointers into the heap\<close>

definition source_at :: "opid \<Rightarrow> (world, MemorySource) ref" where
  "source_at t = \<lparr>rd = (\<lambda>w. sources w t), wr = (\<lambda>x w. w\<lparr>sources := (sources w)(t := x)\<rparr>)\<rparr>"

definition skip_at :: "opid \<Rightarrow> (world, Skip) ref" where
  "skip_at i = \<lparr>rd = (\<lambda>w. skips w i), wr = (\<lambda>x w. w\<lparr>skips := (skips w)(i := x)\<rparr>)\<rparr>"

definition fstart_at :: "opid \<Rightarrow> (world, FilterStart) ref" where
  "fstart_at i = \<lparr>rd = (\<lambda>w. fstarts w i), wr = (\<lambda>x w. w\<lparr>fstarts := (fstarts w)(i := x)\<rparr>)\<rparr>"

definition filter_at :: "opid \<Rightarrow> (world, Filter) ref" where
  "filter_at i = \<lparr>rd = (\<lambda>w. filters w i), wr = (\<lambda>x w. w\<lparr>filters := (filters w)(i := x)\<rparr>)\<rparr>"

definition exists_at :: "opid \<Rightarrow> (world, Exists) ref" where
  "exists_at i = \<lparr>rd = (\<lambda>w. existss w i), wr = (\<lambda>x w. w\<lparr>existss := (existss w)(i := x)\<rparr>)\<rparr>"

definition fanout_at :: "opid \<Rightarrow> (world, FanOut) ref" where
  "fanout_at i = \<lparr>rd = (\<lambda>w. fanouts w i), wr = (\<lambda>x w. w\<lparr>fanouts := (fanouts w)(i := x)\<rparr>)\<rparr>"

definition fanin_at :: "opid \<Rightarrow> (world, FanIn) ref" where
  "fanin_at i = \<lparr>rd = (\<lambda>w. fanins w i), wr = (\<lambda>x w. w\<lparr>fanins := (fanins w)(i := x)\<rparr>)\<rparr>"

definition fend_at :: "opid \<Rightarrow> (world, FilterEnd) ref" where
  "fend_at i = \<lparr>rd = (\<lambda>w. fends w i), wr = (\<lambda>x w. w\<lparr>fends := (fends w)(i := x)\<rparr>)\<rparr>"

definition take_at :: "opid \<Rightarrow> (world, Take) ref" where
  "take_at i = \<lparr>rd = (\<lambda>w. takes w i), wr = (\<lambda>x w. w\<lparr>takes := (takes w)(i := x)\<rparr>)\<rparr>"

definition join_at :: "opid \<Rightarrow> (world, Join) ref" where
  "join_at i = \<lparr>rd = (\<lambda>w. joins w i), wr = (\<lambda>x w. w\<lparr>joins := (joins w)(i := x)\<rparr>)\<rparr>"

definition flipped_at :: "opid \<Rightarrow> (world, FlippedJoin) ref" where
  "flipped_at i = \<lparr>rd = (\<lambda>w. flippeds w i), wr = (\<lambda>x w. w\<lparr>flippeds := (flippeds w)(i := x)\<rparr>)\<rparr>"

definition ufanout_at :: "opid \<Rightarrow> (world, UnionFanOut) ref" where
  "ufanout_at i = \<lparr>rd = (\<lambda>w. ufanouts w i), wr = (\<lambda>x w. w\<lparr>ufanouts := (ufanouts w)(i := x)\<rparr>)\<rparr>"

definition ufanin_at :: "opid \<Rightarrow> (world, UnionFanIn) ref" where
  "ufanin_at i = \<lparr>rd = (\<lambda>w. ufanins w i), wr = (\<lambda>x w. w\<lparr>ufanins := (ufanins w)(i := x)\<rparr>)\<rparr>"

definition streamer_at :: "(world, Streamer) ref" where
  "streamer_at = \<lparr>rd = streamer, wr = (\<lambda>x w. w\<lparr>streamer := x\<rparr>)\<rparr>"

lemmas heap_defs = source_at_def skip_at_def fstart_at_def filter_at_def exists_at_def fanout_at_def
  fanin_at_def fend_at_def take_at_def join_at_def flipped_at_def ufanout_at_def ufanin_at_def streamer_at_def

interpretation source_at: pointer "source_at t" for t
  by unfold_locales (simp_all add: heap_defs)

interpretation exists_at: pointer "exists_at i" for i
  by unfold_locales (simp_all add: heap_defs)

interpretation take_at: pointer "take_at i" for i
  by unfold_locales (simp_all add: heap_defs)

interpretation join_at: pointer "join_at i" for i
  by unfold_locales (simp_all add: heap_defs)

interpretation flipped_at: pointer "flipped_at i" for i
  by unfold_locales (simp_all add: heap_defs)

interpretation skip_at: pointer "skip_at i" for i
  by unfold_locales (simp_all add: heap_defs)

interpretation streamer_at: pointer streamer_at
  by unfold_locales (simp_all add: heap_defs)

section \<open>Dynamic calls\<close>

record calls =
  c_fetch :: "opid \<Rightarrow> world fetch"
  c_push :: "world push"
  c_filter :: "world filt"
  c_begin :: "world bracket"
  c_end :: "world bracket"
  c_force :: "world force"

definition step_fetch :: "calls \<Rightarrow> opid \<Rightarrow> world fetch" where
  "step_fetch c i req =
     bindM (getM (\<lambda>w. kind w i)) (\<lambda>k.
       case k of
         OpSource t conn \<Rightarrow> askM (source_at t) (\<lambda>ms. SourceInput_Fetch ms conn req)
       | OpSkip input \<Rightarrow> Skip_Fetch (skip_at i) (c_fetch c input) req
       | OpFilterStart input \<Rightarrow>
           FilterStart_Fetch (fstart_at i) (c_fetch c input) (c_filter c) (c_begin c) (c_end c) req
       | OpFilterEnd start input \<Rightarrow> c_fetch c start req
       | OpTake input \<Rightarrow> Take_Fetch (take_at i) (c_fetch c input) req
       | OpJoin parent child \<Rightarrow> Join_Fetch (join_at i) i (c_fetch c parent) req
       | OpFlipped parent child \<Rightarrow> FlippedJoin_Fetch (flipped_at i) (c_fetch c parent) (c_fetch c child) req
       | OpUnionFanOut input \<Rightarrow> c_fetch c input req
       | OpUnionFanIn ins \<Rightarrow> UnionFanIn_Fetch (ufanin_at i) (c_fetch c) req
       | _ \<Rightarrow> failM NilDereference)"

definition step_operator_push :: "calls \<Rightarrow> opid \<Rightarrow> Change \<Rightarrow> opid \<Rightarrow> (panic, world, Change list) exec" where
  "step_operator_push c i change pusher =
     bindM (getM (\<lambda>w. kind w i)) (\<lambda>k.
       case k of
         OpSkip input \<Rightarrow> Skip_Push (skip_at i) i (c_push c) change
       | OpFilterStart input \<Rightarrow> FilterStart_Push (fstart_at i) i (c_push c) change
       | OpFilter input \<Rightarrow> Filter_Push (filter_at i) i (c_push c) change
       | OpExists input \<Rightarrow> Exists_Push (exists_at i) i (c_force c) (c_push c) change
       | OpFanOut input \<Rightarrow> FanOut_Push (fanout_at i) i (c_push c)
           (\<lambda>fi. FanOutDonePushingToAllBranches (fanin_at fi) fi (c_push c)) change
       | OpFanIn ins \<Rightarrow> FanIn_Push (fanin_at i) change
       | OpFilterEnd start input \<Rightarrow> FilterEnd_Push (fend_at i) i (c_push c) change
       | OpTake input \<Rightarrow> Take_Push (take_at i) i (c_fetch c input) (c_push c) change
       | OpUnionFanOut input \<Rightarrow> UnionFanOut_Push (ufanout_at i) i (c_push c)
           (\<lambda>fi. FanOutStartedPushing (ufanin_at fi)) (\<lambda>fi. FanOutDonePushing (ufanin_at fi) fi (c_push c)) change
       | OpUnionFanIn ins \<Rightarrow> UnionFanIn_Push (ufanin_at i) i (c_fetch c) (c_push c) change pusher
       | _ \<Rightarrow> failM NilDereference)"

fun step_push :: "nat \<Rightarrow> calls \<Rightarrow> world push" where
  "step_push n c (ToOperator i) change pusher = step_operator_push c i change pusher"
| "step_push n c (ToJoinParent i) change pusher = Join_pushParent (join_at i) i (c_push c) change"
| "step_push n c (ToJoinChild i) change pusher =
     bindM (getM (\<lambda>w. kind w i)) (\<lambda>k. case k of
       OpJoin parent child \<Rightarrow> Join_pushChild (join_at i) i (c_fetch c parent) (c_push c) change
     | _ \<Rightarrow> failM NilDereference)"
| "step_push n c (ToFlippedParent i) change pusher =
     bindM (getM (\<lambda>w. kind w i)) (\<lambda>k. case k of
       OpFlipped parent child \<Rightarrow> FlippedJoin_pushParent (flipped_at i) i (c_fetch c child) (c_push c) change
     | _ \<Rightarrow> failM NilDereference)"
| "step_push n c (ToFlippedChild i) change pusher =
     bindM (getM (\<lambda>w. kind w i)) (\<lambda>k. case k of
       OpFlipped parent child \<Rightarrow>
         FlippedJoin_pushChild (flipped_at i) i (c_fetch c parent) (c_fetch c child) (c_push c) change
     | _ \<Rightarrow> failM NilDereference)"
| "step_push n c (ToPipeline queryID schema) change pusher =
     pipelineOutput_Push streamer_at n (c_force c) queryID schema change"
| "step_push n c ThrowOutput change pusher = failM (Panic ''Output not set'')"

fun step_filter :: "calls \<Rightarrow> world filt" where
  "step_filter c (ToOperator i) node =
     bindM (getM (\<lambda>w. kind w i)) (\<lambda>k. case k of
       OpFilter input \<Rightarrow> Filter_Filter (filter_at i) (c_filter c) node
     | OpExists input \<Rightarrow> Exists_Filter (exists_at i) (c_force c) (c_filter c) node
     | OpFanOut input \<Rightarrow> FanOut_Filter (fanout_at i) (c_filter c) node
     | OpFanIn ins \<Rightarrow> FanIn_Filter (fanin_at i) (c_filter c) node
     | OpFilterEnd start input \<Rightarrow> FilterEnd_Filter node
     | _ \<Rightarrow> failM NilDereference)"
| "step_filter c ThrowOutput node = failM (Panic ''Output not set'')"
| "step_filter c _ node = failM NilDereference"

text \<open>\<open>Filter\<close> and \<open>FanIn\<close> pass both brackets on to their output; \<open>FilterEnd\<close> does nothing.\<close>

fun step_begin :: "calls \<Rightarrow> world bracket" where
  "step_begin c (ToOperator i) =
     bindM (getM (\<lambda>w. kind w i)) (\<lambda>k. case k of
       OpFilter input \<Rightarrow> bindM (getM (\<lambda>w. filter_output (filters w i))) (c_begin c)
     | OpExists input \<Rightarrow> Exists_Begin (exists_at i) (c_begin c)
     | OpFanOut input \<Rightarrow> FanOut_Begin (fanout_at i) (c_begin c)
     | OpFanIn ins \<Rightarrow> bindM (getM (\<lambda>w. fanin_output (fanins w i))) (c_begin c)
     | OpFilterEnd start input \<Rightarrow> retM ()
     | _ \<Rightarrow> failM NilDereference)"
| "step_begin c ThrowOutput = retM ()"
| "step_begin c _ = failM NilDereference"

fun step_end :: "calls \<Rightarrow> world bracket" where
  "step_end c (ToOperator i) =
     bindM (getM (\<lambda>w. kind w i)) (\<lambda>k. case k of
       OpFilter input \<Rightarrow> bindM (getM (\<lambda>w. filter_output (filters w i))) (c_end c)
     | OpExists input \<Rightarrow> Exists_End (exists_at i) (c_end c)
     | OpFanOut input \<Rightarrow> FanOut_End (fanout_at i) (c_end c)
     | OpFanIn ins \<Rightarrow> bindM (getM (\<lambda>w. fanin_output (fanins w i))) (c_end c)
     | OpFilterEnd start input \<Rightarrow> retM ()
     | _ \<Rightarrow> failM NilDereference)"
| "step_end c ThrowOutput = retM ()"
| "step_end c _ = failM NilDereference"

text \<open>Calling a relationship closure, by the place that created it.\<close>

fun step_force :: "calls \<Rightarrow> world force" where
  "step_force c ThNil = failM NilDereference"
| "step_force c (ThNodes ns) = retM ns"
| "step_force c (ThJoinChild i row) =
     bindM (getM (\<lambda>w. kind w i)) (\<lambda>k. case k of
       OpJoin parent child \<Rightarrow> join_children (join_at i) (c_fetch c child) row
     | _ \<Rightarrow> failM NilDereference)"
| "step_force c (ThFlippedChild i row) =
     bindM (getM (\<lambda>w. kind w i)) (\<lambda>k. case k of
       OpFlipped parent child \<Rightarrow> flipped_children (flipped_at i) (c_fetch c child) row
     | _ \<Rightarrow> failM NilDereference)"
| "step_force c (ThOverlay t change schema) =
     bindM (c_force c t) (\<lambda>nodes. liftM (GenerateWithOverlay nodes change schema))"

definition no_calls :: calls where
  "no_calls = \<lparr>c_fetch = (\<lambda>_ _. failM OutOfFuel), c_push = (\<lambda>_ _ _. failM OutOfFuel),
     c_filter = (\<lambda>_ _. failM OutOfFuel), c_begin = (\<lambda>_. failM OutOfFuel), c_end = (\<lambda>_. failM OutOfFuel),
     c_force = (\<lambda>_. failM OutOfFuel)\<rparr>"

primrec nested :: "nat \<Rightarrow> calls" where
  "nested 0 = no_calls"
| "nested (Suc n) = \<lparr>c_fetch = step_fetch (nested n), c_push = step_push n (nested n), c_filter = step_filter (nested n),
     c_begin = step_begin (nested n), c_end = step_end (nested n), c_force = step_force (nested n)\<rparr>"

end
