(* ===== verification/Frames.thy ===== *)
theory Frames
  imports World
begin

text \<open>
  Frames: which part of the heap a computation leaves alone.  \<open>keeps f m\<close> says that \<open>m\<close> does not
  change what the reader \<open>f\<close> sees, whatever its outcome.  The rules follow the combinators, then the
  operators, and at last the dynamic calls; so the locales of the sources and of the inputs can be
  interpreted on the heap.
\<close>

definition keeps :: "('s \<Rightarrow> 'b) \<Rightarrow> ('e, 's, 'a) exec \<Rightarrow> bool" where
  "keeps f m \<longleftrightarrow> (\<forall>s. f (snd (m s)) = f s)"

named_theorems keep "rules for keeps"

lemma keepsD: "keeps f m \<Longrightarrow> m s = (r, s') \<Longrightarrow> f s' = f s"
  unfolding keeps_def by (metis snd_conv)

lemma keepsI: "(\<And>s r s'. m s = (r, s') \<Longrightarrow> f s' = f s) \<Longrightarrow> keeps f m"
  unfolding keeps_def by (metis prod.collapse)

section \<open>Combinators\<close>

lemma keeps_bindM [keep]:
  assumes "keeps f m" "\<And>x. keeps f (g x)"
  shows "keeps f (bindM m g)"
proof (rule keepsI)
  fix s r t assume "bindM m g s = (r, t)"
  then consider e where "m s = (Inl e, t)" | x s' where "m s = (Inr x, s')" "g x s' = (r, t)"
    by (auto simp: bindM_split)
  then show "f t = f s" by cases (use assms keepsD in metis)+
qed

lemma keeps_pure [keep]:
  "keeps f (retM x)" "keeps f (failM e)" "keeps f (liftM r)" "keeps f (getM g)" "keeps f (askM p h)"
  by (simp_all add: keeps_def)

lemma keeps_updM: "(\<And>x s. f (wr p x s) = f s) \<Longrightarrow> keeps f (updM p g)"
  by (simp add: keeps_def)

lemma keeps_stepM: "(\<And>x s. f (wr p x s) = f s) \<Longrightarrow> keeps f (stepM p g)"
  by (simp add: keeps_def stepM_def split: sum.splits)

lemma keeps_deferM: "(\<And>s. f (g s) = f s) \<Longrightarrow> keeps f m \<Longrightarrow> keeps f (deferM g m)"
  by (simp add: keeps_def deferM_def split: prod.splits) (metis snd_conv)

lemma keeps_finallyM [keep]: "keeps f d \<Longrightarrow> keeps f m \<Longrightarrow> keeps f (finallyM d m)"
  unfolding keeps_def finallyM_def by (auto split: prod.splits sum.splits) (metis snd_conv)+

lemma keeps_collectM [keep]: "(\<And>x. keeps f (g x)) \<Longrightarrow> keeps f (collectM g xs)"
  by (induction xs) (auto intro!: keep)

lemma keeps_filterM [keep]: "(\<And>x. keeps f (g x)) \<Longrightarrow> keeps f (filterM g xs)"
  by (induction xs) (auto intro!: keep)

lemma keeps_mapM [keep]: "(\<And>x. keeps f (g x)) \<Longrightarrow> keeps f (mapM g xs)"
  by (induction xs) (auto intro!: keep)

lemma keeps_forM [keep]: "(\<And>x. keeps f (g x)) \<Longrightarrow> keeps f (forM g xs)"
  by (induction xs) (auto intro!: keep)

lemma keeps_if [keep]: "(b \<Longrightarrow> keeps f m) \<Longrightarrow> (\<not> b \<Longrightarrow> keeps f n) \<Longrightarrow> keeps f (if b then m else n)"
  by simp

lemma keeps_anyM [keep]: "(\<And>x. keeps f (g x)) \<Longrightarrow> keeps f (anyM g xs)"
  by (induction xs) (auto intro!: keep)

lemma keeps_Let [keep]: "keeps f (g x) \<Longrightarrow> keeps f (Let x g)"
  by simp

lemma keeps_option [keep]:
  "(x = None \<Longrightarrow> keeps f m) \<Longrightarrow> (\<And>y. x = Some y \<Longrightarrow> keeps f (g y)) \<Longrightarrow> keeps f (case x of None \<Rightarrow> m | Some y \<Rightarrow> g y)"
  by (cases x) auto

lemma keeps_prod [keep]: "(\<And>a b. keeps f (g a b)) \<Longrightarrow> keeps f (case x of (a, b) \<Rightarrow> g a b)"
  by (cases x) auto

lemma keeps_bool [keep]: "keeps f m \<Longrightarrow> keeps f n \<Longrightarrow> keeps f (case x of True \<Rightarrow> m | False \<Rightarrow> n)"
  by (cases x) auto

lemma keeps_Change [keep]:
  "(\<And>n. keeps f (a n)) \<Longrightarrow> (\<And>n. keeps f (b n)) \<Longrightarrow> (\<And>n old. keeps f (c n old)) \<Longrightarrow> (\<And>n name ch. keeps f (d n name ch)) \<Longrightarrow>
   keeps f (case x of AddChange n \<Rightarrow> a n | RemoveChange n \<Rightarrow> b n | EditChange n old \<Rightarrow> c n old | ChildChange n name ch \<Rightarrow> d n name ch)"
  by (cases x) auto

lemma keeps_thunk [keep]:
  "keeps f a \<Longrightarrow> (\<And>ns. keeps f (b ns)) \<Longrightarrow> (\<And>i r. keeps f (c i r)) \<Longrightarrow> (\<And>i r. keeps f (d i r)) \<Longrightarrow> (\<And>t ch so. keeps f (e t ch so)) \<Longrightarrow>
   keeps f (case x of ThNil \<Rightarrow> a | ThNodes ns \<Rightarrow> b ns | ThJoinChild i r \<Rightarrow> c i r | ThFlippedChild i r \<Rightarrow> d i r | ThOverlay t ch so \<Rightarrow> e t ch so)"
  by (cases x) auto

lemma keeps_oper [keep]:
  assumes "keeps f a0" "\<And>i j. keeps f (a1 i j)" "\<And>i. keeps f (a2 i)" "\<And>i. keeps f (a3 i)" "\<And>i. keeps f (a4 i)" "\<And>i. keeps f (a5 i)"
    "\<And>i. keeps f (a6 i)" "\<And>is. keeps f (a7 is)" "\<And>i j. keeps f (a8 i j)" "\<And>i. keeps f (a9 i)" "\<And>i j. keeps f (a10 i j)"
    "\<And>i j. keeps f (a11 i j)" "\<And>i. keeps f (a12 i)" "\<And>is. keeps f (a13 is)"
  shows "keeps f (case k of OpNone \<Rightarrow> a0 | OpSource i j \<Rightarrow> a1 i j | OpSkip i \<Rightarrow> a2 i | OpFilterStart i \<Rightarrow> a3 i | OpFilter i \<Rightarrow> a4 i
    | OpExists i \<Rightarrow> a5 i | OpFanOut i \<Rightarrow> a6 i | OpFanIn is \<Rightarrow> a7 is | OpFilterEnd i j \<Rightarrow> a8 i j | OpTake i \<Rightarrow> a9 i
    | OpJoin i j \<Rightarrow> a10 i j | OpFlipped i j \<Rightarrow> a11 i j | OpUnionFanOut i \<Rightarrow> a12 i | OpUnionFanIn is \<Rightarrow> a13 is)"
  using assms by (cases k) auto

section \<open>Operators\<close>

text \<open>
  An operator keeps whatever its own pointer does not write, if the calls it makes keep it.
\<close>

lemma keeps_splits [keep]:
  assumes "\<And>out ch me. keeps f (push out ch me)"
  shows "keeps f (MaybeSplitAndPushEditChange push n old p out me)" "keeps f (FilterPush push ch out me q)"
    "keeps f (PushAccumulatedChanges push acc out me ty merge fill)"
  unfolding MaybeSplitAndPushEditChange_def FilterPush_def PushAccumulatedChanges_def
  by (intro keep assms)+

lemma keeps_skip:
  assumes "\<And>req. keeps f (fetch req)" "\<And>out ch me. keeps f (push out ch me)"
  shows "keeps f (Skip_Fetch p fetch req)" "keeps f (Skip_Push p me push ch)"
  unfolding Skip_Fetch_def Skip_Push_def by (intro keep assms)+

lemma keeps_chain:
  assumes "\<And>req. keeps f (fetch req)" "\<And>out ch me. keeps f (push out ch me)" "\<And>out n. keeps f (filt out n)"
    "\<And>out. keeps f (beginF out)" "\<And>out. keeps f (endF out)"
  shows "keeps f (FilterStart_Fetch p1 fetch filt beginF endF req)" "keeps f (FilterStart_Push p1 me push ch)"
    "keeps f (Filter_Filter p2 filt n)" "keeps f (Filter_Push p2 me push ch)"
    "keeps f (FilterEnd_Filter n)" "keeps f (FilterEnd_Push p3 me push ch)"
  unfolding FilterStart_Fetch_def FilterStart_Push_def Filter_Filter_def Filter_Push_def FilterEnd_Filter_def FilterEnd_Push_def
  by (intro keep assms)+

lemma keeps_fan:
  assumes "\<And>out ch me. keeps f (push out ch me)" "\<And>out n. keeps f (filt out n)" "\<And>out. keeps f (beginF out)" "\<And>out. keeps f (endF out)"
    "\<And>i ty. keeps f (done i ty)" "\<And>x s. f (wr p2 x s) = f s"
  shows "keeps f (FanOut_Begin p1 beginF)" "keeps f (FanOut_End p1 endF)" "keeps f (FanOut_Filter p1 filt n)"
    "keeps f (FanOut_Push p1 me push done ch)" "keeps f (FanIn_Filter p2 filt n)" "keeps f (FanIn_Push p2 ch)"
    "keeps f (FanOutDonePushingToAllBranches p2 me push ty)"
  unfolding FanOut_Begin_def FanOut_End_def FanOut_Filter_def FanOut_Push_def FanIn_Filter_def FanIn_Push_def
    FanOutDonePushingToAllBranches_def
  by (intro keep keeps_updM assms)+

lemma keeps_other_branches [keep]:
  "(\<And>i req. keeps f (fetchOf i req)) \<Longrightarrow> keeps f (other_branches fetchOf req pusher is b)"
  by (induction "is" arbitrary: b) (auto intro!: keep)

lemma keeps_union:
  assumes "\<And>i req. keeps f (fetchOf i req)" "\<And>out ch me. keeps f (push out ch me)" "\<And>i. keeps f (started i)"
    "\<And>i ty. keeps f (done i ty)" "\<And>x s. f (wr p2 x s) = f s"
  shows "keeps f (UnionFanOut_Push p1 me push started done ch)" "keeps f (UnionFanIn_Fetch p2 fetchOf req)"
    "keeps f (UnionFanIn_Push p2 me fetchOf push ch pusher)" "keeps f (FanOutStartedPushing p2)"
    "keeps f (FanOutDonePushing p2 me push ty)"
  unfolding UnionFanOut_Push_def UnionFanIn_Fetch_def UnionFanIn_Push_def pushInternalChange_def
    FanOutStartedPushing_def FanOutDonePushing_def
  by (intro keep keeps_updM keeps_stepM assms)+

lemma keeps_exists:
  assumes "\<And>t. keeps f (force t)" "\<And>out ch me. keeps f (push out ch me)" "\<And>out n. keeps f (filt out n)"
    "\<And>out. keeps f (beginF out)" "\<And>out. keeps f (endF out)" "\<And>x s. f (wr p x s) = f s"
  shows "keeps f (Exists_Begin p beginF)" "keeps f (Exists_End p endF)" "keeps f (Exists_Filter p force filt n)"
    "keeps f (Exists_Push p me force push ch)"
proof -
  have filter_push: "keeps f (pushWithFilter p me force push ch ex)" "keeps f (fetchSize p force n)" for ch ex n
    unfolding pushWithFilter_def fetchExists_def fetchSize_def by (intro keep assms)+
  have body: "keeps f (exists_push_body p me force push ch)" for ch
    by (cases ch) (auto intro!: keep filter_push assms)
  show "keeps f (Exists_Begin p beginF)" "keeps f (Exists_End p endF)" "keeps f (Exists_Filter p force filt n)"
    "keeps f (Exists_Push p me force push ch)"
    unfolding Exists_Begin_def Exists_End_def Exists_Filter_def Exists_Push_def fetchExists_def
    by (intro keep keeps_updM keeps_deferM filter_push body assms)+
qed

lemma keeps_take:
  assumes "\<And>req. keeps f (fetch req)" "\<And>out ch me. keeps f (push out ch me)" "\<And>x s. f (wr p x s) = f s"
  shows "keeps f (Take_Fetch p fetch req)" "keeps f (Take_Push p me fetch push ch)"
proof -
  have state: "keeps f (setTakeState p key sz b mb)" for key sz b mb
    unfolding setTakeState_def by (intro keep keeps_updM assms)
  have emit: "keeps f (take_emit p me push ch)" "keeps f (pushWithRowHiddenFromFetch p me push r ch)" for ch r
    unfolding take_emit_def pushWithRowHiddenFromFetch_def by (intro keep keeps_updM keeps_deferM assms)+
  have two: "keeps f m \<Longrightarrow> keeps f m' \<Longrightarrow> keeps f (both m m')" for m m'
    unfolding both_def by (intro keep)
  show "keeps f (Take_Fetch p fetch req)"
    unfolding Take_Fetch_def initialFetch_def by (intro keep state assms)
  have add: "keeps f (Take_PushAdd p me fetch push t key st c n)" for t key st c n
    unfolding Take_PushAdd_def by (intro keep state emit two assms)
  have rem: "keeps f (Take_PushRemove p me fetch push t key st c n)" for t key st c n
    unfolding Take_PushRemove_def by (intro keep state emit two assms)
  have edit: "keeps f (Take_PushEdit p me fetch push n old)" for n old
    unfolding Take_PushEdit_def Take_EditBound_def Take_EditOutside_def Take_EditInside_def replaceBoundAndForward_def
    by (intro keep state emit two assms)
  show "keeps f (Take_Push p me fetch push ch)"
    by (cases ch; simp only: Take_Push_def Change.case; intro keep state emit two add rem edit assms)
qed

lemma keeps_join:
  assumes "\<And>req. keeps f (fetch req)" "\<And>out ch me. keeps f (push out ch me)" "\<And>x s. f (wr p x s) = f s"
  shows "keeps f (Join_Fetch p me fetch req)" "keeps f (join_children p fetch r)" "keeps f (Join_pushParent p me push ch)"
    "keeps f (Join_pushChild p me fetch push ch)"
  unfolding Join_Fetch_def join_children_def Join_pushParent_def Join_pushChild_def Join_pushChildChange_def join_push_to_def
  by (intro keep keeps_updM keeps_deferM assms)+

lemma keeps_flipped:
  assumes "\<And>req. keeps f (fetch req)" "\<And>req. keeps f (fetch' req)" "\<And>out ch me. keeps f (push out ch me)" "\<And>x s. f (wr p x s) = f s"
  shows "keeps f (FlippedJoin_Fetch p fetch fetch' req)" "keeps f (flipped_children p fetch r)"
    "keeps f (FlippedJoin_pushParent p me fetch push ch)" "keeps f (FlippedJoin_pushChild p me fetch fetch' push ch)"
proof -
  have kids: "keeps f (flipped_children p fetch r)" "keeps f (flipped_children p fetch' r)" for r
    unfolding flipped_children_def by (intro keep assms)+
  have loop: "keeps f (flipped_push_loop p me fetch' push ch ex ns)" for ch ex ns
  proof (induction ns arbitrary: ex)
    case (Cons n ns)
    show ?case unfolding flipped_push_loop.simps by (intro keep keeps_updM kids assms Cons.IH)
  qed (simp add: keep)
  have child: "keeps f (FlippedJoin_pushChildChange p me fetch fetch' push ch ex)" for ch ex
    unfolding FlippedJoin_pushChildChange_def by (intro keep keeps_updM keeps_deferM loop assms)
  show "keeps f (flipped_children p fetch r)" by (rule kids)
  show "keeps f (FlippedJoin_Fetch p fetch fetch' req)"
    unfolding FlippedJoin_Fetch_def parents_of_def by (intro keep assms)
  show "keeps f (FlippedJoin_pushParent p me fetch push ch)"
    unfolding FlippedJoin_pushParent_def by (intro keep kids assms)
  show "keeps f (FlippedJoin_pushChild p me fetch fetch' push ch)"
    by (cases ch) (auto intro!: keep child)
qed

lemma keeps_materialize:
  assumes "\<And>t. keeps f (force t)"
  shows "keeps f (materializeNode k force n)" "keeps f (materializeChange k force ch)"
proof -
  show node: "keeps f (materializeNode k force n)" for n
  proof (induction k arbitrary: n)
    case (Suc k)
    show ?case by (auto intro!: keep assms Suc.IH)
  qed (simp add: keep)
  show "keeps f (materializeChange k force ch)"
    by (cases ch) (auto intro!: keep node)
qed

lemma keeps_pipelineOutput:
  assumes "\<And>t. keeps f (force t)" "\<And>x s. f (wr p x s) = f s"
  shows "keeps f (pipelineOutput_Push p k force q sch ch)"
  unfolding pipelineOutput_Push_def by (intro keep keeps_updM keeps_materialize assms)

section \<open>Dynamic calls\<close>

text \<open>
  A run of the pipelines writes the state of exists filters, fan-ins, limits, joins and the
  streamer, and nothing else of the heap: not the sources, not the wiring.
\<close>

definition unwritten :: "(world \<Rightarrow> 'b) \<Rightarrow> bool" where
  "unwritten f \<longleftrightarrow> (\<forall>i x w. f (wr (exists_at i) x w) = f w) \<and> (\<forall>i x w. f (wr (fanin_at i) x w) = f w) \<and>
     (\<forall>i x w. f (wr (ufanin_at i) x w) = f w) \<and> (\<forall>i x w. f (wr (take_at i) x w) = f w) \<and>
     (\<forall>i x w. f (wr (join_at i) x w) = f w) \<and> (\<forall>i x w. f (wr (flipped_at i) x w) = f w) \<and>
     (\<forall>x w. f (wr streamer_at x w) = f w)"

definition calls_keep :: "(world \<Rightarrow> 'b) \<Rightarrow> calls \<Rightarrow> bool" where
  "calls_keep f c \<longleftrightarrow> (\<forall>i req. keeps f (c_fetch c i req)) \<and> (\<forall>out ch me. keeps f (c_push c out ch me)) \<and>
     (\<forall>out n. keeps f (c_filter c out n)) \<and> (\<forall>out. keeps f (c_begin c out)) \<and> (\<forall>out. keeps f (c_end c out)) \<and>
     (\<forall>t. keeps f (c_force c t))"

lemma unwrittenD:
  assumes "unwritten f"
  shows "f (wr (exists_at i) x w) = f w" "f (wr (fanin_at i) x1 w) = f w" "f (wr (ufanin_at i) x2 w) = f w"
    "f (wr (take_at i) x3 w) = f w" "f (wr (join_at i) x4 w) = f w" "f (wr (flipped_at i) x5 w) = f w"
    "f (wr streamer_at x6 w) = f w"
  using assms unfolding unwritten_def by blast+

lemma calls_keepD:
  assumes "calls_keep f c"
  shows "keeps f (c_fetch c i req)" "keeps f (c_push c out ch me)" "keeps f (c_filter c out n)"
    "keeps f (c_begin c out)" "keeps f (c_end c out)" "keeps f (c_force c t)"
  using assms unfolding calls_keep_def by blast+

lemma steps_keep:
  assumes "unwritten f" "calls_keep f c"
  shows "keeps f (step_fetch c i req)" "keeps f (step_push n c out ch me)" "keeps f (step_filter c out nd)"
    "keeps f (step_begin c out)" "keeps f (step_end c out)" "keeps f (step_force c t)"
proof -
  note w = unwrittenD [OF assms(1)] and k = calls_keepD [OF assms(2)]
  have oper: "keeps f (step_operator_push c i ch me)" for i ch me
    unfolding step_operator_push_def
    by (intro keep keeps_skip keeps_chain keeps_fan keeps_union keeps_exists keeps_take w k; (rule keeps_pure(1) | rule w))
  show "keeps f (step_fetch c i req)"
    unfolding step_fetch_def
    by (intro keep keeps_skip keeps_chain keeps_union keeps_take keeps_join keeps_flipped w k; (rule keeps_pure(1) | rule w))
  show "keeps f (step_push n c out ch me)"
    by (cases out; simp only: step_push.simps; intro keep oper keeps_join keeps_flipped keeps_pipelineOutput w k;
        (rule keeps_pure(1) | rule w))
  show "keeps f (step_filter c out nd)"
    by (cases out; simp only: step_filter.simps; intro keep keeps_chain keeps_fan keeps_exists w k; (rule keeps_pure(1) | rule w))
  show "keeps f (step_begin c out)"
    by (cases out; simp only: step_begin.simps; intro keep keeps_fan keeps_exists w k; (rule keeps_pure(1) | rule w))
  show "keeps f (step_end c out)"
    by (cases out; simp only: step_end.simps; intro keep keeps_fan keeps_exists w k; (rule keeps_pure(1) | rule w))
  show "keeps f (step_force c t)"
    by (cases t; simp only: step_force.simps; intro keep keeps_join keeps_flipped w k; (rule keeps_pure(1) | rule w))
qed

theorem nested_keep:
  assumes "unwritten f"
  shows "calls_keep f (nested n)"
proof (induction n)
  case 0
  then show ?case by (simp add: calls_keep_def no_calls_def keep)
next
  case (Suc n)
  then show ?case
    using steps_keep [OF assms Suc] by (simp add: calls_keep_def)
qed

lemma unwritten_fields: "unwritten sources" "unwritten kind" "unwritten skips" "unwritten filters" "unwritten fstarts"
  by (simp_all add: unwritten_def heap_defs)

interpretation heap: pushing "source_at t" "c_push (nested n)" for t n
proof
  fix out ch pusher w r w' assume "c_push (nested n) out ch pusher w = (r, w')"
  then have "sources w' = sources w"
    using keepsD calls_keepD(2) [OF nested_keep [OF unwritten_fields(1)]] by metis
  then show "rd (source_at t) w' = rd (source_at t) w" by (simp add: source_at_def)
qed

end
