(* ===== verification/Pipelines.thy ===== *)
theory Pipelines
  imports Frames
begin

text \<open>
  Operators in their place on the heap.  A source input answers fetches from its contents, and an
  operator wired to it does so from what it makes of them: the interfaces that the operators assume
  of their inputs and outputs are interpreted on the dynamic calls \<open>nested n\<close>.
\<close>

section \<open>A source as an input\<close>

text \<open>
  The rows that can be asked for: comparable, every sort column given, and only scalar values, so that
  no constraint compares arrays or objects.
\<close>

fun scalar :: "val \<Rightarrow> bool" where
  "scalar (VBytes _) = False"
| "scalar (VArr _) = False"
| "scalar (VObj _) = False"
| "scalar _ = True"

definition full_rows :: "(string \<Rightarrow> vclass) \<Rightarrow> Ordering \<Rightarrow> row set" where
  "full_rows ty order =
     {r. row_ok ty order r \<and> (\<forall>fd\<in>set order. r (fst fd) \<noteq> None) \<and> (\<forall>k. scalar (col r k))}"

lemma full_rowsD: "r \<in> full_rows ty order \<Longrightarrow> row_ok ty order r"
  by (simp add: full_rows_def)

lemma ValuesEqual_scalar: "scalar a \<Longrightarrow> \<exists>b. ValuesEqual a v = Inr b"
  by (cases a; cases v) (auto simp: ValuesEqual_def iface_eq_def bindR_def split: option.splits)

lemma allR_total: "(\<And>x. x \<in> set xs \<Longrightarrow> \<exists>b. f x = Inr b) \<Longrightarrow> \<exists>b. allR f xs = Inr b"
proof (induction xs)
  case (Cons x xs)
  then obtain b where "f x = Inr b" by fastforce
  moreover obtain b' where "allR f xs = Inr b'" using Cons by fastforce
  ultimately show ?case by (intro exI [of _ "b \<and> b'"]) simp
qed (simp add: exI [of _ True])

lemma constraint_total: "total_on (ConstraintMatchesRow c) (full_rows ty order)"
  unfolding total_on_def ConstraintMatchesRow_def
  by (auto simp: full_rows_def split: option.splits intro!: allR_total ValuesEqual_scalar)

definition source_good :: "(string \<Rightarrow> vclass) \<Rightarrow> Ordering \<Rightarrow> MemorySource \<Rightarrow> nat \<Rightarrow> bool" where
  "source_good ty order ms cid \<longleftrightarrow>
     conn_Sort (conns ms cid) = order \<and> store_ok ty ms \<and>
     separates (MakeComparator order False) (data ms) \<and>
     separates (MakeComparator order False) (visible ms (conns ms cid)) \<and>
     set (data ms) \<union> pending_rows ms \<subseteq> full_rows ty order \<and>
     (\<forall>f. FilterPredicate (conns ms cid) = Some f \<longrightarrow> total_on f (full_rows ty order)) \<and>
     (\<forall>epoch change. overlay ms = Some (epoch, change) \<and> epoch \<le> LastPushedEpoch (conns ms cid) \<longrightarrow>
        fits (source_cmp ms) change (data ms) \<and> removed_rows change \<subseteq> set (data ms) \<and>
        (\<forall>r\<in>change_rows change. row_ok ty (primarySort ms) r))"

definition source_view :: "MemorySource \<Rightarrow> nat \<Rightarrow> Constraint option \<Rightarrow> Node list" where
  "source_view ms cid c =
     map leaf (filter (\<lambda>r. holds (ConstraintMatchesRow c r) \<and> filter_keeps (conns ms cid) r)
       (sort_by (MakeComparator (conn_Sort (conns ms cid)) False) (visible ms (conns ms cid))))"

lemma source_good_ready:
  assumes good: "source_good ty order ms cid" and req: "proper_request (full_rows ty order) req"
  shows "fetch_ready ty ms (conns ms cid) req" and "full_start (conn_Sort (conns ms cid)) req"
proof -
  let ?R = "set (data ms) \<union> pending_rows ms"
  have R: "?R \<subseteq> full_rows ty order" and order: "conn_Sort (conns ms cid) = order"
    using good by (simp_all add: source_good_def)
  have start: "row_ok ty order (StartRow st)" "\<forall>fd\<in>set order. StartRow st (fst fd) \<noteq> None" if "ReqStart req = Some st" for st
    using req that by (auto simp: proper_request_def full_rows_def)
  have "total_on (ConstraintMatchesRow (ReqConstraint req)) ?R"
    using constraint_total [of "ReqConstraint req" ty order] R unfolding total_on_def by blast
  moreover have "total_on f ?R" if "FilterPredicate (conns ms cid) = Some f" for f
    using good R that unfolding source_good_def total_on_def by blast
  ultimately have "req_ok ty (conns ms cid) req ?R"
    using R start full_rowsD order by (auto simp: req_ok_def)
  moreover have "overlay_ok ty ms (conns ms cid)"
    unfolding overlay_ok_def using good order by (auto simp: source_good_def)
  ultimately show "fetch_ready ty ms (conns ms cid) req"
    using good order by (simp add: fetch_ready_def source_good_def)
  show "full_start (conn_Sort (conns ms cid)) req"
    unfolding full_start_def using start order by auto
qed

lemma visible_rows:
  assumes "source_good ty order ms cid"
  shows "set (visible ms (conns ms cid)) \<subseteq> full_rows ty order"
proof -
  have rows: "set (data ms) \<union> pending_rows ms \<subseteq> full_rows ty order"
    using assms by (simp add: source_good_def)
  have "set (visible ms (conns ms cid)) \<subseteq> set (data ms) \<union> pending_rows ms"
  proof (cases "overlay ms")
    case None
    then show ?thesis by (simp add: visible_def)
  next
    case (Some ov)
    obtain epoch change where ov: "overlay ms = Some (epoch, change)" using Some by (cases ov) simp
    show ?thesis
      using set_apply_source_change [of "source_cmp ms" change "data ms"]
      by (auto simp: visible_def pending_rows_def ov split: if_splits)
  qed
  with rows show ?thesis by blast
qed

lemma start_keeps_pos:
  assumes r: "r \<in> full_rows ty order" and req: "proper_request (full_rows ty order) req"
    and schema: "CompareRows schema = MakeComparator order False"
  shows "start_keeps order req r \<longleftrightarrow>
    (case ReqStart req of None \<Rightarrow> True | Some st \<Rightarrow> start_pos (CompareRows schema) st (ReqReverse req) (leaf r))"
proof (cases "ReqStart req")
  case (Some st)
  then have st: "StartRow st \<in> full_rows ty order"
    using req by (simp add: proper_request_def)
  let ?c = "cval (MakeComparator order False) r (StartRow st)"
  have full: "cursor_order (StartRow st) order = order"
    using st by (intro cursor_order_full) (simp add: full_rows_def)
  have flip: "cval (MakeComparator order False) (StartRow st) r = - ?c"
    by (rule rows.antisym [where ty = ty]) (simp_all add: full_rowsD [OF st] full_rowsD [OF r])
  have "start_keeps order req r \<longleftrightarrow>
      (if Basis st = ''at'' then (if ReqReverse req then - ?c \<ge> 0 else - ?c \<le> 0)
       else (if ReqReverse req then - ?c > 0 else - ?c < 0))"
    unfolding start_keeps_def Some option.case at_or_past_eq [OF full_rowsD [OF r] full_rowsD [OF st]] full flip
    by (simp add: holds_def Let_def)
  then show ?thesis
    unfolding Some start_pos_def schema Let_def by simp
qed (simp add: start_keeps_def)

lemma source_fetch_selects:
  assumes good: "source_good ty order ms cid" and req: "proper_request (full_rows ty order) req"
    and schema: "CompareRows schema = MakeComparator order False"
  shows "SourceInput_Fetch ms cid req = Inr (select_nodes (CompareRows schema) req (source_view ms cid (ReqConstraint req)))"
proof -
  let ?xs = "sort_by (MakeComparator order False) (visible ms (conns ms cid))"
  have order: "conn_Sort (conns ms cid) = order" using good by (simp add: source_good_def)
  have rows: "r \<in> full_rows ty order" if "r \<in> set ?xs" for r
    using visible_rows [OF good] that by auto
  have eq: "filter (fetch_keeps (conns ms cid) req) ?xs =
      filter (\<lambda>r. case ReqStart req of None \<Rightarrow> True | Some st \<Rightarrow> start_pos (CompareRows schema) st (ReqReverse req) (leaf r))
        (filter (\<lambda>r. holds (ConstraintMatchesRow (ReqConstraint req) r) \<and> filter_keeps (conns ms cid) r) ?xs)"
    using start_keeps_pos [OF rows req schema]
    by (auto simp: fetch_keeps_def constraint_keeps_def order intro!: filter_cong)
  show ?thesis
    unfolding SourceInput_Fetch_visible [OF source_good_ready(1) [OF good req] source_good_ready(2) [OF good req] refl] fetch_spec_def order eq source_view_def
    by (cases "ReqStart req") (simp_all add: select_nodes_def Let_def rev_map filter_map comp_def)
qed

section \<open>Operators as inputs\<close>

text \<open>A schema sorted by an ordering, as \<open>Connect\<close> makes it.\<close>

definition ordered_by :: "Ordering \<Rightarrow> SourceSchema \<Rightarrow> SourceSchema" where
  "ordered_by order sch = SourceSchema (TableName sch) (Columns sch) (PrimaryKey sch) (SchemaRelationships sch)
     (IsHidden sch) (IsScalar sch) (System sch) (MakeComparator order False) (Some order)"

lemma ordered_by_simps [simp]: "CompareRows (ordered_by order sch) = MakeComparator order False"
  "Sort (ordered_by order sch) = Some order"
  by (simp_all add: ordered_by_def)

definition feeds :: "(string \<Rightarrow> vclass) \<Rightarrow> Ordering \<Rightarrow> world \<Rightarrow> opid \<Rightarrow> bool" where
  "feeds ty order w i \<longleftrightarrow> (\<exists>t cid. kind w i = OpSource t cid \<and> source_good ty order (sources w t) cid)"

definition input_view :: "world \<Rightarrow> opid \<Rightarrow> Constraint option \<Rightarrow> Node list" where
  "input_view w i c = (case kind w i of OpSource t cid \<Rightarrow> source_view (sources w t) cid c | _ \<Rightarrow> [])"

lemma comparator_subset: "comparator cmp S \<Longrightarrow> T \<subseteq> S \<Longrightarrow> comparator cmp T"
  by unfold_locales (metis comparator.total comparator.antisym comparator.trans subsetD)+

lemma full_schema: "ordered_schema (ordered_by order sch) (full_rows ty order)"
  unfolding ordered_schema_def ordered_by_simps
  by (rule comparator_subset [OF rows.comparator_axioms]) (auto simp: full_rows_def)

interpretation full: ordered_schema "ordered_by order sch" "full_rows ty order" for order sch ty
  by (rule full_schema)

lemma source_view_sorted:
  assumes "source_good ty order ms cid"
  shows "sorted_by (node_cmp (ordered_by order sch)) (source_view ms cid c)"
proof -
  have "sorted_by (MakeComparator order False) (sort_by (MakeComparator order False) (visible ms (conns ms cid)))"
    using assms visible_rows [OF assms] full_rowsD
    by (intro rows.sorted_sort_by [where ty = ty]) (auto simp: source_good_def)
  then have "sorted_by (MakeComparator order False)
      (filter (\<lambda>r. holds (ConstraintMatchesRow c r) \<and> filter_keeps (conns ms cid) r)
        (sort_by (MakeComparator order False) (visible ms (conns ms cid))))"
    by (rule rows.sorted_by_filter)
  then show ?thesis
    using assms by (simp add: source_view_def source_good_def sorted_by_def sorted_wrt_map ltc_def [abs_def] cval_def [abs_def] node_cmp_def)
qed

lemma source_view_rows: "source_good ty order ms cid \<Longrightarrow> Row ` set (source_view ms cid c) \<subseteq> full_rows ty order"
  using visible_rows [of ty order ms cid] by (auto simp: source_view_def)

interpretation source_input: sorted_input "ordered_by order sch" "full_rows ty order" "c_fetch (nested (Suc n)) i"
  "\<lambda>w. feeds ty order w i" "\<lambda>w. input_view w i"
  for order sch ty n i
proof
  fix w :: world and req c assume "feeds ty order w i"
  then obtain t cid where i: "kind w i = OpSource t cid" "source_good ty order (sources w t) cid"
    unfolding feeds_def by blast
  show "c_fetch (nested (Suc n)) i req w =
      (Inr (select_nodes (CompareRows (ordered_by order sch)) req (input_view w i (ReqConstraint req))), w)"
    if "proper_request (full_rows ty order) req"
    using source_fetch_selects [OF i(2) that, of "ordered_by order sch"] i(1)
    by (simp add: step_fetch_def input_view_def source_at_def)
  show "sorted_by (node_cmp (ordered_by order sch)) (input_view w i c)"
    using source_view_sorted [OF i(2)] i(1) by (simp add: input_view_def)
  show "Row ` set (input_view w i c) \<subseteq> full_rows ty order"
    using source_view_rows [OF i(2)] i(1) by (simp add: input_view_def)
qed

text \<open>A cursor over a source.\<close>

interpretation cursor: skip_input "skip_at j" "ordered_by order sch" "full_rows ty order" "c_fetch (nested (Suc n)) i"
  "\<lambda>w. feeds ty order w i \<and> skip_ok (ordered_by order sch) (full_rows ty order) (skips w j)" "\<lambda>w. input_view w i"
  for order sch ty n i j
proof
  fix w :: world and req c
  assume good: "feeds ty order w i \<and> skip_ok (ordered_by order sch) (full_rows ty order) (skips w j)"
  then have i: "feeds ty order w i" by blast
  show "c_fetch (nested (Suc n)) i req w =
      (Inr (select_nodes (CompareRows (ordered_by order sch)) req (input_view w i (ReqConstraint req))), w)"
    if "proper_request (full_rows ty order) req"
    by (rule source_input.fetch [OF i that])
  show "sorted_by (node_cmp (ordered_by order sch)) (input_view w i c)"
    by (rule source_input.view_sorted [OF i])
  show "Row ` set (input_view w i c) \<subseteq> full_rows ty order"
    by (rule source_input.view_rows [OF i])
  show "skip_ok (ordered_by order sch) (full_rows ty order) (rd (skip_at j) w)"
    using good by (simp add: skip_at_def)
qed

text \<open>
  A chain of simple filters between its two ends: the predicates that a node passes on the way from
  an output to the end, if there are at most \<open>k\<close> of them.
\<close>

primrec chain_predicates :: "nat \<Rightarrow> world \<Rightarrow> Output \<Rightarrow> (row \<Rightarrow> bool res) list option" where
  "chain_predicates 0 w out = None"
| "chain_predicates (Suc k) w out = (case out of
     ToOperator e \<Rightarrow> (case kind w e of
       OpFilterEnd start input \<Rightarrow> Some []
     | OpFilter input \<Rightarrow>
         map_option (Cons (filter_predicate (filters w e))) (chain_predicates k w (filter_output (filters w e)))
     | _ \<Rightarrow> None)
   | _ \<Rightarrow> None)"

lemma chain_calls:
  assumes "chain_predicates k w out = Some ps" "\<forall>p\<in>set ps. \<exists>b. p (Row n) = Inr b"
  shows "c_filter (nested k) out n w = (Inr (\<forall>p\<in>set ps. holds (p (Row n))), w)"
    and "c_begin (nested k) out w = (Inr (), w)" and "c_end (nested k) out w = (Inr (), w)"
proof -
  have "c_filter (nested k) out n w = (Inr (\<forall>p\<in>set ps. holds (p (Row n))), w) \<and>
    c_begin (nested k) out w = (Inr (), w) \<and> c_end (nested k) out w = (Inr (), w)"
    using assms
  proof (induction k arbitrary: out ps)
    case (Suc k)
    obtain e where out: "out = ToOperator e" using Suc.prems(1) by (cases out) simp_all
    show ?case
    proof (cases "kind w e")
      case (OpFilter input)
      then obtain qs where qs: "ps = filter_predicate (filters w e) # qs"
          "chain_predicates k w (filter_output (filters w e)) = Some qs"
        using Suc.prems(1) out by auto
      obtain b where b: "filter_predicate (filters w e) (Row n) = Inr b"
        using Suc.prems(2) qs(1) by auto
      have IH: "c_filter (nested k) (filter_output (filters w e)) n w = (Inr (\<forall>p\<in>set qs. holds (p (Row n))), w)"
          "c_begin (nested k) (filter_output (filters w e)) w = (Inr (), w)"
          "c_end (nested k) (filter_output (filters w e)) w = (Inr (), w)"
        using Suc.IH [OF qs(2)] Suc.prems(2) qs(1) by simp_all
      show ?thesis
        by (cases b) (simp_all add: out OpFilter qs(1) b IH Filter_Filter_def filter_at_def holds_def)
    qed (use Suc.prems out in \<open>simp_all add: FilterEnd_Filter_def\<close>)
  qed simp
  then show "c_filter (nested k) out n w = (Inr (\<forall>p\<in>set ps. holds (p (Row n))), w)"
    "c_begin (nested k) out w = (Inr (), w)" "c_end (nested k) out w = (Inr (), w)" by blast+
qed

definition chain_total :: "row set \<Rightarrow> nat \<Rightarrow> world \<Rightarrow> opid \<Rightarrow> bool" where
  "chain_total S k w j \<longleftrightarrow>
     (\<exists>ps. chain_predicates k w (fstart_output (fstarts w j)) = Some ps \<and> (\<forall>p\<in>set ps. total_on p S))"

definition chain_passes :: "nat \<Rightarrow> world \<Rightarrow> opid \<Rightarrow> Node \<Rightarrow> bool" where
  "chain_passes k w j n \<longleftrightarrow>
     (\<forall>p\<in>set (the (chain_predicates k w (fstart_output (fstarts w j)))). holds (p (Row n)))"

lemma chain_run:
  assumes "chain_total S k w j" "Row n \<in> S"
  shows "c_filter (nested k) (fstart_output (rd (fstart_at j) w)) n w = (Inr (chain_passes k w j n), w)"
proof -
  obtain ps where ps: "chain_predicates k w (fstart_output (fstarts w j)) = Some ps" "\<forall>p\<in>set ps. total_on p S"
    using assms(1) by (auto simp: chain_total_def)
  have "\<forall>p\<in>set ps. \<exists>b. p (Row n) = Inr b"
    using ps(2) assms(2) by (auto simp: total_on_def)
  from chain_calls(1) [OF ps(1) this] show ?thesis
    by (simp add: fstart_at_def chain_passes_def ps(1))
qed

lemma chain_brackets:
  assumes "chain_total S k w j"
  shows "c_begin (nested k) (fstart_output (rd (fstart_at j) w)) w = (Inr (), w)"
    "c_end (nested k) (fstart_output (rd (fstart_at j) w)) w = (Inr (), w)"
proof -
  obtain ps where ps: "chain_predicates k w (fstart_output (fstarts w j)) = Some ps"
    using assms by (auto simp: chain_total_def)
  have "c_begin (nested k) out w = (Inr (), w) \<and> c_end (nested k) out w = (Inr (), w)"
    if "chain_predicates k w out = Some ps" for out
    using that
  proof (induction k arbitrary: out ps)
    case (Suc k)
    then show ?case
      by (auto simp: filter_at_def split: Output.splits oper.splits)
  qed simp
  then show "c_begin (nested k) (fstart_output (rd (fstart_at j) w)) w = (Inr (), w)"
    "c_end (nested k) (fstart_output (rd (fstart_at j) w)) w = (Inr (), w)"
    using ps by (simp_all add: fstart_at_def)
qed

text \<open>Simple filters over a source.\<close>

interpretation chain: filter_chain "ordered_by order sch" "full_rows ty order" "c_fetch (nested (Suc n)) i"
  "\<lambda>w. feeds ty order w i \<and> chain_total (full_rows ty order) (Suc n) w j" "\<lambda>w. input_view w i"
  "fstart_at j" "c_filter (nested (Suc n))" "c_begin (nested (Suc n))" "c_end (nested (Suc n))"
  "\<lambda>w. chain_passes (Suc n) w j"
  for order sch ty n i j
proof
  fix w :: world and req c nd
  assume good: "feeds ty order w i \<and> chain_total (full_rows ty order) (Suc n) w j"
  then have i: "feeds ty order w i" and t: "chain_total (full_rows ty order) (Suc n) w j" by blast+
  show "c_fetch (nested (Suc n)) i req w =
      (Inr (select_nodes (CompareRows (ordered_by order sch)) req (input_view w i (ReqConstraint req))), w)"
    if "proper_request (full_rows ty order) req"
    by (rule source_input.fetch [OF i that])
  show "sorted_by (node_cmp (ordered_by order sch)) (input_view w i c)"
    by (rule source_input.view_sorted [OF i])
  show "Row ` set (input_view w i c) \<subseteq> full_rows ty order"
    by (rule source_input.view_rows [OF i])
  show "c_filter (nested (Suc n)) (fstart_output (rd (fstart_at j) w)) nd w = (Inr (chain_passes (Suc n) w j nd), w)"
    if "Row nd \<in> full_rows ty order"
    by (rule chain_run [OF t that])
  show "c_begin (nested (Suc n)) (fstart_output (rd (fstart_at j) w)) w = (Inr (), w)"
    "c_end (nested (Suc n)) (fstart_output (rd (fstart_at j) w)) w = (Inr (), w)"
    by (rule chain_brackets [OF t])+
qed

text \<open>A join over a source.\<close>

interpretation joined: join_input "ordered_by order sch" "full_rows ty order" "c_fetch (nested (Suc n)) i"
  "\<lambda>w. feeds ty order w i \<and> join_schema (joins w j) = joined_schema (ordered_by order sch) name rel"
  "\<lambda>w. input_view w i" "join_at j" j name rel
  for order sch ty n i j name rel
proof
  fix w :: world and req c
  assume good: "feeds ty order w i \<and> join_schema (joins w j) = joined_schema (ordered_by order sch) name rel"
  then have i: "feeds ty order w i" by blast
  show "c_fetch (nested (Suc n)) i req w =
      (Inr (select_nodes (CompareRows (ordered_by order sch)) req (input_view w i (ReqConstraint req))), w)"
    if "proper_request (full_rows ty order) req"
    by (rule source_input.fetch [OF i that])
  show "sorted_by (node_cmp (ordered_by order sch)) (input_view w i c)"
    by (rule source_input.view_sorted [OF i])
  show "Row ` set (input_view w i c) \<subseteq> full_rows ty order"
    by (rule source_input.view_rows [OF i])
  show "join_schema (rd (join_at j) w) = joined_schema (ordered_by order sch) name rel"
    using good by (simp add: join_at_def)
qed

section \<open>Stacking operators\<close>

text \<open>What an operator serves, from what its input serves; the bound on nested calls grows by one.\<close>

lemma sorted_input_cong:
  assumes "sorted_input sch S fetch good view"
    and "\<And>w req. good' w \<Longrightarrow> good w \<and> fetch' req w = fetch req w" and "\<And>w. good' w \<Longrightarrow> view' w = view w"
  shows "sorted_input sch S fetch' good' view'"
  using assms unfolding sorted_input_def sorted_input_axioms_def by simp

context skip_input
begin

lemma skip_serves: "sorted_input schema S (Skip_Fetch p fetch) good skipped"
  by (rule out.sorted_input_axioms)

end

context filter_chain
begin

lemma chain_serves: "sorted_input schema S (FilterStart_Fetch p fetch filt beginF endF) good passing"
  by (rule out.sorted_input_axioms)

end

context join_input
begin

lemma join_serves: "sorted_input (joined_schema schema name rel) S (Join_Fetch p me fetch) good with_children"
  by (rule out.sorted_input_axioms)

end

lemma stack_skip:
  assumes "sorted_input sch S (c_fetch (nested n) i) good view"
  shows "sorted_input sch S (c_fetch (nested (Suc n)) j)
    (\<lambda>w. good w \<and> kind w j = OpSkip i \<and> skip_ok sch S (skips w j))
    (\<lambda>w c. filter (\<lambda>m. present sch (skips w j) (Row m)) (view w c))"
proof -
  let ?good = "\<lambda>w. good w \<and> skip_ok sch S (skips w j)"
  have "sorted_input sch S (c_fetch (nested n) i) ?good view"
    by (rule sorted_input_cong [OF assms]) simp_all
  then have skip: "skip_input (skip_at j) sch S (c_fetch (nested n) i) ?good view"
    by (intro skip_input.intro skip_at.pointer_axioms skip_input_axioms.intro) (simp_all add: skip_at_def)
  show ?thesis
    by (rule sorted_input_cong [OF skip_input.skip_serves [OF skip]])
      (auto simp: step_fetch_def skip_input.skipped_def [OF skip, abs_def], simp_all add: skip_at_def)
qed

lemma stack_filters:
  assumes "sorted_input sch S (c_fetch (nested n) i) good view"
  shows "sorted_input sch S (c_fetch (nested (Suc n)) j)
    (\<lambda>w. good w \<and> kind w j = OpFilterStart i \<and> chain_total S n w j)
    (\<lambda>w c. filter (chain_passes n w j) (view w c))"
proof -
  let ?good = "\<lambda>w. good w \<and> chain_total S n w j"
  have "sorted_input sch S (c_fetch (nested n) i) ?good view"
    by (rule sorted_input_cong [OF assms]) simp_all
  then have chain: "filter_chain sch S (c_fetch (nested n) i) ?good view (fstart_at j) (c_filter (nested n))
      (c_begin (nested n)) (c_end (nested n)) (\<lambda>w. chain_passes n w j)"
    by (intro filter_chain.intro filter_chain_axioms.intro) (auto intro: chain_run chain_brackets)
  show ?thesis
    by (rule sorted_input_cong [OF filter_chain.chain_serves [OF chain]])
      (auto simp: step_fetch_def filter_chain.passing_def [OF chain] intro!: ext)
qed

lemma stack_filter_end:
  assumes "sorted_input sch S (c_fetch (nested n) i) good view"
  shows "sorted_input sch S (c_fetch (nested (Suc n)) j) (\<lambda>w. good w \<and> (\<exists>l. kind w j = OpFilterEnd i l)) view"
  by (rule sorted_input_cong [OF assms]) (auto simp: step_fetch_def)

lemma stack_join:
  assumes "sorted_input sch S (c_fetch (nested n) i) good view"
  shows "sorted_input (joined_schema sch name rel) S (c_fetch (nested (Suc n)) j)
    (\<lambda>w. good w \<and> (\<exists>child. kind w j = OpJoin i child) \<and> join_schema (joins w j) = joined_schema sch name rel)
    (\<lambda>w c. map (processParentNode j (joins w j)) (view w c))"
proof -
  let ?good = "\<lambda>w. good w \<and> join_schema (joins w j) = joined_schema sch name rel"
  have "sorted_input sch S (c_fetch (nested n) i) ?good view"
    by (rule sorted_input_cong [OF assms]) simp_all
  then have join: "join_input sch S (c_fetch (nested n) i) ?good view (join_at j) name rel"
    by (intro join_input.intro join_input_axioms.intro) (simp_all add: join_at_def)
  show ?thesis
    by (rule sorted_input_cong [OF join_input.join_serves [OF join]])
      (auto simp: step_fetch_def join_input.with_children_def [OF join, abs_def], simp_all add: join_at_def)
qed

end
