(* ===== verification/LimitQuery.thy ===== *)
theory LimitQuery
  imports Pipelines
begin

text \<open>
  A limit operator in its place on the heap: fed by a source, feeding the streamer.  Its own theorem
  (\<open>Take_Push_moves\<close>) becomes one about the rows that a client of the query sees.
\<close>

definition streamed :: "world \<Rightarrow> Change list" where
  "streamed w = concat (map acc_changes (accumulated (streamer w)))"

lemma view_frame [simp]:
  "input_view (w\<lparr>streamer := x\<rparr>) = input_view w" "input_view (w\<lparr>takes := y\<rparr>) = input_view w"
  "feeds ty order (w\<lparr>streamer := x\<rparr>) i = feeds ty order w i" "feeds ty order (w\<lparr>takes := y\<rparr>) i = feeds ty order w i"
  by (auto simp: input_view_def [abs_def] feeds_def fun_eq_iff split: oper.splits)

definition leafy :: "Node \<Rightarrow> bool" where
  "leafy n \<longleftrightarrow> Relationships n = []"

lemma leafy_leaf [simp]: "leafy (leaf r)"
  by (simp add: leafy_def)

lemma materialize_leafy: "leafy n \<Longrightarrow> materializeNode (Suc k) force n w = (Inr n, w)"
  by (cases n) (simp add: leafy_def)

lemma output_streams:
  assumes "\<forall>n\<in>nodes_of ch. leafy n"
  shows "c_push (nested (Suc (Suc m))) (ToPipeline q sch) ch me w =
    (Inr [], w\<lparr>streamer := Accumulate q sch [ch] (streamer w)\<rparr>)"
  using assms by (cases ch) (simp_all add: pipelineOutput_Push_def materialize_leafy streamer_at_def del: materializeNode.simps)

definition limits :: "(string \<Rightarrow> vclass) \<Rightarrow> Ordering \<Rightarrow> opid \<Rightarrow> opid \<Rightarrow> world \<Rightarrow> bool" where
  "limits ty order i j w \<longleftrightarrow> feeds ty order w i \<and> (\<exists>q sch. take_output (takes w j) = ToPipeline q sch)"

interpretation window: take_context "take_at j" "ordered_by order sch" "full_rows ty order" "c_fetch (nested (Suc n)) i"
  "limits ty order i j" "\<lambda>w. input_view w i" j "c_push (nested (Suc (Suc m)))" streamed leafy
  for order sch ty n m i j
proof
  fix w :: world and req c t ch
  show "limits ty order i j (wr (take_at j) t w) = limits ty order i j w" if "take_setup t = take_setup (rd (take_at j) w)"
    using that by (simp add: limits_def take_setup_def take_at_def)
  show "(\<lambda>c. input_view (wr (take_at j) t w) i c) = input_view w i" "streamed (wr (take_at j) t w) = streamed w"
    by (simp_all add: take_at_def streamed_def)
  assume good: "limits ty order i j w"
  then have i: "feeds ty order w i" by (simp add: limits_def)
  show "c_fetch (nested (Suc n)) i req w =
      (Inr (select_nodes (CompareRows (ordered_by order sch)) req (input_view w i (ReqConstraint req))), w)"
    if "proper_request (full_rows ty order) req"
    by (rule source_input.fetch [OF i that])
  show "sorted_by (node_cmp (ordered_by order sch)) (input_view w i c)"
    by (rule source_input.view_sorted [OF i])
  show "Row ` set (input_view w i c) \<subseteq> full_rows ty order"
    by (rule source_input.view_rows [OF i])
  obtain q qs where out: "take_output (takes w j) = ToPipeline q qs"
    using good by (auto simp: limits_def)
  show "\<exists>w'. c_push (nested (Suc (Suc m))) (take_output (rd (take_at j) w)) ch j w = (Inr [], w') \<and>
      limits ty order i j w' \<and> streamed w' = streamed w @ [ch] \<and> rd (take_at j) w' = rd (take_at j) w \<and>
      input_view w' i = input_view w i"
    if ok: "\<forall>n\<in>nodes_of ch. leafy n"
    using good output_streams [OF ok, of m q qs j w] out
    by (simp add: take_at_def limits_def streamed_def Accumulate_def)
qed

section \<open>Properties\<close>

text \<open>The parts of a limit query: source, limit, and the pipeline's output.\<close>

definition limit_query :: "(string \<Rightarrow> vclass) \<Rightarrow> Ordering \<Rightarrow> SourceSchema \<Rightarrow> nat \<Rightarrow> opid \<Rightarrow> opid \<Rightarrow> world \<Rightarrow> bool" where
  "limit_query ty order sch L i j w \<longleftrightarrow>
     kind w j = OpTake i \<and> limits ty order i j w \<and> take_schema (takes w j) = ordered_by order sch \<and>
     take_limit (takes w j) = int L \<and> 1 \<le> L \<and> partitionKey (takes w j) = [] \<and>
     (\<forall>m. maxBound (takes w j) = Some m \<longrightarrow> m \<in> full_rows ty order)"

definition take_key :: state_key where
  "take_key = GetTakeStateKey [] None"

lemma take_key_eq: "GetTakeStateKey [] r = take_key"
  by (cases r) (simp_all add: take_key_def GetTakeStateKey_def)

text \<open>The window the operator stores is that of the contents \<open>xs\<close>.\<close>

definition limit_stored :: "(string \<Rightarrow> vclass) \<Rightarrow> Ordering \<Rightarrow> SourceSchema \<Rightarrow> nat \<Rightarrow> opid \<Rightarrow> world \<Rightarrow> Node list \<Rightarrow> bool" where
  "limit_stored ty order sch L j w xs \<longleftrightarrow>
     (\<exists>st. states (takes w j) take_key = Some st \<and> window_ok (full_rows ty order) (ordered_by order sch) (int L) xs st)"

lemma limit_push:
  assumes query: "limit_query ty order sch L i j w" and stored: "limit_stored ty order sch L j w xs"
    and xs: "sorted_by (node_cmp (ordered_by order sch)) xs" "Row ` set xs \<subseteq> full_rows ty order" "\<forall>n\<in>set xs. leafy n"
    and change: "change_possible (ordered_by order sch) ch xs" "Row (change_node ch) \<in> full_rows ty order"
      "\<And>node name c. ch \<noteq> ChildChange node name c"
    and after: "input_view w i None = apply_change (ordered_by order sch) ch xs"
  shows "\<exists>w' cs. c_push (nested (Suc (Suc (Suc n)))) (ToOperator j) ch p w = (Inr [], w') \<and>
    streamed w' = streamed w @ cs \<and>
    foldl (\<lambda>zs c. apply_change (ordered_by order sch) c zs) (take L xs) cs = take L (input_view w i None) \<and>
    limit_stored ty order sch L j w' (input_view w i None)"
proof -
  obtain st where st: "states (takes w j) take_key = Some st"
    "window_ok (full_rows ty order) (ordered_by order sch) (int L) xs st"
    using stored by (auto simp: limit_stored_def)
  have ready: "take_context.ready (take_at j) (ordered_by order sch) (full_rows ty order) (limits ty order i j) w take_key L xs st"
    unfolding window.ready_def using query st xs
    by (simp add: limit_query_def take_at_def window.bounded_def)
  have pk: "partitionKey (rd (take_at j) w) = []"
    using query by (simp add: limit_query_def take_at_def)
  have "take_context.moves (take_at j) (ordered_by order sch) (full_rows ty order) (limits ty order i j)
      (\<lambda>w. input_view w i) streamed leafy
      (Take_Push (take_at j) j (c_fetch (nested (Suc (Suc n))) i) (c_push (nested (Suc (Suc n)))) ch) w take_key L xs
      (apply_change (ordered_by order sch) ch xs)"
    by (rule window.Take_Push_moves [OF ready change(1) _ _ change(3,2)])
      (simp_all add: pk take_key_eq partition_constraint_def after)
  then obtain cs st' where sends: "take_context.sends (take_at j) (limits ty order i j) (\<lambda>w. input_view w i) streamed leafy
      (Take_Push (take_at j) j (c_fetch (nested (Suc (Suc n))) i) (c_push (nested (Suc (Suc n)))) ch) w take_key cs st'"
    and nodes: "\<forall>c\<in>set cs. nodes_of c \<subseteq> set xs \<union> set (apply_change (ordered_by order sch) ch xs)"
    and moved: "foldl (\<lambda>zs c. apply_change (ordered_by order sch) c zs) (take L xs) cs =
      take L (apply_change (ordered_by order sch) ch xs)"
    and ok: "window_ok (full_rows ty order) (ordered_by order sch) (int L) (apply_change (ordered_by order sch) ch xs) st'"
    unfolding window.moves_def by blast
  have "\<forall>n\<in>set (input_view w i None). leafy n"
    by (auto simp: input_view_def source_view_def split: oper.splits)
  with nodes xs(3) have "\<forall>c\<in>set cs. \<forall>n\<in>nodes_of c. leafy n"
    unfolding after by blast
  with sends obtain w' where "Take_Push (take_at j) j (c_fetch (nested (Suc (Suc n))) i) (c_push (nested (Suc (Suc n)))) ch w =
      (Inr [], w')" "streamed w' = streamed w @ cs" "states (rd (take_at j) w') take_key = Some st'"
    unfolding window.sends_def by blast
  moreover have "c_push (nested (Suc (Suc (Suc n)))) (ToOperator j) ch p w =
      Take_Push (take_at j) j (c_fetch (nested (Suc (Suc n))) i) (c_push (nested (Suc (Suc n)))) ch w"
    using query by (simp add: step_operator_push_def limit_query_def)
  ultimately show ?thesis
    using moved ok after by (auto simp: limit_stored_def take_at_def)
qed

text \<open>
  C1. A limit query shows the first rows, push by push: when the source's contents for the query
  change from \<open>xs\<close> by a row change and the limit is told so, the changes it streams to the client turn
  the first \<open>L\<close> rows of the old contents into the first \<open>L\<close> rows of the new contents, and the window
  it stores is that of the new contents, ready for the next push.  The nesting of calls is bounded by
  three.
\<close>

theorem limit_query_shows_first_rows:
  assumes "limit_query ty order sch L i j w" "limit_stored ty order sch L j w xs"
    and "sorted_by (node_cmp (ordered_by order sch)) xs" "Row ` set xs \<subseteq> full_rows ty order" "\<forall>n\<in>set xs. leafy n"
    and "change_possible (ordered_by order sch) ch xs" "Row (change_node ch) \<in> full_rows ty order"
      "\<And>node name c. ch \<noteq> ChildChange node name c"
    and "input_view w i None = apply_change (ordered_by order sch) ch xs"
  shows "\<exists>w' cs. c_push (nested (Suc (Suc (Suc n)))) (ToOperator j) ch p w = (Inr [], w') \<and>
    streamed w' = streamed w @ cs \<and>
    foldl (\<lambda>zs c. apply_change (ordered_by order sch) c zs) (take L xs) cs = take L (input_view w i None) \<and>
    limit_stored ty order sch L j w' (input_view w i None)"
  by (rule limit_push [OF assms])

text \<open>Downwards from the items 4 and 1, during the push of item 3, with limit 2.\<close>

definition two_items :: Take where
  "two_items = \<lparr>states = [take_key \<mapsto> \<lparr>Size = 2, Bound = Some (item 1)\<rparr>], maxBound = Some (item 1),
     take_schema = ordered_by down_order item_schema, take_limit = 2, partitionKey = [], rowHiddenFromFetch = None,
     take_output = ToPipeline ''q'' (ordered_by down_order item_schema)\<rparr>"

definition limit_world :: world where
  "limit_world = empty_world\<lparr>kind := (\<lambda>_. OpNone)(0 := OpSource 0 2, 1 := OpTake 0),
     sources := (\<lambda>_. pending_add), takes := (\<lambda>_. two_items)\<rparr>"

lemma item_full: "item x \<in> full_rows (\<lambda>_. CNum) down_order"
  by (simp add: full_rows_def) (simp add: item_def down_order_def col_def)

lemma pending_add_good: "source_good (\<lambda>_. CNum) down_order pending_add 2"
  using fetch_ready_pending_add item_full
  by (auto simp: source_good_def fetch_ready_def overlay_ok_def pending_rows_def total_on_def)

lemma pending_add_view: "source_view pending_add 2 None = [leaf (item 4), leaf (item 3), leaf (item 1)]"
  by (simp add: source_view_def ConstraintMatchesRow_def holds_def filter_keeps_def visible_def sort_by_def
      insert_by_Cons ltc_def cval_def)

theorem limit_query_shows_first_rows_witness:
  "\<exists>w' cs. c_push (nested 3) (ToOperator 1) (AddChange (leaf (item 3))) 0 limit_world = (Inr [], w') \<and>
    streamed w' = cs \<and>
    foldl (\<lambda>zs c. apply_change (ordered_by down_order item_schema) c zs) [leaf (item 4), leaf (item 1)] cs =
      [leaf (item 4), leaf (item 3)]"
proof -
  have w: "kind limit_world (Suc 0) = OpTake 0" "kind limit_world 0 = OpSource 0 2" "sources limit_world 0 = pending_add"
    "takes limit_world (Suc 0) = two_items" "streamed limit_world = []"
    by (simp_all add: limit_world_def streamed_def empty_world_def NewStreamer_def)
  have view: "input_view limit_world 0 None = [leaf (item 4), leaf (item 3), leaf (item 1)]"
    by (simp add: input_view_def w pending_add_view)
  have query: "limit_query (\<lambda>_. CNum) down_order item_schema 2 0 1 limit_world"
    using pending_add_good item_full by (simp add: limit_query_def limits_def feeds_def w two_items_def)
  have stored: "limit_stored (\<lambda>_. CNum) down_order item_schema 2 1 limit_world [leaf (item 4), leaf (item 1)]"
    using item_full by (simp add: limit_stored_def w two_items_def window_ok_def cval_def)
  have "sorted_by (node_cmp (ordered_by down_order item_schema)) [leaf (item 4), leaf (item 1)]"
    by (simp add: sorted_by_def ltc_def cval_def node_cmp_def)
  moreover have "change_possible (ordered_by down_order item_schema) (AddChange (leaf (item 3))) [leaf (item 4), leaf (item 1)]"
    by (simp add: cval_def node_cmp_def)
  moreover have "input_view limit_world 0 None =
      apply_change (ordered_by down_order item_schema) (AddChange (leaf (item 3))) [leaf (item 4), leaf (item 1)]"
    by (simp add: view insert_by_Cons ltc_def cval_def node_cmp_def)
  ultimately obtain w' cs where
    "c_push (nested (Suc (Suc (Suc 0)))) (ToOperator 1) (AddChange (leaf (item 3))) 0 limit_world = (Inr [], w')"
    "streamed w' = streamed limit_world @ cs"
    "foldl (\<lambda>zs c. apply_change (ordered_by down_order item_schema) c zs) (take 2 [leaf (item 4), leaf (item 1)]) cs =
      take 2 (input_view limit_world 0 None)"
    using limit_query_shows_first_rows [OF query stored, of "AddChange (leaf (item 3))" 0 0] item_full by auto
  then show ?thesis
    by (intro exI [of _ w'] exI [of _ cs]) (simp add: numeral_3_eq_3 w view)
qed

end
