(* ===== verification/Hydration.thy ===== *)
theory Hydration
  imports LimitQuery
begin

text \<open>
  What a query without subqueries fetches when it is added: the graph the builder makes for it is
  source, cursor, limit, and its result is composed of what each of them serves.
\<close>

lemma Take_Fetch_fresh:
  assumes fetch: "fetch empty_request w = (Inr xs, w)"
    and fresh: "takes w j = \<lparr>states = Map.empty, maxBound = None, take_schema = sch, take_limit = int L, partitionKey = [],
      rowHiddenFromFetch = None, take_output = out\<rparr>" and L: "1 \<le> L"
    and rows: "Row ` set xs \<subseteq> S" and order: "ordered_schema sch S"
  shows "\<exists>w'. Take_Fetch (take_at j) fetch empty_request w = (Inr (take L xs), w') \<and>
    (\<exists>st. states (takes w' j) take_key = Some st \<and> window_ok S sch (int L) xs st)"
proof -
  let ?ys = "take L xs"
  let ?st = "\<lparr>Size = int (length ?ys), Bound = (if ?ys = [] then None else Some (Row (last ?ys)))\<rparr>"
  let ?t = "SetTakeState take_key ?st (takes w j)"
  let ?t' = "if ?ys = [] then ?t else SetMaxBound (Row (last ?ys)) ?t"
  have fields: "partitionKey (takes w j) = []" "states (takes w j) = Map.empty" "maxBound (takes w j) = None"
      "take_limit (takes w j) = int L"
    by (simp_all add: fresh)
  have rd: "rd (take_at j) w = takes w j" by (simp add: take_at_def)
  have key: "GetTakeStateKey [] (constraintToRow (ReqConstraint empty_request)) = take_key"
    by (rule take_key_eq)
  have run: "Take_Fetch (take_at j) fetch empty_request w = (Inr ?ys, wr (take_at j) ?t' w)"
    using L fetch rd fields unfolding Take_Fetch_def initialFetch_def
    by (simp add: key setTakeState_def Let_def)
  have "cval (CompareRows sch) (Row (last ?ys)) (Row (last ?ys)) = 0" "Row (last ?ys) \<in> S" if "?ys \<noteq> []"
  proof -
    have "last ?ys \<in> set xs" using last_in_set [OF that] by (rule in_set_takeD)
    then show r: "Row (last ?ys) \<in> S" using rows by auto
    show "cval (CompareRows sch) (Row (last ?ys)) (Row (last ?ys)) = 0"
      by (rule comparator.refl [OF ordered_schema.row_order [OF order] r])
  qed
  then have "window_ok S sch (int L) xs ?st"
    using L by (auto simp: window_ok_def)
  moreover have "states (takes (wr (take_at j) ?t' w) j) take_key = Some ?st"
    by (simp add: take_at_def SetTakeState_def SetMaxBound_def)
  ultimately show ?thesis using run by blast
qed

section \<open>Properties\<close>

text \<open>The graph of a query with a cursor and a limit, before its first fetch.\<close>

definition cursor_query ::
  "(string \<Rightarrow> vclass) \<Rightarrow> Ordering \<Rightarrow> SourceSchema \<Rightarrow> nat \<Rightarrow> opid \<Rightarrow> opid \<Rightarrow> opid \<Rightarrow> world \<Rightarrow> bool" where
  "cursor_query ty order sch L i k j w \<longleftrightarrow>
     feeds ty order w i \<and> kind w k = OpSkip i \<and> skip_ok (ordered_by order sch) (full_rows ty order) (skips w k) \<and>
     kind w j = OpTake k \<and> NewTake (ordered_by order sch) (int L) [] = Inr ((takes w j)\<lparr>take_output := ThrowOutput\<rparr>) \<and> 1 \<le> L"

text \<open>The rows of the query without its limit: those of the source from the cursor on.\<close>

definition from_cursor :: "Ordering \<Rightarrow> SourceSchema \<Rightarrow> world \<Rightarrow> opid \<Rightarrow> opid \<Rightarrow> Node list" where
  "from_cursor order sch w i k = filter (\<lambda>n. present (ordered_by order sch) (skips w k) (Row n)) (input_view w i None)"

text \<open>
  C18. Hydration of a query with a filter, an ordering, a cursor and a limit: the first fetch of its
  graph returns the first \<open>L\<close> rows of the source that satisfy the filter and come at or after the
  cursor, in the query's ordering; and it leaves the limit's window stored for the pushes to come.
  Every request in between stays within the bound on nested calls, three.
\<close>

theorem hydration_of_cursor_query:
  assumes "cursor_query ty order sch L i k j w"
  shows "\<exists>w'. c_fetch (nested (Suc (Suc (Suc n)))) j empty_request w = (Inr (take L (from_cursor order sch w i k)), w') \<and>
    limit_stored ty order sch L j w' (from_cursor order sch w i k)"
proof -
  let ?S = "full_rows ty order" and ?sch = "ordered_by order sch"
  note q = assms [unfolded cursor_query_def]
  note serves = stack_skip [OF source_input.sorted_input_axioms, of order sch ty n k i]
  have req: "proper_request ?S empty_request" by (simp add: proper_request_def empty_request_def)
  have fetch: "c_fetch (nested (Suc (Suc n))) k empty_request w = (Inr (from_cursor order sch w i k), w)"
    using sorted_input.fetch [OF serves _ req, of w] q
    by (simp add: from_cursor_def select_nodes_def Let_def empty_request_def)
  have rows: "Row ` set (from_cursor order sch w i k) \<subseteq> ?S"
    using sorted_input.view_rows [OF serves, of w] q by (simp add: from_cursor_def)
  have "takes w j = \<lparr>states = Map.empty, maxBound = None, take_schema = ?sch, take_limit = int L, partitionKey = [],
      rowHiddenFromFetch = None, take_output = take_output (takes w j)\<rparr>"
    using q by (cases "takes w j") (auto simp: NewTake_def NewMemoryTakeStorage_def split: if_splits)
  from Take_Fetch_fresh [where fetch = "c_fetch (nested (Suc (Suc n))) k", OF fetch this _ rows full_schema] q
  show ?thesis by (simp add: step_fetch_def limit_stored_def)
qed

text \<open>From item 3 on, downwards, at most one row of the items.\<close>

definition cursor_world :: world where
  "cursor_world = empty_world\<lparr>kind := (\<lambda>_. OpNone)(0 := OpSource 0 2, 1 := OpSkip 0, 2 := OpTake 1),
     sources := (\<lambda>_. pending_add),
     skips := (\<lambda>_. \<lparr>skip_schema = ordered_by down_order item_schema, boundRow = item 3, boundExclusive = True, skip_output = ToOperator 2\<rparr>),
     takes := (\<lambda>_. two_items\<lparr>states := Map.empty, maxBound := None, take_limit := 1\<rparr>)\<rparr>"

lemma item_cursor: "cursor_order (item n) down_order = down_order"
  by (simp add: cursor_order_def item_def down_order_def)

theorem hydration_of_cursor_query_witness:
  "\<exists>w'. c_fetch (nested 3) 2 empty_request cursor_world = (Inr [leaf (item 1)], w')"
proof -
  have "cursor_query (\<lambda>_. CNum) down_order item_schema 1 0 1 2 cursor_world"
    using pending_add_good item_full
    by (auto simp: cursor_query_def feeds_def cursor_world_def two_items_def NewTake_def NewMemoryTakeStorage_def skip_ok_def
        schema_sort_def CompareWithPartialBound_eq item_cursor)
  moreover have "from_cursor down_order item_schema cursor_world 0 1 = [leaf (item 1)]"
    by (simp add: from_cursor_def input_view_def cursor_world_def pending_add_view present_def cval_def)
  ultimately show ?thesis
    using hydration_of_cursor_query [of "\<lambda>_. CNum" down_order item_schema 1 0 1 2 cursor_world 0]
    by (auto simp: numeral_3_eq_3)
qed

end
