(* ===== verification/SemiJoin.thy ===== *)
theory SemiJoin
  imports LimitQuery
begin

text \<open>
  A query with a condition \<open>EXISTS\<close> or \<open>NOT EXISTS\<close> on the heap: a join over two sources, and behind it
  a chain whose first operator is the exists filter on the join's relationship.  The size cache of that
  filter is keyed by the JSON text of the join columns of a node; the key decides the children of a
  node because the join asks for them by those columns only.
\<close>

section \<open>The cache key decides the children of a join\<close>

text \<open>The values of join columns whose JSON texts differ when they do.\<close>

fun key_value :: "val \<Rightarrow> bool" where
  "key_value VNull = True"
| "key_value (VBool b) = True"
| "key_value (VStr s) = True"
| "key_value (VF64 (Fin x)) = True"
| "key_value _ = False"

lemma json_marshal_inj:
  "key_value a \<Longrightarrow> key_value b \<Longrightarrow> json_marshal a = json_marshal b \<Longrightarrow> a = b"
  by (cases a rule: key_value.cases; cases b rule: key_value.cases) simp_all

lemma option_list_Inr: "\<forall>x\<in>set xs. x \<noteq> None \<Longrightarrow> option_list xs = Some (map the xs)"
  by (auto simp: option_list_Some intro!: map_idI [symmetric])

lemma key_value_marshal: "key_value v \<Longrightarrow> json_marshal v \<noteq> None"
  by (cases v rule: key_value.cases) simp_all

lemma getCacheKey_inj:
  assumes key: "getCacheKey m ks = getCacheKey n ks" and k: "k \<in> set ks"
    and ok: "\<forall>k\<in>set ks. key_value (col (Row m) k) \<and> key_value (col (Row n) k)"
  shows "col (Row m) k = col (Row n) k"
proof -
  have doc: "getCacheKey x ks = Some (map (\<lambda>k. the (json_marshal (col (Row x) k))) ks)" if "x = m \<or> x = n" for x
    using ok key_value_marshal that
    by (auto simp: getCacheKey_def json_key_def comp_def option_list_Inr)
  have "the (json_marshal (col (Row m) k)) = the (json_marshal (col (Row n) k))"
    using key k by (simp add: doc)
  then show ?thesis
    using json_marshal_inj [of "col (Row m) k" "col (Row n) k"] key_value_marshal ok k
    by (metis option.expand)
qed

lemma BuildJoinConstraint_cong:
  assumes "\<forall>k\<in>set pk. col r k = col r' k"
  shows "BuildJoinConstraint r pk ck = BuildJoinConstraint r' pk ck"
proof -
  have "BuildJoinConstraint_from r ks c = BuildJoinConstraint_from r' ks c"
    if "\<forall>k\<in>fst ` set ks. col r k = col r' k" for ks c
    using that by (induction ks arbitrary: c) (auto simp: Let_def)
  moreover have "fst ` set (zip pk ck) \<subseteq> set pk" by (auto dest: set_zip_leftD)
  ultimately show ?thesis using assms by (auto simp: BuildJoinConstraint_def)
qed

text \<open>
  Infinite numbers have no JSON text: the marshalling error is ignored, and such nodes share the entry
  of the empty key.
\<close>

lemma infinite_keys_share_an_entry:
  "getCacheKey (leaf [''k'' \<mapsto> VF64 PInf]) [''k''] = getCacheKey (leaf [''k'' \<mapsto> VF64 NInf]) [''k'']"
  by (simp add: getCacheKey_def json_key_def)

text \<open>The children that a join finds for a row, without a change in progress.\<close>

definition related :: "world \<Rightarrow> opid \<Rightarrow> opid \<Rightarrow> row \<Rightarrow> Node list" where
  "related w j k r =
     (case BuildJoinConstraint r (join_parentKey (joins w j)) (join_childKey (joins w j)) of
        None \<Rightarrow> [] | Some c \<Rightarrow> input_view w k (Some c))"

lemma key_decides_cong:
  "(\<And>n. n \<in> N \<Longrightarrow> kids n = kids' n) \<Longrightarrow> key_decides N kids key = key_decides N kids' key"
  by (simp add: key_decides_def)

lemma related_decided:
  assumes "\<forall>n\<in>N. \<forall>k\<in>set (join_parentKey (joins w j)). key_value (col (Row n) k)"
  shows "key_decides N (\<lambda>n. related w j k (Row n)) (join_parentKey (joins w j))"
  unfolding key_decides_def
proof (intro ballI impI)
  fix m n assume mn: "m \<in> N" "n \<in> N" and key: "getCacheKey m (join_parentKey (joins w j)) = getCacheKey n (join_parentKey (joins w j))"
  have "\<forall>k\<in>set (join_parentKey (joins w j)). col (Row m) k = col (Row n) k"
    using getCacheKey_inj [OF key] assms mn by blast
  then show "(related w j k (Row m) = []) = (related w j k (Row n) = [])"
    by (simp add: related_def BuildJoinConstraint_cong [of _ "Row m" "Row n"])
qed

section \<open>A fetch through the exists filter\<close>

text \<open>
  The graph: parents \<open>i\<close> and children \<open>k\<close> joined by \<open>j\<close>, and the chain from its start \<open>f\<close> over the
  exists filter \<open>x\<close>, whose relationship and key are the join's.
\<close>

definition semi_join ::
  "(string \<Rightarrow> vclass) \<Rightarrow> Ordering \<Rightarrow> (string \<Rightarrow> vclass) \<Rightarrow> Ordering \<Rightarrow>
   opid \<Rightarrow> opid \<Rightarrow> opid \<Rightarrow> opid \<Rightarrow> opid \<Rightarrow> world \<Rightarrow> bool"
where
  "semi_join ty order ty' order' i k j f x w \<longleftrightarrow>
     feeds ty order w i \<and> feeds ty' order' w k \<and> kind w j = OpJoin i k \<and>
     kind w f = OpFilterStart j \<and> fstart_output (fstarts w f) = ToOperator x \<and> kind w x = OpExists f \<and>
     exists_relationship (existss w x) = join_relationship (joins w j) \<and>
     parentJoinKey (existss w x) = join_parentKey (joins w j)"

definition parent_nodes :: "Ordering \<Rightarrow> world \<Rightarrow> opid \<Rightarrow> opid \<Rightarrow> FetchRequest \<Rightarrow> Node list" where
  "parent_nodes order w i j req =
     map (processParentNode j (joins w j))
       (select_nodes (MakeComparator order False) req (input_view w i (ReqConstraint req)))"

text \<open>The heap with another cache in the filter.\<close>

definition cached :: "opid \<Rightarrow> world \<Rightarrow> (state_key \<rightharpoonup> bool) \<Rightarrow> world" where
  "cached x w c = w\<lparr>existss := (existss w)(x := (existss w x)\<lparr>exists_cache := c\<rparr>)\<rparr>"

lemma cached_simps [simp]:
  "kind (cached x w c) = kind w" "sources (cached x w c) = sources w" "joins (cached x w c) = joins w"
  "fstarts (cached x w c) = fstarts w" "filters (cached x w c) = filters w"
  "rd (exists_at x) (cached x w c) = (existss w x)\<lparr>exists_cache := c\<rparr>"
  "wr (exists_at x) ((existss w x)\<lparr>exists_cache := d\<rparr>) (cached x w c) = cached x w d"
  "feeds ty order (cached x w c) = feeds ty order w" "input_view (cached x w c) = input_view w"
  "cached x (cached x w c) d = cached x w d"
  by (auto simp: cached_def exists_at_def feeds_def input_view_def fun_eq_iff split: oper.splits)

lemma related_cached [simp]: "related (cached x w c) = related w"
  by (simp add: related_def fun_eq_iff split: option.splits)

lemma cached_same [simp]: "cached x w (exists_cache (existss w x)) = w"
  by (simp add: cached_def)

lemma chain_predicates_cached [simp]: "chain_predicates n (cached x w c) out = chain_predicates n w out"
  by (induction n arbitrary: out) (auto split: Output.splits oper.splits)

lemma force_related:
  assumes g: "semi_join ty order ty' order' i k j f x w"
    and kids: "join_overlay (joins w j) r (related w j k r) = Inr ns"
  shows "c_force (nested (Suc (Suc n))) (ThJoinChild j r) (cached x w c) = (Inr ns, cached x w c)"
proof -
  have k: "feeds ty' order' (cached x w c) k" "kind w j = OpJoin i k"
    using g by (simp_all add: semi_join_def)
  have fetch: "c_fetch (nested (Suc n)) k (key_request co) (cached x w c) = (Inr (input_view w k (Some co)), cached x w c)" for co
    using source_input.fetch [OF k(1), of "key_request co" n] k(1)
    by (simp add: proper_request_def key_request_def select_nodes_def del: nested.simps)
  show ?thesis
    using k(2) kids fetch unfolding nested.simps(2) [of "Suc n"]
    by (auto simp: join_children_def join_at_def related_def simp del: nested.simps split: option.splits)
qed

lemma exists_run:
  assumes g: "semi_join ty order ty' order' i k j f x w" and nd: "nd \<in> N"
    and rel: "rel_of nd (join_relationship (joins w j)) = ThJoinChild j (Row nd)"
    and kids: "join_overlay (joins w j) (Row nd) (related w j k (Row nd)) = Inr (kids nd)"
    and rest: "chain_predicates (Suc (Suc n)) w (exists_output (existss w x)) = Some ps"
      "\<forall>p\<in>set ps. \<exists>b. p (Row nd) = Inr b"
    and ok: "inPush (existss w x) \<or> cache_sound N kids ((existss w x)\<lparr>exists_cache := c\<rparr>) \<and>
      key_decides N kids (join_parentKey (joins w j))"
  shows "\<exists>d. (inPush (existss w x) \<or> cache_sound N kids ((existss w x)\<lparr>exists_cache := d\<rparr>)) \<and>
    c_filter (nested (Suc (Suc (Suc n)))) (ToOperator x) nd (cached x w c) =
      (Inr (exists_not (existss w x) \<noteq> (kids nd \<noteq> []) \<and> (\<forall>p\<in>set ps. holds (p (Row nd)))), cached x w d)"
proof -
  let ?e = "existss w x" and ?w = "cached x w c" and ?c = "nested (Suc (Suc n))"
  have x: "kind w x = OpExists f" "exists_relationship ?e = join_relationship (joins w j)"
    "parentJoinKey ?e = join_parentKey (joins w j)"
    using g by (simp_all add: semi_join_def)
  have "\<exists>d. (inPush (rd (exists_at x) ?w) \<or> cache_sound N kids ((rd (exists_at x) ?w)\<lparr>exists_cache := d\<rparr>)) \<and>
    Exists_Filter (exists_at x) (c_force ?c) (c_filter ?c) nd ?w =
      (if filterWithExists (rd (exists_at x) ?w) (kids nd \<noteq> [])
       then c_filter ?c (exists_output (rd (exists_at x) ?w)) nd (wr (exists_at x) ((rd (exists_at x) ?w)\<lparr>exists_cache := d\<rparr>) ?w)
       else (Inr False, wr (exists_at x) ((rd (exists_at x) ?w)\<lparr>exists_cache := d\<rparr>) ?w))"
    by (rule Exists_Filter_run [OF exists_at.pointer_axioms])
      (use ok nd rel x force_related [OF g kids] in \<open>simp_all del: nested.simps\<close>)
  then obtain d where d: "inPush ?e \<or> cache_sound N kids (?e\<lparr>exists_cache := d\<rparr>)"
    "Exists_Filter (exists_at x) (c_force ?c) (c_filter ?c) nd ?w =
      (if filterWithExists (?e\<lparr>exists_cache := c\<rparr>) (kids nd \<noteq> [])
       then c_filter ?c (exists_output ?e) nd (cached x w d) else (Inr False, cached x w d))"
    by (auto simp del: nested.simps cong: if_cong)
  have "c_filter ?c (exists_output ?e) nd (cached x w d) = (Inr (\<forall>p\<in>set ps. holds (p (Row nd))), cached x w d)"
    by (rule chain_calls(1)) (use rest in simp_all)
  with d x(1) show ?thesis
    unfolding nested.simps(2) [of "Suc (Suc n)"]
    by (intro exI [of _ d]) (auto simp: filterWithExists_def simp del: nested.simps)
qed

lemma exists_run_all:
  assumes g: "semi_join ty order ty' order' i k j f x w" and sub: "set nds \<subseteq> N"
    and each: "\<forall>nd\<in>N. rel_of nd (join_relationship (joins w j)) = ThJoinChild j (Row nd) \<and>
      join_overlay (joins w j) (Row nd) (related w j k (Row nd)) = Inr (kids nd) \<and>
      (\<forall>p\<in>set ps. \<exists>b. p (Row nd) = Inr b)"
    and rest: "chain_predicates (Suc (Suc n)) w (exists_output (existss w x)) = Some ps"
    and ok: "inPush (existss w x) \<or> key_decides N kids (join_parentKey (joins w j))"
    and sound: "inPush (existss w x) \<or> cache_sound N kids ((existss w x)\<lparr>exists_cache := c\<rparr>)"
  shows "\<exists>d. filterM (c_filter (nested (Suc (Suc (Suc n)))) (ToOperator x)) nds (cached x w c) =
    (Inr (filter (\<lambda>nd. exists_not (existss w x) \<noteq> (kids nd \<noteq> []) \<and> (\<forall>p\<in>set ps. holds (p (Row nd)))) nds), cached x w d)"
  using sub sound
proof (induction nds arbitrary: c)
  case (Cons nd nds)
  have nd: "nd \<in> N" using Cons.prems(1) by simp
  obtain d where d: "inPush (existss w x) \<or> cache_sound N kids ((existss w x)\<lparr>exists_cache := d\<rparr>)"
    "c_filter (nested (Suc (Suc (Suc n)))) (ToOperator x) nd (cached x w c) =
      (Inr (exists_not (existss w x) \<noteq> (kids nd \<noteq> []) \<and> (\<forall>p\<in>set ps. holds (p (Row nd)))), cached x w d)"
    using exists_run [OF g nd _ _ rest, where kids = kids and c = c] each nd ok Cons.prems(2) by blast
  obtain d' where "filterM (c_filter (nested (Suc (Suc (Suc n)))) (ToOperator x)) nds (cached x w d) =
    (Inr (filter (\<lambda>nd. exists_not (existss w x) \<noteq> (kids nd \<noteq> []) \<and> (\<forall>p\<in>set ps. holds (p (Row nd)))) nds), cached x w d')"
    using Cons.IH [OF _ d(1)] Cons.prems(1) by (auto simp del: nested.simps)
  with d(2) show ?case by (intro exI [of _ d']) (simp del: nested.simps)
qed (auto intro: exI [of _ c])

lemma chain_outputs:
  assumes "chain_predicates m w out = Some ps"
  shows "c_begin (nested m) out w = (Inr (), w)" "c_end (nested m) out w = (Inr (), w)"
proof -
  have "c_begin (nested m) out w = (Inr (), w) \<and> c_end (nested m) out w = (Inr (), w)"
    using assms by (induction m arbitrary: out ps) (auto simp: filter_at_def split: Output.splits oper.splits)
  then show "c_begin (nested m) out w = (Inr (), w)" "c_end (nested m) out w = (Inr (), w)" by simp_all
qed

text \<open>
  C11. A fetch through an exists filter is a semi-join (or anti-join), whatever its size cache does: the
  parents of the join that the request selects come back in their order, those left out that have no
  child (for NOT EXISTS: that have one) or that a later filter of the chain rejects.  Outside of
  pushes, with the cache empty as every bracket leaves it, values of the key columns that JSON tells
  apart (null, booleans, strings, finite numbers) and no child change in progress, the children of a
  parent are the child rows that its key columns ask for.  During a push of the filter they are those
  that the join shows for the parent at that moment, and no entry of the cache is looked at, whatever
  it holds.  The heap is as before, with the cache empty.
\<close>

theorem exists_fetch_is_semi_join:
  assumes "semi_join ty order ty' order' i k j f x w" "proper_request (full_rows ty order) req"
    and "chain_predicates (Suc (Suc n)) w (exists_output (existss w x)) = Some ps"
      "\<forall>p\<in>set ps. total_on p (full_rows ty order)"
    and "\<forall>nd\<in>set (parent_nodes order w i j req).
      join_overlay (joins w j) (Row nd) (related w j k (Row nd)) = Inr (kids nd)"
    and "inPush (existss w x) \<or>
      exists_cache (existss w x) = Map.empty \<and> inprogressChildChange (joins w j) = None \<and>
      (\<forall>nd\<in>set (parent_nodes order w i j req). \<forall>c\<in>set (join_parentKey (joins w j)). key_value (col (Row nd) c))"
  shows "c_fetch (nested (Suc (Suc (Suc (Suc n))))) f req w =
    (Inr (filter (\<lambda>nd. exists_not (existss w x) \<noteq> (kids nd \<noteq> []) \<and> (\<forall>p\<in>set ps. holds (p (Row nd))))
       (parent_nodes order w i j req)),
     w\<lparr>existss := (existss w)(x := (existss w x)\<lparr>exists_cache := Map.empty\<rparr>)\<rparr>)"
proof -
  let ?N = "set (parent_nodes order w i j req)" and ?c = "nested (Suc (Suc (Suc n)))"
  note g = assms(1) [unfolded semi_join_def]
  have f: "kind w f = OpFilterStart j" "fstart_output (fstarts w f) = ToOperator x"
    and j: "kind w j = OpJoin i k" and x: "kind w x = OpExists f" and i: "feeds ty order w i"
    using g by simp_all
  have fetch: "c_fetch ?c j req w = (Inr (parent_nodes order w i j req), w)"
    using source_input.fetch [OF i assms(2), of "Suc n"]
    unfolding nested.simps(2) [of "Suc (Suc n)"]
    by (simp add: j step_fetch_def Join_Fetch_def parent_nodes_def join_at_def del: nested.simps)
  have rows: "Row nd \<in> full_rows ty order" if "nd \<in> ?N" for nd
    using that source_input.view_rows [OF i, of "ReqConstraint req"]
    by (auto simp: parent_nodes_def processParentNode_def select_nodes_def Let_def split: if_splits option.splits)
  have rel: "rel_of nd (join_relationship (joins w j)) = ThJoinChild j (Row nd)" if "nd \<in> ?N" for nd
    using that by (auto simp: parent_nodes_def processParentNode_def rel_of_def)
  have plain: "exists_cache (existss w x) = Map.empty" "inprogressChildChange (joins w j) = None"
    "\<forall>nd\<in>?N. \<forall>c\<in>set (join_parentKey (joins w j)). key_value (col (Row nd) c)" if "\<not> inPush (existss w x)"
    using disjE [OF assms(6), of "exists_cache (existss w x) = Map.empty \<and> inprogressChildChange (joins w j) = None \<and>
      (\<forall>nd\<in>?N. \<forall>c\<in>set (join_parentKey (joins w j)). key_value (col (Row nd) c))"] that
    by iprover+
  have decided: "inPush (existss w x) \<or> key_decides ?N kids (join_parentKey (joins w j))"
  proof (cases "inPush (existss w x)")
    case False
    have "kids nd = related w j k (Row nd)" if "nd \<in> ?N" for nd
      using bspec [OF assms(5) that] plain(2) [OF False] by (simp add: join_overlay_def)
    then have "key_decides ?N kids (join_parentKey (joins w j)) =
        key_decides ?N (\<lambda>nd. related w j k (Row nd)) (join_parentKey (joins w j))"
      by (rule key_decides_cong)
    with related_decided [OF plain(3) [OF False], of k] show ?thesis by simp
  qed (rule disjI1)
  have sound: "inPush (existss w x) \<or> cache_sound ?N kids ((existss w x)\<lparr>exists_cache := exists_cache (existss w x)\<rparr>)"
  proof (cases "inPush (existss w x)")
    case False
    show ?thesis unfolding plain(1) [OF False] cache_sound_def by simp
  qed (rule disjI1)
  have each: "\<forall>nd\<in>?N. rel_of nd (join_relationship (joins w j)) = ThJoinChild j (Row nd) \<and>
      join_overlay (joins w j) (Row nd) (related w j k (Row nd)) = Inr (kids nd) \<and> (\<forall>p\<in>set ps. \<exists>b. p (Row nd) = Inr b)"
  proof (intro ballI conjI)
    fix nd assume nd: "nd \<in> ?N"
    show "rel_of nd (join_relationship (joins w j)) = ThJoinChild j (Row nd)" by (rule rel [OF nd])
    show "join_overlay (joins w j) (Row nd) (related w j k (Row nd)) = Inr (kids nd)" by (rule bspec [OF assms(5) nd])
    show "\<exists>b. p (Row nd) = Inr b" if "p \<in> set ps" for p
      using bspec [OF assms(4) that] rows [OF nd] by (simp add: total_on_def)
  qed
  from exists_run_all [OF assms(1) subset_refl each assms(3) decided sound]
  obtain d where run: "filterM (c_filter ?c (ToOperator x)) (parent_nodes order w i j req) w =
    (Inr (filter (\<lambda>nd. exists_not (existss w x) \<noteq> (kids nd \<noteq> []) \<and> (\<forall>p\<in>set ps. holds (p (Row nd))))
       (parent_nodes order w i j req)), cached x w d)"
    unfolding cached_same ..
  have out: "chain_predicates (Suc (Suc n)) (cached x w c) (exists_output (existss w x)) = Some ps" for c
    unfolding chain_predicates_cached by (rule assms(3))
  have begin_x: "c_begin ?c (ToOperator x) w = (Inr (), w)"
    using chain_outputs(1) [OF assms(3)] unfolding nested.simps(2) [of "Suc (Suc n)"]
    by (simp add: x Exists_Begin_def exists_at_def del: nested.simps)
  have end_x: "c_end ?c (ToOperator x) (cached x w d) = (Inr (), cached x w Map.empty)"
    using chain_outputs(2) [OF out [of Map.empty]] unfolding nested.simps(2) [of "Suc (Suc n)"]
    by (simp add: x Exists_End_def del: nested.simps)
  show ?thesis
    unfolding nested.simps(2) [of "Suc (Suc (Suc n))"] cached_def [symmetric]
    using fetch run begin_x end_x
    by (simp add: f step_fetch_def FilterStart_Fetch_def finallyM_def fstart_at_def del: nested.simps)
qed

text \<open>
  The items that a connection sees during the push of item 3, joined by \<open>id\<close> with those that a second
  connection, to which the change was not yet pushed, sees: the items 4 and 1.
\<close>

definition semi_world :: world where
  "semi_world = empty_world\<lparr>kind := (\<lambda>_. OpNone)(0 := OpSource 0 2, 1 := OpSource 0 1, 2 := OpJoin 0 1,
       3 := OpFilterStart 2, 4 := OpExists 3, 5 := OpFilterEnd 3 4),
     sources := (\<lambda>_. pending_add), joins := (\<lambda>_. one_join\<lparr>inprogressChildChange := None\<rparr>),
     fstarts := (\<lambda>_. \<lparr>fstart_schema = item_schema, fstart_output = ToOperator 4\<rparr>),
     existss := (\<lambda>_. one_exists\<lparr>exists_output := ToOperator 5\<rparr>)\<rparr>"

lemma pending_add_first [simp]:
  "conn_Sort (conns pending_add (Suc 0)) = item_order" "FilterPredicate (conns pending_add (Suc 0)) = None"
  "LastPushedEpoch (conns pending_add (Suc 0)) = 0"
  by (simp_all add: pending_add_def wired_def set_epoch_def Connect_def SourceInput_SetOutput_def items_def
      NewMemorySourceWithConverter_def item_order_def Let_def)

lemma pending_add_visible [simp]: "visible pending_add (conns pending_add (Suc 0)) = map item [1, 2, 4]"
  by (simp add: visible_def)

lemma item_full_first: "item n \<in> full_rows (\<lambda>_. CNum) item_order"
  by (simp add: full_rows_def) (simp add: item_def item_order_def col_def)

lemma pending_add_good_first: "source_good (\<lambda>_. CNum) item_order pending_add (Suc 0)"
  using pending_add_good item_full_first
  by (simp add: source_good_def pending_rows_def separates_def cval_def)

lemma semi_world_simps [simp]:
  "joins semi_world j = one_join\<lparr>inprogressChildChange := None\<rparr>"
  "existss semi_world x = one_exists\<lparr>exists_output := ToOperator 5\<rparr>"
  "input_view semi_world 0 = source_view pending_add 2" "input_view semi_world (Suc 0) = source_view pending_add (Suc 0)"
  by (auto simp: semi_world_def input_view_def)

lemma item_only: "holds (ConstraintMatchesRow (Some [(''id'', num n)]) (item m)) \<longleftrightarrow> m = n"
  by (auto simp: ConstraintMatchesRow_def holds_def)

lemma semi_world_related: "related semi_world 2 (Suc 0) (item n) = map leaf (filter (\<lambda>r. r = item n) (map item [1, 2, 4]))"
  by (simp add: related_def one_join_def BuildJoinConstraint_def source_view_def item_only filter_keeps_def
      sort_by_def insert_by_Cons ltc_def cval_def)

theorem exists_fetch_is_semi_join_witness:
  "\<exists>w'. c_fetch (nested 4) 3 empty_request semi_world =
    (Inr (map (processParentNode 2 (joins semi_world 2)) [leaf (item 4), leaf (item 1)]), w')"
proof -
  have g: "semi_join (\<lambda>_. CNum) down_order (\<lambda>_. CNum) item_order 0 1 2 3 4 semi_world"
    using pending_add_good pending_add_good_first
    by (simp add: semi_join_def feeds_def semi_world_def one_exists_def one_join_def)
  have nodes: "parent_nodes down_order semi_world 0 2 empty_request =
      map (processParentNode 2 (joins semi_world 2)) [leaf (item 4), leaf (item 3), leaf (item 1)]"
    using pending_add_view by (simp add: parent_nodes_def input_view_def semi_world_def empty_request_def select_nodes_def)
  have chain: "chain_predicates (Suc (Suc 0)) semi_world (exists_output (existss semi_world 4)) = Some []"
    by (simp add: semi_world_def)
  let ?keep = "\<lambda>nd. exists_not (existss semi_world 4) \<noteq> (related semi_world 2 1 (Row nd) \<noteq> []) \<and> (\<forall>p\<in>set []. holds (p (Row nd)))"
  have four: "(4::nat) = Suc (Suc (Suc (Suc 0)))" by simp
  have kept: "filter ?keep (parent_nodes down_order semi_world 0 2 empty_request) =
      map (processParentNode 2 (joins semi_world 2)) [leaf (item 4), leaf (item 1)]"
    unfolding nodes by (simp add: processParentNode_def semi_world_related one_exists_def)
  have "c_fetch (nested (Suc (Suc (Suc (Suc 0))))) 3 empty_request semi_world =
    (Inr (filter ?keep (parent_nodes down_order semi_world 0 2 empty_request)),
     semi_world\<lparr>existss := (existss semi_world)(4 := (existss semi_world 4)\<lparr>exists_cache := Map.empty\<rparr>)\<rparr>)"
  proof (rule exists_fetch_is_semi_join [OF g _ chain])
    show "inPush (existss semi_world 4) \<or> exists_cache (existss semi_world 4) = Map.empty \<and>
      inprogressChildChange (joins semi_world 2) = None \<and>
      (\<forall>nd\<in>set (parent_nodes down_order semi_world 0 2 empty_request).
        \<forall>c\<in>set (join_parentKey (joins semi_world 2)). key_value (col (Row nd) c))"
      unfolding nodes by (simp add: semi_world_def one_exists_def one_join_def processParentNode_def)
  qed (simp_all add: proper_request_def empty_request_def join_overlay_def semi_world_def)
  then show ?thesis unfolding kept unfolding four by (rule exI)
qed

end
