(* ===== verification/Strconv.thy ===== *)
theory Strconv
  imports Values
begin

text \<open>
  What the program uses of Go's \<open>strconv\<close>, \<open>fmt\<close> and \<open>strings\<close>: \<open>strconv.ParseFloat\<close>, the \<open>%v\<close>
  format of a value, and \<open>strings.ToLower\<close>.

  A string is its list of bytes.  \<open>ToLower\<close> takes its fast path on ASCII text; what it does to other
  text is that of the Unicode tables, the parameter \<open>unicode\<close> of \<open>ToLower\<close>.
\<close>

section \<open>Rounding a rational to a binary format\<close>

definition pow_r :: "nat \<Rightarrow> int \<Rightarrow> rat" where
  "pow_r b e = (if e \<ge> 0 then of_nat b ^ nat e else 1 / of_nat b ^ nat (- e))"

definition floor_log2 :: "rat \<Rightarrow> int" where
  "floor_log2 x =
     (let (n, d) = quotient_of x; e = bitlen n - bitlen d
      in if pow_r 2 e \<le> x then e else e - 1)"

definition round_even :: "rat \<Rightarrow> int" where
  "round_even x =
     (let q = \<lfloor>x\<rfloor>; r = x - of_int q in if 2 * r < 1 \<or> (2 * r = 1 \<and> even q) then q else q + 1)"

text \<open>A binary format: precision, exponent of its smallest unit, exponent of its overflow.\<close>

record float_format =
  precision :: int
  min_exp :: int
  max_exp :: int

definition binary64 :: float_format where
  "binary64 = \<lparr>precision = 53, min_exp = -1074, max_exp = 1024\<rparr>"

definition binary32 :: float_format where
  "binary32 = \<lparr>precision = 24, min_exp = -149, max_exp = 128\<rparr>"

definition unit_exp :: "float_format \<Rightarrow> rat \<Rightarrow> int" where
  "unit_exp ff x = max (floor_log2 \<bar>x\<bar> - precision ff + 1) (min_exp ff)"

definition f64_round :: "float_format \<Rightarrow> rat \<Rightarrow> f64" where
  "f64_round ff x =
     (if x = 0 then Fin 0
      else let u = pow_r 2 (unit_exp ff x); y = of_int (round_even (\<bar>x\<bar> / u)) * u
           in if y \<ge> pow_r 2 (max_exp ff) then (if x > 0 then PInf else NInf) else Fin (sgn x * y))"

section \<open>ParseFloat\<close>

definition byte :: "char \<Rightarrow> int" where
  "byte c = int (of_char c)"

definition is_digit :: "char \<Rightarrow> bool" where
  "is_digit c \<longleftrightarrow> CHR ''0'' \<le> c \<and> c \<le> CHR ''9''"

definition ascii_lower :: "char \<Rightarrow> char" where
  "ascii_lower c = (if CHR ''A'' \<le> c \<and> c \<le> CHR ''Z'' then char_of (nat (byte c) + 32) else c)"

definition is_hex :: "char \<Rightarrow> bool" where
  "is_hex c \<longleftrightarrow> is_digit c \<or> (CHR ''a'' \<le> ascii_lower c \<and> ascii_lower c \<le> CHR ''f'')"

definition digit_value :: "char \<Rightarrow> int" where
  "digit_value c = (if is_digit c then byte c - 48 else byte (ascii_lower c) - 87)"

text \<open>
  The mantissa: its digits as one integer, the number of them behind the point, whether there was a
  digit, and the rest of the text.  Underscores are skipped here and judged by \<open>underscoreOK\<close>.
\<close>

fun read_mantissa :: "bool \<Rightarrow> bool \<Rightarrow> bool \<Rightarrow> int \<Rightarrow> int \<Rightarrow> string \<Rightarrow> int \<times> int \<times> bool \<times> string" where
  "read_mantissa hex dot some m k [] = (m, k, some, [])"
| "read_mantissa hex dot some m k (c # cs) =
     (if c = CHR ''_'' then read_mantissa hex dot some m k cs
      else if c = CHR ''.'' then
        (if dot then (m, k, some, c # cs) else read_mantissa hex True some m k cs)
      else if is_digit c \<or> (hex \<and> is_hex c) then
        read_mantissa hex dot True (m * (if hex then 16 else 10) + digit_value c) (if dot then k + 1 else k) cs
      else (m, k, some, c # cs))"

text \<open>The digits of an exponent: they stop counting at 10000.\<close>

fun read_exponent :: "int \<Rightarrow> string \<Rightarrow> int \<times> string" where
  "read_exponent e [] = (e, [])"
| "read_exponent e (c # cs) =
     (if is_digit c then read_exponent (if e < 10000 then e * 10 + digit_value c else e) cs
      else if c = CHR ''_'' then read_exponent e cs
      else (e, c # cs))"

fun read_sign :: "string \<Rightarrow> int \<times> string" where
  "read_sign [] = (1, [])"
| "read_sign (c # cs) = (if c = CHR ''+'' then (1, cs) else if c = CHR ''-'' then (-1, cs) else (1, c # cs))"

fun has_prefix :: "string \<Rightarrow> bool" where
  "has_prefix (z # x # cs) = (z = CHR ''0'' \<and> ascii_lower x \<in> {CHR ''b'', CHR ''o'', CHR ''x''})"
| "has_prefix _ = False"

datatype seen = SawStart | SawDigit | SawUnderscore | SawOther

fun underscores_ok :: "bool \<Rightarrow> seen \<Rightarrow> string \<Rightarrow> bool" where
  "underscores_ok hex saw [] = (saw \<noteq> SawUnderscore)"
| "underscores_ok hex saw (c # cs) =
     (if is_digit c \<or> (hex \<and> is_hex c) then underscores_ok hex SawDigit cs
      else if c = CHR ''_'' then saw = SawDigit \<and> underscores_ok hex SawUnderscore cs
      else saw \<noteq> SawUnderscore \<and> underscores_ok hex SawOther cs)"

definition underscoreOK :: "string \<Rightarrow> bool" where
  "underscoreOK s =
     (let t = snd (read_sign s)
      in if has_prefix t then underscores_ok (ascii_lower (t ! 1) = CHR ''x'') SawDigit (drop 2 t)
         else underscores_ok False SawStart t)"

text \<open>A number with its whole text consumed, as the rational it denotes.\<close>

definition is_hex_literal :: "string \<Rightarrow> bool" where
  "is_hex_literal t \<longleftrightarrow> length t > 2 \<and> t ! 0 = CHR ''0'' \<and> ascii_lower (t ! 1) = CHR ''x''"

definition scale :: "bool \<Rightarrow> int \<Rightarrow> int \<Rightarrow> rat" where
  "scale hex k e = (if hex then pow_r 2 (e - 4 * k) else pow_r 10 (e - k))"

definition read_number :: "string \<Rightarrow> rat option" where
  "read_number s =
     (let (sign, t) = read_sign s; hex = is_hex_literal t;
          (m, k, some, u) = read_mantissa hex False False 0 0 (if hex then drop 2 t else t);
          value = (\<lambda>e. of_int (sign * m) * scale hex k e)
      in if \<not> some \<or> (CHR ''_'' \<in> set s \<and> \<not> underscoreOK s) then None
         else if u = [] then (if hex then None else Some (value 0))
         else if ascii_lower (hd u) \<noteq> (if hex then CHR ''p'' else CHR ''e'') then None
         else let (esign, v) = read_sign (tl u); (e, rest) = read_exponent 0 v
              in if v = [] \<or> \<not> is_digit (hd v) \<or> rest \<noteq> [] then None else Some (value (esign * e)))"

text \<open>\<open>inf\<close>, \<open>infinity\<close> with an optional sign, and \<open>nan\<close>; otherwise a number that does not overflow.\<close>

definition ParseFloat :: "string \<Rightarrow> f64 option" where
  "ParseFloat s =
     (let (sign, t) = read_sign s; l = map ascii_lower t
      in if l = ''inf'' \<or> l = ''infinity'' then Some (if sign = 1 then PInf else NInf)
         else if map ascii_lower s = ''nan'' then Some NaN
         else case read_number s of
             None \<Rightarrow> None
           | Some x \<Rightarrow> (case f64_round binary64 x of Fin y \<Rightarrow> Some (Fin y) | _ \<Rightarrow> None))"

section \<open>The format %v\<close>

function decimal :: "int \<Rightarrow> string" where
  "decimal n = (if n < 10 then [char_of (48 + nat n)] else decimal (n div 10) @ [char_of (48 + nat (n mod 10))])"
  by pat_completeness auto
termination
  by (relation "measure nat") auto

declare decimal.simps [simp del]

text \<open>Reading the digits back gives the number, so different numbers have different texts.\<close>

lemma digit_char:
  assumes "0 \<le> d" "d < 10"
  shows "is_digit (char_of (48 + nat d))" "digit_value (char_of (48 + nat d)) = d"
proof -
  have "d = 0 \<or> d = 1 \<or> d = 2 \<or> d = 3 \<or> d = 4 \<or> d = 5 \<or> d = 6 \<or> d = 7 \<or> d = 8 \<or> d = 9"
    using assms by presburger
  then show "is_digit (char_of (48 + nat d))" "digit_value (char_of (48 + nat d)) = d"
    by (elim disjE; simp add: is_digit_def digit_value_def byte_def less_eq_char_def)+
qed

lemma decimal_value: "0 \<le> n \<Longrightarrow> foldl (\<lambda>a c. a * 10 + digit_value c) 0 (decimal n) = n"
proof (induction n rule: decimal.induct)
  case (1 n)
  then show ?case
    using digit_char [of n] digit_char [of "n mod 10"] by (subst decimal.simps) (auto simp: div_mult_mod_eq)
qed

lemma decimal_digits: "0 \<le> n \<Longrightarrow> c \<in> set (decimal n) \<Longrightarrow> is_digit c"
proof (induction n rule: decimal.induct)
  case (1 n)
  then show ?case
    using digit_char [of n] digit_char [of "n mod 10"] decimal.simps [of n] by (auto split: if_splits)
qed

definition int_text :: "int \<Rightarrow> string" where
  "int_text n = (if n < 0 then CHR ''-'' # decimal (- n) else decimal n)"

text \<open>The exponent of the first decimal digit of a positive rational.\<close>

definition floor_log10 :: "rat \<Rightarrow> int" where
  "floor_log10 x =
     (let e = floor_log2 x * 30103 div 100000
      in if x < pow_r 10 e then e - 1 else if pow_r 10 (e + 1) \<le> x then e + 1 else e)"

text \<open>
  The shortest digits that read back as the same float: the bounds are half way to the neighbours
  and belong to the float when its mantissa is even.
\<close>

definition lower_bound :: "float_format \<Rightarrow> rat \<Rightarrow> rat" where
  "lower_bound ff x =
     (let e = unit_exp ff x
      in if x = pow_r 2 (e + precision ff - 1) \<and> e > min_exp ff then x - pow_r 2 (e - 2) else x - pow_r 2 (e - 1))"

definition upper_bound :: "float_format \<Rightarrow> rat \<Rightarrow> rat" where
  "upper_bound ff x = x + pow_r 2 (unit_exp ff x - 1)"

definition reads_back :: "float_format \<Rightarrow> rat \<Rightarrow> rat \<Rightarrow> bool" where
  "reads_back ff x y =
     (let incl = even \<lfloor>x / pow_r 2 (unit_exp ff x)\<rfloor>
      in (lower_bound ff x < y \<or> (incl \<and> lower_bound ff x = y)) \<and>
         (y < upper_bound ff x \<or> (incl \<and> y = upper_bound ff x)))"

definition digits_with :: "float_format \<Rightarrow> rat \<Rightarrow> int \<Rightarrow> int option" where
  "digits_with ff x k =
     (let u = pow_r 10 k; down = \<lfloor>x / u\<rfloor>; up = \<lceil>x / u\<rceil>;
          okdown = reads_back ff x (of_int down * u); okup = reads_back ff x (of_int up * u)
      in if okdown \<and> okup then Some (round_even (x / u))
         else if okdown then Some down else if okup then Some up else None)"

text \<open>The digits as an integer and the exponent of its last digit; 17 digits always suffice.\<close>

fun shortest_from :: "float_format \<Rightarrow> rat \<Rightarrow> nat \<Rightarrow> int \<Rightarrow> int \<times> int" where
  "shortest_from ff x 0 k = (round_even (x / pow_r 10 k), k)"
| "shortest_from ff x (Suc n) k =
     (case digits_with ff x k of Some d \<Rightarrow> (d, k) | None \<Rightarrow> shortest_from ff x n (k - 1))"

definition shortest_digits :: "float_format \<Rightarrow> rat \<Rightarrow> int \<times> int" where
  "shortest_digits ff x = shortest_from ff x 17 (floor_log10 x)"

definition strip_zeros :: "string \<Rightarrow> string" where
  "strip_zeros s = rev (dropWhile (\<lambda>c. c = CHR ''0'') (rev s))"

text \<open>
  \<open>%g\<close> with the shortest precision: an exponent below -4 or from 6 on is written as \<open>%e\<close>.  The sign
  of a negative zero is not kept.
\<close>

definition exponent_text :: "int \<Rightarrow> string" where
  "exponent_text e =
     (if e < 0 then ''-'' else ''+'') @ (if \<bar>e\<bar> < 10 then ''0'' else []) @ decimal \<bar>e\<bar>"

definition digits_text :: "string \<Rightarrow> int \<Rightarrow> string" where
  "digits_text ds e =
     (let n = int (length ds)
      in if e < -4 \<or> e \<ge> 6 then
           take 1 ds @ (if n > 1 then CHR ''.'' # drop 1 ds else []) @ CHR ''e'' # exponent_text e
         else if e < 0 then ''0.'' @ replicate (nat (- e - 1)) (CHR ''0'') @ ds
         else if n \<le> e + 1 then ds @ replicate (nat (e + 1 - n)) (CHR ''0'')
         else take (nat (e + 1)) ds @ CHR ''.'' # drop (nat (e + 1)) ds)"

fun float_text :: "float_format \<Rightarrow> f64 \<Rightarrow> string" where
  "float_text ff NaN = ''NaN''"
| "float_text ff PInf = ''+Inf''"
| "float_text ff NInf = ''-Inf''"
| "float_text ff (Fin x) =
     (if x = 0 then ''0''
      else let (d, k) = shortest_digits ff \<bar>x\<bar>; ds = decimal d
           in (if x < 0 then ''-'' else []) @ digits_text (strip_zeros ds) (k + int (length ds) - 1))"

text \<open>\<open>strconv.FormatFloat(x, 'f', -1, 64)\<close>: never an exponent.\<close>

fun fixed_text :: "float_format \<Rightarrow> f64 \<Rightarrow> string" where
  "fixed_text ff (Fin x) =
     (if x = 0 then ''0''
      else let (d, k) = shortest_digits ff \<bar>x\<bar>; ds = decimal d; e = k + int (length ds) - 1; t = strip_zeros ds; n = int (length t)
           in (if x < 0 then ''-'' else []) @
             (if e < 0 then ''0.'' @ replicate (nat (- e - 1)) (CHR ''0'') @ t
              else if n \<le> e + 1 then t @ replicate (nat (e + 1 - n)) (CHR ''0'')
              else take (nat (e + 1)) t @ CHR ''.'' # drop (nat (e + 1)) t))"
| "fixed_text ff x = float_text ff x"

definition join_text :: "string list \<Rightarrow> string" where
  "join_text ts = concat (case ts of [] \<Rightarrow> [] | t # us \<Rightarrow> t # map (\<lambda>u. CHR '' '' # u) us)"

fun fmt_v :: "val \<Rightarrow> string" where
  "fmt_v VNull = ''<nil>''"
| "fmt_v (VBool b) = (if b then ''true'' else ''false'')"
| "fmt_v (VStr s) = s"
| "fmt_v (VInt k n) = int_text n"
| "fmt_v (VF64 x) = float_text binary64 x"
| "fmt_v (VF32 x) = float_text binary32 x"
| "fmt_v (VBytes s) = ''['' @ join_text (map (\<lambda>c. decimal (byte c)) s) @ '']''"
| "fmt_v (VJNum s) = s"
| "fmt_v (VArr vs) = ''['' @ join_text (map fmt_v vs) @ '']''"
| "fmt_v (VObj kvs) =
     ''map['' @ join_text (map (\<lambda>(k, t). k @ CHR '':'' # t) (sort_key fst (map (\<lambda>(k, v). (k, fmt_v v)) kvs))) @ '']''"

section \<open>ToLower\<close>

definition ToLower :: "(string \<Rightarrow> string) \<Rightarrow> string \<Rightarrow> string" where
  "ToLower unicode s = (if \<forall>c\<in>set s. byte c < 128 then map ascii_lower s else unicode s)"

end
