(* ===== verification/Normalize.thy ===== *)
theory Normalize
  imports Source Strconv
begin

text \<open>
  Coercing the values of a row to the column types: \<open>NormalizeRow\<close> of \<open>ivm/source.go\<close>, and the
  conversions between column types and SQLite values of \<open>sqlite/query_builder.go\<close>, one of which the
  sidecar installs as the converter of its sources.

  The columns of a source have distinct names, so the order of Go's map iteration does not matter.
  \<open>json.Unmarshal\<close> and \<open>json.Marshal\<close> on texts are parameters.
\<close>

section \<open>Without a converter\<close>

text \<open>\<open>None\<close>: the value is left as it is.\<close>

fun number_value :: "val \<Rightarrow> val option" where
  "number_value (VJNum s) = map_option VF64 (ParseFloat s)"
| "number_value (VBool b) = Some (num (if b then 1 else 0))"
| "number_value (VInt KInt64 n) = Some (VF64 (f64_of_int n))"
| "number_value (VInt KUint64 n) = Some (VF64 (f64_of_int n))"
| "number_value (VInt KInt n) = Some (VF64 (f64_of_int n))"
| "number_value _ = None"

fun boolean_value :: "val \<Rightarrow> val option" where
  "boolean_value (VF64 x) = Some (VBool (x \<noteq> Fin 0))"
| "boolean_value (VJNum s) = map_option (\<lambda>x. VBool (x \<noteq> Fin 0)) (ParseFloat s)"
| "boolean_value (VInt KInt64 n) = Some (VBool (n \<noteq> 0))"
| "boolean_value (VInt KUint64 n) = Some (VBool (n \<noteq> 0))"
| "boolean_value (VInt KInt n) = Some (VBool (n \<noteq> 0))"
| "boolean_value _ = None"

definition plain_value :: "string \<Rightarrow> val \<Rightarrow> val" where
  "plain_value colType v =
     (case (if colType = ''number'' then number_value v
            else if colType = ''boolean'' then boolean_value v else None) of
        None \<Rightarrow> v | Some v' \<Rightarrow> v')"

fun normalize_columns :: "(val \<Rightarrow> string \<Rightarrow> val res) \<Rightarrow> (string \<times> string) list \<Rightarrow> row \<Rightarrow> row res" where
  "normalize_columns conv [] r = Inr r"
| "normalize_columns conv ((c, t) # cols) r =
     (case r c of
        None \<Rightarrow> normalize_columns conv cols r
      | Some v \<Rightarrow> bindR (conv v t) (\<lambda>v'. normalize_columns conv cols (r(c \<mapsto> v'))))"

definition NormalizeRow :: "MemorySource \<Rightarrow> row \<Rightarrow> row res" where
  "NormalizeRow ms r =
     (case converter ms of
        Some conv \<Rightarrow> normalize_columns conv (columns ms) r
      | None \<Rightarrow> normalize_columns (\<lambda>v t. Inr (plain_value t v)) (columns ms) r)"

section \<open>SQLite values\<close>

definition parsed_or :: "val \<Rightarrow> string \<Rightarrow> val" where
  "parsed_or v s = (case ParseFloat s of None \<Rightarrow> v | Some f \<Rightarrow> VF64 f)"

fun boolean_from :: "val \<Rightarrow> val" where
  "boolean_from (VInt KInt64 n) = VBool (n \<noteq> 0)"
| "boolean_from (VInt KUint64 n) = VBool (n \<noteq> 0)"
| "boolean_from (VF64 x) = VBool (x \<noteq> Fin 0)"
| "boolean_from (VStr s) =
     (if s = ''1'' \<or> s = ''1.0'' \<or> s = ''true'' then VBool True
      else case ParseFloat s of Some f \<Rightarrow> VBool (f \<noteq> Fin 0) | None \<Rightarrow> VBool False)"
| "boolean_from v = v"

fun number_from :: "val \<Rightarrow> val" where
  "number_from (VInt KInt64 n) = VF64 (f64_of_int n)"
| "number_from (VInt KUint64 n) = VF64 (f64_of_int n)"
| "number_from (VStr s) = parsed_or (VStr s) s"
| "number_from (VBytes s) = parsed_or (VBytes s) s"
| "number_from (VBool b) = num (if b then 1 else 0)"
| "number_from v = v"

text \<open>\<open>unmarshal\<close> parses a JSON text.\<close>

fun json_from :: "(string \<Rightarrow> val option) \<Rightarrow> val \<Rightarrow> val" where
  "json_from unmarshal (VStr s) = (case unmarshal s of None \<Rightarrow> VStr s | Some v \<Rightarrow> v)"
| "json_from unmarshal (VBytes s) = (case unmarshal s of None \<Rightarrow> VStr s | Some v \<Rightarrow> v)"
| "json_from unmarshal v = v"

fun string_from :: "val \<Rightarrow> val" where
  "string_from (VBytes s) = VStr s"
| "string_from (VStr s) = VStr s"
| "string_from (VInt KInt64 n) = VStr (int_text n)"
| "string_from (VF64 x) = VStr (fixed_text binary64 x)"
| "string_from v = VStr (fmt_v v)"

definition FromSQLiteType :: "(string \<Rightarrow> val option) \<Rightarrow> val \<Rightarrow> string \<Rightarrow> val" where
  "FromSQLiteType unmarshal v colType =
     (if v = VNull then VNull
      else if colType = ''boolean'' then boolean_from v
      else if colType = ''number'' then number_from v
      else if colType = ''json'' then json_from unmarshal v
      else if colType = ''string'' then string_from v
      else v)"

text \<open>\<open>marshal\<close> writes a value as JSON text; an untyped 1 or 0 is an \<open>int\<close>.\<close>

definition ToSQLiteType :: "(val \<Rightarrow> string option) \<Rightarrow> val \<Rightarrow> string \<Rightarrow> val" where
  "ToSQLiteType marshal v colType =
     (if v = VNull then VNull
      else if colType = ''boolean'' then
        (case v of VBool b \<Rightarrow> VInt KInt (if b then 1 else 0) | _ \<Rightarrow> v)
      else if colType = ''json'' then
        (case v of
           VStr s \<Rightarrow> VStr s
         | _ \<Rightarrow> (case marshal v of Some s \<Rightarrow> VStr s | None \<Rightarrow> VStr (fmt_v v)))
      else v)"

end
