(* ===== verification/Ast.thy ===== *)
theory Ast
  imports Strconv Nodes
begin

text \<open>
  The query syntax of \<open>builder/ast.go\<close> and the conversion of a condition to a row predicate,
  \<open>builder/filter.go\<close>.

  The Go types are kept as they are: a condition is one struct whose \<open>Type\<close> says which fields count.
  A pointer that may be nil is an option; a nil slice and an empty one are the same list.
\<close>

section \<open>Syntax\<close>

record Bound =
  BoundRow :: row
  Exclusive :: bool

record ValuePos =
  vp_type :: string
  vp_value :: val
  vp_name :: string
  vp_anchor :: string
  vp_field :: val

record Correlation =
  ParentField :: "string list"
  ChildField :: "string list"

datatype AST = AST
  (ast_Schema: string)
  (ast_Table: string)
  (ast_Alias: string)
  (ast_Where: "Condition option")
  (ast_Related: "CorrelatedSubquery list")
  (ast_Start: "Bound option")
  (ast_Limit: "int option")
  (ast_OrderBy: Ordering)
and Condition = Condition
  (cond_type: string)
  (cond_op: string)
  (cond_left: "ValuePos option")
  (cond_right: "ValuePos option")
  (conditions: "Condition list")
  (cond_related: "CorrelatedSubquery option")
  (cond_flip: bool)
  (cond_scalar: bool)
and CorrelatedSubquery = CorrelatedSubquery
  (csq_correlation: Correlation)
  (csq_subquery: AST)
  (csq_system: string)
  (csq_hidden: bool)

text \<open>The conditions built by the program itself, with the other fields zero.\<close>

definition compound :: "string \<Rightarrow> Condition list \<Rightarrow> Condition" where
  "compound ty cs = Condition ty [] None None cs None False False"

lemma compound_simps [simp]:
  "cond_type (compound ty cs) = ty" "conditions (compound ty cs) = cs"
  "cond_op (compound ty cs) = []" "cond_related (compound ty cs) = None"
  by (simp_all add: compound_def)

lemma size_conditions [termination_simp]: "d \<in> set (conditions c) \<Longrightarrow> size d < size c"
  by (cases c) (auto dest: size_list_estimation' [where f = size and y = "size d", OF _ order_refl])

section \<open>Operators\<close>

definition resolveValue :: "ValuePos option \<Rightarrow> row \<Rightarrow> val res" where
  "resolveValue vp r =
     (case vp of
        None \<Rightarrow> Inr VNull
      | Some v \<Rightarrow>
          if vp_type v = ''column'' then Inr (col r (vp_name v))
          else if vp_type v = ''literal'' then Inr (vp_value v)
          else if vp_type v = ''static''
          then Inl (Panic ''static parameters must be bound before predicate construction'')
          else Inr (vp_value v))"

fun numericToFloat64 :: "val \<Rightarrow> f64 option" where
  "numericToFloat64 (VF64 x) = Some x"
| "numericToFloat64 (VInt KInt64 n) = Some (f64_of_int n)"
| "numericToFloat64 (VInt KUint64 n) = Some (f64_of_int n)"
| "numericToFloat64 (VInt KInt n) = Some (f64_of_int n)"
| "numericToFloat64 (VInt KInt32 n) = Some (f64_of_int n)"
| "numericToFloat64 (VInt KUint32 n) = Some (f64_of_int n)"
| "numericToFloat64 (VF32 x) = Some x"
| "numericToFloat64 _ = None"

text \<open>A string against a number: equal when it parses to a number equal to it.\<close>

fun coerced_eq :: "f64 option \<Rightarrow> val \<Rightarrow> bool option" where
  "coerced_eq (Some x) (VStr s) = map_option (f64_eq x) (ParseFloat s)"
| "coerced_eq _ _ = None"

definition valuesIdentical :: "val \<Rightarrow> val \<Rightarrow> bool res" where
  "valuesIdentical a b =
     (if a = VNull \<and> b = VNull then Inr True
      else if a = VNull \<or> b = VNull then Inr False
      else bindR (iface_eq a b) (\<lambda>eq.
        if eq then Inr True
        else case (numericToFloat64 a, numericToFloat64 b) of
            (Some af, Some bf) \<Rightarrow> Inr (f64_eq af bf)
          | (af, bf) \<Rightarrow>
              (case coerced_eq af b of
                 Some e \<Rightarrow> Inr e
               | None \<Rightarrow> Inr (case coerced_eq bf a of Some e \<Rightarrow> e | None \<Rightarrow> False))))"

text \<open>
  \<open>likeMatch s p si pj\<close> is the loop on \<open>pj\<close>; a \<open>%\<close> tries every rest of the text with the rest of the
  pattern.
\<close>

function likeMatch :: "string \<Rightarrow> string \<Rightarrow> nat \<Rightarrow> nat \<Rightarrow> bool" where
  "likeMatch s p si pj =
     (if pj < length p then
        (if p ! pj = CHR ''%'' then list_ex (\<lambda>i. likeMatch s p i (pj + 1)) [si..<length s + 1]
         else if p ! pj = CHR ''_'' then
           (if si \<ge> length s then False else likeMatch s p (si + 1) (pj + 1))
         else if si \<ge> length s \<or> s ! si \<noteq> p ! pj then False
         else likeMatch s p (si + 1) (pj + 1))
      else si = length s)"
  by pat_completeness auto
termination
  by (relation "measure (\<lambda>(s, p, si, pj). length p - pj)") auto

declare likeMatch.simps [simp del]

definition matchLike :: "(string \<Rightarrow> string) \<Rightarrow> string \<Rightarrow> string \<Rightarrow> bool \<Rightarrow> bool" where
  "matchLike uc s pattern caseSensitive =
     (let s' = if caseSensitive then s else ToLower uc s;
          p' = if caseSensitive then pattern else ToLower uc pattern
      in likeMatch s' p' 0 0)"

text \<open>
  The right side of IN is the decoded array; the Go slices \<open>[]string\<close> and \<open>[]float64\<close> are not
  values of a decoded query.
\<close>

definition valueIn :: "val \<Rightarrow> val \<Rightarrow> bool res" where
  "valueIn left right =
     (case right of VArr vs \<Rightarrow> anyR (ValuesEqual left) vs | _ \<Rightarrow> Inr False)"

definition negR :: "bool res \<Rightarrow> bool res" where
  "negR r = bindR r (\<lambda>b. Inr (\<not> b))"

definition evalOp :: "(string \<Rightarrow> string) \<Rightarrow> string \<Rightarrow> val \<Rightarrow> val \<Rightarrow> bool res" where
  "evalOp uc opr left right =
     (if opr = ''IS'' then valuesIdentical left right
      else if opr = ''IS NOT'' then negR (valuesIdentical left right)
      else if left = VNull \<or> right = VNull then Inr False
      else if opr = ''='' then valuesIdentical left right
      else if opr = ''!='' then negR (valuesIdentical left right)
      else if opr = ''<'' then bindR (CompareValues left right) (\<lambda>c. Inr (c < 0))
      else if opr = ''>'' then bindR (CompareValues left right) (\<lambda>c. Inr (c > 0))
      else if opr = ''<='' then bindR (CompareValues left right) (\<lambda>c. Inr (c \<le> 0))
      else if opr = ''>='' then bindR (CompareValues left right) (\<lambda>c. Inr (c \<ge> 0))
      else if opr = ''LIKE'' then Inr (matchLike uc (fmt_v left) (fmt_v right) True)
      else if opr = ''NOT LIKE'' then Inr (\<not> matchLike uc (fmt_v left) (fmt_v right) True)
      else if opr = ''ILIKE''
      then Inr (matchLike uc (ToLower uc (fmt_v left)) (ToLower uc (fmt_v right)) False)
      else if opr = ''NOT ILIKE''
      then Inr (\<not> matchLike uc (ToLower uc (fmt_v left)) (ToLower uc (fmt_v right)) False)
      else if opr = ''IN'' then valueIn left right
      else if opr = ''NOT IN'' then negR (valueIn left right)
      else Inl (Panic ''unknown operator''))"

section \<open>Predicates\<close>

text \<open>
  Building a predicate panics on an unknown condition type; applying it panics on a static
  parameter, an unknown operator or values that cannot be compared.  \<open>uc\<close> is the lower case of
  text that is not ASCII.
\<close>

definition simpleConditionPredicate :: "(string \<Rightarrow> string) \<Rightarrow> Condition \<Rightarrow> row \<Rightarrow> bool res" where
  "simpleConditionPredicate uc cond r =
     bindR (resolveValue (cond_left cond) r) (\<lambda>left.
     bindR (resolveValue (cond_right cond) r) (\<lambda>right. evalOp uc (cond_op cond) left right))"

fun conditionToPredicate :: "(string \<Rightarrow> string) \<Rightarrow> Condition \<Rightarrow> (row \<Rightarrow> bool res) res" where
  "conditionToPredicate uc cond =
     (if cond_type cond = ''simple'' then Inr (simpleConditionPredicate uc cond)
      else if cond_type cond = ''and'' then
        bindR (mapR (conditionToPredicate uc) (conditions cond)) (\<lambda>preds.
          Inr (\<lambda>r. allR (\<lambda>p. p r) preds))
      else if cond_type cond = ''or'' then
        bindR (mapR (conditionToPredicate uc) (conditions cond)) (\<lambda>preds.
          Inr (\<lambda>r. anyR (\<lambda>p. p r) preds))
      else if cond_type cond = ''correlatedSubquery'' then Inr (\<lambda>r. Inr True)
      else Inl (Panic ''unknown condition type''))"

declare conditionToPredicate.simps [simp del]

definition BuildPredicate :: "(string \<Rightarrow> string) \<Rightarrow> Condition option \<Rightarrow> (row \<Rightarrow> bool res) res" where
  "BuildPredicate uc cond =
     (case cond of None \<Rightarrow> Inr (\<lambda>r. Inr True) | Some c \<Rightarrow> conditionToPredicate uc c)"

section \<open>LIKE\<close>

text \<open>The texts a pattern stands for.\<close>

fun like_lang :: "string \<Rightarrow> string set" where
  "like_lang [] = {[]}"
| "like_lang (c # p) =
     (if c = CHR ''%'' then {u @ v | u v. v \<in> like_lang p}
      else if c = CHR ''_'' then {x # v | x v. v \<in> like_lang p}
      else {c # v | v. v \<in> like_lang p})"

lemma likeMatch_lang:
  "pj \<le> length p \<Longrightarrow> si \<le> length s \<Longrightarrow> likeMatch s p si pj \<longleftrightarrow> drop si s \<in> like_lang (drop pj p)"
proof (induction s p si pj rule: likeMatch.induct)
  case (1 s p si pj)
  show ?case
  proof (cases "pj < length p")
    case False
    with 1 show ?thesis by (subst likeMatch.simps) auto
  next
    case True
    then have d: "drop pj p = p ! pj # drop (pj + 1) p" by (simp add: Cons_nth_drop_Suc)
    consider (any) "p ! pj = CHR ''%''" | (one) "p ! pj = CHR ''_''"
      | (lit) "p ! pj \<noteq> CHR ''%''" "p ! pj \<noteq> CHR ''_''" by blast
    then show ?thesis
    proof cases
      case any
      have "(\<exists>i\<in>{si..<length s + 1}. drop i s \<in> like_lang (drop (pj + 1) p)) \<longleftrightarrow>
          (\<exists>u v. drop si s = u @ v \<and> v \<in> like_lang (drop (pj + 1) p))"
      proof safe
        fix i assume i: "i \<in> {si..<length s + 1}" "drop i s \<in> like_lang (drop (pj + 1) p)"
        then have "drop si s = take (i - si) (drop si s) @ drop i s"
          by (metis append_take_drop_id atLeastLessThan_iff drop_drop le_add_diff_inverse2)
        with i show "\<exists>u v. drop si s = u @ v \<and> v \<in> like_lang (drop (pj + 1) p)" by blast
      next
        fix u v assume uv: "drop si s = u @ v" "v \<in> like_lang (drop (pj + 1) p)"
        then have "drop (si + length u) s = v"
          by (metis add.commute append_eq_conv_conj drop_drop)
        moreover have "si + length u < length s + 1"
          using arg_cong [OF uv(1), of length] "1.prems"(2) by simp
        ultimately show "\<exists>i\<in>{si..<length s + 1}. drop i s \<in> like_lang (drop (pj + 1) p)"
          using uv(2) by (intro bexI [of _ "si + length u"]) auto
      qed
      moreover have "likeMatch s p i (pj + 1) \<longleftrightarrow> drop i s \<in> like_lang (drop (pj + 1) p)" if "i \<in> {si..<length s + 1}" for i
        using "1.IH"(1) [OF True any, of i] that True le_eq_less_or_eq [of i "length s"] less_Suc_eq_le [of i "length s"] by auto
      ultimately show ?thesis
        using True any unfolding d by (subst likeMatch.simps) (simp add: list_ex_iff del: upt_Suc)
    next
      case one
      show ?thesis
      proof (cases "si < length s")
        case in_text: True
        then have "drop si s = s ! si # drop (si + 1) s" by (simp add: Cons_nth_drop_Suc)
        with 1 True one in_text show ?thesis unfolding d by (subst likeMatch.simps) auto
      qed (use True one 1 in \<open>subst likeMatch.simps, auto simp: d\<close>)
    next
      case lit
      show ?thesis
      proof (cases "si < length s")
        case in_text: True
        then have "drop si s = s ! si # drop (si + 1) s" by (simp add: Cons_nth_drop_Suc)
        with 1 True lit in_text show ?thesis unfolding d by (subst likeMatch.simps) auto
      qed (use True lit 1 in \<open>subst likeMatch.simps, auto simp: d\<close>)
    qed
  qed
qed

section \<open>The meaning of a condition\<close>

text \<open>
  A condition holds of a row by its simple leaves; \<open>sub\<close> says which correlated subqueries hold.  A
  condition is ready for a row when its types are known and its simple leaves have an answer.
\<close>

fun cond_holds :: "(Condition \<Rightarrow> bool) \<Rightarrow> (Condition \<Rightarrow> bool) \<Rightarrow> Condition \<Rightarrow> bool" where
  "cond_holds sim sub c =
     (if cond_type c = ''simple'' then sim c
      else if cond_type c = ''and'' then \<forall>d\<in>set (conditions c). cond_holds sim sub d
      else if cond_type c = ''or'' then \<exists>d\<in>set (conditions c). cond_holds sim sub d
      else sub c)"

declare cond_holds.simps [simp del]

fun known :: "Condition \<Rightarrow> bool" where
  "known c =
     (if cond_type c = ''and'' \<or> cond_type c = ''or'' then \<forall>d\<in>set (conditions c). known d
      else cond_type c = ''simple'' \<or> cond_type c = ''correlatedSubquery'')"

declare known.simps [simp del]

definition simple_holds :: "(string \<Rightarrow> string) \<Rightarrow> row \<Rightarrow> Condition \<Rightarrow> bool" where
  "simple_holds uc r c \<longleftrightarrow> simpleConditionPredicate uc c r = Inr True"

fun answers :: "(string \<Rightarrow> string) \<Rightarrow> row \<Rightarrow> Condition \<Rightarrow> bool" where
  "answers uc r c =
     (if cond_type c = ''and'' \<or> cond_type c = ''or'' then \<forall>d\<in>set (conditions c). answers uc r d
      else cond_type c = ''simple'' \<longrightarrow> (\<exists>b. simpleConditionPredicate uc c r = Inr b))"

declare answers.simps [simp del]

lemma cond_holds_simps:
  "cond_type c = ''simple'' \<Longrightarrow> cond_holds sim sub c = sim c"
  "cond_type c = ''and'' \<Longrightarrow> cond_holds sim sub c \<longleftrightarrow> (\<forall>d\<in>set (conditions c). cond_holds sim sub d)"
  "cond_type c = ''or'' \<Longrightarrow> cond_holds sim sub c \<longleftrightarrow> (\<exists>d\<in>set (conditions c). cond_holds sim sub d)"
  "cond_type c = ''correlatedSubquery'' \<Longrightarrow> cond_holds sim sub c = sub c"
  by (subst cond_holds.simps; simp)+

lemma known_cases [consumes 1, case_names simple conj disj sub]:
  assumes "known c"
    and "cond_type c = ''simple'' \<Longrightarrow> P"
    and "cond_type c = ''and'' \<Longrightarrow> (\<And>d. d \<in> set (conditions c) \<Longrightarrow> known d) \<Longrightarrow> P"
    and "cond_type c = ''or'' \<Longrightarrow> (\<And>d. d \<in> set (conditions c) \<Longrightarrow> known d) \<Longrightarrow> P"
    and "cond_type c = ''correlatedSubquery'' \<Longrightarrow> P"
  shows P
  using assms by (subst (asm) known.simps) (auto split: if_splits)

text \<open>The predicate of a condition, as a function of the row where the leaves have an answer.\<close>

definition predicate_of :: "(string \<Rightarrow> string) \<Rightarrow> Condition \<Rightarrow> (row \<Rightarrow> bool res) \<Rightarrow> bool" where
  "predicate_of uc c p \<longleftrightarrow>
     (\<forall>r. answers uc r c \<longrightarrow> p r = Inr (cond_holds (simple_holds uc r) (\<lambda>_. True) c))"

lemma mapR_ex: "(\<And>x. x \<in> set xs \<Longrightarrow> \<exists>y. f x = Inr y \<and> Q x y) \<Longrightarrow> \<exists>ys. mapR f xs = Inr ys \<and> list_all2 Q xs ys"
proof (induction xs)
  case (Cons x xs)
  then obtain y ys where "f x = Inr y" "Q x y" "mapR f xs = Inr ys" "list_all2 Q xs ys" by force
  then show ?case by auto
qed simp

lemma allR_list_all2:
  "list_all2 (\<lambda>c p. p r = Inr (q c)) cs ps \<Longrightarrow> allR (\<lambda>p. p r) ps = Inr (\<forall>c\<in>set cs. q c)"
  by (induction rule: list_all2_induct) auto

lemma anyR_list_all2:
  "list_all2 (\<lambda>c p. p r = Inr (q c)) cs ps \<Longrightarrow> anyR (\<lambda>p. p r) ps = Inr (\<exists>c\<in>set cs. q c)"
  by (induction rule: list_all2_induct) auto

lemma conditionToPredicate_correct:
  "known c \<Longrightarrow> \<exists>p. conditionToPredicate uc c = Inr p \<and> predicate_of uc c p"
proof (induction uc c rule: conditionToPredicate.induct)
  case (1 uc c)
  have leaves: "list_all2 (\<lambda>d p. p r = Inr (cond_holds (simple_holds uc r) (\<lambda>_. True) d)) (conditions c) ps"
    if "list_all2 (predicate_of uc) (conditions c) ps" "answers uc r c" "cond_type c = ''and'' \<or> cond_type c = ''or''" for r ps
    using that by (subst (asm) answers.simps) (auto simp: predicate_of_def list_all2_conv_all_nth)
  show ?case
  using "1.prems" proof (cases rule: known_cases)
    case simple
    then show ?thesis
      by (auto simp: conditionToPredicate.simps [of uc c] predicate_of_def cond_holds_simps answers.simps [of _ _ c] simple_holds_def)
  next
    case sub
    then show ?thesis
      by (auto simp: conditionToPredicate.simps [of uc c] predicate_of_def cond_holds_simps)
  next
    case conj
    then obtain ps where "mapR (conditionToPredicate uc) (conditions c) = Inr ps" "list_all2 (predicate_of uc) (conditions c) ps"
      using mapR_ex [of "conditions c" "conditionToPredicate uc" "predicate_of uc"] "1.IH"(1) by fastforce
    then show ?thesis
      using conj by (auto simp: conditionToPredicate.simps [of uc c] predicate_of_def cond_holds_simps
          intro!: allR_list_all2 leaves)
  next
    case disj
    then obtain ps where "mapR (conditionToPredicate uc) (conditions c) = Inr ps" "list_all2 (predicate_of uc) (conditions c) ps"
      using mapR_ex [of "conditions c" "conditionToPredicate uc" "predicate_of uc"] "1.IH"(2) by fastforce
    then show ?thesis
      using disj by (auto simp: conditionToPredicate.simps [of uc c] predicate_of_def cond_holds_simps
          intro!: anyR_list_all2 leaves)
  qed
qed

section \<open>Properties\<close>

text \<open>
  C16. LIKE decides its pattern language: a text matches a pattern exactly when it is the pattern with
  each \<open>%\<close> replaced by some text and each \<open>_\<close> by one byte.
\<close>

theorem matchLike_decides_language: "matchLike uc s pattern True \<longleftrightarrow> s \<in> like_lang pattern"
  using likeMatch_lang [of 0 pattern 0 s] by (simp add: matchLike_def)

end
