(* ===== verification/Planner.thy ===== *)
theory Planner
  imports Ast
begin

text \<open>
  The rewriting of a query that \<open>builder/builder.go\<close> does before it builds operators: completing the
  orderings with the primary keys, renaming the aliases of subquery conditions, and splitting the
  condition into the part the source can apply and the part the filter chain applies.

  \<open>pks\<close> gives the primary key of each registered source (\<open>None\<close>: \<open>GetSource\<close> returns nil).
\<close>

section \<open>Orderings\<close>

definition addPrimaryKeys :: "string list \<Rightarrow> Ordering \<Rightarrow> Ordering" where
  "addPrimaryKeys pk orderBy =
     (let toAdd = filter (\<lambda>c. c \<notin> set (map fst orderBy)) pk
      in if toAdd = [] then orderBy else orderBy @ map (\<lambda>c. (c, ''asc'')) toAdd)"

lemma size_related [termination_simp]:
  "CorrelatedSubquery co sq sy hi \<in> set rels \<Longrightarrow> size sq < Suc (size_list size rels)"
  by (auto dest!: size_list_estimation' [where f = size and y = "size (CorrelatedSubquery co sq sy hi)", OF _ order_refl])

fun completeOrdering :: "(string \<Rightarrow> string list option) \<Rightarrow> AST \<Rightarrow> AST"
  and complete_related :: "(string \<Rightarrow> string list option) \<Rightarrow> CorrelatedSubquery \<Rightarrow> CorrelatedSubquery"
  and completeOrderingInCondition :: "(string \<Rightarrow> string list option) \<Rightarrow> Condition \<Rightarrow> Condition"
where
  "completeOrdering pks (AST sch t al w rels st li ob) =
     (case pks t of
        None \<Rightarrow> AST sch t al w rels st li ob
      | Some pk \<Rightarrow> AST sch t al (map_option (completeOrderingInCondition pks) w)
                     (map (complete_related pks) rels) st li (addPrimaryKeys pk ob))"
| "complete_related pks (CorrelatedSubquery co sq sy hi) = CorrelatedSubquery co (completeOrdering pks sq) sy hi"
| "completeOrderingInCondition pks (Condition ty opr l r cs rel fl sc) =
     (if ty = ''correlatedSubquery''
      then Condition ty opr l r cs (map_option (complete_related pks) rel) fl sc
      else if ty = ''and'' \<or> ty = ''or''
      then Condition ty opr l r (map (completeOrderingInCondition pks) cs) rel fl sc
      else Condition ty opr l r cs rel fl sc)"

section \<open>Subquery conditions\<close>

fun gatherCSQConditions :: "Condition \<Rightarrow> Condition list" where
  "gatherCSQConditions c =
     (if cond_type c = ''correlatedSubquery'' then [c]
      else if cond_type c = ''and'' \<or> cond_type c = ''or''
      then concat (map gatherCSQConditions (conditions c))
      else [])"

declare gatherCSQConditions.simps [simp del]

definition gather_where :: "AST \<Rightarrow> Condition list" where
  "gather_where ast = (case ast_Where ast of None \<Rightarrow> [] | Some c \<Rightarrow> gatherCSQConditions c)"

text \<open>The keys of an edit that must be split, \<open>None\<close> for the nil map; the order does not matter.\<close>

definition collectSplitEditKeys :: "AST \<Rightarrow> string list option" where
  "collectSplitEditKeys ast =
     (let keys = concat (map (\<lambda>c. case cond_related c of None \<Rightarrow> [] | Some q \<Rightarrow> ParentField (csq_correlation q))
                        (gather_where ast))
                 @ concat (map (\<lambda>q. ParentField (csq_correlation q)) (ast_Related ast))
      in if keys = [] then None else Some (remdups keys))"

fun containsCSQ :: "Condition \<Rightarrow> bool" where
  "containsCSQ c =
     (if cond_type c = ''correlatedSubquery'' then True
      else if cond_type c = ''and'' \<or> cond_type c = ''or'' then list_ex containsCSQ (conditions c)
      else False)"

declare containsCSQ.simps [simp del]

lemma map_filter_fcong [fundef_cong]:
  assumes "xs = ys" and "\<And>x. x \<in> set ys \<Longrightarrow> f x = g x"
  shows "List.map_filter f xs = List.map_filter g ys"
  using assms(2) unfolding assms(1) by (induction ys) (auto simp: List.map_filter_def)

fun stripCSQConditions :: "Condition \<Rightarrow> Condition option" where
  "stripCSQConditions c =
     (if cond_type c = ''correlatedSubquery'' then None
      else if cond_type c = ''simple'' then Some c
      else if cond_type c = ''and'' then
        (let filtered = List.map_filter stripCSQConditions (conditions c)
         in case filtered of [] \<Rightarrow> None | [d] \<Rightarrow> Some d | _ \<Rightarrow> Some (compound ''and'' filtered))
      else if cond_type c = ''or'' then
        (if list_ex containsCSQ (conditions c) then None else Some c)
      else Some c)"

declare stripCSQConditions.simps [simp del]

text \<open>The closure \<open>uniquify\<close> with its counter.\<close>

definition set_alias :: "string \<Rightarrow> AST \<Rightarrow> AST" where
  "set_alias al ast = AST (ast_Schema ast) (ast_Table ast) al (ast_Where ast) (ast_Related ast)
     (ast_Start ast) (ast_Limit ast) (ast_OrderBy ast)"

definition numbered :: "string \<Rightarrow> nat \<Rightarrow> string" where
  "numbered alias n = alias @ CHR ''_'' # int_text (int n)"

fun uniquify :: "Condition \<Rightarrow> nat \<Rightarrow> Condition \<times> nat"
  and uniquify_all :: "Condition list \<Rightarrow> nat \<Rightarrow> Condition list \<times> nat"
where
  "uniquify (Condition ty opr l r cs rel fl sc) n =
     (if ty = ''correlatedSubquery'' then
        (case rel of
           None \<Rightarrow> (Condition ty opr l r cs rel fl sc, n)
         | Some (CorrelatedSubquery co sq sy hi) \<Rightarrow>
             (Condition ty opr l r cs
                (Some (CorrelatedSubquery co (set_alias (numbered (ast_Alias sq) n) sq) sy hi)) fl sc, n + 1))
      else if ty = ''and'' \<or> ty = ''or'' then
        (let (ds, m) = uniquify_all cs n in (Condition ty opr l r ds rel fl sc, m))
      else (Condition ty opr l r cs rel fl sc, n))"
| "uniquify_all [] n = ([], n)"
| "uniquify_all (c # cs) n =
     (let (d, m) = uniquify c n; (ds, k) = uniquify_all cs m in (d # ds, k))"

definition set_where :: "Condition option \<Rightarrow> AST \<Rightarrow> AST" where
  "set_where w ast = AST (ast_Schema ast) (ast_Table ast) (ast_Alias ast) w (ast_Related ast)
     (ast_Start ast) (ast_Limit ast) (ast_OrderBy ast)"

definition uniquifyCSQConditionAliases :: "AST \<Rightarrow> AST" where
  "uniquifyCSQConditionAliases ast =
     (case ast_Where ast of
        None \<Rightarrow> ast
      | Some w \<Rightarrow> if cond_type w \<noteq> ''and'' \<and> cond_type w \<noteq> ''or'' then ast
                  else set_where (Some (fst (uniquify w 0))) ast)"

fun isNotAndDoesNotContainSubquery :: "Condition \<Rightarrow> bool" where
  "isNotAndDoesNotContainSubquery c =
     (if cond_type c = ''correlatedSubquery'' then False
      else if cond_type c = ''simple'' then True
      else if cond_type c = ''and'' \<or> cond_type c = ''or''
      then list_all isNotAndDoesNotContainSubquery (conditions c)
      else True)"

declare isNotAndDoesNotContainSubquery.simps [simp del]

definition groupSubqueryConditions :: "Condition \<Rightarrow> Condition list \<times> Condition list" where
  "groupSubqueryConditions c =
     (filter (\<lambda>d. \<not> isNotAndDoesNotContainSubquery d) (conditions c),
      filter isNotAndDoesNotContainSubquery (conditions c))"

section \<open>Related subqueries\<close>

text \<open>The name of a subquery, and the related subqueries by name: the last one of a name wins.\<close>

definition alias_or_table :: "AST \<Rightarrow> string" where
  "alias_or_table ast = (if ast_Alias ast = [] then ast_Table ast else ast_Alias ast)"

definition dedupe_related :: "CorrelatedSubquery list \<Rightarrow> (string \<times> CorrelatedSubquery) list" where
  "dedupe_related rels = fold (\<lambda>q acc. put (alias_or_table (csq_subquery q)) q acc) rels []"

text \<open>The subquery of an EXISTS condition: at most three rows.\<close>

definition existsLimit :: int where
  "existsLimit = 3"

definition set_limit :: "int \<Rightarrow> AST \<Rightarrow> AST" where
  "set_limit n ast = AST (ast_Schema ast) (ast_Table ast) (ast_Alias ast) (ast_Where ast)
     (ast_Related ast) (ast_Start ast) (Some n) (ast_OrderBy ast)"

section \<open>The part of a condition the source applies\<close>

lemma map_filter_set: "set (List.map_filter f xs) = {y. \<exists>x\<in>set xs. f x = Some y}"
  by (induction xs) (auto simp: List.map_filter_def)

lemma stripCSQ_simps:
  "cond_type c = ''correlatedSubquery'' \<Longrightarrow> stripCSQConditions c = None"
  "cond_type c = ''simple'' \<Longrightarrow> stripCSQConditions c = Some c"
  "cond_type c = ''or'' \<Longrightarrow> stripCSQConditions c = (if list_ex containsCSQ (conditions c) then None else Some c)"
  by (subst stripCSQConditions.simps; simp)+

lemma containsCSQ_simps:
  "cond_type c = ''correlatedSubquery'' \<Longrightarrow> containsCSQ c"
  "cond_type c = ''simple'' \<Longrightarrow> \<not> containsCSQ c"
  "cond_type c = ''and'' \<or> cond_type c = ''or'' \<Longrightarrow> containsCSQ c \<longleftrightarrow> (\<exists>d\<in>set (conditions c). containsCSQ d)"
  by (subst containsCSQ.simps; auto simp: list_ex_iff)+

text \<open>What is left of a conjunction: some of its parts, stripped.\<close>

lemma stripCSQ_and:
  assumes "cond_type c = ''and''" "stripCSQConditions c = Some d"
  obtains d' where "d' \<in> set (conditions c)" "stripCSQConditions d' = Some d"
  | ds where "d = compound ''and'' ds" "set ds = {e. \<exists>x\<in>set (conditions c). stripCSQConditions x = Some e}"
proof (cases "List.map_filter stripCSQConditions (conditions c)" rule: list.exhaust [case_names nil cons])
  case (cons e es)
  then show thesis
  proof (cases es)
    case Nil
    with assms cons have "e = d" by (subst (asm) stripCSQConditions.simps) (simp add: Let_def)
    with cons Nil map_filter_set [of stripCSQConditions "conditions c"] that(1) show thesis by auto
  next
    case (Cons e' es')
    with assms cons have "d = compound ''and'' (List.map_filter stripCSQConditions (conditions c))"
      by (subst (asm) stripCSQConditions.simps) (simp add: Let_def)
    with map_filter_set [of stripCSQConditions "conditions c"] that(2) show thesis by auto
  qed
qed (use assms in \<open>subst (asm) stripCSQConditions.simps, simp add: Let_def\<close>)

text \<open>A condition without subqueries does not depend on them, and stripping keeps it.\<close>

lemma cond_holds_no_csq:
  "known c \<Longrightarrow> \<not> containsCSQ c \<Longrightarrow> cond_holds sim sub c = cond_holds sim sub' c"
proof (induction sim sub c rule: cond_holds.induct)
  case (1 sim sub c)
  show ?case
    using "1.prems"(1) by (cases rule: known_cases) (use 1 in \<open>auto simp: cond_holds_simps containsCSQ_simps\<close>)
qed

lemma stripped:
  assumes "known c" "stripCSQConditions c = Some d"
  shows "known d \<and> \<not> containsCSQ d \<and> (answers uc r c \<longrightarrow> answers uc r d) \<and>
    (cond_holds sim sub c \<longrightarrow> cond_holds sim sub d)"
  using assms
proof (induction c arbitrary: d rule: stripCSQConditions.induct)
  case (1 c)
  have nice: "known d' \<and> \<not> containsCSQ d' \<and> (answers uc r c' \<longrightarrow> answers uc r d') \<and>
      (cond_holds sim sub c' \<longrightarrow> cond_holds sim sub d')"
    if "cond_type c = ''and''" "c' \<in> set (conditions c)" "known c'" "stripCSQConditions c' = Some d'" for c' d'
    using that 1(1) [of c' d'] by simp
  show ?case
  using "1.prems"(1) proof (cases rule: known_cases)
    case conj
    then have ans: "answers uc r c \<longleftrightarrow> (\<forall>d\<in>set (conditions c). answers uc r d)"
      by (subst answers.simps) simp
    show ?thesis
    using conj(1) "1.prems"(2) proof (cases rule: stripCSQ_and)
      case (1 d')
      with nice [of d' d] conj ans show ?thesis by (auto simp: cond_holds_simps)
    next
      case (2 ds)
      with nice conj have all: "\<forall>e\<in>set ds. known e \<and> \<not> containsCSQ e \<and> (answers uc r c \<longrightarrow> answers uc r e) \<and>
          (cond_holds sim sub c \<longrightarrow> cond_holds sim sub e)"
        unfolding ans by (auto simp: cond_holds_simps)
      with 2(1) show ?thesis
        by (auto simp: known.simps [of "compound _ _"] containsCSQ_simps answers.simps [of _ _ "compound _ _"] cond_holds_simps)
    qed
  next
    case disj
    with "1.prems" show ?thesis by (auto simp: stripCSQ_simps containsCSQ_simps list_ex_iff split: if_splits)
  qed (use "1.prems" in \<open>auto simp: stripCSQ_simps containsCSQ_simps\<close>)
qed

lemma strip_all:
  assumes "known c" "\<not> containsCSQ c"
  shows "stripCSQConditions c = None \<Longrightarrow> cond_holds sim sub c"
    and "stripCSQConditions c = Some d \<Longrightarrow> cond_holds sim sub d = cond_holds sim sub c"
proof -
  have "(stripCSQConditions c = None \<longrightarrow> cond_holds sim sub c) \<and>
    (\<forall>d. stripCSQConditions c = Some d \<longrightarrow> cond_holds sim sub d = cond_holds sim sub c)"
    using assms
  proof (induction c rule: stripCSQConditions.induct)
    case (1 c)
    show ?case
    using "1.prems"(1) proof (cases rule: known_cases)
      case conj
      let ?ds = "List.map_filter stripCSQConditions (conditions c)"
      have IH: "(stripCSQConditions x = None \<longrightarrow> cond_holds sim sub x) \<and>
          (\<forall>e. stripCSQConditions x = Some e \<longrightarrow> cond_holds sim sub e = cond_holds sim sub x)"
        if "x \<in> set (conditions c)" for x
        using "1.IH" [of x] conj that "1.prems"(2) by (auto simp: containsCSQ_simps)
      have eq: "(\<forall>e\<in>set ?ds. cond_holds sim sub e) \<longleftrightarrow> cond_holds sim sub c"
        unfolding map_filter_set cond_holds_simps(2) [OF conj(1)]
      proof (intro iffI ballI)
        fix x assume "\<forall>e\<in>{y. \<exists>x\<in>set (conditions c). stripCSQConditions x = Some y}. cond_holds sim sub e" "x \<in> set (conditions c)"
        then show "cond_holds sim sub x" using IH [of x] by (cases "stripCSQConditions x") auto
      qed (use IH in auto)
      have strip: "stripCSQConditions c =
          (case ?ds of [] \<Rightarrow> None | [d] \<Rightarrow> Some d | _ \<Rightarrow> Some (compound ''and'' ?ds))"
        using conj(1) by (subst stripCSQConditions.simps) (simp add: Let_def)
      have "cond_holds sim sub (compound ''and'' ?ds) = cond_holds sim sub c"
        using eq by (simp add: cond_holds_simps)
      with eq show ?thesis
        unfolding strip by (cases ?ds; cases "tl ?ds") auto
    qed (use "1.prems" in \<open>auto simp: stripCSQ_simps containsCSQ_simps list_ex_iff cond_holds_simps split: if_splits\<close>)
  qed
  then show "stripCSQConditions c = None \<Longrightarrow> cond_holds sim sub c"
    and "stripCSQConditions c = Some d \<Longrightarrow> cond_holds sim sub d = cond_holds sim sub c" by auto
qed

section \<open>Renaming gives distinct aliases\<close>

definition sub_aliases :: "Condition list \<Rightarrow> string list" where
  "sub_aliases cs = map (\<lambda>q. ast_Alias (csq_subquery q)) (List.map_filter cond_related cs)"

lemma sub_aliases_simps [simp]:
  "sub_aliases [] = []" "sub_aliases (cs @ ds) = sub_aliases cs @ sub_aliases ds"
  "sub_aliases (c # cs) = (case cond_related c of None \<Rightarrow> [] | Some q \<Rightarrow> [ast_Alias (csq_subquery q)]) @ sub_aliases cs"
  by (auto simp: sub_aliases_def List.map_filter_def split: option.splits)

lemma not_digit: "\<not> is_digit (CHR ''_'')"
  by (simp add: is_digit_def less_eq_char_def)

lemma numbered_number: "takeWhile (\<lambda>c. c \<noteq> CHR ''_'') (rev (numbered a i)) = rev (decimal (int i))"
proof -
  have "c \<noteq> CHR ''_''" if "c \<in> set (rev (decimal (int i)))" for c
    using decimal_digits [of "int i" c] not_digit that by auto
  then have "takeWhile (\<lambda>c. c \<noteq> CHR ''_'') (rev (decimal (int i)) @ CHR ''_'' # rev a) = rev (decimal (int i))"
    by (subst takeWhile_append2) simp_all
  then show ?thesis by (simp add: numbered_def int_text_def)
qed

lemma numbered_eq:
  assumes "numbered a i = numbered b j"
  shows "i = j"
proof -
  have "decimal (int i) = decimal (int j)"
    using numbered_number [of a i] numbered_number [of b j] assms by (metis rev_rev_ident)
  then have "int i = int j"
    by (metis decimal_value of_nat_0_le_iff)
  then show ?thesis by (rule of_nat_eq_iff [THEN iffD1])
qed

lemma map2_upt_append:
  "map2 f xs [n..<n + length xs] @ map2 f ys [n + length xs..<n + length xs + length ys] =
   map2 f (xs @ ys) [n..<n + length (xs @ ys)]"
proof -
  have split: "[n..<n + length (xs @ ys)] = [n..<n + length xs] @ [n + length xs..<n + length xs + length ys]"
    using upt_add_eq_append [of n "n + length xs" "length ys"] by (simp add: add.assoc)
  have "zip (xs @ ys) ([n..<n + length xs] @ [n + length xs..<n + length xs + length ys]) =
      zip xs [n..<n + length xs] @ zip ys [n + length xs..<n + length xs + length ys]"
    by (rule zip_append) simp
  then show ?thesis unfolding split by simp
qed

lemma gather_cases:
  "gatherCSQConditions (Condition ty opr l r cs rel fl sc) =
     (if ty = ''correlatedSubquery'' then [Condition ty opr l r cs rel fl sc]
      else if ty = ''and'' \<or> ty = ''or'' then concat (map gatherCSQConditions cs) else [])"
  by (subst gatherCSQConditions.simps) simp

definition renamed :: "Condition list \<Rightarrow> Condition list \<times> nat \<Rightarrow> nat \<Rightarrow> bool" where
  "renamed cs r n \<longleftrightarrow>
     snd r = n + length (sub_aliases cs) \<and> sub_aliases (fst r) = map2 numbered (sub_aliases cs) [n..<snd r]"

lemma renamed_append:
  assumes "renamed cs (cs', m) n" "renamed ds (ds', k) m"
  shows "renamed (cs @ ds) (cs' @ ds', k) n"
  using assms map2_upt_append [of numbered "sub_aliases cs" n "sub_aliases ds"]
  by (simp add: renamed_def add.assoc)

lemma renamed_one:
  "renamed [Condition ty opr l r cs (Some (CorrelatedSubquery co sq sy hi)) fl sc]
     ([Condition ty opr l r cs (Some (CorrelatedSubquery co (set_alias (numbered (ast_Alias sq) n) sq) sy hi)) fl sc], Suc n) n"
  by (simp add: renamed_def set_alias_def)

lemma uniquify_renames:
  "renamed (gatherCSQConditions c) (gatherCSQConditions (fst (uniquify c n)), snd (uniquify c n)) n"
  "renamed (concat (map gatherCSQConditions cs))
     (concat (map gatherCSQConditions (fst (uniquify_all cs n))), snd (uniquify_all cs n)) n"
proof (induction c n and cs n rule: uniquify_uniquify_all.induct)
  case (1 ty opr l r cs rel fl sc n)
  consider "ty = ''correlatedSubquery''" | "ty = ''and'' \<or> ty = ''or''" "ty \<noteq> ''correlatedSubquery''"
    | "ty \<noteq> ''correlatedSubquery''" "ty \<noteq> ''and''" "ty \<noteq> ''or''" by blast
  then show ?case
  proof cases
    case 1
    then show ?thesis
      using renamed_one by (cases rel) (auto simp: gather_cases renamed_def split: CorrelatedSubquery.splits)
  next
    case 2
    then have "renamed (concat (map gatherCSQConditions cs))
       (concat (map gatherCSQConditions (fst (uniquify_all cs n))), snd (uniquify_all cs n)) n"
      using "1.IH" by blast
    with 2 show ?thesis by (simp add: gather_cases split_def Let_def)
  qed (simp add: gather_cases renamed_def)
next
  case (2 n)
  show ?case by (simp add: renamed_def)
next
  case (3 c cs n)
  obtain d m where d: "uniquify c n = (d, m)" by fastforce
  obtain ds k where ds: "uniquify_all cs m = (ds, k)" by fastforce
  show ?case
    using renamed_append [OF 3(1) [unfolded d fst_conv snd_conv] 3(2) [OF d [symmetric] refl, unfolded ds fst_conv snd_conv]]
    by (simp add: d ds)
qed

lemma distinct_numbered: "distinct (map2 numbered as [n..<n + length as])"
proof -
  have "map2 numbered as [n..<n + length as] ! i \<noteq> map2 numbered as [n..<n + length as] ! j"
    if "i < length as" "j < length as" "i \<noteq> j" for i j
    using that numbered_eq [of "as ! i" "n + i" "as ! j" "n + j"] by auto
  then show ?thesis by (simp add: distinct_conv_nth)
qed

section \<open>Completed orderings decide\<close>

lemma rcmp_zero: "rcmp order reverse a b = 0 \<longleftrightarrow> (\<forall>fd\<in>set order. vcmp (col a (fst fd)) (col b (fst fd)) = 0)"
  by (induction order reverse a b rule: rcmp.induct) (auto simp: Let_def)

lemma set_addPrimaryKeys: "k \<in> set pk \<Longrightarrow> k \<in> fst ` set (addPrimaryKeys pk order)"
  by (cases "k \<in> fst ` set order") (auto simp: addPrimaryKeys_def Let_def filter_empty_conv image_Un image_image)

section \<open>Properties\<close>

text \<open>
  C17. The condition a source applies is sound: for a condition of known types whose leaves have an
  answer for the row, the predicate built from the stripped condition has an answer, which is true
  whenever the whole condition holds, whatever its subqueries say; and without subqueries it is
  exactly the condition.
\<close>

theorem source_filter_sound:
  assumes "known c"
  shows "\<exists>p. BuildPredicate uc (stripCSQConditions c) = Inr p \<and>
    (\<forall>r sub. answers uc r c \<longrightarrow>
      (\<exists>b. p r = Inr b \<and> (cond_holds (simple_holds uc r) sub c \<longrightarrow> b) \<and>
           (\<not> containsCSQ c \<longrightarrow> b = cond_holds (simple_holds uc r) sub c)))"
proof (cases "stripCSQConditions c")
  case None
  then show ?thesis using strip_all(1) [OF assms] by (auto simp: BuildPredicate_def)
next
  case (Some d)
  note d = stripped [OF assms Some]
  then obtain p where p: "conditionToPredicate uc d = Inr p" "predicate_of uc d p"
    using conditionToPredicate_correct by blast
  have "cond_holds (simple_holds uc r) (\<lambda>_. True) d = cond_holds (simple_holds uc r) sub d" for r sub
    using d cond_holds_no_csq by blast
  note same = this
  have exact: "cond_holds sim sub d = cond_holds sim sub c" if "\<not> containsCSQ c" for sim sub
    by (rule strip_all(2) [OF assms that Some])
  have "\<exists>b. p r = Inr b \<and> (cond_holds (simple_holds uc r) sub c \<longrightarrow> b) \<and>
      (\<not> containsCSQ c \<longrightarrow> b = cond_holds (simple_holds uc r) sub c)" if "answers uc r c" for r sub
  proof (intro exI conjI impI)
    show "p r = Inr (cond_holds (simple_holds uc r) sub d)"
      using p(2) d that same [of r sub] by (simp add: predicate_of_def)
  qed (use d exact in blast)+
  with p(1) Some show ?thesis by (simp add: BuildPredicate_def)
qed

definition gt_five :: Condition where
  "gt_five = Condition ''simple'' ''>'' (Some \<lparr>vp_type = ''column'', vp_value = VNull, vp_name = ''n'', vp_anchor = [], vp_field = VNull\<rparr>)
     (Some \<lparr>vp_type = ''literal'', vp_value = num 5, vp_name = [], vp_anchor = [], vp_field = VNull\<rparr>) [] None False False"

definition some_sub :: Condition where
  "some_sub = Condition ''correlatedSubquery'' ''EXISTS'' None None [] None False False"

theorem source_filter_sound_witness:
  "\<exists>p. BuildPredicate id (stripCSQConditions (compound ''and'' [gt_five, some_sub])) = Inr p \<and> p [''n'' \<mapsto> num 7] = Inr True"
proof -
  let ?c = "compound ''and'' [gt_five, some_sub]" and ?r = "[''n'' \<mapsto> num 7]"
  have five: "simpleConditionPredicate id gt_five ?r = Inr True"
    by (simp add: simpleConditionPredicate_def gt_five_def resolveValue_def col_def evalOp_def CompareValues_num)
  have types: "cond_type gt_five = ''simple''" "cond_type some_sub = ''correlatedSubquery''"
    by (simp_all add: gt_five_def some_sub_def)
  have kn: "known ?c"
    by (simp add: types known.simps [of ?c] known.simps [of gt_five] known.simps [of some_sub])
  have ans: "answers id ?r ?c"
    using five by (auto simp: types answers.simps [of _ _ ?c] answers.simps [of _ _ gt_five] answers.simps [of _ _ some_sub])
  have holds: "cond_holds (simple_holds id ?r) (\<lambda>_. True) ?c"
    using five by (simp add: types cond_holds_simps(1) [of gt_five] cond_holds_simps(2) [of ?c] cond_holds_simps(4) [of some_sub]
        simple_holds_def)
  obtain p where "BuildPredicate id (stripCSQConditions ?c) = Inr p"
      "\<exists>b. p ?r = Inr b \<and> (cond_holds (simple_holds id ?r) (\<lambda>_. True) ?c \<longrightarrow> b)"
    using source_filter_sound [OF kn, of id] ans by blast
  with holds show ?thesis by auto
qed

text \<open>
  After the renaming, the aliases of the subquery conditions of a query are pairwise different, so
  that the relationships of its EXISTS joins do not overwrite each other.
\<close>

theorem uniquified_aliases_distinct:
  "distinct (sub_aliases (gatherCSQConditions (fst (uniquify c n))))"
  using uniquify_renames(1) [of c n] distinct_numbered [of "sub_aliases (gatherCSQConditions c)" n] by (simp add: renamed_def)

text \<open>
  A completed ordering decides: two rows with comparable values that the comparator of the
  completed ordering does not separate agree on every column of the primary key.
\<close>

theorem completed_ordering_decides:
  assumes "row_ok ty (addPrimaryKeys pk order) a" "row_ok ty (addPrimaryKeys pk order) b"
    and "MakeComparator (addPrimaryKeys pk order) reverse a b = Inr 0" "k \<in> set pk"
  shows "CompareValues (col a k) (col b k) = Inr 0"
proof -
  obtain d where kd: "(k, d) \<in> set (addPrimaryKeys pk order)"
    using set_addPrimaryKeys [OF assms(4), of order] by force
  then have "okval (ty k) (col a k)" "okval (ty k) (col b k)"
    using assms(1,2) by (auto simp: row_ok_def)
  moreover have "vcmp (col a k) (col b k) = 0"
    using assms(3) kd by (auto simp: MakeComparator_ok [OF assms(1,2)] rcmp_zero)
  ultimately show ?thesis by (simp add: CompareValues_ok)
qed

theorem completed_ordering_decides_witness:
  "CompareValues (col [''id'' \<mapsto> num 1, ''n'' \<mapsto> num 2] ''id'') (col [''id'' \<mapsto> num 1] ''id'') = Inr 0"
  by (rule completed_ordering_decides [of "\<lambda>_. CNum" "[''id'']" "[]" _ _ False])
    (simp_all add: addPrimaryKeys_def okval_def col_def CompareValues_num)

end
