(* ===== verification/Wiring.thy ===== *)
theory Wiring
  imports World Normalize Planner
begin

text \<open>
  Building and taking apart the object graph: \<open>GetSchema\<close>, \<open>SetOutput\<close>, \<open>SetFilterOutput\<close> and
  \<open>Destroy\<close> of every operator (each a dispatch on the dynamic type of an address), and the
  constructors as steps on the heap: allocate, initialise, hook into the input.
\<close>

section \<open>Schemas and outputs\<close>

definition schema_of :: "opid \<Rightarrow> (panic, world, SourceSchema) exec" where
  "schema_of i = bindM (getM (\<lambda>w. w)) (\<lambda>w. case kind w i of
       OpNone \<Rightarrow> failM NilDereference
     | OpSource t c \<Rightarrow> retM (si_schema (inputs w i))
     | OpSkip _ \<Rightarrow> retM (skip_schema (skips w i))
     | OpFilterStart _ \<Rightarrow> retM (fstart_schema (fstarts w i))
     | OpFilter _ \<Rightarrow> retM (filter_schema (filters w i))
     | OpExists _ \<Rightarrow> retM (exists_schema (existss w i))
     | OpFanOut _ \<Rightarrow> retM (fanout_schema (fanouts w i))
     | OpFanIn _ \<Rightarrow> retM (fanin_schema (fanins w i))
     | OpFilterEnd _ _ \<Rightarrow> retM (fend_schema (fends w i))
     | OpTake _ \<Rightarrow> retM (take_schema (takes w i))
     | OpJoin _ _ \<Rightarrow> retM (join_schema (joins w i))
     | OpFlipped _ _ \<Rightarrow> retM (fj_schema (flippeds w i))
     | OpUnionFanOut _ \<Rightarrow> retM (ufo_schema (ufanouts w i))
     | OpUnionFanIn _ \<Rightarrow> retM (ufi_schema (ufanins w i)))"

definition input_at :: "opid \<Rightarrow> (world, SourceInput) ref" where
  "input_at i = \<lparr>rd = (\<lambda>w. inputs w i), wr = (\<lambda>x w. w\<lparr>inputs := (inputs w)(i := x)\<rparr>)\<rparr>"

definition SetOutput :: "opid \<Rightarrow> Output \<Rightarrow> (panic, world, unit) exec" where
  "SetOutput i out = bindM (getM (\<lambda>w. w)) (\<lambda>w. case kind w i of
       OpSource t c \<Rightarrow>
         (let (si, ms) = SourceInput_SetOutput out (inputs w i) (sources w t)
          in thenM (updM (input_at i) (\<lambda>_. si)) (updM (source_at t) (\<lambda>_. ms)))
     | OpSkip _ \<Rightarrow> updM (skip_at i) (\<lambda>s. s\<lparr>skip_output := out\<rparr>)
     | OpFilterEnd _ _ \<Rightarrow> updM (fend_at i) (\<lambda>f. f\<lparr>fend_output := out\<rparr>)
     | OpTake _ \<Rightarrow> updM (take_at i) (\<lambda>t. t\<lparr>take_output := out\<rparr>)
     | OpJoin _ _ \<Rightarrow> updM (join_at i) (Join_SetOutput out)
     | OpFlipped _ _ \<Rightarrow> updM (flipped_at i) (FlippedJoin_SetOutput out)
     | OpUnionFanOut _ \<Rightarrow> updM (ufanout_at i) (UnionFanOut_SetOutput out)
     | OpUnionFanIn _ \<Rightarrow> updM (ufanin_at i) (\<lambda>u. u\<lparr>ufi_output := out\<rparr>)
     | _ \<Rightarrow> failM NilDereference)"

definition SetFilterOutput :: "opid \<Rightarrow> Output \<Rightarrow> (panic, world, unit) exec" where
  "SetFilterOutput i out = bindM (getM (\<lambda>w. kind w i)) (\<lambda>k. case k of
       OpFilterStart _ \<Rightarrow> updM (fstart_at i) (\<lambda>f. f\<lparr>fstart_output := out\<rparr>)
     | OpFilter _ \<Rightarrow> updM (filter_at i) (\<lambda>f. f\<lparr>filter_output := out\<rparr>)
     | OpExists _ \<Rightarrow> updM (exists_at i) (Exists_SetFilterOutput out)
     | OpFanOut _ \<Rightarrow> updM (fanout_at i) (FanOut_SetFilterOutput out)
     | OpFanIn _ \<Rightarrow> updM (fanin_at i) (\<lambda>f. f\<lparr>fanin_output := out\<rparr>)
     | _ \<Rightarrow> failM NilDereference)"

section \<open>Construction\<close>

text \<open>A fresh address with its dynamic type.\<close>

definition alloc :: "(opid \<Rightarrow> oper) \<Rightarrow> (panic, world, opid) exec" where
  "alloc k = bindM (getM next_op) (\<lambda>i.
     thenM (modM (\<lambda>w. w\<lparr>next_op := Suc i, kind := (kind w)(i := k i)\<rparr>)) (retM i))"

definition new_at :: "(opid \<Rightarrow> (world, 'c) ref) \<Rightarrow> oper \<Rightarrow> 'c \<Rightarrow> (panic, world, opid) exec" where
  "new_at ref k c = bindM (alloc (\<lambda>_. k)) (\<lambda>i. thenM (updM (ref i) (\<lambda>_. c)) (retM i))"

definition connect_source ::
  "opid \<Rightarrow> Ordering option \<Rightarrow> (row \<Rightarrow> bool res) option \<Rightarrow> string list option \<Rightarrow> (panic, world, opid) exec"
where
  "connect_source t order predicate splitKeys =
     bindM (alloc (\<lambda>_. OpNone)) (\<lambda>i.
     bindM (getM (\<lambda>w. Connect i order predicate splitKeys (sources w t))) (\<lambda>(si, ms).
     thenM (updM (source_at t) (\<lambda>_. ms))
     (thenM (updM (input_at i) (\<lambda>_. si))
     (thenM (modM (\<lambda>w. w\<lparr>kind := (kind w)(i := OpSource t (si_conn si))\<rparr>)) (retM i)))))"

definition new_skip :: "opid \<Rightarrow> row \<Rightarrow> bool \<Rightarrow> (panic, world, opid) exec" where
  "new_skip input bound exclusive =
     bindM (schema_of input) (\<lambda>schema.
     bindM (liftM (NewSkip schema bound exclusive)) (\<lambda>sk.
     bindM (new_at skip_at (OpSkip input) sk) (\<lambda>i.
     thenM (SetOutput input (ToOperator i)) (retM i))))"

definition new_filter_start :: "opid \<Rightarrow> (panic, world, opid) exec" where
  "new_filter_start input =
     bindM (schema_of input) (\<lambda>schema.
     bindM (new_at fstart_at (OpFilterStart input) (NewFilterStart schema)) (\<lambda>i.
     thenM (SetOutput input (ToOperator i)) (retM i)))"

definition new_filter :: "opid \<Rightarrow> (row \<Rightarrow> bool res) \<Rightarrow> (panic, world, opid) exec" where
  "new_filter input predicate =
     bindM (schema_of input) (\<lambda>schema.
     bindM (new_at filter_at (OpFilter input) (NewFilter schema predicate)) (\<lambda>i.
     thenM (SetFilterOutput input (ToOperator i)) (retM i)))"

definition new_exists :: "opid \<Rightarrow> string \<Rightarrow> CompoundKey \<Rightarrow> ExistsType \<Rightarrow> (panic, world, opid) exec" where
  "new_exists input relationshipName key existsType =
     bindM (schema_of input) (\<lambda>schema.
     bindM (liftM (NewExists schema relationshipName key existsType)) (\<lambda>e.
     bindM (new_at exists_at (OpExists input) e) (\<lambda>i.
     thenM (SetFilterOutput input (ToOperator i)) (retM i))))"

definition new_fan_out :: "opid \<Rightarrow> (panic, world, opid) exec" where
  "new_fan_out input =
     bindM (schema_of input) (\<lambda>schema.
     bindM (new_at fanout_at (OpFanOut input) (NewFanOut schema)) (\<lambda>i.
     thenM (SetFilterOutput input (ToOperator i)) (retM i)))"

definition new_fan_in :: "opid \<Rightarrow> opid list \<Rightarrow> (panic, world, opid) exec" where
  "new_fan_in fanOut ins =
     bindM (getM (\<lambda>w. fanouts w fanOut)) (\<lambda>fo.
     bindM (new_at fanin_at (OpFanIn ins) (NewFanIn fo ins)) (\<lambda>i.
     thenM (forM (\<lambda>input. SetFilterOutput input (ToOperator i)) ins) (retM i)))"

definition new_filter_end :: "opid \<Rightarrow> opid \<Rightarrow> (panic, world, opid) exec" where
  "new_filter_end start input =
     bindM (schema_of input) (\<lambda>schema.
     bindM (new_at fend_at (OpFilterEnd start input) (NewFilterEnd schema start)) (\<lambda>i.
     thenM (SetFilterOutput input (ToOperator i)) (retM i)))"

definition new_take :: "opid \<Rightarrow> int \<Rightarrow> string list \<Rightarrow> (panic, world, opid) exec" where
  "new_take input limit pk =
     bindM (schema_of input) (\<lambda>schema.
     bindM (liftM (NewTake schema limit pk)) (\<lambda>t.
     bindM (new_at take_at (OpTake input) t) (\<lambda>i.
     thenM (SetOutput input (ToOperator i)) (retM i))))"

definition new_join ::
  "opid \<Rightarrow> opid \<Rightarrow> CompoundKey \<Rightarrow> CompoundKey \<Rightarrow> string \<Rightarrow> bool \<Rightarrow> bool \<Rightarrow> string \<Rightarrow> (panic, world, opid) exec"
where
  "new_join parent child pk ck name hidden scalar system =
     bindM (schema_of parent) (\<lambda>ps.
     bindM (schema_of child) (\<lambda>cs.
     bindM (liftM (NewJoin parent ps child cs pk ck name hidden scalar system)) (\<lambda>j.
     bindM (new_at join_at (OpJoin parent child) j) (\<lambda>i.
     thenM (SetOutput parent (ToJoinParent i))
     (thenM (SetOutput child (ToJoinChild i)) (retM i))))))"

section \<open>Destruction\<close>

text \<open>
  \<open>Destroy\<close> travels from an operator to its inputs, which are older than the operator; the fuel is
  the length of that path, at most the number of operators.
\<close>

fun Destroy :: "nat \<Rightarrow> opid \<Rightarrow> (panic, world, unit) exec" where
  "Destroy 0 i = failM OutOfFuel"
| "Destroy (Suc n) i = bindM (getM (\<lambda>w. kind w i)) (\<lambda>k. case k of
       OpNone \<Rightarrow> failM NilDereference
     | OpSource t c \<Rightarrow> updM (source_at t) (Disconnect c)
     | OpSkip input \<Rightarrow> Destroy n input
     | OpFilterStart input \<Rightarrow> Destroy n input
     | OpFilter input \<Rightarrow> Destroy n input
     | OpExists input \<Rightarrow> Destroy n input
     | OpFanOut input \<Rightarrow>
         bindM (getM (\<lambda>w. FanOut_Destroy (fanouts w i))) (\<lambda>r. bindM (liftM r) (\<lambda>(last, fo).
           thenM (updM (fanout_at i) (\<lambda>_. fo)) (if last then Destroy n input else retM ())))
     | OpFanIn ins \<Rightarrow> forM (Destroy n) ins
     | OpFilterEnd start input \<Rightarrow> Destroy n input
     | OpTake input \<Rightarrow> Destroy n input
     | OpJoin parent child \<Rightarrow> thenM (Destroy n parent) (Destroy n child)
     | OpFlipped parent child \<Rightarrow> thenM (Destroy n child) (Destroy n parent)
     | OpUnionFanOut input \<Rightarrow>
         bindM (getM (\<lambda>w. UnionFanOut_Destroy (ufanouts w i))) (\<lambda>r. bindM (liftM r) (\<lambda>(last, fo).
           thenM (updM (ufanout_at i) (\<lambda>_. fo)) (if last then Destroy n input else retM ())))
     | OpUnionFanIn ins \<Rightarrow> forM (Destroy n) ins)"

end
