(* ===== verification/Builder.thy ===== *)
theory Builder
  imports Wiring
begin

text \<open>
  \<open>builder/builder.go\<close>: the operator graph of a query.  The graph always has the shape

    source, skip?, exists-joins*, filter chain?, take?, related-joins*

  The delegate gives the address and the primary key of the source of a table (\<open>None\<close>: there is none)
  and the lower case of text that is not ASCII.  The list of edges that \<open>BuildPipeline\<close>
  collects is read by tests only and left out; a storage for a take is made with the take.
\<close>

record delegate =
  d_source :: "string \<Rightarrow> (opid \<times> string list) option"
  d_lower :: "string \<Rightarrow> string"

definition d_keys :: "delegate \<Rightarrow> string \<Rightarrow> string list option" where
  "d_keys d table = map_option snd (d_source d table)"

section \<open>The filter chain\<close>

definition applySimpleFilter :: "(string \<Rightarrow> string) \<Rightarrow> Condition \<Rightarrow> opid \<Rightarrow> (panic, world, opid) exec" where
  "applySimpleFilter uc cond input =
     bindM (liftM (BuildPredicate uc (Some cond))) (\<lambda>predicate. new_filter input predicate)"

definition applyCorrelatedSubqueryCondition :: "Condition \<Rightarrow> opid \<Rightarrow> (panic, world, opid) exec" where
  "applyCorrelatedSubqueryCondition cond input =
     (case cond_related cond of
        None \<Rightarrow> retM input
      | Some q \<Rightarrow>
          if cond_flip cond then retM input
          else new_exists input (alias_or_table (csq_subquery q)) (ParentField (csq_correlation q))
                 (if cond_op cond = ''NOT EXISTS'' then ExistsTypeNotExists else ExistsTypeExists))"

text \<open>
  The branches of a disjunction: one per subquery branch, and one filter for all the simple ones.
  \<open>branch\<close> is \<open>applyFilter\<close> on a branch.
\<close>

definition or_branches ::
  "(string \<Rightarrow> string) \<Rightarrow> (Condition \<Rightarrow> opid \<Rightarrow> (panic, world, opid) exec) \<Rightarrow> Condition list \<Rightarrow> Condition list \<Rightarrow>
   opid \<Rightarrow> (panic, world, opid list) exec"
where
  "or_branches uc branch subquery simple fanOut =
     bindM (mapM (\<lambda>c. branch c fanOut) subquery) (\<lambda>bs.
       if simple = [] then retM bs
       else bindM (applySimpleFilter uc (compound ''or'' simple) fanOut) (\<lambda>f. retM (bs @ [f])))"

lemma or_branches_cong [fundef_cong]:
  "ss = ss' \<Longrightarrow> sim = sim' \<Longrightarrow> i = i' \<Longrightarrow> uc = uc' \<Longrightarrow> (\<And>c. c \<in> set ss' \<Longrightarrow> f c = g c) \<Longrightarrow>
   or_branches uc f ss sim i = or_branches uc' g ss' sim' i'"
  unfolding or_branches_def by (auto intro!: arg_cong2 [where f = bindM] mapM_cong)

lemma groupSubquery_size [termination_simp]:
  "c \<in> set (fst (groupSubqueryConditions cond)) \<Longrightarrow> size c < size cond"
  by (auto simp: groupSubqueryConditions_def size_conditions)

definition close_fan :: "opid \<Rightarrow> opid list \<Rightarrow> (panic, world, opid) exec" where
  "close_fan fanOut branches =
     bindM (new_fan_in fanOut branches) (\<lambda>fanIn.
     thenM (updM (fanout_at fanOut) (FanOut_SetFanIn fanIn)) (retM fanIn))"

fun applyFilterChain :: "(string \<Rightarrow> string) \<Rightarrow> Condition \<Rightarrow> opid \<Rightarrow> (panic, world, opid) exec" where
  "applyFilterChain uc cond input =
     (if cond_type cond = ''and'' then foldM (applyFilterChain uc) (conditions cond) input
      else if cond_type cond = ''or'' then
        (if fst (groupSubqueryConditions cond) = []
         then applySimpleFilter uc (compound ''or'' (snd (groupSubqueryConditions cond))) input
         else bindM (new_fan_out input) (\<lambda>fanOut.
              bindM (or_branches uc (applyFilterChain uc) (fst (groupSubqueryConditions cond))
                       (snd (groupSubqueryConditions cond)) fanOut) (close_fan fanOut)))
      else if cond_type cond = ''correlatedSubquery'' then applyCorrelatedSubqueryCondition cond input
      else if cond_type cond = ''simple'' then applySimpleFilter uc cond input
      else failM (Panic ''applyFilter: unknown condition type''))"

declare applyFilterChain.simps [simp del]

section \<open>The pipeline\<close>

text \<open>The nesting of subqueries in a query, which no rewriting changes.\<close>

fun nesting :: "AST \<Rightarrow> nat" and csq_nesting :: "CorrelatedSubquery \<Rightarrow> nat" and cond_nesting :: "Condition \<Rightarrow> nat" where
  "nesting (AST sch t al w rels st li ob) =
     Suc (case_option 0 cond_nesting w + sum_list (map csq_nesting rels))"
| "csq_nesting (CorrelatedSubquery co sq sy hi) = nesting sq"
| "cond_nesting (Condition ty opr l r cs rel fl sc) =
     case_option 0 csq_nesting rel + sum_list (map cond_nesting cs)"

lemma csq_nesting_eq: "csq_nesting q = nesting (csq_subquery q)"
  by (cases q) simp

lemma nesting_complete [simp]:
  "nesting (completeOrdering pks a) = nesting a"
  "csq_nesting (complete_related pks q) = csq_nesting q"
  "cond_nesting (completeOrderingInCondition pks c) = cond_nesting c"
  by (induction pks a and pks q and pks c rule: completeOrdering_complete_related_completeOrderingInCondition.induct)
    (auto simp: comp_def split: option.splits intro!: arg_cong [of _ _ sum_list])

lemma nesting_set [simp]:
  "nesting (set_alias al a) = nesting a" "nesting (set_limit n a) = nesting a"
  by (cases a; simp add: set_alias_def set_limit_def)+

lemma nesting_uniquify:
  "cond_nesting (fst (uniquify c n)) = cond_nesting c"
  "sum_list (map cond_nesting (fst (uniquify_all cs n))) = sum_list (map cond_nesting cs)"
proof (induction c n and cs n rule: uniquify_uniquify_all.induct)
  case (1 ty opr l r cs rel fl sc n)
  then show ?case by (auto simp: split_def Let_def split: option.splits CorrelatedSubquery.splits)
next
  case (3 c cs n)
  then show ?case by (simp add: split_def Let_def prod_eq_iff)
qed simp

lemma nesting_aliases [simp]: "nesting (uniquifyCSQConditionAliases a) = nesting a"
  by (cases a) (auto simp: uniquifyCSQConditionAliases_def set_where_def nesting_uniquify split: option.splits)

lemma gather_nesting: "d \<in> set (gatherCSQConditions c) \<Longrightarrow> cond_nesting d \<le> cond_nesting c"
proof (induction c rule: gatherCSQConditions.induct)
  case (1 c)
  show ?case
  proof (cases "cond_type c = ''correlatedSubquery''")
    case True
    with "1.prems" show ?thesis by (simp add: gatherCSQConditions.simps [of c])
  next
    case False
    with "1.prems" obtain e where e: "e \<in> set (conditions c)" "d \<in> set (gatherCSQConditions e)"
        "cond_type c = ''and'' \<or> cond_type c = ''or''"
      by (auto simp: gatherCSQConditions.simps [of c] split: if_splits)
    then have "cond_nesting d \<le> cond_nesting e" using "1.IH" False by blast
    also have "\<dots> \<le> cond_nesting c"
      using e(1) by (cases c) (auto intro!: trans_le_add2 member_le_sum_list)
    finally show ?thesis .
  qed
qed

lemma gathered_smaller:
  assumes "c \<in> set (gather_where a)" "cond_related c = Some q"
  shows "nesting (csq_subquery q) < nesting a"
proof -
  obtain w where w: "ast_Where a = Some w" "c \<in> set (gatherCSQConditions w)"
    using assms(1) by (cases "ast_Where a") (simp_all add: gather_where_def)
  have "nesting (csq_subquery q) \<le> cond_nesting c"
    using assms(2) by (cases c) (simp add: csq_nesting_eq)
  also have "\<dots> \<le> cond_nesting w" using gather_nesting [OF w(2)] .
  finally show ?thesis using w(1) by (cases a) simp
qed

lemma set_put: "set (put k v kvs) \<subseteq> insert (k, v) (set kvs)"
  by (induction k v kvs rule: put.induct) auto

lemma dedupe_subset: "(al, q) \<in> set (dedupe_related rels) \<Longrightarrow> q \<in> set rels"
proof -
  have "set (fold (\<lambda>q acc. put (alias_or_table (csq_subquery q)) q acc) rels acc) \<subseteq>
      set acc \<union> (\<lambda>q. (alias_or_table (csq_subquery q), q)) ` set rels" for acc
  proof (induction rels arbitrary: acc)
    case (Cons q rels)
    show ?case using Cons.IH [of "put (alias_or_table (csq_subquery q)) q acc"] set_put by fastforce
  qed simp
  then show "(al, q) \<in> set (dedupe_related rels) \<Longrightarrow> q \<in> set rels"
    by (fastforce simp: dedupe_related_def)
qed

lemma related_smaller: "(al, q) \<in> set (dedupe_related (ast_Related a)) \<Longrightarrow> nesting (csq_subquery q) < nesting a"
  using dedupe_subset [of al q "ast_Related a"]
  by (cases a) (auto simp: csq_nesting_eq [symmetric] less_Suc_eq_le intro!: trans_le_add2 member_le_sum_list)

text \<open>The steps of \<open>buildPipelineInternal\<close> that need no recursion.\<close>

definition split_keys :: "AST \<Rightarrow> string list \<Rightarrow> string list option" where
  "split_keys ast partKey =
     (if partKey = [] then collectSplitEditKeys ast
      else Some (remdups ((case collectSplitEditKeys ast of None \<Rightarrow> [] | Some ks \<Rightarrow> ks) @ partKey)))"

definition build_source :: "delegate \<Rightarrow> AST \<Rightarrow> string list \<Rightarrow> (panic, world, opid) exec" where
  "build_source d ast partKey =
     (case d_source d (ast_Table ast) of
        None \<Rightarrow> failM (Panic (''no source for table '' @ ast_Table ast))
      | Some (src, pk) \<Rightarrow>
        bindM (liftM (BuildPredicate (d_lower d) (Option.bind (ast_Where ast) stripCSQConditions))) (\<lambda>predicate.
        connect_source src (Some (ast_OrderBy ast)) (Some predicate) (split_keys ast partKey)))"

definition build_skip :: "delegate \<Rightarrow> AST \<Rightarrow> opid \<Rightarrow> (panic, world, opid) exec" where
  "build_skip d ast end =
     (case (ast_Start ast, d_source d (ast_Table ast)) of
        (None, _) \<Rightarrow> retM end
      | (Some start, None) \<Rightarrow> failM NilDereference
      | (Some start, Some (src, pk)) \<Rightarrow>
          bindM (askM (source_at src) (\<lambda>ms. NormalizeRow ms (BoundRow start))) (\<lambda>startRow.
            new_skip end startRow (Exclusive start)))"

definition build_filter :: "delegate \<Rightarrow> AST \<Rightarrow> opid \<Rightarrow> (panic, world, opid) exec" where
  "build_filter d ast end =
     (case ast_Where ast of
        None \<Rightarrow> retM end
      | Some cond \<Rightarrow>
          if gatherCSQConditions cond = [] then retM end
          else bindM (new_filter_start end) (\<lambda>filterStart.
               bindM (applyFilterChain (d_lower d) cond filterStart) (\<lambda>filterEnd.
               new_filter_end filterStart filterEnd)))"

definition build_take :: "AST \<Rightarrow> string list \<Rightarrow> opid \<Rightarrow> (panic, world, opid) exec" where
  "build_take ast partKey end =
     (case ast_Limit ast of None \<Rightarrow> retM end | Some limit \<Rightarrow> new_take end limit partKey)"

text \<open>
  The joins: \<open>build\<close> makes the child pipeline.  A flipped condition is skipped, and so is one without
  a subquery.
\<close>

definition build_exists_join ::
  "(AST \<Rightarrow> string list \<Rightarrow> (panic, world, opid) exec) \<Rightarrow> Condition \<Rightarrow> opid \<Rightarrow> (panic, world, opid) exec"
where
  "build_exists_join build cond end =
     (case cond_related cond of
        None \<Rightarrow> retM end
      | Some q \<Rightarrow>
          if cond_flip cond then retM end
          else bindM (build (set_limit existsLimit (csq_subquery q)) (ChildField (csq_correlation q))) (\<lambda>child.
            new_join end child (ParentField (csq_correlation q)) (ChildField (csq_correlation q))
              (alias_or_table (csq_subquery q)) (csq_hidden q) (cond_scalar cond) (csq_system q)))"

definition build_related_join ::
  "(AST \<Rightarrow> string list \<Rightarrow> (panic, world, opid) exec) \<Rightarrow> string \<times> CorrelatedSubquery \<Rightarrow> opid \<Rightarrow> (panic, world, opid) exec"
where
  "build_related_join build e end =
     bindM (build (csq_subquery (snd e)) (ChildField (csq_correlation (snd e)))) (\<lambda>child.
       new_join end child (ParentField (csq_correlation (snd e))) (ChildField (csq_correlation (snd e)))
         (fst e) (csq_hidden (snd e)) False (csq_system (snd e)))"

lemma build_exists_join_cong [fundef_cong]:
  "c = c' \<Longrightarrow> e = e' \<Longrightarrow> (\<And>q. cond_related c' = Some q \<Longrightarrow> f (set_limit existsLimit (csq_subquery q)) = g (set_limit existsLimit (csq_subquery q))) \<Longrightarrow>
   build_exists_join f c e = build_exists_join g c' e'"
  by (auto simp: build_exists_join_def split: option.splits)

lemma build_related_join_cong [fundef_cong]:
  "c = c' \<Longrightarrow> e = e' \<Longrightarrow> f (csq_subquery (snd c')) = g (csq_subquery (snd c')) \<Longrightarrow>
   build_related_join f c e = build_related_join g c' e'"
  by (simp add: build_related_join_def)

definition rewritten :: "delegate \<Rightarrow> AST \<Rightarrow> AST" where
  "rewritten d ast = uniquifyCSQConditionAliases (completeOrdering (d_keys d) ast)"

lemma nesting_rewritten [simp]: "nesting (rewritten d a) = nesting a"
  by (simp add: rewritten_def)

lemma child_smaller:
  "c \<in> set (gather_where (rewritten d a)) \<Longrightarrow> cond_related c = Some q \<Longrightarrow> nesting (csq_subquery q) < nesting a"
  using gathered_smaller [of c "rewritten d a" q] by simp

lemma related_child_smaller:
  "e \<in> set (dedupe_related (ast_Related (rewritten d a))) \<Longrightarrow> nesting (csq_subquery (snd e)) < nesting a"
  using related_smaller [of "fst e" "snd e" "rewritten d a"] by simp

function buildPipelineInternal ::
  "delegate \<Rightarrow> AST \<Rightarrow> string list \<Rightarrow> (panic, world, opid) exec"
where
  "buildPipelineInternal d ast partKey =
     bindM (build_source d (rewritten d ast) partKey) (\<lambda>input.
     bindM (build_skip d (rewritten d ast) input) (\<lambda>end.
     bindM (foldM (build_exists_join (buildPipelineInternal d)) (gather_where (rewritten d ast)) end) (\<lambda>end.
     bindM (build_filter d (rewritten d ast) end) (\<lambda>end.
     bindM (build_take (rewritten d ast) partKey end) (\<lambda>end.
       foldM (build_related_join (buildPipelineInternal d)) (dedupe_related (ast_Related (rewritten d ast))) end)))))"
  by pat_completeness auto
termination
  by (relation "measure (\<lambda>(d, a, pk). nesting a)") (simp_all add: child_smaller related_child_smaller)

declare buildPipelineInternal.simps [simp del]

definition BuildPipeline :: "delegate \<Rightarrow> AST \<Rightarrow> (panic, world, opid) exec" where
  "BuildPipeline d ast = buildPipelineInternal d ast []"

end
