(* ===== verification/Resolve.thy ===== *)
theory Resolve
  imports Planner
begin

text \<open>
  \<open>builder/resolve_scalar.go\<close>: a scalar EXISTS whose subquery is pinned to one row by a unique key is
  replaced by an equality with the value that an executor fetches for it.

  \<open>execute\<close> is the executor: \<open>None\<close> when no row matched, otherwise the value of the child field
  (which may be null).  It may change the state, as the engine's executor builds a pipeline.
\<close>

record CompanionSubquery =
  comp_AST :: AST
  comp_ChildField :: string
  comp_value :: "val option"

type_synonym 's executor = "AST \<Rightarrow> string \<Rightarrow> (panic, 's, val option) exec"
type_synonym unique_keys = "string \<Rightarrow> string list list option"

definition column_pos :: "string \<Rightarrow> ValuePos" where
  "column_pos c = \<lparr>vp_type = ''column'', vp_value = VNull, vp_name = c, vp_anchor = [], vp_field = VNull\<rparr>"

definition literal_pos :: "val \<Rightarrow> ValuePos" where
  "literal_pos v = \<lparr>vp_type = ''literal'', vp_value = v, vp_name = [], vp_anchor = [], vp_field = VNull\<rparr>"

definition simple_condition :: "string \<Rightarrow> ValuePos \<Rightarrow> ValuePos \<Rightarrow> Condition" where
  "simple_condition opr l r = Condition ''simple'' opr (Some l) (Some r) [] None False False"

definition alwaysFalseCondition :: Condition where
  "alwaysFalseCondition = simple_condition ''='' (literal_pos (num 1)) (literal_pos (num 0))"

section \<open>Pinned columns\<close>

fun collectConstraints :: "Condition \<Rightarrow> (string \<rightharpoonup> val) \<Rightarrow> (string \<rightharpoonup> val)" where
  "collectConstraints c out =
     (if cond_type c = ''simple'' then
        (case (cond_left c, cond_right c) of
           (Some l, Some r) \<Rightarrow>
             if cond_op c = ''='' \<and> vp_type l = ''column'' \<and> vp_type r = ''literal''
             then out(vp_name l \<mapsto> vp_value r) else out
         | _ \<Rightarrow> out)
      else if cond_type c = ''and'' then fold collectConstraints (conditions c) out
      else out)"

declare collectConstraints.simps [simp del]

definition ExtractLiteralEqualityConstraints :: "Condition \<Rightarrow> (string \<rightharpoonup> val)" where
  "ExtractLiteralEqualityConstraints c = collectConstraints c Map.empty"

definition covers :: "(string \<rightharpoonup> val) \<Rightarrow> string list \<Rightarrow> bool" where
  "covers constraints key \<longleftrightarrow> key \<noteq> [] \<and> list_all (\<lambda>c. constraints c \<noteq> None) key"

text \<open>No constraint at all covers no key, so the code's test for an empty map is \<open>covers\<close> too.\<close>

definition IsSimpleSubquery :: "unique_keys \<Rightarrow> AST \<Rightarrow> bool" where
  "IsSimpleSubquery tableUniqueKeys subquery =
     (case tableUniqueKeys (ast_Table subquery) of
        None \<Rightarrow> False
      | Some uniqueKeys \<Rightarrow>
          (case ast_Where subquery of
             None \<Rightarrow> False
           | Some w \<Rightarrow> list_ex (covers (ExtractLiteralEqualityConstraints w)) uniqueKeys))"

section \<open>Resolution\<close>

text \<open>What replaces the condition, from the operator, the parent field and the fetched value.\<close>

definition resolved_condition :: "string \<Rightarrow> string \<Rightarrow> val option \<Rightarrow> Condition" where
  "resolved_condition opr parentField value =
     (case value of
        None \<Rightarrow> alwaysFalseCondition
      | Some v \<Rightarrow>
          if v = VNull then alwaysFalseCondition
          else simple_condition (if opr = ''NOT EXISTS'' then ''IS NOT'' else ''='') (column_pos parentField) (literal_pos v))"

fun resolveASTRecursive ::
  "unique_keys \<Rightarrow> 's executor \<Rightarrow> AST \<Rightarrow> (panic, 's, AST \<times> CompanionSubquery list) exec"
  and resolve_related ::
  "unique_keys \<Rightarrow> 's executor \<Rightarrow> CorrelatedSubquery \<Rightarrow> (panic, 's, CorrelatedSubquery \<times> CompanionSubquery list) exec"
  and resolveCondition ::
  "unique_keys \<Rightarrow> 's executor \<Rightarrow> Condition \<Rightarrow> (panic, 's, Condition \<times> CompanionSubquery list) exec"
where
  "resolveASTRecursive uk execute (AST sch t al w rels st li ob) =
     bindM (case w of
              None \<Rightarrow> retM (None, [])
            | Some c \<Rightarrow> bindM (resolveCondition uk execute c) (\<lambda>(c', cs). retM (Some c', cs))) (\<lambda>(w', cs).
     bindM (mapM (resolve_related uk execute) rels) (\<lambda>rs.
       retM (AST sch t al w' (map fst rs) st li ob, cs @ concat (map snd rs))))"
| "resolve_related uk execute (CorrelatedSubquery co sq sy hi) =
     bindM (resolveASTRecursive uk execute sq) (\<lambda>(sq', cs). retM (CorrelatedSubquery co sq' sy hi, cs))"
| "resolveCondition uk execute (Condition ty opr l r conds rel fl sc) =
     (if ty = ''correlatedSubquery'' then
        (case rel of
           None \<Rightarrow> retM (Condition ty opr l r conds rel fl sc, [])
         | Some (CorrelatedSubquery co sq sy hi) \<Rightarrow>
             if sc \<and> (ParentField co = [] \<or> ChildField co = []) then retM (Condition ty opr l r conds rel fl sc, [])
             else bindM (resolveASTRecursive uk execute sq) (\<lambda>(sq', cs).
               if \<not> sc \<or> \<not> IsSimpleSubquery uk sq'
               then retM (Condition ty opr l r conds (Some (CorrelatedSubquery co sq' sy hi)) fl sc, cs)
               else bindM (execute sq' (hd (ChildField co))) (\<lambda>value.
                 retM (resolved_condition opr (hd (ParentField co)) value,
                       cs @ [\<lparr>comp_AST = sq', comp_ChildField = hd (ChildField co), comp_value = value\<rparr>]))))
      else if ty = ''and'' \<or> ty = ''or'' then
        bindM (mapM (resolveCondition uk execute) conds) (\<lambda>rs.
          retM (Condition ty opr l r (map fst rs) rel fl sc, concat (map snd rs)))
      else retM (Condition ty opr l r conds rel fl sc, []))"

definition ResolveSimpleScalarSubqueries ::
  "unique_keys \<Rightarrow> 's executor \<Rightarrow> AST \<Rightarrow> (panic, 's, AST \<times> CompanionSubquery list) exec" where
  "ResolveSimpleScalarSubqueries uk execute ast = resolveASTRecursive uk execute ast"

end
