(* ===== verification/Engine.thy ===== *)
theory Engine
  imports Builder Resolve
begin

text \<open>
  \<open>engine/engine.go\<close>: the engine of a client group.  It owns the heap of sources and pipelines and
  serves one call at a time (every method holds \<open>e.mu\<close>).

  The sources are memory sources, as the sidecar registers them.  \<open>n\<close> bounds the nesting of dynamic
  calls, \<open>sched\<close> is the order in which goroutines run, each as a whole; timings keep the table and
  the type of a change, not the wall time.  The storage database of the takes is not opened or
  closed here.  A nil map after \<open>Close\<close> is an empty one whose writes panic.
\<close>

section \<open>State\<close>

record companionEntry =
  ce_input :: opid
  ce_schema :: SourceSchema
  ce_matchedRow :: "row option"
  ce_childField :: string

record pipelineEntry =
  pe_queryID :: string
  pe_input :: opid
  pe_schema :: SourceSchema
  pe_companions :: "companionEntry list"

record Engine =
  heap :: world
  registered :: "(string \<times> opid) list"
  pipelines :: "(string \<times> pipelineEntry) list"
  tableUniqueKeys :: "(string \<times> string list list) list"
  closed :: bool
  fanOutThreshold :: int

definition NewEngine :: "int \<Rightarrow> Engine" where
  "NewEngine threshold =
     \<lparr>heap = empty_world, registered = [], pipelines = [], tableUniqueKeys = [], closed = False,
      fanOutThreshold = (if threshold = 0 then 2 else threshold)\<rparr>"

definition heap_at :: "(Engine, world) ref" where
  "heap_at = \<lparr>rd = heap, wr = (\<lambda>w e. e\<lparr>heap := w\<rparr>)\<rparr>"

abbreviation on_heap :: "(panic, world, 'a) exec \<Rightarrow> (panic, Engine, 'a) exec" where
  "on_heap m \<equiv> onM heap_at m"

definition SetTableUniqueKeys :: "string \<Rightarrow> string list list option \<Rightarrow> (panic, Engine, unit) exec" where
  "SetTableUniqueKeys table keys =
     (case keys of
        None \<Rightarrow> modM (\<lambda>e. e\<lparr>tableUniqueKeys := del table (tableUniqueKeys e)\<rparr>)
      | Some ks \<Rightarrow> bindM (getM closed) (\<lambda>c.
          if c then failM (Panic ''assignment to entry in nil map'')
          else modM (\<lambda>e. e\<lparr>tableUniqueKeys := put table ks (tableUniqueKeys e)\<rparr>)))"

definition TableUniqueKeys :: "Engine \<Rightarrow> (string \<times> string list list) list" where
  "TableUniqueKeys e = tableUniqueKeys e"

text \<open>A source becomes an object of the heap; \<open>sources[table]\<close> points to it.\<close>

definition RegisterMemorySource :: "MemorySource \<Rightarrow> (panic, Engine, unit) exec" where
  "RegisterMemorySource ms =
     bindM (getM (\<lambda>e. if fanOutThreshold e > 0 then SetParallel True [fanOutThreshold e] ms else ms)) (\<lambda>ms'.
     bindM (getM closed) (\<lambda>c.
       if c then failM (Panic ''assignment to entry in nil map'')
       else bindM (on_heap (new_at source_at OpNone ms')) (\<lambda>src.
         modM (\<lambda>e. e\<lparr>registered := put (tableName ms) src (registered e)\<rparr>))))"

definition GetMemorySource :: "Engine \<Rightarrow> string \<Rightarrow> opid option" where
  "GetMemorySource e table = map_of (registered e) table"

text \<open>The delegate of the builder.\<close>

definition engineDelegate :: "(string \<Rightarrow> string) \<Rightarrow> Engine \<Rightarrow> delegate" where
  "engineDelegate uc e =
     \<lparr>d_source = (\<lambda>t. map_option (\<lambda>src. (src, primaryKey (sources (heap e) src))) (map_of (registered e) t)),
      d_lower = uc\<rparr>"

section \<open>Adding and removing queries\<close>

definition fetch_all :: "nat \<Rightarrow> opid \<Rightarrow> (panic, world, Node list) exec" where
  "fetch_all n i = c_fetch (nested n) i empty_request"

text \<open>The executor of the resolver: it builds the subquery's pipeline, keeps it as a companion, and reads one row.\<close>

definition scalar_executor :: "nat \<Rightarrow> delegate \<Rightarrow> (world \<times> companionEntry list) executor" where
  "scalar_executor n d subquery childField =
     bindM (onM fst_at (BuildPipeline d subquery)) (\<lambda>i.
     bindM (onM fst_at (schema_of i)) (\<lambda>schema.
     bindM (onM fst_at (fetch_all n i)) (\<lambda>nodes.
     thenM (updM snd_at (\<lambda>cs. cs @ [\<lparr>ce_input = i, ce_schema = schema,
              ce_matchedRow = (case nodes of [] \<Rightarrow> None | node # _ \<Rightarrow> Some (Row node)), ce_childField = childField\<rparr>]))
       (retM (case nodes of [] \<Rightarrow> None | node # _ \<Rightarrow> Some (col (Row node) childField))))))"

definition build_query ::
  "nat \<Rightarrow> delegate \<Rightarrow> unique_keys \<Rightarrow> string \<Rightarrow> AST \<Rightarrow> (panic, world, pipelineEntry) exec" where
  "build_query n d uk queryID ast = (\<lambda>w.
     case ResolveSimpleScalarSubqueries uk (scalar_executor n d) ast (w, []) of
       (Inl e, (w', cs)) \<Rightarrow> (Inl e, w')
     | (Inr (ast', _), (w', cs)) \<Rightarrow>
         bindM (BuildPipeline d ast') (\<lambda>i.
         bindM (schema_of i) (\<lambda>schema.
           retM \<lparr>pe_queryID = queryID, pe_input = i, pe_schema = schema, pe_companions = cs\<rparr>)) w')"

definition wire_entry :: "pipelineEntry \<Rightarrow> (panic, world, unit) exec" where
  "wire_entry entry =
     thenM (SetOutput (pe_input entry) (ToPipeline (pe_queryID entry) (pe_schema entry)))
       (forM (\<lambda>ce. SetOutput (ce_input ce) (ToPipeline (pe_queryID entry) (ce_schema ce))) (pe_companions entry))"

definition buildAndRegisterLocked ::
  "nat \<Rightarrow> (string \<Rightarrow> string) \<Rightarrow> string \<Rightarrow> AST \<Rightarrow> (panic, Engine, pipelineEntry) exec" where
  "buildAndRegisterLocked n uc queryID ast =
     bindM (getM (\<lambda>e. (engineDelegate uc e, map_of (tableUniqueKeys e)))) (\<lambda>(d, uk).
     bindM (on_heap (build_query n d uk queryID ast)) (\<lambda>entry.
     bindM (getM closed) (\<lambda>c.
       if c then failM (Panic ''assignment to entry in nil map'')
       else thenM (modM (\<lambda>e. e\<lparr>pipelines := put queryID entry (pipelines e)\<rparr>))
              (thenM (on_heap (wire_entry entry)) (retM entry)))))"

text \<open>\<open>Destroy\<close> needs at most as many steps as there are operators.\<close>

definition destroy_entry :: "pipelineEntry \<Rightarrow> (panic, world, unit) exec" where
  "destroy_entry entry =
     bindM (getM next_op) (\<lambda>n.
     thenM (Destroy n (pe_input entry)) (forM (\<lambda>ce. Destroy n (ce_input ce)) (pe_companions entry)))"

definition removeQueryLocked :: "string \<Rightarrow> (panic, Engine, unit) exec" where
  "removeQueryLocked queryID =
     bindM (getM (\<lambda>e. map_of (pipelines e) queryID)) (\<lambda>found.
       case found of
         None \<Rightarrow> retM ()
       | Some entry \<Rightarrow>
           thenM (on_heap (destroy_entry entry))
             (modM (\<lambda>e. e\<lparr>pipelines := del queryID (pipelines e)\<rparr>)))"

definition RemoveQuery :: "string \<Rightarrow> (panic, Engine, unit) exec" where
  "RemoveQuery queryID = removeQueryLocked queryID"

definition Close :: "(panic, Engine, unit) exec" where
  "Close =
     bindM (getM closed) (\<lambda>c.
       if c then retM ()
       else thenM (modM (\<lambda>e. e\<lparr>closed := True\<rparr>))
              (bindM (getM pipelines) (\<lambda>entries.
               thenM (forM (\<lambda>e. on_heap (destroy_entry (snd e))) entries)
                 (modM (\<lambda>e. e\<lparr>pipelines := [], registered := [], tableUniqueKeys := []\<rparr>)))))"

section \<open>Hydration\<close>

text \<open>The rows of a node, and the nodes of an entry: those of the pipeline, then the companions' rows.\<close>

definition node_rows :: "nat \<Rightarrow> string \<Rightarrow> SourceSchema \<times> Node \<Rightarrow> (panic, world, RowChange list) exec" where
  "node_rows n queryID sn = streamNodes (c_force (nested n)) queryID (fst sn) RowChangeAdd (snd sn)"

definition companion_nodes :: "pipelineEntry \<Rightarrow> (SourceSchema \<times> Node) list" where
  "companion_nodes entry =
     List.map_filter (\<lambda>ce. map_option (\<lambda>r. (ce_schema ce, leaf r)) (ce_matchedRow ce)) (pe_companions entry)"

definition hydrateEntry :: "nat \<Rightarrow> pipelineEntry \<Rightarrow> (panic, world, RowChange list) exec" where
  "hydrateEntry n entry =
     bindM (fetch_all n (pe_input entry)) (\<lambda>nodes.
       collectM (node_rows n (pe_queryID entry)) (map (Pair (pe_schema entry)) nodes @ companion_nodes entry))"

definition AddQuery ::
  "nat \<Rightarrow> (string \<Rightarrow> string) \<Rightarrow> string \<Rightarrow> AST \<Rightarrow> (panic, Engine, RowChange list) exec" where
  "AddQuery n uc queryID ast =
     thenM (removeQueryLocked queryID)
       (bindM (buildAndRegisterLocked n uc queryID ast) (\<lambda>entry. on_heap (hydrateEntry n entry)))"

record QuerySpec =
  qs_queryID :: string
  qs_AST :: AST

record QueryResult =
  qr_queryID :: string
  qr_changes :: "RowChange list"
  qr_chunkIndex :: nat
  qr_final :: bool

definition build_all ::
  "nat \<Rightarrow> (string \<Rightarrow> string) \<Rightarrow> QuerySpec list \<Rightarrow> (panic, Engine, pipelineEntry list) exec" where
  "build_all n uc queries =
     mapM (\<lambda>q. thenM (removeQueryLocked (qs_queryID q)) (buildAndRegisterLocked n uc (qs_queryID q) (qs_AST q))) queries"

text \<open>The hydrations run in goroutines; \<open>sched\<close> orders their positions, and results go to their position.\<close>

definition AddQueries ::
  "(nat list \<Rightarrow> nat list) \<Rightarrow> nat \<Rightarrow> (string \<Rightarrow> string) \<Rightarrow> QuerySpec list \<Rightarrow> (panic, Engine, QueryResult list) exec" where
  "AddQueries sched n uc queries =
     bindM (build_all n uc queries) (\<lambda>built.
     bindM (on_heap (spawn_all (\<lambda>i. hydrateEntry n (built ! i)) (sched [0..<length built]))) (\<lambda>done.
       retM (map (\<lambda>i. \<lparr>qr_queryID = pe_queryID (built ! i),
               qr_changes = (case map_of done i of None \<Rightarrow> [] | Some rows \<Rightarrow> rows),
               qr_chunkIndex = 0, qr_final = True\<rparr>) [0..<length built])))"

text \<open>
  The streaming hydration of one entry: the rows of each node are appended to the chunk, which is
  sent when it has reached the chunk size; the last, possibly empty, chunk is final.
\<close>

fun hydrate_chunks ::
  "nat \<Rightarrow> (SourceSchema \<times> Node \<Rightarrow> (panic, 's, RowChange list) exec) \<Rightarrow> string \<Rightarrow>
   (SourceSchema \<times> Node) list \<Rightarrow> RowChange list \<Rightarrow> nat \<Rightarrow> (panic, 's, QueryResult list) exec"
where
  "hydrate_chunks sz rows queryID [] chunk index =
     retM [\<lparr>qr_queryID = queryID, qr_changes = chunk, qr_chunkIndex = index, qr_final = True\<rparr>]"
| "hydrate_chunks sz rows queryID (sn # sns) chunk index =
     bindM (rows sn) (\<lambda>rcs.
       if length (chunk @ rcs) \<ge> sz then
         bindM (hydrate_chunks sz rows queryID sns [] (Suc index)) (\<lambda>results.
           retM (\<lparr>qr_queryID = queryID, qr_changes = chunk @ rcs, qr_chunkIndex = index, qr_final = False\<rparr> # results))
       else hydrate_chunks sz rows queryID sns (chunk @ rcs) index)"

definition hydrateChunkSize :: nat where
  "hydrateChunkSize = 10000"

definition hydrate_stream :: "nat \<Rightarrow> nat \<Rightarrow> pipelineEntry \<Rightarrow> (panic, world, QueryResult list) exec" where
  "hydrate_stream sz n entry =
     bindM (fetch_all n (pe_input entry)) (\<lambda>nodes.
       hydrate_chunks sz (node_rows n (pe_queryID entry)) (pe_queryID entry)
         (map (Pair (pe_schema entry)) nodes @ companion_nodes entry) [] 0)"

text \<open>\<open>None\<close> is the error of a closed engine; otherwise the results in the order of the callback.\<close>

definition AddQueriesStream ::
  "(nat list \<Rightarrow> nat list) \<Rightarrow> nat \<Rightarrow> nat \<Rightarrow> (string \<Rightarrow> string) \<Rightarrow> QuerySpec list \<Rightarrow>
   (panic, Engine, QueryResult list option) exec"
where
  "AddQueriesStream sched sz n uc queries =
     bindM (getM closed) (\<lambda>c.
       if c then retM None
       else bindM (build_all n uc queries) (\<lambda>built.
            bindM (on_heap (spawn_all (\<lambda>i. hydrate_stream sz n (built ! i)) (sched [0..<length built]))) (\<lambda>done.
              retM (Some (concat (map snd done))))))"

end
