(* ===== verification/Advance.thy ===== *)
theory Advance
  imports Engine
begin

text \<open>
  \<open>Advance\<close> and \<open>AdvanceStream\<close> of \<open>engine/engine.go\<close>: a batch of row changes goes through the
  sources, and the streamer's rows are collected, or sent in chunks.  A drift panic is recovered:
  the rows are dropped and the result says so; any other panic is raised again.

  The captured variables of the Go closures are the second component of the state, and so are the
  frames that the callback has received.
\<close>

record SnapshotChange =
  snap_table :: string
  prevValues :: "row list"
  nextValue :: "row option"

record TableTiming =
  tt_table :: string
  tt_type :: ChangeType

record AdvanceResult =
  ar_changes :: "RowChange list"
  ar_timings :: "TableTiming list"
  ar_drift :: "panic option"

record AdvanceStreamPartial =
  fr_changes :: "RowChange list"
  fr_chunkIndex :: nat
  fr_final :: bool
  fr_timings :: "TableTiming list"
  fr_drift :: "panic option"

section \<open>Source changes of a snapshot change\<close>

fun source_change_type :: "SourceChange \<Rightarrow> ChangeType" where
  "source_change_type (SourceAdd r) = ChangeTypeAdd"
| "source_change_type (SourceRemove r) = ChangeTypeRemove"
| "source_change_type (SourceEdit r old) = ChangeTypeEdit"

definition primaryKeysMatch :: "row \<Rightarrow> row \<Rightarrow> string list \<Rightarrow> bool res" where
  "primaryKeysMatch a b pk = allR (\<lambda>k. ValuesEqual (col a k) (col b k)) pk"

text \<open>The loop over the previous rows: the removals so far, and the old row of an edit.\<close>

fun split_previous ::
  "row option \<Rightarrow> string list \<Rightarrow> row list \<Rightarrow> SourceChange list \<Rightarrow> row option \<Rightarrow> (SourceChange list \<times> row option) res"
where
  "split_previous newRow pk [] result editOld = Inr (result, editOld)"
| "split_previous newRow pk (prev # prevs) result editOld =
     bindR (case newRow of None \<Rightarrow> Inr False | Some r \<Rightarrow> primaryKeysMatch prev r pk) (\<lambda>same.
       if same then split_previous newRow pk prevs result (Some prev)
       else split_previous newRow pk prevs (result @ [SourceRemove prev]) editOld)"

definition snapshotToSourceChanges :: "MemorySource \<Rightarrow> SnapshotChange \<Rightarrow> SourceChange list res" where
  "snapshotToSourceChanges ms change =
     bindR (case nextValue change of None \<Rightarrow> Inr None | Some r \<Rightarrow> bindR (NormalizeRow ms r) (\<lambda>r'. Inr (Some r'))) (\<lambda>newRow.
     bindR (mapR (NormalizeRow ms) (prevValues change)) (\<lambda>prevs.
     bindR (split_previous newRow (primaryKey ms) prevs [] None) (\<lambda>(removals, editOld).
       Inr (removals @ (case newRow of
              None \<Rightarrow> []
            | Some r \<Rightarrow> (case editOld of Some old \<Rightarrow> [SourceEdit r old] | None \<Rightarrow> [SourceAdd r]))))))"

section \<open>The loop\<close>

record progress =
  pending :: "RowChange list"
  timings :: "TableTiming list"
  chunkIndex :: nat
  drifted :: "panic option"
  frames :: "AdvanceStreamPartial list"

definition no_progress :: progress where
  "no_progress = \<lparr>pending = [], timings = [], chunkIndex = 0, drifted = None, frames = []\<rparr>"

definition drain :: "nat \<Rightarrow> (panic, Engine \<times> progress, RowChange list) exec" where
  "drain n = onM fst_at (on_heap (Stream streamer_at (c_force (nested n))))"

text \<open>One source change: push it, drain the streamer, record rows and timing; then \<open>after\<close>.\<close>

definition advance_push ::
  "(nat list \<Rightarrow> nat list) \<Rightarrow> nat \<Rightarrow> (panic, Engine \<times> progress, unit) exec \<Rightarrow> string \<Rightarrow> opid \<Rightarrow> SourceChange \<Rightarrow>
   (panic, Engine \<times> progress, unit) exec"
where
  "advance_push sched n after table src sc =
     bindM (onM fst_at (on_heap (MemorySource_Push sched (source_at src) (c_push (nested n)) sc))) (\<lambda>_.
     bindM (drain n) (\<lambda>rows.
     thenM (updM snd_at (\<lambda>p. p\<lparr>pending := pending p @ rows,
              timings := timings p @ [\<lparr>tt_table = table, tt_type = source_change_type sc\<rparr>]\<rparr>))
       after))"

definition advance_change ::
  "(nat list \<Rightarrow> nat list) \<Rightarrow> nat \<Rightarrow> (panic, Engine \<times> progress, unit) exec \<Rightarrow> SnapshotChange \<Rightarrow>
   (panic, Engine \<times> progress, unit) exec"
where
  "advance_change sched n after change =
     bindM (getM (\<lambda>s. map_of (registered (fst s)) (snap_table change))) (\<lambda>found.
       case found of
         None \<Rightarrow> retM ()
       | Some src \<Rightarrow>
           bindM (askM fst_at (\<lambda>e. snapshotToSourceChanges (sources (heap e) src) change)) (\<lambda>scs.
             forM (advance_push sched n after (snap_table change) src) scs))"

text \<open>\<open>recover()\<close> of a drift panic; the handler runs in the state the panic left.\<close>

definition recover_drift ::
  "(panic \<Rightarrow> (panic, 's, unit) exec) \<Rightarrow> (panic, 's, unit) exec \<Rightarrow> (panic, 's, unit) exec" where
  "recover_drift handler m = (\<lambda>s. case m s of
       (Inl e, s') \<Rightarrow> if IsDriftError e then handler e s' else (Inl e, s')
     | (Inr u, s') \<Rightarrow> (Inr u, s'))"

definition Advance ::
  "(nat list \<Rightarrow> nat list) \<Rightarrow> nat \<Rightarrow> SnapshotChange list \<Rightarrow> (panic, Engine, AdvanceResult) exec" where
  "Advance sched n changes = (\<lambda>e.
     case recover_drift
            (\<lambda>d. thenM (updM snd_at (\<lambda>p. p\<lparr>drifted := Some d\<rparr>)) (bindM (drain n) (\<lambda>_. retM ())))
            (forM (advance_change sched n (retM ())) changes) (e, no_progress) of
       (Inl x, (e', p)) \<Rightarrow> (Inl x, e')
     | (Inr _, (e', p)) \<Rightarrow>
         (Inr \<lparr>ar_changes = (if drifted p = None then pending p else []), ar_timings = timings p, ar_drift = drifted p\<rparr>, e'))"

section \<open>Streaming\<close>

definition flush :: "bool \<Rightarrow> (panic, Engine \<times> progress, unit) exec" where
  "flush final = updM snd_at (\<lambda>p.
     p\<lparr>frames := frames p @ [\<lparr>fr_changes = pending p, fr_chunkIndex = chunkIndex p, fr_final = final,
                             fr_timings = (if final then timings p else []), fr_drift = drifted p\<rparr>],
       pending := [], chunkIndex := Suc (chunkIndex p)\<rparr>)"

definition flush_full :: "nat \<Rightarrow> (panic, Engine \<times> progress, unit) exec" where
  "flush_full sz = bindM (getM (\<lambda>s. length (pending (snd s)))) (\<lambda>k. if k \<ge> sz then flush False else retM ())"

definition advanceChunkSize :: nat where
  "advanceChunkSize = 10000"

definition advance_stream ::
  "(nat list \<Rightarrow> nat list) \<Rightarrow> nat \<Rightarrow> nat \<Rightarrow> SnapshotChange list \<Rightarrow> (panic, Engine \<times> progress, unit) exec" where
  "advance_stream sched sz n changes =
     thenM (recover_drift
              (\<lambda>d. thenM (updM snd_at (\<lambda>p. p\<lparr>drifted := Some d, pending := []\<rparr>)) (bindM (drain n) (\<lambda>_. retM ())))
              (forM (advance_change sched n (flush_full sz)) changes))
       (flush True)"

text \<open>The frames sent are part of the result even when the call panics; \<open>None\<close> is the error of a closed engine.\<close>

definition AdvanceStream ::
  "(nat list \<Rightarrow> nat list) \<Rightarrow> nat \<Rightarrow> nat \<Rightarrow> SnapshotChange list \<Rightarrow> Engine \<Rightarrow>
   (panic + unit) option \<times> AdvanceStreamPartial list \<times> Engine"
where
  "AdvanceStream sched sz n changes e =
     (if closed e then (None, [], e)
      else case advance_stream sched sz n changes (e, no_progress) of
          (r, (e', p)) \<Rightarrow> (Some r, frames p, e'))"

section \<open>The stream refines the batch\<close>

text \<open>
  \<open>lockstep R m m'\<close>: from engines that agree and progress related by \<open>R\<close>, both runs have the same
  outcome and the same engine, and related progress.
\<close>

definition lockstep ::
  "(progress \<Rightarrow> progress \<Rightarrow> bool) \<Rightarrow> (panic, Engine \<times> progress, 'a) exec \<Rightarrow> (panic, Engine \<times> progress, 'a) exec \<Rightarrow> bool"
where
  "lockstep R m m' \<longleftrightarrow> (\<forall>e p q. R p q \<longrightarrow>
     fst (m (e, p)) = fst (m' (e, q)) \<and> fst (snd (m (e, p))) = fst (snd (m' (e, q))) \<and>
     R (snd (snd (m (e, p)))) (snd (snd (m' (e, q)))))"

lemma lockstepD:
  assumes "lockstep R m m'" "R p q" "m (e, p) = (r, (e1, p1))"
  obtains q1 where "m' (e, q) = (r, (e1, q1))" "R p1 q1"
proof -
  obtain r' e' q1 where m': "m' (e, q) = (r', (e', q1))" by (metis surj_pair)
  have "r = r' \<and> e1 = e' \<and> R p1 q1"
    using assms(1) [unfolded lockstep_def, rule_format, OF assms(2), of e] assms(3) m' by simp
  with m' that show thesis by simp
qed

lemma lockstep_retM: "lockstep R (retM x) (retM x)"
  by (simp add: lockstep_def)

lemma lockstep_onM: "lockstep R (onM fst_at m) (onM fst_at m)"
  by (auto simp: lockstep_def onM_def split: prod.splits)

lemma lockstep_askM: "lockstep R (askM fst_at f) (askM fst_at f)"
  by (simp add: lockstep_def)

lemma lockstep_getM: "lockstep R (getM (\<lambda>s. f (fst s))) (getM (\<lambda>s. f (fst s)))"
  by (simp add: lockstep_def)

lemma lockstep_updM: "(\<And>p q. R p q \<Longrightarrow> R (f p) (g q)) \<Longrightarrow> lockstep R (updM snd_at f) (updM snd_at g)"
  by (simp add: lockstep_def)

lemma lockstep_bindM:
  assumes "lockstep R m m'" "\<And>x. lockstep R (f x) (f' x)"
  shows "lockstep R (bindM m f) (bindM m' f')"
  unfolding lockstep_def
proof (intro allI impI)
  fix e p q assume R: "R p q"
  obtain r e1 p1 where m: "m (e, p) = (r, (e1, p1))" by (metis surj_pair)
  with assms(1) R obtain q1 where m': "m' (e, q) = (r, (e1, q1))" and R1: "R p1 q1" by (rule lockstepD)
  show "fst (bindM m f (e, p)) = fst (bindM m' f' (e, q)) \<and>
      fst (snd (bindM m f (e, p))) = fst (snd (bindM m' f' (e, q))) \<and>
      R (snd (snd (bindM m f (e, p)))) (snd (snd (bindM m' f' (e, q))))"
  proof (cases r)
    case (Inl x)
    with m m' R1 show ?thesis by (simp add: bindM_def)
  next
    case (Inr x)
    with m m' R1 assms(2) [of x, unfolded lockstep_def] show ?thesis by (simp add: bindM_def)
  qed
qed

lemma lockstep_forM: "(\<And>x. lockstep R (f x) (g x)) \<Longrightarrow> lockstep R (forM f xs) (forM g xs)"
  by (induction xs) (auto intro: lockstep_retM lockstep_bindM)

text \<open>The batch's rows are the rows sent so far and the pending ones; the frames sent are well formed.\<close>

definition streams_as :: "progress \<Rightarrow> progress \<Rightarrow> bool" where
  "streams_as p q \<longleftrightarrow>
     pending p = concat (map fr_changes (frames q)) @ pending q \<and> timings p = timings q \<and>
     drifted p = None \<and> drifted q = None \<and> map fr_chunkIndex (frames q) = [0..<chunkIndex q] \<and>
     (\<forall>f\<in>set (frames q). \<not> fr_final f \<and> fr_timings f = [] \<and> fr_drift f = None)"

lemma lockstep_flush: "lockstep streams_as (retM ()) (flush_full sz)"
  by (auto simp: lockstep_def flush_full_def flush_def streams_as_def)

lemma lockstep_change:
  "lockstep streams_as (advance_change sched n (retM ()) change) (advance_change sched n (flush_full sz) change)"
proof -
  have push: "lockstep streams_as (advance_push sched n (retM ()) t src sc) (advance_push sched n (flush_full sz) t src sc)" for t src sc
    unfolding advance_push_def drain_def
    by (intro lockstep_bindM lockstep_onM lockstep_updM lockstep_flush) (auto simp: streams_as_def)
  have found: "lockstep streams_as
      (case f of None \<Rightarrow> retM () | Some src \<Rightarrow> bindM (askM fst_at (h src)) (\<lambda>scs. forM (advance_push sched n (retM ()) t src) scs))
      (case f of None \<Rightarrow> retM () | Some src \<Rightarrow> bindM (askM fst_at (h src)) (\<lambda>scs. forM (advance_push sched n (flush_full sz) t src) scs))" for f h t
    by (cases f) (auto intro!: lockstep_retM lockstep_bindM lockstep_askM lockstep_forM push)
  show ?thesis
    unfolding advance_change_def by (intro lockstep_bindM lockstep_getM found)
qed

lemma drain_run: "drain n (e, p) = (fst (drain n (e, p)), fst (snd (drain n (e, p))), p)"
  by (auto simp: drain_def onM_def split: prod.splits)

lemma drain_progress: "fst (drain n (e, p)) = fst (drain n (e, q))" "fst (snd (drain n (e, p))) = fst (snd (drain n (e, q)))"
  by (auto simp: drain_def onM_def split: prod.splits)

definition frames_ok :: "AdvanceStreamPartial list \<Rightarrow> bool" where
  "frames_ok fs \<longleftrightarrow>
     fs \<noteq> [] \<and> map fr_chunkIndex fs = [0..<length fs] \<and> fr_final (last fs) \<and>
     (\<forall>f\<in>set (butlast fs). \<not> fr_final f \<and> fr_timings f = [] \<and> fr_drift f = None)"

definition frames_result :: "AdvanceStreamPartial list \<Rightarrow> AdvanceResult" where
  "frames_result fs =
     \<lparr>ar_changes = (if fr_drift (last fs) = None then concat (map fr_changes fs) else []),
      ar_timings = fr_timings (last fs), ar_drift = fr_drift (last fs)\<rparr>"

lemma streamed_frames:
  assumes "streams_as p q" "frames q' = frames q @ [\<lparr>fr_changes = chs, fr_chunkIndex = chunkIndex q,
      fr_final = True, fr_timings = timings q, fr_drift = d\<rparr>]"
    and "d = None \<Longrightarrow> chs = pending q" "d \<noteq> None \<Longrightarrow> chs = []"
  shows "frames_ok (frames q') \<and>
    frames_result (frames q') = \<lparr>ar_changes = (if d = None then pending p else []), ar_timings = timings p, ar_drift = d\<rparr> \<and>
    (d \<noteq> None \<longrightarrow> fr_changes (last (frames q')) = [])"
proof -
  have "length (frames q) = chunkIndex q"
    using assms(1) by (metis diff_zero length_map length_upt streams_as_def)
  with assms show ?thesis by (auto simp: frames_ok_def frames_result_def streams_as_def)
qed

lemma AdvanceStream_Advance:
  assumes "AdvanceStream sched sz n changes e = (Some (Inr ()), fs, e')"
  shows "frames_ok fs \<and> Advance sched n changes e = (Inr (frames_result fs), e') \<and>
    (fr_drift (last fs) \<noteq> None \<longrightarrow> fr_changes (last fs) = [])"
proof -
  let ?batch = "forM (advance_change sched n (retM ())) changes" and ?stream = "forM (advance_change sched n (flush_full sz)) changes"
  have open_e: "\<not> closed e" using assms by (auto simp: AdvanceStream_def split: if_splits)
  obtain q' where run: "advance_stream sched sz n changes (e, no_progress) = (Inr (), (e', q'))" and fs: "fs = frames q'"
    using assms open_e by (auto simp: AdvanceStream_def split: prod.splits)
  obtain r e1 p1 where batch: "?batch (e, no_progress) = (r, (e1, p1))" by (metis surj_pair)
  have "lockstep streams_as ?batch ?stream" by (intro lockstep_forM lockstep_change)
  moreover have "streams_as no_progress no_progress" by (simp add: streams_as_def no_progress_def)
  ultimately obtain q1 where stream: "?stream (e, no_progress) = (r, (e1, q1))" and R: "streams_as p1 q1"
    using batch by (rule lockstepD)
  show ?thesis
  proof (cases r)
    case (Inr u)
    with run stream have "q' = snd (snd (flush True (e1, q1)))" and e': "e' = e1"
      by (auto simp: advance_stream_def recover_drift_def bindM_def flush_def)
    then have q': "frames q' = frames q1 @ [\<lparr>fr_changes = pending q1, fr_chunkIndex = chunkIndex q1,
        fr_final = True, fr_timings = timings q1, fr_drift = None\<rparr>]"
      using R by (simp add: flush_def streams_as_def)
    have "drifted p1 = None" using R by (simp add: streams_as_def)
    then have "Advance sched n changes e = (Inr \<lparr>ar_changes = pending p1, ar_timings = timings p1, ar_drift = None\<rparr>, e1)"
      using batch Inr by (simp add: Advance_def recover_drift_def)
    with streamed_frames [OF R q'] e' fs q' show ?thesis by simp
  next
    case (Inl d)
    with run stream have drift: "IsDriftError d"
      by (auto simp: advance_stream_def recover_drift_def bindM_def split: if_splits)
    let ?q = "q1\<lparr>drifted := Some d, pending := []\<rparr>"
    let ?d = "drain n (e1, ?q)"
    obtain rows where rows: "fst ?d = Inr rows" and end_st: "e' = fst (snd ?d)" "q' = snd (snd (flush True (snd ?d)))"
      using run stream Inl drift drain_run [of n e1 ?q]
      by (cases "fst ?d") (auto simp: advance_stream_def recover_drift_def bindM_def flush_def split: prod.splits)
    have "snd (snd ?d) = ?q" using drain_run [of n e1 ?q] by (metis snd_conv)
    then have q': "frames q' = frames q1 @ [\<lparr>fr_changes = [], fr_chunkIndex = chunkIndex q1,
        fr_final = True, fr_timings = timings q1, fr_drift = Some d\<rparr>]"
      using end_st by (simp add: flush_def)
    let ?p = "p1\<lparr>drifted := Some d\<rparr>"
    have "drain n (e1, ?p) = (Inr rows, e', ?p)"
      using drain_run [of n e1 ?p] drain_progress [of n e1 ?p ?q] rows end_st(1) by simp
    then have "Advance sched n changes e = (Inr \<lparr>ar_changes = [], ar_timings = timings p1, ar_drift = Some d\<rparr>, e')"
      using batch Inl drift by (simp add: Advance_def recover_drift_def)
    with streamed_frames [OF R q'] fs q' show ?thesis by simp
  qed
qed

end
