(* ===== verification/Pushing.thy ===== *)
theory Pushing
  imports Frames
begin

text \<open>
  A push as a transaction on a source in the heap: it writes exactly the change, or panics with a
  drift before it writes anything.
\<close>

text \<open>The row that the check before a push looks up, and whether the check fails.\<close>

fun checked_row :: "SourceChange \<Rightarrow> string \<times> row" where
  "checked_row (SourceAdd r) = (''Add'', r)"
| "checked_row (SourceRemove r) = (''Remove'', r)"
| "checked_row (SourceEdit r old) = (''Edit'', old)"

definition drifts :: "SourceChange \<Rightarrow> MemorySource \<Rightarrow> bool" where
  "drifts change ms \<longleftrightarrow>
     ((\<exists>y\<in>set (data ms). cval (source_cmp ms) (snd (checked_row change)) y = 0) \<longleftrightarrow> fst (checked_row change) = ''Add'')"

lemma validate_eq:
  assumes "store_ok ty ms" "row_ok ty (primarySort ms) (snd (checked_row change))"
  shows "validate change ms =
    (if drifts change ms then Inl (drift ms (fst (checked_row change)) (snd (checked_row change))) else Inr ())"
  using assms source_has_eq [OF assms] by (cases change) (auto simp: drifts_def)

section \<open>Properties\<close>

text \<open>
  C19. A push on the heap writes the change and nothing else to the source: after it has returned,
  for whatever scheduler and whatever the pipelines behind the source do, the rows are those before
  with the change applied, no overlay is left, and the store is well-formed.
\<close>

theorem push_writes_the_change:
  assumes "MemorySource_Push sched (source_at t) (c_push (nested n)) change w = (Inr out, w')"
    and "overlay (sources w t) = None" "change_ok ty (sources w t) change"
  shows "data (sources w' t) = apply_source_change (source_cmp (sources w t)) change (data (sources w t)) \<and>
    overlay (sources w' t) = None \<and>
    store_ok ty ((sources w t)\<lparr>data := data (sources w' t)\<rparr>)"
proof -
  have rd: "rd (source_at t) v = sources v t" for v by (simp add: source_at_def)
  note push = heap.Push_store [OF assms(1), unfolded rd, OF assms(2,3)]
  with apply_change_ok [OF assms(3)] show ?thesis by simp
qed

definition shop :: world where
  "shop = empty_world\<lparr>sources := (\<lambda>_. items [1, 2, 4])\<rparr>"

theorem push_writes_the_change_witness:
  "\<exists>w'. MemorySource_Push id (source_at 0) (c_push (nested 0)) (SourceAdd (item 3)) shop = (Inr [], w') \<and>
    data (sources w' 0) = map item [1, 2, 3, 4]"
proof -
  have ms: "sources shop 0 = items [1, 2, 4]" by (simp add: shop_def)
  have ok: "change_ok (\<lambda>_. CNum) (sources shop 0) (SourceAdd (item 3))"
    using store_ok_items [of "[1, 2, 4]" "\<lambda>_. CNum"] by (auto simp: ms change_ok_def cval_def)
  have "validate (SourceAdd (item 3)) (items [1, 2, 4]) = Inr ()"
    using validate_eq [of "\<lambda>_. CNum" "items [1, 2, 4]" "SourceAdd (item 3)"] store_ok_items [of "[1, 2, 4]" "\<lambda>_. CNum"]
    by (simp add: drifts_def cval_def)
  then have v: "validate (SourceAdd (item 3)) (sources shop 0) = Inr ()" by (simp only: ms)
  let ?ms = "(sources shop 0)\<lparr>pushEpoch := pushEpoch (sources shop 0) + 1, overlay := None\<rparr>"
  have conns: "connections (sources shop 0) = []" "parallel (sources shop 0) = False"
    by (simp_all add: ms items_def NewMemorySourceWithConverter_def)
  have rd: "rd (source_at 0) w = sources w 0" for w by (simp add: source_at_def)
  have push: "genPush (source_at 0) (c_push (nested 0)) (SourceAdd (item 3)) shop = (Inr [], wr (source_at 0) ?ms shop)"
    using v conns by (simp add: genPush_def rd [symmetric])
  have "change_ok (\<lambda>_. CNum) ?ms (SourceAdd (item 3))"
    using ok by (simp add: change_ok_def store_ok_def source_cmp_def)
  then have "\<exists>w'. writeChange (source_at 0) (SourceAdd (item 3)) (wr (source_at 0) ?ms shop) = (Inr (), w')"
    using writeChange_eq [of "source_at 0" "\<lambda>_. CNum" "wr (source_at 0) ?ms shop" "SourceAdd (item 3)"] source_at.pointer_axioms
    by simp
  with push obtain w1 w' where steps: "genPush (source_at 0) (c_push (nested 0)) (SourceAdd (item 3)) shop = (Inr [], w1)"
      "writeChange (source_at 0) (SourceAdd (item 3)) w1 = (Inr (), w')"
    by blast
  have "genPushAndWrite (source_at 0) (c_push (nested 0)) (SourceAdd (item 3)) shop = (Inr [], w')"
    using steps by (simp add: genPushAndWrite_def del: writeChange.simps nested.simps)
  then have run: "MemorySource_Push id (source_at 0) (c_push (nested 0)) (SourceAdd (item 3)) shop = (Inr [], w')"
    using conns by (simp add: MemorySource_Push_def genPushAndWriteWithSplitEdit_def rd bindM_False del: nested.simps)
  show ?thesis
    using push_writes_the_change [OF run _ ok] run by (simp add: ms insert_by_Cons ltc_def cval_def)
qed

text \<open>
  C20. Drift is found before anything happens: when the row to add is already stored, or the row to
  remove or to edit is not, the push panics with the drift signal, naming the table, the
  operation, the key and the number of rows, and leaves the whole state as it was (an edit that
  changes no split key).
\<close>

theorem drift_changes_nothing:
  assumes "store_ok ty (rd p s)" "row_ok ty (primarySort (rd p s)) (snd (checked_row change))"
    and "shouldSplit change (rd p s) = Inr False" "drifts change (rd p s)"
  shows "MemorySource_Push sched p push change s =
    (Inl (DriftError (tableName (rd p s)) (fst (checked_row change))
        (map (\<lambda>c. (c, col (snd (checked_row change)) c)) (primaryKey (rd p s))) (length (data (rd p s)))), s)"
proof -
  have v: "validate change (rd p s) = Inl (drift (rd p s) (fst (checked_row change)) (snd (checked_row change)))"
    using validate_eq [OF assms(1,2)] assms(4) by simp
  have "split_edit False change = [change]" by (cases change) simp_all
  note once = this
  have seq: "genPushAndWrite p push change s = (Inl (drift (rd p s) (fst (checked_row change)) (snd (checked_row change))), s)"
    using v by (simp add: genPushAndWrite_def genPush_def)
  have par: "GenPushParallel sched p push change s = (Inl (drift (rd p s) (fst (checked_row change)) (snd (checked_row change))), s)"
    using v by (simp add: GenPushParallel_def)
  have "genPushAndWriteWithSplitEdit p push change s = (Inl (drift (rd p s) (fst (checked_row change)) (snd (checked_row change))), s)"
    "genPushAndWriteParallel sched p push change s = (Inl (drift (rd p s) (fst (checked_row change)) (snd (checked_row change))), s)"
    using assms(3) seq par by (simp_all add: genPushAndWriteWithSplitEdit_def genPushAndWriteParallel_def once bindM_False)
  then show ?thesis
    by (simp add: MemorySource_Push_def drift_def)
qed

theorem drift_changes_nothing_witness:
  "MemorySource_Push id (source_at 0) (c_push (nested 0)) (SourceRemove (item 3)) shop =
    (Inl (DriftError ''items'' ''Remove'' [(''id'', num 3)] 3), shop)"
proof -
  have rd: "rd (source_at 0) shop = items [1, 2, 4]" by (simp add: shop_def source_at_def)
  have fields: "tableName (items [1, 2, 4]) = ''items''" "primaryKey (items [1, 2, 4]) = [''id'']" "col (item 3) ''id'' = num 3"
    by (simp_all add: items_def NewMemorySourceWithConverter_def)
  show ?thesis
    using drift_changes_nothing [of "\<lambda>_. CNum" "source_at 0" shop "SourceRemove (item 3)" id "c_push (nested 0)"]
      store_ok_items [of "[1, 2, 4]" "\<lambda>_. CNum"]
    by (simp add: rd fields drifts_def cval_def)
qed

end
