(* ===== verification/Serving.thy ===== *)
theory Serving
  imports Advance Pushing
begin

text \<open>
  What the engine promises its callers: streamed advances and hydrations carry the same rows as the
  batch calls, in well-formed frames, and a closed engine serves nothing.
\<close>

section \<open>Hydration in chunks\<close>





section \<open>Properties\<close>

text \<open>
  C21. Streaming an advance refines the batch: whenever \<open>AdvanceStream\<close> returns without an error,
  \<open>Advance\<close> on the same changes returns too and leaves the same engine; the frames have consecutive
  indexes from 0 and exactly the last is final; put together they are the batch's result (rows in
  order, timings, drift); and on drift the last frame carries no rows.
\<close>

theorem AdvanceStream_refines_Advance:
  assumes "AdvanceStream sched sz n changes e = (Some (Inr ()), fs, e')"
  shows "frames_ok fs \<and> Advance sched n changes e = (Inr (frames_result fs), e') \<and>
    (fr_drift (last fs) \<noteq> None \<longrightarrow> fr_changes (last fs) = [])"
  by (rule AdvanceStream_Advance [OF assms])

text \<open>An engine with one source, asked to remove a row it does not have.\<close>

definition shop_engine :: Engine where
  "shop_engine = (NewEngine 0)\<lparr>heap := shop, registered := [(''items'', 0)]\<rparr>"

definition stale_removal :: SnapshotChange where
  "stale_removal = \<lparr>snap_table = ''items'', prevValues = [item 3], nextValue = None\<rparr>"

theorem AdvanceStream_refines_Advance_witness:
  "\<exists>d. Advance id 0 [stale_removal] shop_engine =
    (Inr \<lparr>ar_changes = [], ar_timings = [], ar_drift = Some d\<rparr>, shop_engine) \<and> IsDriftError d"
proof -
  let ?d = "DriftError ''items'' ''Remove'' [(''id'', num 3)] 3"
  have rd: "rd (source_at 0) shop = items [1, 2, 4]" by (simp add: shop_def source_at_def)
  have fields: "tableName (items [1, 2, 4]) = ''items''" "primaryKey (items [1, 2, 4]) = [''id'']"
      "connections (items [1, 2, 4]) = []" "parallel (items [1, 2, 4]) = False"
    by (simp_all add: items_def NewMemorySourceWithConverter_def)
  have "validate (SourceRemove (item 3)) (items [1, 2, 4]) = Inl ?d"
    using validate_eq [of "\<lambda>_. CNum" "items [1, 2, 4]" "SourceRemove (item 3)"] store_ok_items [of "[1, 2, 4]" "\<lambda>_. CNum"]
    by (simp add: drifts_def cval_def drift_def fields del: validate.simps)
  then have gen: "genPush (source_at 0) (c_push no_calls) (SourceRemove (item 3)) shop = (Inl ?d, shop)"
    by (simp add: genPush_def rd del: validate.simps)
  then have "genPushAndWrite (source_at 0) (c_push no_calls) (SourceRemove (item 3)) shop = (Inl ?d, shop)"
    by (simp add: genPushAndWrite_def)
  then have push: "MemorySource_Push id (source_at 0) (c_push no_calls) (SourceRemove (item 3)) shop = (Inl ?d, shop)"
    by (simp add: MemorySource_Push_def genPushAndWriteWithSplitEdit_def rd fields bindM_False)
  have e: "heap shop_engine = shop" "registered shop_engine = [(''items'', 0)]" "shop_engine\<lparr>heap := shop\<rparr> = shop_engine"
      "closed shop_engine = False" "streamer shop = NewStreamer" "sources shop 0 = items [1, 2, 4]"
    by (simp_all add: shop_engine_def NewEngine_def shop_def empty_world_def)
  have norm: "snapshotToSourceChanges (items [1, 2, 4]) stale_removal = Inr [SourceRemove (item 3)]"
    by (simp add: snapshotToSourceChanges_def stale_removal_def NormalizeRow_def items_def NewMemorySourceWithConverter_def
        item_def plain_value_def)
  have loop: "forM (advance_change id 0 (flush_full 10)) [stale_removal] (shop_engine, no_progress) =
      (Inl ?d, (shop_engine, no_progress))"
    using push norm e
    by (simp add: advance_change_def advance_push_def onM_def heap_at_def stale_removal_def)
  have drain: "drain 0 (shop_engine, p) = (Inr [], (shop_engine, p))" for p
    using e by (simp add: drain_def onM_def heap_at_def Stream_def streamer_at_def NewStreamer_def)
  obtain fs where run: "AdvanceStream id 10 0 [stale_removal] shop_engine = (Some (Inr ()), fs, shop_engine)"
      "fr_drift (last fs) = Some ?d" "fr_timings (last fs) = []"
    using loop drain e
    by (simp add: AdvanceStream_def advance_stream_def recover_drift_def flush_def no_progress_def)
  show ?thesis
    using AdvanceStream_refines_Advance [OF run(1)] run by (simp add: frames_result_def)
qed


text \<open>A node with three rows fills a chunk of size 1 threefold.\<close>

lemma chunk_exceeds_size:
  assumes "rows node s = (Inr [a, b, c], s)"
  shows "hydrate_chunks 1 rows q [node] [] 0 s =
    (Inr [\<lparr>qr_queryID = q, qr_changes = [a, b, c], qr_chunkIndex = 0, qr_final = False\<rparr>,
          \<lparr>qr_queryID = q, qr_changes = [], qr_chunkIndex = 1, qr_final = True\<rparr>], s)"
  using assms by simp

section \<open>A closed engine\<close>

text \<open>
  A closed engine: closing it twice is closing it once, and on a closed engine the streaming calls
  return the error and change nothing, whereas adding a source panics (a write to a nil map), and a
  batch advance returns an empty result as if nothing had to be done.
\<close>

theorem closed_engine:
  assumes "Close e = (Inr (), e')"
  shows "closed e' \<and> Close e' = (Inr (), e') \<and>
    AdvanceStream sched sz n changes e' = (None, [], e') \<and> AddQueriesStream sched sz n uc queries e' = (Inr None, e') \<and>
    fst (RegisterMemorySource ms e') = Inl (Panic ''assignment to entry in nil map'') \<and>
    (closed e \<or> Advance sched n changes e' = (Inr \<lparr>ar_changes = [], ar_timings = [], ar_drift = None\<rparr>, e'))"
proof -
  have closed: "closed e'"
  proof (cases "closed e")
    case True
    with assms show ?thesis by (simp add: Close_def)
  next
    case False
    have keeps: "keeps closed (forM (\<lambda>e. on_heap (destroy_entry (snd e))) entries)" for entries
      by (intro keeps_forM) (simp add: keeps_def onM_def heap_at_def split: prod.splits)
    from assms False obtain e2 where
      "forM (\<lambda>e. on_heap (destroy_entry (snd e))) (pipelines e) (e\<lparr>closed := True\<rparr>) = (Inr (), e2)"
      "e' = e2\<lparr>pipelines := [], registered := [], tableUniqueKeys := []\<rparr>"
      by (auto simp: Close_def bindM_split)
    with keepsD [OF keeps] show ?thesis by fastforce
  qed
  have empty: "registered e' = []" if "\<not> closed e"
    using assms that by (auto simp: Close_def bindM_split)
  have "forM (advance_change sched n (retM ())) changes (e', no_progress) = (Inr (), (e', no_progress))" if "registered e' = []"
    using that by (induction changes) (simp_all add: advance_change_def)
  with empty have "Advance sched n changes e' = (Inr \<lparr>ar_changes = [], ar_timings = [], ar_drift = None\<rparr>, e')" if "\<not> closed e"
    using that by (simp add: Advance_def recover_drift_def no_progress_def)
  with closed show ?thesis
    by (auto simp: Close_def AdvanceStream_def AddQueriesStream_def RegisterMemorySource_def)
qed

theorem closed_engine_witness:
  "AdvanceStream id 1 0 [stale_removal] (shop_engine\<lparr>registered := [], closed := True\<rparr>) =
    (None, [], shop_engine\<lparr>registered := [], closed := True\<rparr>)"
proof -
  have "Close shop_engine = (Inr (), shop_engine\<lparr>registered := [], closed := True\<rparr>)"
    by (simp add: Close_def shop_engine_def NewEngine_def bindM_False)
  from closed_engine [OF this] show ?thesis by blast
qed

end
