(* ===== verification/Snapshots.thy ===== *)
theory Snapshots
  imports Serving
begin

text \<open>
  What a snapshot change does to a table: \<open>snapshotToSourceChanges\<close> decides which previous row is
  edited and which are removed.
\<close>

lemma ValuesEqual_vcmp:
  assumes "okval t a" "okval t b" "a \<noteq> VNull" "b \<noteq> VNull"
  shows "ValuesEqual a b = Inr (vcmp a b = 0)"
proof (cases t)
  case CNum
  with assms obtain x y where xy: "toFloat64 a = Some x" "x \<noteq> NaN" "toFloat64 b = Some y" "y \<noteq> NaN"
    by (auto elim!: okval_num_cases)
  obtain c where "iface_eq a b = Inr c" "c \<longrightarrow> x = y"
    using toFloat64_iface_eq [OF xy(1,3)] by blast
  with xy assms(3,4) show ?thesis
    by (cases x; cases y) (auto simp: ValuesEqual_def vcmp_num f64_eq_iff)
next
  case CStr
  with assms show ?thesis
    by (auto simp: okval_str_iff ValuesEqual_def iface_eq_def vcmp_def strings_Compare_def)
next
  case CBool
  with assms show ?thesis
    by (auto simp: okval_bool_iff ValuesEqual_def iface_eq_def vcmp_def)
qed

definition keyed_row :: "(string \<Rightarrow> vclass) \<Rightarrow> string list \<Rightarrow> row \<Rightarrow> bool" where
  "keyed_row ty pk r \<longleftrightarrow> (\<forall>c\<in>set pk. okval (ty c) (col r c) \<and> col r c \<noteq> VNull)"

abbreviation key_order :: "string list \<Rightarrow> Ordering" where
  "key_order pk \<equiv> map (\<lambda>c. (c, ''asc'')) pk"

lemma primaryKeysMatch_key:
  "keyed_row ty pk a \<Longrightarrow> keyed_row ty pk b \<Longrightarrow>
   primaryKeysMatch a b pk = Inr (cval (MakeComparator (key_order pk) False) a b = 0)"
proof (induction pk)
  case (Cons c pk)
  then have c: "CompareValues (col a c) (col b c) = Inr (vcmp (col a c) (col b c))"
      "ValuesEqual (col a c) (col b c) = Inr (vcmp (col a c) (col b c) = 0)"
    by (auto simp: keyed_row_def intro: CompareValues_ok [of "ty c"] ValuesEqual_vcmp [of "ty c"])
  have "primaryKeysMatch a b pk = Inr (cval (MakeComparator (key_order pk) False) a b = 0)"
    using Cons by (simp add: keyed_row_def)
  with c show ?case
    by (simp add: primaryKeysMatch_def cval_def)
qed (simp add: primaryKeysMatch_def cval_def)

lemma split_previous_eq:
  assumes "\<forall>p\<in>set prevs. primaryKeysMatch p r pk = Inr (m p)"
  shows "split_previous (Some r) pk prevs result old =
    Inr (result @ map SourceRemove (filter (\<lambda>p. \<not> m p) prevs),
         if filter m prevs = [] then old else Some (last (filter m prevs)))"
  using assms by (induction prevs arbitrary: result old) auto

lemma split_previous_None: "split_previous None pk prevs result old = Inr (result @ map SourceRemove prevs, old)"
  by (induction prevs arbitrary: result) auto

lemma fold_removals:
  "set (fold (apply_source_change cmp) (map SourceRemove ps) xs) = {r \<in> set xs. \<forall>p\<in>set ps. cval cmp p r \<noteq> 0}"
  by (induction ps arbitrary: xs) (auto simp: set_remove_by)

text \<open>A source with rows and snapshot rows of known keys; \<open>prevs\<close> and \<open>nx\<close> are the normalised rows.\<close>

definition snapshot_ready ::
  "(string \<Rightarrow> vclass) \<Rightarrow> MemorySource \<Rightarrow> SnapshotChange \<Rightarrow> row list \<Rightarrow> row option \<Rightarrow> bool" where
  "snapshot_ready ty ms change prevs nx \<longleftrightarrow>
     primarySort ms = key_order (primaryKey ms) \<and>
     mapR (NormalizeRow ms) (prevValues change) = Inr prevs \<and>
     (case nextValue change of None \<Rightarrow> nx = None | Some r \<Rightarrow> (\<exists>r'. NormalizeRow ms r = Inr r' \<and> nx = Some r')) \<and>
     (\<forall>r\<in>set prevs \<union> set_option nx. keyed_row ty (primaryKey ms) r) \<and>
     sorted_wrt (\<lambda>a b. cval (source_cmp ms) a b \<noteq> 0) prevs"

lemma same_key:
  assumes "comparator cmp S" "p \<in> S" "r \<in> S" "q \<in> S" "cval cmp p r = 0" "cval cmp q r = 0"
  shows "cval cmp p q = 0"
proof -
  have q: "cval cmp r q = 0" "cval cmp r p = 0"
    using comparator.antisym [OF assms(1,4,3)] comparator.antisym [OF assms(1,2,3)] assms(5,6) by linarith+
  have "cval cmp p q \<le> 0"
    by (rule comparator.trans [OF assms(1,2,3,4)]) (simp_all only: assms q order.refl)
  moreover have "cval cmp q p \<le> 0"
    by (rule comparator.trans [OF assms(1,4,3,2)]) (simp_all only: assms q order.refl)
  ultimately show ?thesis
    using comparator.antisym [OF assms(1,2,4)] by linarith
qed

lemma unique_match:
  assumes "sorted_wrt (\<lambda>a b. cval cmp a b \<noteq> 0) prevs" "comparator cmp S" "set prevs \<subseteq> S" "r \<in> S"
  shows "filter (\<lambda>p. cval cmp p r = 0) prevs = [] \<or> (\<exists>p. filter (\<lambda>p. cval cmp p r = 0) prevs = [p])"
  using assms(1,3)
proof (induction prevs)
  case (Cons p prevs)
  show ?case
  proof (cases "cval cmp p r = 0")
    case True
    have "cval cmp q r \<noteq> 0" if "q \<in> set prevs" for q
    proof
      assume q: "cval cmp q r = 0"
      have in_S: "p \<in> S" "q \<in> S" using Cons.prems(2) that by auto
      have "cval cmp p q = 0" by (rule same_key [OF assms(2) in_S(1) assms(4) in_S(2) True q])
      moreover have "cval cmp p q \<noteq> 0" using Cons.prems(1) that by auto
      ultimately show False by (rule notE [rotated])
    qed
    then have "filter (\<lambda>p. cval cmp p r = 0) prevs = []" by (simp add: filter_empty_conv)
    with True show ?thesis by simp
  next
    case False
    with Cons show ?thesis by simp
  qed
qed simp

section \<open>Properties\<close>

text \<open>
  C24. A snapshot change replaces rows: the source changes made of it, applied in order to the stored
  rows, take out every row that has the key of a previous row, put in the new row when there is one,
  and keep all others; whether an edit or removals and an addition are chosen makes no difference to
  the table.
\<close>

theorem snapshot_replaces_rows:
  assumes "snapshot_ready ty ms change prevs nx"
  shows "\<exists>scs. snapshotToSourceChanges ms change = Inr scs \<and>
    set (fold (apply_source_change (source_cmp ms)) scs (data ms)) =
      {r \<in> set (data ms). \<forall>p\<in>set prevs. cval (source_cmp ms) p r \<noteq> 0} \<union> set_option nx"
proof -
  note ready = assms [unfolded snapshot_ready_def]
  have cmp: "source_cmp ms = MakeComparator (key_order (primaryKey ms)) False"
    using ready by (simp add: source_cmp_def)
  show ?thesis
  proof (cases nx)
    case None
    then have "nextValue change = None" using ready by (auto split: option.splits)
    then have "snapshotToSourceChanges ms change = Inr (map SourceRemove prevs)"
      using ready by (simp add: snapshotToSourceChanges_def split_previous_None)
    with None show ?thesis by (simp add: fold_removals)
  next
    case (Some r)
    then obtain r0 where r0: "nextValue change = Some r0" "NormalizeRow ms r0 = Inr r"
      using ready by (auto split: option.splits)
    let ?m = "\<lambda>p. cval (source_cmp ms) p r = 0"
    let ?S = "{r. row_ok ty (key_order (primaryKey ms)) r}"
    have match: "\<forall>p\<in>set prevs. primaryKeysMatch p r (primaryKey ms) = Inr (?m p)"
      using ready Some primaryKeysMatch_key [of ty "primaryKey ms"] by (simp add: cmp)
    have "set prevs \<subseteq> ?S" "r \<in> ?S"
      using ready Some by (auto simp: keyed_row_def row_ok_def)
    then have one: "filter ?m prevs = [] \<or> (\<exists>p. filter ?m prevs = [p])"
      using ready unfolding cmp by (intro unique_match [OF _ rows.comparator_axioms]) auto
    have eq: "snapshotToSourceChanges ms change = Inr (map SourceRemove (filter (\<lambda>p. \<not> ?m p) prevs) @
        (if filter ?m prevs = [] then [SourceAdd r] else [SourceEdit r (last (filter ?m prevs))]))"
      using ready r0 split_previous_eq [OF match, of "[]" None] by (simp add: snapshotToSourceChanges_def)
    let ?away = "\<lambda>ps. {x \<in> set (data ms). \<forall>p\<in>set ps. cval (source_cmp ms) p x \<noteq> 0}"
    have split: "?away (filter (\<lambda>p. \<not> ?m p) prevs) \<inter> ?away (filter ?m prevs) = ?away prevs" by auto
    from one show ?thesis
    proof
      assume none: "filter ?m prevs = []"
      have "?away (filter (\<lambda>p. \<not> ?m p) prevs) = ?away prevs"
        using none by (auto simp: filter_empty_conv)
      with eq none Some show ?thesis by (simp only: fold_append o_apply fold_simps apply_source_change.simps set_insert_by fold_removals) (simp add: fold_removals)
    next
      assume "\<exists>p. filter ?m prevs = [p]"
      then obtain p where p: "filter ?m prevs = [p]" ..
      have "{x \<in> ?away (filter (\<lambda>p. \<not> ?m p) prevs). cval (source_cmp ms) p x \<noteq> 0} = ?away prevs"
        using split unfolding p by auto
      with eq p Some show ?thesis
        by (simp only: fold_append o_apply fold_simps apply_source_change.simps set_insert_by) (simp add: fold_removals set_remove_by)
    qed
  qed
qed

theorem snapshot_replaces_rows_witness:
  "\<exists>scs. snapshotToSourceChanges (items [1, 2, 4])
      \<lparr>snap_table = ''items'', prevValues = [item 2, item 3], nextValue = Some (item 3)\<rparr> = Inr scs \<and>
    set (fold (apply_source_change (MakeComparator item_order False)) scs (map item [1, 2, 4])) =
      {item 1, item 4, item 3}"
proof -
  have "NormalizeRow (items [1, 2, 4]) (item n) = Inr (item n)" for n
    by (simp add: NormalizeRow_def items_def NewMemorySourceWithConverter_def item_def plain_value_def)
  moreover have "keyed_row (\<lambda>_. CNum) [''id''] (item n)" for n
    by (simp add: keyed_row_def okval_def)
  moreover have "primaryKey (items [1, 2, 4]) = [''id'']" "primarySort (items [1, 2, 4]) = key_order [''id'']"
      "source_cmp (items [1, 2, 4]) = MakeComparator item_order False"
    by (simp_all add: items_def NewMemorySourceWithConverter_def source_cmp_def item_order_def)
  moreover have "cval (MakeComparator item_order False) (item 2) (item 3) \<noteq> 0"
    by (simp add: cval_def)
  ultimately have "snapshot_ready (\<lambda>_. CNum) (items [1, 2, 4])
      \<lparr>snap_table = ''items'', prevValues = [item 2, item 3], nextValue = Some (item 3)\<rparr> [item 2, item 3] (Some (item 3))"
    by (simp add: snapshot_ready_def)
  moreover have "data (items [1, 2, 4]) = map item [1, 2, 4]" "source_cmp (items [1, 2, 4]) = MakeComparator item_order False"
    by (simp_all add: items_def NewMemorySourceWithConverter_def source_cmp_def item_order_def)
  moreover have "{r \<in> set (map item [1, 2, 4]). \<forall>p\<in>set [item 2, item 3]. cval (MakeComparator item_order False) p r \<noteq> 0} \<union>
      set_option (Some (item 3)) = {item 1, item 4, item 3}"
    by (auto simp: cval_def)
  ultimately show ?thesis
    using snapshot_replaces_rows [of "\<lambda>_. CNum" "items [1, 2, 4]"
      "\<lparr>snap_table = ''items'', prevValues = [item 2, item 3], nextValue = Some (item 3)\<rparr>"] by fastforce
qed

end
