(* ===== verification/QueryBuilder.thy ===== *)
theory QueryBuilder
  imports Normalize
begin

text \<open>
  The SQL text and bind parameters of a fetch: \<open>sqlite/query_builder.go\<close>.

  Texts are built exactly as the code builds them.  To state what they mean, \<open>sql_cond\<close> is the
  conditions of SQL that occur, with their text, their parameters in order and their three-valued
  truth; how SQLite compares two values is a parameter.  A map of cols is a list with distinct
  keys in the order of its iteration.
\<close>

section \<open>Data\<close>

record SqlValuePos =
  VpType :: string
  VpName :: string
  VpValue :: val
  VpColType :: string

datatype SqlCondition = NilCondition
  | SqlCondition (CType: string) (COp: string) (CLeft: SqlValuePos) (CRight: SqlValuePos)
      (CConditions: "SqlCondition list")

record ColumnSchema =
  CsType :: string
  CsOptional :: bool

type_synonym column_map = "(string \<times> ColumnSchema) list"

definition column_schema :: "column_map \<Rightarrow> string \<Rightarrow> ColumnSchema" where
  "column_schema cols c =
     (case map_of cols c of None \<Rightarrow> \<lparr>CsType = '''', CsOptional = False\<rparr> | Some s \<Rightarrow> s)"

section \<open>Helpers\<close>

abbreviation dquote :: char where
  "dquote \<equiv> CHR 0x22"

definition escaped :: "string \<Rightarrow> string" where
  "escaped s = concat (map (\<lambda>c. if c = dquote then [dquote, dquote] else [c]) s)"

definition quoteIdent :: "string \<Rightarrow> string" where
  "quoteIdent s = dquote # escaped s @ [dquote]"

fun strings_Join :: "string \<Rightarrow> string list \<Rightarrow> string" where
  "strings_Join sep [] = ''''"
| "strings_Join sep [s] = s"
| "strings_Join sep (s # t # ts) = s @ sep @ strings_Join sep (t # ts)"

text \<open>The inner loop of the insertion sort: the sorted prefix is kept reversed.\<close>

fun sink :: "string \<Rightarrow> string list \<Rightarrow> string list" where
  "sink s [] = [s]"
| "sink s (t # ts) = (if strings_Compare s t < 0 then t # sink s ts else s # t # ts)"

definition sortStrings :: "string list \<Rightarrow> string list" where
  "sortStrings ss = rev (fold sink ss [])"

definition sortedColumnNames :: "column_map \<Rightarrow> string list" where
  "sortedColumnNames cols = sortStrings (map fst cols)"

definition sortedConstraintKeys :: "Constraint \<Rightarrow> string list" where
  "sortedConstraintKeys c = sortStrings (map fst c)"

section \<open>Conditions\<close>

type_synonym marshaller = "val \<Rightarrow> string option"

definition static_panic :: panic where
  "static_panic = Panic ''Static parameters must be replaced before conversion to SQL''"

definition valuePositionToSQL :: "marshaller \<Rightarrow> SqlValuePos \<Rightarrow> (string \<times> val list) res" where
  "valuePositionToSQL marshal vp =
     (if VpType vp = ''column'' then Inr (quoteIdent (VpName vp), [])
      else if VpType vp = ''literal'' then
        Inr (''?'', [if VpColType vp \<noteq> '''' then ToSQLiteType marshal (VpValue vp) (VpColType vp) else VpValue vp])
      else if VpType vp = ''static'' then Inl static_panic
      else Inr (''?'', [VpValue vp]))"

definition simpleConditionToSQL ::
  "marshaller \<Rightarrow> string \<Rightarrow> SqlValuePos \<Rightarrow> SqlValuePos \<Rightarrow> (string \<times> val list) res" where
  "simpleConditionToSQL marshal cop left right =
     (let op = (if cop = ''ILIKE'' then ''LIKE'' else if cop = ''NOT ILIKE'' then ''NOT LIKE'' else cop) in
      if op = ''IN'' \<or> op = ''NOT IN'' then
        bindR (valuePositionToSQL marshal left) (\<lambda>(leftSQL, leftParams).
          let rightJSON = (case marshal (VpValue right) of None \<Rightarrow> ''[]'' | Some s \<Rightarrow> s)
          in Inr (leftSQL @ '' '' @ op @ '' (SELECT value FROM json_each(?))'', leftParams @ [VStr rightJSON]))
      else
        bindR (valuePositionToSQL marshal left) (\<lambda>(leftSQL, leftParams).
        bindR (valuePositionToSQL marshal right) (\<lambda>(rightSQL, rightParams).
          Inr (leftSQL @ '' '' @ op @ '' '' @ rightSQL, leftParams @ rightParams))))"

fun filtersToSQL :: "marshaller \<Rightarrow> SqlCondition \<Rightarrow> (string \<times> val list) res" where
  "filtersToSQL marshal NilCondition = Inr (''TRUE'', [])"
| "filtersToSQL marshal (SqlCondition t op left right conds) =
     (if t = ''simple'' then simpleConditionToSQL marshal op left right
      else if t = ''and'' then
        (if conds = [] then Inr (''TRUE'', [])
         else bindR (mapR (filtersToSQL marshal) conds) (\<lambda>ps.
           Inr (''('' @ strings_Join '' AND '' (map fst ps) @ '')'', concat (map snd ps))))
      else if t = ''or'' then
        (if conds = [] then Inr (''FALSE'', [])
         else bindR (mapR (filtersToSQL marshal) conds) (\<lambda>ps.
           Inr (''('' @ strings_Join '' OR '' (map fst ps) @ '')'', concat (map snd ps))))
      else Inr (''TRUE'', []))"

section \<open>Order and start cursor\<close>

definition order_part :: "bool \<Rightarrow> string \<times> string \<Rightarrow> string" where
  "order_part reverse od =
     quoteIdent (fst od) @ '' '' @
       (if reverse then (if snd od = ''asc'' then ''desc'' else ''asc'') else snd od)"

definition orderByToSQL :: "Ordering \<Rightarrow> bool \<Rightarrow> string" where
  "orderByToSQL order reverse = ''ORDER BY '' @ strings_Join '', '' (map (order_part reverse) order)"

definition nullableAwareEquality :: "string \<Rightarrow> ColumnSchema \<Rightarrow> string" where
  "nullableAwareEquality field cs =
     (if CsOptional cs then quoteIdent field @ '' IS ?'' else quoteIdent field @ '' = ?'')"

definition nullableAwareRangeComparison :: "string \<Rightarrow> string \<Rightarrow> ColumnSchema \<Rightarrow> string" where
  "nullableAwareRangeComparison field op cs =
     (let comparison = quoteIdent field @ '' '' @ op @ '' ?'' in
      if \<not> CsOptional cs then comparison
      else if op = ''>'' then ''(? IS NULL OR '' @ comparison @ '')''
      else ''('' @ quoteIdent field @ '' IS NULL OR '' @ comparison @ '')'')"

definition range_op :: "bool \<Rightarrow> string \<Rightarrow> string" where
  "range_op reverse dir =
     (if dir = ''asc'' then (if reverse then ''<'' else ''>'') else (if reverse then ''>'' else ''<''))"

definition cursor_value :: "marshaller \<Rightarrow> Start \<Rightarrow> column_map \<Rightarrow> string \<Rightarrow> val" where
  "cursor_value marshal start cols field =
     ToSQLiteType marshal (col (StartRow start) field) (CsType (column_schema cols field))"

definition equalities :: "marshaller \<Rightarrow> Start \<Rightarrow> column_map \<Rightarrow> Ordering \<Rightarrow> (string \<times> val) list" where
  "equalities marshal start cols order =
     map (\<lambda>od. (nullableAwareEquality (fst od) (column_schema cols (fst od)),
                cursor_value marshal start cols (fst od))) order"

text \<open>The parts of the \<open>i\<close>-th disjunct: equal on the fields before \<open>i\<close>, past the cursor on \<open>i\<close>.\<close>

definition and_parts ::
  "marshaller \<Rightarrow> Start \<Rightarrow> bool \<Rightarrow> column_map \<Rightarrow> Ordering \<Rightarrow> nat \<Rightarrow> (string \<times> val) list" where
  "and_parts marshal start reverse cols order i =
     (let (field, dir) = order ! i in
      equalities marshal start cols (take i order) @
      [(nullableAwareRangeComparison field (range_op reverse dir) (column_schema cols field),
        cursor_value marshal start cols field)])"

definition gatherStartConstraints ::
  "marshaller \<Rightarrow> Start \<Rightarrow> bool \<Rightarrow> Ordering \<Rightarrow> column_map \<Rightarrow> string \<times> val list" where
  "gatherStartConstraints marshal start reverse order cols =
     (let clauses = map (and_parts marshal start reverse cols order) [0..<length order] @
            (if Basis start = ''at'' then [equalities marshal start cols order] else [])
      in (''('' @ strings_Join '' OR '' (map (\<lambda>ps. ''('' @ strings_Join '' AND '' (map fst ps) @ '')'') clauses) @ '')'',
          concat (map (map snd) clauses)))"

section \<open>The query\<close>

record SqlQuery =
  SQL :: string
  Params :: "val list"

definition constraint_parts :: "marshaller \<Rightarrow> column_map \<Rightarrow> Constraint \<Rightarrow> (string \<times> val) list" where
  "constraint_parts marshal cols c =
     map (\<lambda>key. (quoteIdent key @ '' = ?'',
                 ToSQLiteType marshal (case map_of c key of None \<Rightarrow> VNull | Some v \<Rightarrow> v)
                   (CsType (column_schema cols key))))
       (sortedConstraintKeys c)"

definition cursor_parts :: "marshaller \<Rightarrow> column_map \<Rightarrow> Ordering option \<Rightarrow> bool \<Rightarrow> Start option \<Rightarrow> (string \<times> val list) list" where
  "cursor_parts marshal cols order reverse start =
     (case (start, order) of
        (Some s, Some od) \<Rightarrow> [gatherStartConstraints marshal s reverse od cols] | _ \<Rightarrow> [])"

definition filter_parts :: "marshaller \<Rightarrow> SqlCondition \<Rightarrow> (string \<times> val list) list res" where
  "filter_parts marshal filters =
     (if filters = NilCondition then Inr [] else bindR (filtersToSQL marshal filters) (\<lambda>f. Inr [f]))"

definition where_text :: "string list \<Rightarrow> string" where
  "where_text constraints = (if constraints \<noteq> [] then '' WHERE '' @ strings_Join '' AND '' constraints else '''')"

definition order_text :: "Ordering option \<Rightarrow> bool \<Rightarrow> string" where
  "order_text order reverse =
     (case order of None \<Rightarrow> '''' | Some od \<Rightarrow> if od \<noteq> [] then '' '' @ orderByToSQL od reverse else '''')"

definition BuildSelectQuery ::
  "marshaller \<Rightarrow> string \<Rightarrow> column_map \<Rightarrow> Constraint option \<Rightarrow> SqlCondition \<Rightarrow> Ordering option \<Rightarrow> bool \<Rightarrow>
   Start option \<Rightarrow> SqlQuery res" where
  "BuildSelectQuery marshal table cols constraint filters order reverse start =
     (let query = ''SELECT '' @ strings_Join '', '' (map quoteIdent (sortedColumnNames cols)) @
            '' FROM '' @ quoteIdent table;
          equal = (case constraint of None \<Rightarrow> [] | Some c \<Rightarrow> constraint_parts marshal cols c);
          cursor = cursor_parts marshal cols order reverse start
      in bindR (filter_parts marshal filters) (\<lambda>filter.
        Inr \<lparr>SQL = query @ where_text (map fst equal @ map fst cursor @ map fst filter) @ order_text order reverse,
             Params = map snd equal @ concat (map snd cursor) @ concat (map snd filter)\<rparr>))"

end
