(* ===== verification/TableSource.thy ===== *)
theory TableSource
  imports Source QueryBuilder
begin

text \<open>
  The source backed by a SQLite table: \<open>sqlite/table_source.go\<close>.

  The database is reached through \<open>database/sql\<close>: running a query, executing a statement, asking
  whether a query has a row are the operations of a \<open>database\<close>, a parameter.  As for the in-memory
  source, the methods take a pointer to the source in a heap \<open>'s\<close>, and what the outputs do with a
  push is a parameter.  Connections are objects on their own heap, named by the address of the input
  that is allocated with them.  Panic messages are kept without the row or the SQL they print.
\<close>

section \<open>State\<close>

record 'd database =
  db_Query :: "'d \<Rightarrow> string \<Rightarrow> val list \<Rightarrow> string + string list \<times> (string + val list) list"
  db_Exec :: "'d \<Rightarrow> string \<Rightarrow> val list \<Rightarrow> (string + unit) \<times> 'd"
  db_HasRow :: "'d \<Rightarrow> string \<Rightarrow> val list \<Rightarrow> bool"

record TableConnection =
  tc_Input :: opid
  tc_Output :: "Output option"
  tc_Sort :: "Ordering option"
  tc_SplitEditKeys :: "string list option"
  tc_CompareRows :: Comparator
  tc_FilterPredicate :: "(row \<Rightarrow> bool res) option"
  tc_FilterCondition :: SqlCondition
  tc_LastPushedEpoch :: nat

record 'd TableSource =
  ts_db :: 'd
  ts_tableName :: string
  ts_columns :: column_map
  ts_primaryKey :: "string list"
  ts_conns :: "opid \<Rightarrow> TableConnection"
  ts_connections :: "opid list"
  ts_overlay :: "(nat \<times> SourceChange) option"
  ts_pushEpoch :: nat
  insertSQL :: string
  deleteSQL :: string
  updateSQL :: string
  checkExistSQL :: string

definition blank_table_connection :: TableConnection where
  "blank_table_connection = \<lparr>tc_Input = 0, tc_Output = None, tc_Sort = None, tc_SplitEditKeys = None,
     tc_CompareRows = MakeComparator [] False, tc_FilterPredicate = None, tc_FilterCondition = NilCondition,
     tc_LastPushedEpoch = 0\<rparr>"

definition nonPrimaryKeys :: "column_map \<Rightarrow> string list \<Rightarrow> string list" where
  "nonPrimaryKeys cols pk = sortStrings (filter (\<lambda>k. k \<notin> set pk) (map fst cols))"

definition equals_placeholder :: "string \<Rightarrow> string" where
  "equals_placeholder k = quoteIdent k @ '' = ?''"

definition pk_where :: "string list \<Rightarrow> string" where
  "pk_where pk = strings_Join '' AND '' (map equals_placeholder pk)"

definition NewTableSource :: "'d \<Rightarrow> string \<Rightarrow> column_map \<Rightarrow> string list \<Rightarrow> 'd TableSource" where
  "NewTableSource db table cols pk =
     (let names = sortedColumnNames cols;
          nonPK = nonPrimaryKeys cols pk
      in \<lparr>ts_db = db, ts_tableName = table, ts_columns = cols, ts_primaryKey = pk,
          ts_conns = (\<lambda>_. blank_table_connection), ts_connections = [], ts_overlay = None, ts_pushEpoch = 0,
          insertSQL = ''INSERT INTO '' @ quoteIdent table @ '' ('' @ strings_Join '', '' (map quoteIdent names) @
            '') VALUES ('' @ strings_Join '', '' (map (\<lambda>_. ''?'') names) @ '')'',
          deleteSQL = ''DELETE FROM '' @ quoteIdent table @ '' WHERE '' @ pk_where pk,
          updateSQL = (if nonPK \<noteq> [] then ''UPDATE '' @ quoteIdent table @ '' SET '' @
              strings_Join '', '' (map equals_placeholder nonPK) @ '' WHERE '' @ pk_where pk else ''''),
          checkExistSQL = ''SELECT 1 FROM '' @ quoteIdent table @ '' WHERE '' @ pk_where pk @ '' LIMIT 1''\<rparr>)"

fun table_normalize :: "(string \<Rightarrow> val option) \<Rightarrow> column_map \<Rightarrow> row \<Rightarrow> row" where
  "table_normalize unmarshal [] r = r"
| "table_normalize unmarshal ((c, cs) # cols) r =
     table_normalize unmarshal cols
       (case r c of None \<Rightarrow> r | Some v \<Rightarrow> r(c \<mapsto> FromSQLiteType unmarshal v (CsType cs)))"

section \<open>Predicates\<close>

definition table_evalOp :: "string \<Rightarrow> val \<Rightarrow> val \<Rightarrow> bool res" where
  "table_evalOp op left right =
     (if op = ''IS'' then bindR (CompareValues left right) (\<lambda>c. Inr (c = 0))
      else if op = ''IS NOT'' then bindR (CompareValues left right) (\<lambda>c. Inr (c \<noteq> 0))
      else if left = VNull \<or> right = VNull then Inr False
      else bindR (CompareValues left right) (\<lambda>c.
        Inr (if op = ''='' then c = 0
             else if op = ''!='' then c \<noteq> 0
             else if op = ''>'' then c > 0
             else if op = ''<'' then c < 0
             else if op = ''>='' then c \<ge> 0
             else if op = ''<='' then c \<le> 0
             else False)))"

definition resolveValuePos :: "SqlValuePos \<Rightarrow> row \<Rightarrow> val" where
  "resolveValuePos vp r = (if VpType vp = ''column'' then col r (VpName vp) else VpValue vp)"

text \<open>The predicate of a nil condition is a nil function.\<close>

fun createPredicate :: "SqlCondition \<Rightarrow> row \<Rightarrow> bool res" where
  "createPredicate NilCondition r = Inl NilDereference"
| "createPredicate (SqlCondition t op left right conds) r =
     (if t = ''simple'' then table_evalOp op (resolveValuePos left r) (resolveValuePos right r)
      else if t = ''and'' then allR (\<lambda>c. createPredicate c r) conds
      else if t = ''or'' then anyR (\<lambda>c. createPredicate c r) conds
      else Inr True)"

section \<open>Connecting\<close>

definition new_connection ::
  "opid \<Rightarrow> Ordering option \<Rightarrow> (row \<Rightarrow> bool res) option \<Rightarrow> SqlCondition \<Rightarrow> string list option \<Rightarrow>
   'd TableSource \<Rightarrow> SourceSchema \<times> 'd TableSource" where
  "new_connection addr order predicate condition splitEditKeys ts =
     (let primaryKeySort = map (\<lambda>k. (k, ''asc'')) (ts_primaryKey ts);
          compare = MakeComparator (case order of Some s \<Rightarrow> s | None \<Rightarrow> primaryKeySort) False;
          conn = \<lparr>tc_Input = addr, tc_Output = Some ThrowOutput, tc_Sort = order,
                  tc_SplitEditKeys = splitEditKeys, tc_CompareRows = compare,
                  tc_FilterPredicate = predicate, tc_FilterCondition = condition, tc_LastPushedEpoch = 0\<rparr>;
          schema = SourceSchema (ts_tableName ts) (map (\<lambda>(c, cs). (c, CsType cs)) (ts_columns ts))
                     (ts_primaryKey ts) [] False False ''client'' compare order
      in (schema, ts\<lparr>ts_conns := (ts_conns ts)(addr := conn), ts_connections := ts_connections ts @ [addr]\<rparr>))"

definition ConnectPipeline ::
  "opid \<Rightarrow> Ordering option \<Rightarrow> (row \<Rightarrow> bool res) option \<Rightarrow> string list option \<Rightarrow> 'd TableSource \<Rightarrow>
   SourceSchema \<times> 'd TableSource" where
  "ConnectPipeline addr order filterPred splitEditKeys ts =
     new_connection addr order filterPred NilCondition splitEditKeys ts"

definition TableSource_Connect ::
  "opid \<Rightarrow> Ordering option \<Rightarrow> SqlCondition \<Rightarrow> string list option \<Rightarrow> 'd TableSource \<Rightarrow>
   SourceSchema \<times> 'd TableSource" where
  "TableSource_Connect addr order condition splitEditKeys ts =
     new_connection addr order (if condition \<noteq> NilCondition then Some (createPredicate condition) else None) condition
       splitEditKeys ts"

definition tableSourceInput_SetOutput :: "opid \<Rightarrow> Output option \<Rightarrow> 'd TableSource \<Rightarrow> 'd TableSource" where
  "tableSourceInput_SetOutput addr out ts =
     ts\<lparr>ts_conns := (ts_conns ts)(addr := (ts_conns ts addr)\<lparr>tc_Output := out\<rparr>)\<rparr>"

definition tableSourceInput_Destroy :: "opid \<Rightarrow> 'd TableSource \<Rightarrow> 'd TableSource" where
  "tableSourceInput_Destroy addr ts = ts\<lparr>ts_connections := remove1 addr (ts_connections ts)\<rparr>"

section \<open>Statements\<close>

definition rowToInsertParams :: "marshaller \<Rightarrow> column_map \<Rightarrow> row \<Rightarrow> val list" where
  "rowToInsertParams marshal cols r =
     map (\<lambda>c. ToSQLiteType marshal (col r c) (CsType (column_schema cols c))) (sortedColumnNames cols)"

definition pkParams :: "marshaller \<Rightarrow> column_map \<Rightarrow> string list \<Rightarrow> row \<Rightarrow> val list" where
  "pkParams marshal cols pk r = map (\<lambda>k. ToSQLiteType marshal (col r k) (CsType (column_schema cols k))) pk"

definition canUseUpdate :: "row \<Rightarrow> row \<Rightarrow> string list \<Rightarrow> bool res" where
  "canUseUpdate oldRow newRow pk = allR (\<lambda>k. bindR (CompareValues (col oldRow k) (col newRow k)) (\<lambda>c. Inr (c = 0))) pk"

definition exec_or_panic :: "'d database \<Rightarrow> string \<Rightarrow> string \<Rightarrow> val list \<Rightarrow> (panic, 'd, unit) exec" where
  "exec_or_panic db what sql params = (\<lambda>d.
     case db_Exec db d sql params of
       (Inl err, d') \<Rightarrow> (Inl (Panic (''TableSource '' @ what @ '' failed: '' @ err)), d')
     | (Inr _, d') \<Rightarrow> (Inr (), d'))"

fun table_writeChange :: "'d database \<Rightarrow> marshaller \<Rightarrow> 'd TableSource \<Rightarrow> SourceChange \<Rightarrow> (panic, 'd, unit) exec" where
  "table_writeChange db marshal ts (SourceAdd r) =
     exec_or_panic db ''INSERT'' (insertSQL ts) (rowToInsertParams marshal (ts_columns ts) r)"
| "table_writeChange db marshal ts (SourceRemove r) =
     exec_or_panic db ''DELETE'' (deleteSQL ts) (pkParams marshal (ts_columns ts) (ts_primaryKey ts) r)"
| "table_writeChange db marshal ts (SourceEdit r old) =
     bindM (liftM (if updateSQL ts \<noteq> '''' then canUseUpdate old r (ts_primaryKey ts) else Inr False)) (\<lambda>update.
       if update then
         let merged = old ++ r;
             params = map (\<lambda>c. ToSQLiteType marshal (col merged c) (CsType (column_schema (ts_columns ts) c)))
                        (nonPrimaryKeys (ts_columns ts) (ts_primaryKey ts))
         in exec_or_panic db ''UPDATE'' (updateSQL ts)
              (params @ pkParams marshal (ts_columns ts) (ts_primaryKey ts) merged)
       else
         thenM (exec_or_panic db ''DELETE (edit)'' (deleteSQL ts) (pkParams marshal (ts_columns ts) (ts_primaryKey ts) old))
           (exec_or_panic db ''INSERT (edit)'' (insertSQL ts) (rowToInsertParams marshal (ts_columns ts) r)))"

definition table_Exists :: "'d database \<Rightarrow> marshaller \<Rightarrow> 'd TableSource \<Rightarrow> row \<Rightarrow> bool" where
  "table_Exists db marshal ts r =
     db_HasRow db (ts_db ts) (checkExistSQL ts) (pkParams marshal (ts_columns ts) (ts_primaryKey ts) r)"

section \<open>Pushing a change\<close>

fun table_validate :: "'d database \<Rightarrow> marshaller \<Rightarrow> SourceChange \<Rightarrow> 'd TableSource \<Rightarrow> unit res" where
  "table_validate db marshal (SourceAdd r) ts =
     (if table_Exists db marshal ts r then Inl (Panic ''Row already exists'') else Inr ())"
| "table_validate db marshal (SourceRemove r) ts =
     (if \<not> table_Exists db marshal ts r then Inl (Panic ''Row not found for remove'') else Inr ())"
| "table_validate db marshal (SourceEdit r old) ts =
     (if \<not> table_Exists db marshal ts old then Inl (Panic ''Row not found for edit'') else Inr ())"

definition editChangesSplitKeys :: "row \<Rightarrow> row \<Rightarrow> string list \<Rightarrow> bool res" where
  "editChangesSplitKeys r old keys = anyR (\<lambda>k. bindR (CompareValues (col r k) (col old k)) (\<lambda>c. Inr (c \<noteq> 0))) keys"

definition push_split :: "'s push \<Rightarrow> Output \<Rightarrow> opid \<Rightarrow> row \<Rightarrow> row \<Rightarrow> (panic, 's, Change list) exec" where
  "push_split push out pusher r old =
     bindM (push out (RemoveChange (leaf old)) pusher) (\<lambda>c1.
     bindM (push out (AddChange (leaf r)) pusher) (\<lambda>c2. retM (c1 @ c2)))"

text \<open>What one connection is told of a change: the filter first, then the split keys.\<close>

fun push_output ::
  "'s push \<Rightarrow> TableConnection \<Rightarrow> Output \<Rightarrow> SourceChange \<Rightarrow> (panic, 's, Change list) exec" where
  "push_output push conn out (SourceEdit r old) =
     (let send = (if tc_SplitEditKeys conn = None then push out (EditChange (leaf r) (leaf old)) (tc_Input conn)
            else bindM (liftM (editChangesSplitKeys r old (the (tc_SplitEditKeys conn)))) (\<lambda>split.
              if split then push_split push out (tc_Input conn) r old
              else push out (EditChange (leaf r) (leaf old)) (tc_Input conn)))
      in case tc_FilterPredicate conn of
           None \<Rightarrow> send
         | Some pred \<Rightarrow>
             bindM (liftM (pred r)) (\<lambda>newMatches.
               if \<not> newMatches then
                 bindM (liftM (pred old)) (\<lambda>oldMatches.
                   if oldMatches then push out (RemoveChange (leaf old)) (tc_Input conn) else retM [])
               else
                 bindM (liftM (pred old)) (\<lambda>oldMatches.
                   if \<not> oldMatches then push out (AddChange (leaf r)) (tc_Input conn) else send)))"
| "push_output push conn out change =
     (case tc_FilterPredicate conn of
        None \<Rightarrow> push out (sourceChangeToChange change) (tc_Input conn)
      | Some pred \<Rightarrow>
          bindM (liftM (pred (Row (change_node (sourceChangeToChange change))))) (\<lambda>matches.
            if \<not> matches then retM [] else push out (sourceChangeToChange change) (tc_Input conn)))"

definition mark_pushed :: "opid \<Rightarrow> nat \<Rightarrow> 'd TableSource \<Rightarrow> 'd TableSource" where
  "mark_pushed cid epoch ts =
     ts\<lparr>ts_conns := (ts_conns ts)(cid := (ts_conns ts cid)\<lparr>tc_LastPushedEpoch := epoch\<rparr>)\<rparr>"

text \<open>The epoch of a connection is set after its output has returned, on every path but the first.\<close>

definition table_push_connection ::
  "('s, 'd TableSource) ref \<Rightarrow> 's push \<Rightarrow> nat \<Rightarrow> SourceChange \<Rightarrow> opid \<Rightarrow> (panic, 's, Change list) exec" where
  "table_push_connection p push epoch change cid =
     bindM (getM (\<lambda>s. ts_conns (rd p s) cid)) (\<lambda>conn.
       case tc_Output conn of
         None \<Rightarrow> retM []
       | Some out \<Rightarrow>
           bindM (push_output push conn out change) (\<lambda>changes.
             thenM (updM p (mark_pushed cid epoch)) (retM changes)))"

definition ts_db_at :: "('s, 'd TableSource) ref \<Rightarrow> ('s, 'd) ref" where
  "ts_db_at p = \<lparr>rd = (\<lambda>s. ts_db (rd p s)), wr = (\<lambda>d s. wr p ((rd p s)\<lparr>ts_db := d\<rparr>) s)\<rparr>"

definition TableSource_Push ::
  "'d database \<Rightarrow> marshaller \<Rightarrow> ('s, 'd TableSource) ref \<Rightarrow> 's push \<Rightarrow> SourceChange \<Rightarrow> (panic, 's, Change list) exec"
where
  "TableSource_Push db marshal p push change =
     thenM (updM p (\<lambda>ts. ts\<lparr>ts_pushEpoch := ts_pushEpoch ts + 1\<rparr>))
       (bindM (getM (\<lambda>s. ts_pushEpoch (rd p s))) (\<lambda>epoch.
          thenM (askM p (\<lambda>ts. if checkExistSQL ts \<noteq> '''' then table_validate db marshal change ts else Inr ()))
            (thenM (updM p (\<lambda>ts. ts\<lparr>ts_overlay := Some (epoch, change)\<rparr>))
               (deferM (\<lambda>s. wr p ((rd p s)\<lparr>ts_overlay := None\<rparr>) s)
                 (bindM (getM (\<lambda>s. ts_connections (rd p s))) (\<lambda>cs.
                  bindM (collectM (table_push_connection p push epoch change) cs) (\<lambda>allChanges.
                    bindM (getM (rd p)) (\<lambda>ts.
                      thenM (onM (ts_db_at p) (table_writeChange db marshal ts change)) (retM allChanges)))))))))"

section \<open>Fetching\<close>

definition constraintMatchesRow :: "Constraint \<Rightarrow> row \<Rightarrow> bool res" where
  "constraintMatchesRow c r = allR (\<lambda>(k, v). bindR (CompareValues (col r k) v) (\<lambda>c. Inr (c = 0))) c"

definition optionalMatchesRow :: "Constraint option \<Rightarrow> row \<Rightarrow> bool res" where
  "optionalMatchesRow constraint r =
     (case constraint of None \<Rightarrow> Inr True | Some c \<Rightarrow> constraintMatchesRow c r)"

text \<open>The loop is the one of \<open>sort.Search\<close> with the test \<open>comparator(node, nodes[mid]) <= 0\<close>.\<close>

definition insertSorted :: "Node list \<Rightarrow> Node \<Rightarrow> Comparator \<Rightarrow> Node list res" where
  "insertSorted nodes node compare =
     bindR (sort_Search (length nodes)
              (\<lambda>mid. bindR (compare (Row node) (Row (nodes ! mid))) (\<lambda>c. Inr (\<not> c > 0)))) (\<lambda>lo.
       Inr (take lo nodes @ node # drop lo nodes))"

definition samePK :: "string list \<Rightarrow> row \<Rightarrow> row \<Rightarrow> bool res" where
  "samePK pk a b = allR (\<lambda>k. bindR (CompareValues (col a k) (col b k)) (\<lambda>c. Inr (c = 0))) pk"

fun removeByPK :: "Node list \<Rightarrow> row \<Rightarrow> string list \<Rightarrow> Node list res" where
  "removeByPK [] r pk = Inr []"
| "removeByPK (n # nodes) r pk =
     bindR (samePK pk (Row n) r) (\<lambda>match.
       if match then Inr nodes else bindR (removeByPK nodes r pk) (\<lambda>rest. Inr (n # rest)))"

fun applyOverlay :: "Node list \<Rightarrow> SourceChange \<Rightarrow> Comparator \<Rightarrow> Constraint option \<Rightarrow> string list \<Rightarrow> Node list res" where
  "applyOverlay nodes (SourceAdd r) compare constraint pk =
     bindR (optionalMatchesRow constraint r) (\<lambda>b.
       if \<not> b then Inr nodes else insertSorted nodes (leaf r) compare)"
| "applyOverlay nodes (SourceRemove r) compare constraint pk = removeByPK nodes r pk"
| "applyOverlay nodes (SourceEdit r old) compare constraint pk =
     bindR (optionalMatchesRow constraint old) (\<lambda>oldIn.
       if \<not> oldIn then
         bindR (optionalMatchesRow constraint r) (\<lambda>newIn.
           if newIn then insertSorted nodes (leaf r) compare else Inr nodes)
       else
         bindR (removeByPK nodes old pk) (\<lambda>nodes'.
         bindR (optionalMatchesRow constraint r) (\<lambda>newIn.
           if newIn then insertSorted nodes' (leaf r) compare else Inr nodes')))"

definition table_applyStart :: "Node list \<Rightarrow> Start \<Rightarrow> Ordering \<Rightarrow> Node list res" where
  "table_applyStart nodes start order =
     drop_until (\<lambda>n. bindR (CompareWithPartialBound (StartRow start) (Row n) order) (\<lambda>c.
       Inr (if Basis start = ''at'' then - c \<ge> 0 else - c > 0))) nodes"

definition scan_row :: "(string \<Rightarrow> val option) \<Rightarrow> column_map \<Rightarrow> string list \<Rightarrow> val list \<Rightarrow> row" where
  "scan_row unmarshal cols names values =
     fold (\<lambda>(c, v) r. case map_of cols c of None \<Rightarrow> r | Some cs \<Rightarrow> r(c \<mapsto> FromSQLiteType unmarshal v (CsType cs)))
       (zip names values) Map.empty"

fun scan_rows ::
  "(string \<Rightarrow> val option) \<Rightarrow> column_map \<Rightarrow> (row \<Rightarrow> bool res) option \<Rightarrow> string list \<Rightarrow> (string + val list) list \<Rightarrow>
   Node list res" where
  "scan_rows unmarshal cols pred names [] = Inr []"
| "scan_rows unmarshal cols pred names (Inl err # rows) = Inl (Panic (''TableSource.Fetch scan failed: '' @ err))"
| "scan_rows unmarshal cols pred names (Inr values # rows) =
     (let r = scan_row unmarshal cols names values in
      bindR (case pred of None \<Rightarrow> Inr True | Some f \<Rightarrow> f r) (\<lambda>b.
      bindR (scan_rows unmarshal cols pred names rows) (\<lambda>rest.
        Inr (if b then leaf r # rest else rest))))"

definition TableSource_Fetch ::
  "'d database \<Rightarrow> marshaller \<Rightarrow> (string \<Rightarrow> val option) \<Rightarrow> 'd TableSource \<Rightarrow> TableConnection \<Rightarrow> FetchRequest \<Rightarrow> Node list res"
where
  "TableSource_Fetch db marshal unmarshal ts conn req =
     bindR (BuildSelectQuery marshal (ts_tableName ts) (ts_columns ts) (ReqConstraint req) (tc_FilterCondition conn)
              (tc_Sort conn) (ReqReverse req) (ReqStart req)) (\<lambda>query.
       case db_Query db (ts_db ts) (SQL query) (Params query) of
         Inl err \<Rightarrow> Inl (Panic (''TableSource.Fetch query failed: '' @ err))
       | Inr (names, rows) \<Rightarrow>
           bindR (scan_rows unmarshal (ts_columns ts) (tc_FilterPredicate conn) names rows) (\<lambda>result.
           bindR (case ts_overlay ts of
                    None \<Rightarrow> Inr result
                  | Some (epoch, change) \<Rightarrow>
                      if tc_LastPushedEpoch conn < epoch
                      then applyOverlay result change (tc_CompareRows conn) (ReqConstraint req) (ts_primaryKey ts)
                      else Inr result) (\<lambda>shown.
             case (ReqStart req, tc_Sort conn) of
               (Some start, Some order) \<Rightarrow> table_applyStart shown start order
             | _ \<Rightarrow> Inr shown)))"

end
