(* ===== verification/SqlConditions.thy ===== *)
theory SqlConditions
  imports QueryBuilder
begin

text \<open>
  What the SQL texts of \<open>QueryBuilder\<close> mean: the conditions they are texts of, the parameters their
  placeholders take, and when SQLite takes such a condition to be true of a stored row.  How SQLite
  decides a comparison of two values is the parameter \<open>truth\<close>.
\<close>

section \<open>Conditions, their texts and their truth\<close>

datatype operand = Col string | Param val

datatype sql_cond = STrue | SFalse
  | SBin operand string operand
  | SNull operand
  | SIn operand string val
  | SAnd "sql_cond list"
  | SOr "sql_cond list"

fun operand_text :: "operand \<Rightarrow> string" where
  "operand_text (Col c) = quoteIdent c"
| "operand_text (Param v) = ''?''"

fun operand_params :: "operand \<Rightarrow> val list" where
  "operand_params (Col c) = []"
| "operand_params (Param v) = [v]"

fun operand_value :: "row \<Rightarrow> operand \<Rightarrow> val" where
  "operand_value r (Col c) = col r c"
| "operand_value r (Param v) = v"

fun sql_text :: "sql_cond \<Rightarrow> string" where
  "sql_text STrue = ''TRUE''"
| "sql_text SFalse = ''FALSE''"
| "sql_text (SBin a op b) = operand_text a @ '' '' @ op @ '' '' @ operand_text b"
| "sql_text (SNull a) = operand_text a @ '' IS NULL''"
| "sql_text (SIn a op v) = operand_text a @ '' '' @ op @ '' (SELECT value FROM json_each(?))''"
| "sql_text (SAnd cs) = ''('' @ strings_Join '' AND '' (map sql_text cs) @ '')''"
| "sql_text (SOr cs) = ''('' @ strings_Join '' OR '' (map sql_text cs) @ '')''"

fun sql_params :: "sql_cond \<Rightarrow> val list" where
  "sql_params (SBin a op b) = operand_params a @ operand_params b"
| "sql_params (SNull a) = operand_params a"
| "sql_params (SIn a op v) = operand_params a @ [v]"
| "sql_params (SAnd cs) = concat (map sql_params cs)"
| "sql_params (SOr cs) = concat (map sql_params cs)"
| "sql_params _ = []"

text \<open>
  Conditions are used positively only, so it is enough to say when one is true: a comparison with
  NULL is not true, and neither is anything built from what is not true.
\<close>

type_synonym truth = "string \<Rightarrow> val \<Rightarrow> val \<Rightarrow> bool"

fun sql_holds :: "truth \<Rightarrow> row \<Rightarrow> sql_cond \<Rightarrow> bool" where
  "sql_holds truth r STrue = True"
| "sql_holds truth r SFalse = False"
| "sql_holds truth r (SBin a op b) = truth op (operand_value r a) (operand_value r b)"
| "sql_holds truth r (SNull a) = (operand_value r a = VNull)"
| "sql_holds truth r (SIn a op v) = truth op (operand_value r a) v"
| "sql_holds truth r (SAnd cs) = list_all (sql_holds truth r) cs"
| "sql_holds truth r (SOr cs) = list_ex (sql_holds truth r) cs"

section \<open>Placeholders\<close>

text \<open>The placeholders of a text: the question marks outside quoted identifiers.\<close>

fun placeholders :: "bool \<Rightarrow> string \<Rightarrow> nat" where
  "placeholders quoted [] = 0"
| "placeholders quoted (c # cs) =
     (if c = dquote then placeholders (\<not> quoted) cs
      else (if c = CHR ''?'' \<and> \<not> quoted then 1 else 0) + placeholders quoted cs)"

text \<open>A text with \<open>n\<close> placeholders that leaves no quotation open.\<close>

definition binds :: "string \<Rightarrow> nat \<Rightarrow> bool" where
  "binds s n \<longleftrightarrow> (\<forall>t. placeholders False (s @ t) = n + placeholders False t)"

named_theorems binds_intros

lemma binds_count: "binds s n \<Longrightarrow> placeholders False s = n"
  by (metis append.right_neutral binds_def add.right_neutral placeholders.simps(1))

lemma binds_append [binds_intros]: "binds s m \<Longrightarrow> binds t n \<Longrightarrow> binds (s @ t) (m + n)"
  by (simp add: binds_def)

lemma binds_Nil: "binds [] 0"
  by (simp add: binds_def)

lemma escaped_Cons: "escaped (c # s) = (if c = dquote then [dquote, dquote] else [c]) @ escaped s"
  by (simp add: escaped_def)

lemma placeholders_escaped: "placeholders True (escaped s @ t) = placeholders True t"
  by (induction s) (simp_all add: escaped_Cons, simp add: escaped_def)

lemma binds_quoteIdent [binds_intros]: "binds (quoteIdent s) 0"
  by (simp add: binds_def quoteIdent_def placeholders_escaped)

lemma binds_operand [binds_intros]: "binds (operand_text a) (length (operand_params a))"
  by (cases a) (simp_all add: binds_quoteIdent, simp add: binds_def)

lemma binds_Join:
  assumes "binds sep 0" "list_all2 binds ss ns"
  shows "binds (strings_Join sep ss) (sum_list ns)"
  using assms
proof (induction sep ss arbitrary: ns rule: strings_Join.induct)
  case (3 sep s t ts)
  then obtain n ns' where ns: "ns = n # ns'" "binds s n" "list_all2 binds (t # ts) ns'" by (auto simp: list_all2_Cons1)
  have "binds (strings_Join sep (t # ts)) (sum_list ns')" using "3.IH" "3.prems" ns by simp
  from binds_append [OF ns(2) binds_append [OF "3.prems"(1) this]] ns show ?case by simp
qed (auto simp: binds_Nil list_all2_Cons1)

lemma binds_Join_map:
  assumes "binds sep 0" "\<And>x. x \<in> set xs \<Longrightarrow> binds (f x) (g x)"
  shows "binds (strings_Join sep (map f xs)) (sum_list (map g xs))"
  using assms by (intro binds_Join) (auto simp: list_all2_map1 list_all2_map2 list_all2_same)

section \<open>Sorted names\<close>

lemma strings_Compare_lt: "strings_Compare s t < 0 \<longleftrightarrow> s < t"
  by (simp add: strings_Compare_def)

lemma set_sink [simp]: "set (sink s ts) = insert s (set ts)"
  by (induction ts) auto

lemma sorted_sink: "sorted (rev ts) \<Longrightarrow> sorted (rev (sink s ts))"
  by (induction ts) (auto simp: sorted_append strings_Compare_lt not_less)

lemma length_sink [simp]: "length (sink s ts) = Suc (length ts)"
  by (induction ts) auto

lemma fold_sink: "sorted (rev acc) \<Longrightarrow> sorted (rev (fold sink ss acc)) \<and>
    set (fold sink ss acc) = set ss \<union> set acc \<and> length (fold sink ss acc) = length ss + length acc"
  by (induction ss arbitrary: acc) (auto simp: sorted_sink)

lemma sortStrings_spec: "sorted (sortStrings ss)" "set (sortStrings ss) = set ss" "length (sortStrings ss) = length ss"
  using fold_sink [of "[]" ss] by (simp_all add: sortStrings_def)

lemma sortStrings_eq:
  assumes "distinct ss" "distinct ts" "set ss = set ts"
  shows "sortStrings ss = sortStrings ts"
proof -
  have "distinct (sortStrings us)" if "distinct us" for us
    using that distinct_card [of us] sortStrings_spec [of us] by (simp add: card_distinct)
  with assms sorted_distinct_set_unique sortStrings_spec show ?thesis by metis
qed

end
