(* ===== verification/CursorSql.thy ===== *)
theory CursorSql
  imports SqlConditions
begin

text \<open>
  The start cursor in SQL means what the row comparator means, every query binds as many parameters
  as its text has placeholders unless a nullable column is paged through upwards, and the text does
  not depend on the order in which Go iterates over the maps.
\<close>

section \<open>The cursor as a condition\<close>

definition eq_cond :: "marshaller \<Rightarrow> Start \<Rightarrow> column_map \<Rightarrow> string \<times> string \<Rightarrow> sql_cond" where
  "eq_cond marshal start cols od =
     SBin (Col (fst od)) (if CsOptional (column_schema cols (fst od)) then ''IS'' else ''='')
       (Param (cursor_value marshal start cols (fst od)))"

definition range_cond :: "marshaller \<Rightarrow> Start \<Rightarrow> bool \<Rightarrow> column_map \<Rightarrow> string \<times> string \<Rightarrow> sql_cond" where
  "range_cond marshal start reverse cols od =
     (let c = SBin (Col (fst od)) (range_op reverse (snd od)) (Param (cursor_value marshal start cols (fst od)))
      in if CsOptional (column_schema cols (fst od)) then SOr [SNull (Col (fst od)), c] else c)"

text \<open>No nullable column is paged through in the direction of \<open>>\<close>.\<close>

definition pageable :: "bool \<Rightarrow> column_map \<Rightarrow> Ordering \<Rightarrow> bool" where
  "pageable reverse cols order \<longleftrightarrow>
     (\<forall>od\<in>set order. CsOptional (column_schema cols (fst od)) \<longrightarrow> range_op reverse (snd od) \<noteq> ''>'')"

definition cursor_clause :: "marshaller \<Rightarrow> Start \<Rightarrow> bool \<Rightarrow> column_map \<Rightarrow> Ordering \<Rightarrow> nat \<Rightarrow> sql_cond list" where
  "cursor_clause marshal start reverse cols order i =
     map (eq_cond marshal start cols) (take i order) @ [range_cond marshal start reverse cols (order ! i)]"

definition cursor_cond :: "marshaller \<Rightarrow> Start \<Rightarrow> bool \<Rightarrow> column_map \<Rightarrow> Ordering \<Rightarrow> sql_cond" where
  "cursor_cond marshal start reverse cols order =
     SOr (map (\<lambda>i. SAnd (cursor_clause marshal start reverse cols order i)) [0..<length order] @
       (if Basis start = ''at'' then [SAnd (map (eq_cond marshal start cols) order)] else []))"

lemma equalities_cond:
  "equalities marshal start cols order =
     map (\<lambda>od. (sql_text (eq_cond marshal start cols od), cursor_value marshal start cols (fst od))) order"
  by (simp add: equalities_def eq_cond_def nullableAwareEquality_def)

lemma range_text:
  "CsOptional (column_schema cols (fst od)) \<longrightarrow> range_op reverse (snd od) \<noteq> ''>'' \<Longrightarrow>
   nullableAwareRangeComparison (fst od) (range_op reverse (snd od)) (column_schema cols (fst od)) =
     sql_text (range_cond marshal start reverse cols od)"
  by (auto simp: nullableAwareRangeComparison_def range_cond_def Let_def)

lemma params_cond:
  "sql_params (eq_cond marshal start cols od) = [cursor_value marshal start cols (fst od)]"
  "sql_params (range_cond marshal start reverse cols od) = [cursor_value marshal start cols (fst od)]"
  by (simp_all add: eq_cond_def range_cond_def Let_def)

lemma and_parts_cond:
  assumes "pageable reverse cols order" "i < length order"
  shows "and_parts marshal start reverse cols order i =
    map (\<lambda>c. (sql_text c, hd (sql_params c))) (cursor_clause marshal start reverse cols order i)"
proof -
  have "order ! i \<in> set order" using assms(2) by simp
  with assms(1) range_text [of cols "order ! i" reverse marshal start] show ?thesis
    by (simp add: and_parts_def cursor_clause_def equalities_cond params_cond pageable_def case_prod_beta)
qed

lemma concat_single: "(\<And>x. x \<in> set xs \<Longrightarrow> f x = [g x]) \<Longrightarrow> concat (map f xs) = map g xs"
  by (induction xs) auto

lemma clause_params:
  "concat (map sql_params (cursor_clause marshal start reverse cols order i)) =
     map (\<lambda>c. hd (sql_params c)) (cursor_clause marshal start reverse cols order i)"
  by (rule concat_single) (auto simp: cursor_clause_def params_cond)

lemma eq_params: "concat (map sql_params (map (eq_cond marshal start cols) order)) =
    map (\<lambda>od. cursor_value marshal start cols (fst od)) order"
  by (induction order) (simp_all add: params_cond)

lemma gatherStartConstraints_cond:
  assumes "pageable reverse cols order"
  shows "gatherStartConstraints marshal start reverse order cols =
    (sql_text (cursor_cond marshal start reverse cols order), sql_params (cursor_cond marshal start reverse cols order))"
proof -
  let ?clause = "cursor_clause marshal start reverse cols order"
  have parts: "map (and_parts marshal start reverse cols order) [0..<length order] =
      map (\<lambda>i. map (\<lambda>c. (sql_text c, hd (sql_params c))) (?clause i)) [0..<length order]"
    using and_parts_cond [OF assms] by simp
  show ?thesis
    unfolding gatherStartConstraints_def parts
    by (simp add: cursor_cond_def equalities_cond clause_params eq_params [unfolded map_map comp_def] comp_def)
qed

section \<open>Its truth\<close>

text \<open>
  What SQLite documents of its operators on the values it stores: NULL, integers of 64 bits, reals and
  text.  Two numbers compare by their exact values, also an integer with a real; text compares by its
  bytes; numbers come before text.  A comparison with NULL is not true, but \<open>IS\<close> and \<open>IS NOT\<close> take
  NULLs to be equal.
\<close>

fun sql_number :: "val \<Rightarrow> f64 option" where
  "sql_number (VInt k n) = Some (Fin (of_int n))"
| "sql_number (VF64 x) = Some x"
| "sql_number (VF32 x) = Some x"
| "sql_number _ = None"

fun sql_text_of :: "val \<Rightarrow> string" where
  "sql_text_of (VStr s) = s"
| "sql_text_of _ = []"

definition sql_storable :: "val \<Rightarrow> bool" where
  "sql_storable v \<longleftrightarrow>
     (case v of VNull \<Rightarrow> True | VStr s \<Rightarrow> True | VInt k n \<Rightarrow> - (2 ^ 63) \<le> n \<and> n < 2 ^ 63
      | VF64 x \<Rightarrow> x \<noteq> NaN | VF32 x \<Rightarrow> x \<noteq> NaN | _ \<Rightarrow> False)"

definition sql_compare :: "val \<Rightarrow> val \<Rightarrow> int" where
  "sql_compare a b =
     (case (sql_number a, sql_number b) of
        (Some x, Some y) \<Rightarrow> if f64_lt x y then -1 else if f64_lt y x then 1 else 0
      | (Some x, None) \<Rightarrow> -1
      | (None, Some y) \<Rightarrow> 1
      | (None, None) \<Rightarrow> strings_Compare (sql_text_of a) (sql_text_of b))"

definition sqlite_truth :: truth where
  "sqlite_truth op a b \<longleftrightarrow>
     (if a = VNull \<or> b = VNull then op = ''IS'' \<and> a = b \<or> op = ''IS NOT'' \<and> a \<noteq> b
      else let c = sql_compare a b in
        (op = ''='' \<or> op = ''IS'') \<and> c = 0 \<or> (op = ''!='' \<or> op = ''IS NOT'') \<and> c \<noteq> 0 \<or>
        op = ''<'' \<and> c < 0 \<or> op = ''>'' \<and> c > 0 \<or> op = ''<='' \<and> c \<le> 0 \<or> op = ''>='' \<and> c \<ge> 0)"

definition sql_ops :: "string set" where
  "sql_ops = {''='', ''!='', ''<'', ''>'', ''<='', ''>='', ''IS'', ''IS NOT''}"

definition compares :: "truth \<Rightarrow> bool" where
  "compares truth \<longleftrightarrow>
     (\<forall>op\<in>sql_ops. \<forall>a b. sql_storable a \<longrightarrow> sql_storable b \<longrightarrow> truth op a b = sqlite_truth op a b)"

lemma sqlite_compares: "compares sqlite_truth"
  by (simp add: compares_def)

text \<open>
  The program compares integers as doubles.  That is SQLite's comparison for integers that doubles
  represent, and not beyond: SQLite tells \<open>2 ^ 53\<close> and \<open>2 ^ 53 + 1\<close> apart.
\<close>

fun exact_number :: "val \<Rightarrow> bool" where
  "exact_number (VInt k n) = (\<bar>n\<bar> < 2 ^ 53)"
| "exact_number _ = True"

lemma large_integers_differ:
  "cval CompareValues (VInt KInt64 (2 ^ 53)) (VInt KInt64 (2 ^ 53 + 1)) = 0"
  "\<not> sqlite_truth ''='' (VInt KInt64 (2 ^ 53)) (VInt KInt64 (2 ^ 53 + 1))"
  by code_simp+

text \<open>The value as the code stores it.\<close>

fun class_type :: "vclass \<Rightarrow> string" where
  "class_type CBool = ''boolean''"
| "class_type CStr = ''string''"
| "class_type CNum = ''number''"

definition stored :: "vclass \<Rightarrow> val \<Rightarrow> val" where
  "stored t v = ToSQLiteType (\<lambda>_. None) v (class_type t)"

lemma ToSQLiteType_class [simp]: "ToSQLiteType marshal v (class_type t) = stored t v"
  by (cases t) (simp_all add: stored_def ToSQLiteType_def)

lemma stored_number: "okval CNum v \<Longrightarrow> exact_number v \<Longrightarrow> v \<noteq> VNull \<Longrightarrow> sql_number v = toFloat64 v \<and> sql_storable v"
  by (cases v rule: toFloat64.cases) (auto simp: okval_def sql_storable_def f64_of_int_exact)

lemma stored_compare:
  assumes "okval t a" "okval t b" "exact_number a" "exact_number b" "a \<noteq> VNull" "b \<noteq> VNull"
  shows "sql_compare (stored t a) (stored t b) = vcmp a b"
proof (cases t)
  case CNum
  then obtain x y where xy: "toFloat64 a = Some x" "toFloat64 b = Some y" "x \<noteq> NaN" "y \<noteq> NaN"
    using assms by (metis okval_num_cases)
  have "vcmp a b = (if f64_lt x y then -1 else if f64_lt y x then 1 else 0)"
    using xy CompareValues_num [OF xy(1,2)] CompareValues_ok [OF assms(1,2)] by simp
  then show ?thesis
    using CNum assms xy stored_number [of a] stored_number [of b]
    by (simp add: sql_compare_def stored_def ToSQLiteType_def)
next
  case CBool
  with assms show ?thesis
    by (auto simp: okval_bool_iff sql_compare_def vcmp_def stored_def ToSQLiteType_def)
next
  case CStr
  with assms show ?thesis
    by (auto simp: okval_str_iff sql_compare_def vcmp_def stored_def ToSQLiteType_def)
qed

lemma stored_null [simp]: "stored t v = VNull \<longleftrightarrow> v = VNull"
  by (cases t; cases v) (auto simp: stored_def ToSQLiteType_def)

lemma stored_storable: "okval t v \<Longrightarrow> exact_number v \<Longrightarrow> sql_storable (stored t v)"
  using stored_number [of v]
  by (cases t; cases "v = VNull")
    (auto simp: okval_bool_iff okval_str_iff stored_def ToSQLiteType_def sql_storable_def)

lemma vcmp_null: "a = VNull \<or> b = VNull \<Longrightarrow> vcmp a b = 0 \<longleftrightarrow> a = b"
  by (auto simp: vcmp_def)

lemma sqlite_truth_stored:
  assumes "okval t a" "okval t b" "exact_number a" "exact_number b"
  shows "sqlite_truth op (stored t a) (stored t b) \<longleftrightarrow>
    (if a = VNull \<or> b = VNull then op = ''IS'' \<and> a = b \<or> op = ''IS NOT'' \<and> a \<noteq> b
     else (op = ''='' \<or> op = ''IS'') \<and> vcmp a b = 0 \<or> (op = ''!='' \<or> op = ''IS NOT'') \<and> vcmp a b \<noteq> 0 \<or>
        op = ''<'' \<and> vcmp a b < 0 \<or> op = ''>'' \<and> vcmp a b > 0 \<or> op = ''<='' \<and> vcmp a b \<le> 0 \<or>
        op = ''>='' \<and> vcmp a b \<ge> 0)"
proof (cases "a = VNull \<or> b = VNull")
  case True
  then show ?thesis
    by (cases "a = VNull"; cases "b = VNull")
      (simp_all add: sqlite_truth_def iffD2 [OF stored_null [of t VNull] refl] eq_commute [of VNull "stored t b"])
next
  case False
  then show ?thesis
    using stored_compare [OF assms] by (simp add: sqlite_truth_def Let_def)
qed

lemma comparesD:
  assumes "compares truth" "okval t a" "okval t b" "exact_number a" "exact_number b"
  shows "truth ''IS'' (stored t a) (stored t b) \<longleftrightarrow> vcmp a b = 0"
    and "truth ''='' (stored t a) (stored t b) \<longleftrightarrow> a \<noteq> VNull \<and> b \<noteq> VNull \<and> vcmp a b = 0"
    and "truth ''<'' (stored t a) (stored t b) \<longleftrightarrow> a \<noteq> VNull \<and> b \<noteq> VNull \<and> vcmp a b < 0"
    and "truth ''>'' (stored t a) (stored t b) \<longleftrightarrow> a \<noteq> VNull \<and> b \<noteq> VNull \<and> vcmp a b > 0"
    and "truth ''<='' (stored t a) (stored t b) \<longleftrightarrow> a \<noteq> VNull \<and> b \<noteq> VNull \<and> vcmp a b \<le> 0"
    and "truth ''>='' (stored t a) (stored t b) \<longleftrightarrow> a \<noteq> VNull \<and> b \<noteq> VNull \<and> vcmp a b \<ge> 0"
    and "truth ''!='' (stored t a) (stored t b) \<longleftrightarrow> a \<noteq> VNull \<and> b \<noteq> VNull \<and> vcmp a b \<noteq> 0"
    and "truth ''IS NOT'' (stored t a) (stored t b) \<longleftrightarrow> vcmp a b \<noteq> 0"
proof -
  have "truth op (stored t a) (stored t b) = sqlite_truth op (stored t a) (stored t b)" if "op \<in> sql_ops" for op
    using assms(1) that stored_storable [OF assms(2,4)] stored_storable [OF assms(3,5)]
    by (simp add: compares_def)
  note doc = this [unfolded sqlite_truth_stored [OF assms(2-5)]]
  note null = vcmp_null [of a b]
  show "truth ''IS'' (stored t a) (stored t b) \<longleftrightarrow> vcmp a b = 0"
    using doc [of "''IS''"] null by (auto simp: sql_ops_def)
  show "truth ''='' (stored t a) (stored t b) \<longleftrightarrow> a \<noteq> VNull \<and> b \<noteq> VNull \<and> vcmp a b = 0"
    using doc [of "''=''"] by (auto simp: sql_ops_def)
  show "truth ''<'' (stored t a) (stored t b) \<longleftrightarrow> a \<noteq> VNull \<and> b \<noteq> VNull \<and> vcmp a b < 0"
    using doc [of "''<''"] by (auto simp: sql_ops_def)
  show "truth ''>'' (stored t a) (stored t b) \<longleftrightarrow> a \<noteq> VNull \<and> b \<noteq> VNull \<and> vcmp a b > 0"
    using doc [of "''>''"] by (auto simp: sql_ops_def)
  show "truth ''<='' (stored t a) (stored t b) \<longleftrightarrow> a \<noteq> VNull \<and> b \<noteq> VNull \<and> vcmp a b \<le> 0"
    using doc [of "''<=''"] by (auto simp: sql_ops_def)
  show "truth ''>='' (stored t a) (stored t b) \<longleftrightarrow> a \<noteq> VNull \<and> b \<noteq> VNull \<and> vcmp a b \<ge> 0"
    using doc [of "''>=''"] by (auto simp: sql_ops_def)
  show "truth ''!='' (stored t a) (stored t b) \<longleftrightarrow> a \<noteq> VNull \<and> b \<noteq> VNull \<and> vcmp a b \<noteq> 0"
    using doc [of "''!=''"] by (auto simp: sql_ops_def)
  show "truth ''IS NOT'' (stored t a) (stored t b) \<longleftrightarrow> vcmp a b \<noteq> 0"
    using doc [of "''IS NOT''"] null by (auto simp: sql_ops_def)
qed

text \<open>The row as the table holds it.\<close>

definition stored_row :: "(string \<Rightarrow> vclass) \<Rightarrow> row \<Rightarrow> row" where
  "stored_row ty r = (\<lambda>c. map_option (stored (ty c)) (r c))"

lemma col_stored_row [simp]: "col (stored_row ty r) c = stored (ty c) (col r c)"
  using stored_null [of "ty c" VNull] by (auto simp: col_def stored_row_def split: option.splits simp del: stored_null)

text \<open>
  The columns of the ordering have the types \<open>ty\<close>, the values fit, integers are exact as doubles, and
  columns that are not nullable hold no null.
\<close>

definition typed_row :: "(string \<Rightarrow> vclass) \<Rightarrow> column_map \<Rightarrow> Ordering \<Rightarrow> row \<Rightarrow> bool" where
  "typed_row ty cols order r \<longleftrightarrow> row_ok ty order r \<and>
     (\<forall>od\<in>set order. CsType (column_schema cols (fst od)) = class_type (ty (fst od)) \<and>
        (snd od = ''asc'' \<or> snd od = ''desc'') \<and> exact_number (col r (fst od)) \<and>
        (CsOptional (column_schema cols (fst od)) \<or> col r (fst od) \<noteq> VNull))"

definition past_cursor :: "Start \<Rightarrow> bool \<Rightarrow> Ordering \<Rightarrow> row \<Rightarrow> bool" where
  "past_cursor start reverse order r \<longleftrightarrow>
     (if Basis start = ''at'' then cval (MakeComparator order reverse) (StartRow start) r \<le> 0
      else cval (MakeComparator order reverse) (StartRow start) r < 0)"

text \<open>The disjunction over the fields, by recursion on the ordering.\<close>

fun lex_past :: "('a \<Rightarrow> bool) \<Rightarrow> ('a \<Rightarrow> bool) \<Rightarrow> 'a list \<Rightarrow> bool" where
  "lex_past eq past [] = False"
| "lex_past eq past (x # xs) = (past x \<or> eq x \<and> lex_past eq past xs)"

lemma lex_past_iff: "(\<exists>i<length xs. list_all eq (take i xs) \<and> past (xs ! i)) \<longleftrightarrow> lex_past eq past xs"
proof (induction xs)
  case (Cons x xs)
  have "(\<exists>i<length (x # xs). list_all eq (take i (x # xs)) \<and> past ((x # xs) ! i)) \<longleftrightarrow>
      past x \<or> (\<exists>i<length xs. eq x \<and> list_all eq (take i xs) \<and> past (xs ! i))"
    by (simp add: Ex_less_Suc2)
  with Cons show ?case by auto
qed simp

lemma list_ex_map: "list_ex p (map f xs) = list_ex (p \<circ> f) xs"
  by (induction xs) auto

lemma cursor_cond_holds:
  "sql_holds truth r (cursor_cond marshal start reverse cols order) \<longleftrightarrow>
     lex_past (\<lambda>od. sql_holds truth r (eq_cond marshal start cols od))
       (\<lambda>od. sql_holds truth r (range_cond marshal start reverse cols od)) order \<or>
     Basis start = ''at'' \<and> list_all (\<lambda>od. sql_holds truth r (eq_cond marshal start cols od)) order"
  by (simp add: cursor_cond_def cursor_clause_def lex_past_iff [symmetric] list_ex_map list.pred_map comp_def)
    (auto simp: list_ex_iff)

text \<open>One field.\<close>

lemma field_eq:
  assumes "compares truth" "typed_row ty cols [od] r" "typed_row ty cols [od] (StartRow start)"
  shows "sql_holds truth (stored_row ty r) (eq_cond marshal start cols od) \<longleftrightarrow>
    vcmp (col (StartRow start) (fst od)) (col r (fst od)) = 0"
proof -
  let ?a = "col r (fst od)" and ?b = "col (StartRow start) (fst od)"
  have ok: "okval (ty (fst od)) ?a" "okval (ty (fst od)) ?b" "CsType (column_schema cols (fst od)) = class_type (ty (fst od))"
    and ex: "exact_number ?a" "exact_number ?b"
    using assms(2,3) by (auto simp: typed_row_def row_ok_def)
  have "vcmp ?b ?a = - vcmp ?a ?b" by (rule vcmp_antisym [OF ok(1,2)])
  with ok assms show ?thesis
    by (auto simp: eq_cond_def cursor_value_def comparesD [OF assms(1) ok(1,2) ex] typed_row_def)
qed

lemma field_past:
  fixes reverse :: bool
  assumes "compares truth" "typed_row ty cols [od] r" "typed_row ty cols [od] (StartRow start)"
  defines "c \<equiv> vcmp (col (StartRow start) (fst od)) (col r (fst od))"
  defines "past \<equiv> (if (snd od = ''desc'') = reverse then c < 0 else 0 < c)"
  shows "(past \<and> pageable reverse cols [od] \<longrightarrow> sql_holds truth (stored_row ty r) (range_cond marshal start reverse cols od)) \<and>
    (sql_holds truth (stored_row ty r) (range_cond marshal start reverse cols od) \<and>
      \<not> CsOptional (column_schema cols (fst od)) \<longrightarrow> past)"
proof -
  let ?a = "col r (fst od)" and ?b = "col (StartRow start) (fst od)"
  have ok: "okval (ty (fst od)) ?a" "okval (ty (fst od)) ?b" "CsType (column_schema cols (fst od)) = class_type (ty (fst od))"
    "snd od = ''asc'' \<or> snd od = ''desc''"
    "CsOptional (column_schema cols (fst od)) \<or> ?a \<noteq> VNull \<and> ?b \<noteq> VNull" "exact_number ?a" "exact_number ?b"
    using assms(2,3) by (auto simp: typed_row_def row_ok_def)
  have anti: "vcmp ?a ?b = - c" using vcmp_antisym [OF ok(2,1)] by (simp add: c_def)
  have null: "?a = VNull \<Longrightarrow> ?b \<noteq> VNull \<Longrightarrow> 0 < c" "?b = VNull \<Longrightarrow> c \<le> 0"
    by (auto simp: c_def vcmp_def)
  have truth: "truth ''<'' (stored (ty (fst od)) ?a) (stored (ty (fst od)) ?b) \<longleftrightarrow> ?a \<noteq> VNull \<and> ?b \<noteq> VNull \<and> 0 < c"
      "truth ''>'' (stored (ty (fst od)) ?a) (stored (ty (fst od)) ?b) \<longleftrightarrow> ?a \<noteq> VNull \<and> ?b \<noteq> VNull \<and> c < 0"
    using anti by (auto simp: comparesD [OF assms(1) ok(1,2,6,7)])
  show ?thesis
  proof (cases "CsOptional (column_schema cols (fst od))")
    case True
    then show ?thesis
      using ok(3,4) truth null
      by (cases reverse) (auto simp: range_cond_def range_op_def cursor_value_def past_def pageable_def)
  next
    case False
    then show ?thesis
      using ok(3,4,5) truth
      by (cases reverse) (auto simp: range_cond_def range_op_def cursor_value_def past_def pageable_def)
  qed
qed

section \<open>Properties\<close>

lemma past_lex:
  fixes marshal :: marshaller and reverse :: bool
  assumes "compares truth" "typed_row ty cols order r" "typed_row ty cols order (StartRow start)"
    and "pageable reverse cols order"
  defines "sat \<equiv> sql_holds truth (stored_row ty r)"
  defines "eq \<equiv> \<lambda>od. sat (eq_cond marshal start cols od)"
    and "past \<equiv> \<lambda>od. sat (range_cond marshal start reverse cols od)"
    and "c \<equiv> rcmp order reverse (StartRow start) r"
  shows "(c < 0 \<longrightarrow> lex_past eq past order) \<and> (c = 0 \<longleftrightarrow> list_all eq order) \<and>
    (lex_past eq past order \<and> (\<forall>od\<in>set order. \<not> CsOptional (column_schema cols (fst od))) \<longrightarrow> c < 0)"
  using assms(2-4) unfolding c_def
proof (induction order)
  case (Cons od order)
  have head: "typed_row ty cols [od] r" "typed_row ty cols [od] (StartRow start)" "pageable reverse cols [od]"
    using Cons.prems by (auto simp: typed_row_def pageable_def row_ok_def)
  have tail: "typed_row ty cols order r" "typed_row ty cols order (StartRow start)" "pageable reverse cols order"
    using Cons.prems by (auto simp: typed_row_def pageable_def row_ok_def)
  obtain f d where od: "od = (f, d)" by force
  show ?case
    using Cons.IH [OF tail] field_eq [OF assms(1) head(1,2), of marshal] head(3)
      field_past [OF assms(1) head(1,2), of reverse marshal]
    by (auto simp: od eq_def past_def sat_def Let_def split: if_splits)
qed simp

text \<open>
  C25. The start cursor in SQL is the cursor of the row comparator: the text and the parameters that
  \<open>gatherStartConstraints\<close> makes are those of a condition which SQLite takes to be true of every
  stored row that is past the cursor in the (reversed) ordering -- at or past it for the basis
  \<open>at\<close> -- and, when the columns of the ordering are not nullable, of no other row.  Assumed are the
  comparison operators as SQLite documents them, values of the columns' types with integers below
  \<open>2 ^ 53\<close> (the program compares numbers as doubles, SQLite exactly), and that no nullable column is
  paged through in the direction of \<open>>\<close>.
\<close>

theorem start_cursor_selects:
  assumes "compares truth" "typed_row ty cols order r" "typed_row ty cols order (StartRow start)"
    and "pageable reverse cols order"
  shows "\<exists>c. gatherStartConstraints marshal start reverse order cols = (sql_text c, sql_params c) \<and>
    (past_cursor start reverse order r \<longrightarrow> sql_holds truth (stored_row ty r) c) \<and>
    ((\<forall>od\<in>set order. \<not> CsOptional (column_schema cols (fst od))) \<longrightarrow>
      sql_holds truth (stored_row ty r) c \<longrightarrow> past_cursor start reverse order r)"
proof -
  have "MakeComparator order reverse (StartRow start) r = Inr (rcmp order reverse (StartRow start) r)"
    by (rule MakeComparator_ok [of ty]) (use assms(2,3) in \<open>auto simp: typed_row_def\<close>)
  then have "cval (MakeComparator order reverse) (StartRow start) r = rcmp order reverse (StartRow start) r"
    by (simp add: cval_def)
  with past_lex [OF assms, of marshal] show ?thesis
    by (intro exI [of _ "cursor_cond marshal start reverse cols order"])
      (auto simp: gatherStartConstraints_cond [OF assms(4)] cursor_cond_holds past_cursor_def)
qed

definition id_columns :: column_map where
  "id_columns = [(''id'', \<lparr>CsType = ''number'', CsOptional = False\<rparr>)]"

theorem start_cursor_selects_witness:
  "\<exists>c. gatherStartConstraints (\<lambda>_. None) \<lparr>StartRow = item 2, Basis = ''after''\<rparr> False item_order id_columns =
      (sql_text c, sql_params c) \<and>
    sql_holds sqlite_truth (stored_row (\<lambda>_. CNum) (item 3)) c"
proof -
  have typed: "typed_row (\<lambda>_. CNum) id_columns item_order (item n)" for n
    by (simp add: typed_row_def item_order_def id_columns_def column_schema_def item_def)
      (simp add: okval_def)
  have past: "past_cursor \<lparr>StartRow = item 2, Basis = ''after''\<rparr> False item_order (item 3)"
    by (simp add: past_cursor_def cval_def)
  have "pageable False id_columns item_order"
    by (simp add: pageable_def item_order_def id_columns_def column_schema_def)
  then show ?thesis
    using start_cursor_selects [of sqlite_truth "\<lambda>_. CNum" id_columns item_order "item 3"
      "\<lparr>StartRow = item 2, Basis = ''after''\<rparr>" False "\<lambda>_. None"] sqlite_compares past typed by auto
qed

section \<open>Placeholders of a query\<close>

definition unbound :: "bool \<Rightarrow> column_map \<Rightarrow> string \<times> string \<Rightarrow> bool" where
  "unbound reverse cols od \<longleftrightarrow> CsOptional (column_schema cols (fst od)) \<and> range_op reverse (snd od) = ''>''"

definition sql_operators :: "string list" where
  "sql_operators = [''='', ''!='', ''<'', ''>'', ''<='', ''>='', ''IS'', ''IS NOT'',
     ''LIKE'', ''NOT LIKE'', ''ILIKE'', ''NOT ILIKE'', ''IN'', ''NOT IN'']"

fun known_operators :: "SqlCondition \<Rightarrow> bool" where
  "known_operators NilCondition = True"
| "known_operators (SqlCondition t op left right conds) \<longleftrightarrow>
     (t = ''simple'' \<longrightarrow> op \<in> set sql_operators) \<and> list_all known_operators conds"

lemma binds_ops: "op \<in> set sql_operators \<Longrightarrow> binds op 0"
  by (auto simp: sql_operators_def binds_def)

lemma binds_value: "valuePositionToSQL marshal vp = Inr (s, ps) \<Longrightarrow> binds s (length ps)"
  by (auto simp: valuePositionToSQL_def binds_quoteIdent split: if_splits) (simp_all add: binds_def)

lemma binds_simple:
  assumes "simpleConditionToSQL marshal op left right = Inr (s, ps)" "op \<in> set sql_operators"
  shows "binds s (length ps)"
proof -
  have lits: "binds '' '' 0" "binds '' (SELECT value FROM json_each(?))'' 1" by (simp_all add: binds_def)
  show ?thesis
proof (cases "op \<in> {''IN'', ''NOT IN''}")
  case True
  with assms obtain l lp v where l: "valuePositionToSQL marshal left = Inr (l, lp)"
    and s: "s = l @ '' '' @ op @ '' (SELECT value FROM json_each(?))''" "ps = lp @ [v]"
    by (auto simp: simpleConditionToSQL_def Let_def bindR_eq_Inr)
  have "binds ('' '' @ op @ '' (SELECT value FROM json_each(?))'') (0 + (0 + 1))"
    by (intro binds_append lits binds_ops [OF assms(2)])
  from binds_append [OF binds_value [OF l] this] s show ?thesis by simp
next
  case False
  define op' where "op' = (if op = ''ILIKE'' then ''LIKE'' else if op = ''NOT ILIKE'' then ''NOT LIKE'' else op)"
  have op': "op' \<in> set sql_operators" "op' \<notin> {''IN'', ''NOT IN''}"
    using assms(2) False by (auto simp: op'_def sql_operators_def)
  from assms(1) op'(2) obtain l lp r rp where l: "valuePositionToSQL marshal left = Inr (l, lp)"
    and r: "valuePositionToSQL marshal right = Inr (r, rp)"
    and s: "s = l @ '' '' @ op' @ '' '' @ r" "ps = lp @ rp"
    by (auto simp: simpleConditionToSQL_def op'_def [symmetric] bindR_eq_Inr)
  have "binds ('' '' @ op' @ '' '' @ r) (0 + (0 + (0 + length rp)))"
    by (intro binds_append lits binds_ops [OF op'(1)] binds_value [OF r])
  from binds_append [OF binds_value [OF l] this] s show ?thesis by simp
qed
qed

lemma mapR_source: "mapR f xs = Inr ys \<Longrightarrow> y \<in> set ys \<Longrightarrow> \<exists>x\<in>set xs. f x = Inr y"
  by (induction xs arbitrary: ys) (auto simp: bindR_eq_Inr)

lemma binds_all:
  assumes "binds sep 0" "mapR f cs = Inr ps" "\<And>c s vs. c \<in> set cs \<Longrightarrow> f c = Inr (s, vs) \<Longrightarrow> binds s (length vs)"
  shows "binds (''('' @ strings_Join sep (map fst ps) @ '')'') (length (concat (map snd ps)))"
proof -
  have "binds (fst p) (length (snd p))" if p: "p \<in> set ps" for p
  proof -
    obtain c where "c \<in> set cs" "f c = Inr p" using mapR_source [OF assms(2) p] by blast
    with assms(3) [of c "fst p" "snd p"] show ?thesis by simp
  qed
  then have "binds (strings_Join sep (map fst ps)) (sum_list (map (\<lambda>p. length (snd p)) ps))"
    by (intro binds_Join_map assms(1)) auto
  then show ?thesis by (simp add: binds_def length_concat comp_def)
qed

lemma binds_filter:
  "filtersToSQL marshal f = Inr (s, ps) \<Longrightarrow> known_operators f \<Longrightarrow> binds s (length ps)"
proof (induction f arbitrary: s ps)
  case (SqlCondition t op left right cs)
  have IH: "binds s (length vs)" if "c \<in> set cs" "filtersToSQL marshal c = Inr (s, vs)" for c s vs
    using SqlCondition.IH [OF that] SqlCondition.prems(2) that(1) by (auto simp: list_all_iff)
  have lits: "binds '' AND '' 0" "binds '' OR '' 0" "binds ''TRUE'' 0" "binds ''FALSE'' 0" by (simp_all add: binds_def)
  consider "t = ''simple''" | "t = ''and''" "cs \<noteq> []" | "t = ''or''" "cs \<noteq> []"
    | "t \<noteq> ''simple''" "t = ''and'' \<or> t = ''or'' \<longrightarrow> cs = []" by blast
  then show ?case
  proof cases
    case 1
    with SqlCondition.prems binds_simple show ?thesis by simp
  next
    case 2
    with SqlCondition.prems binds_all [OF lits(1) _ IH] show ?thesis by (auto simp: bindR_eq_Inr)
  next
    case 3
    with SqlCondition.prems binds_all [OF lits(2) _ IH] show ?thesis by (auto simp: bindR_eq_Inr)
  next
    case 4
    with SqlCondition.prems(1) lits show ?thesis by (auto split: if_splits)
  qed
qed (simp add: binds_def)

lemma binds_eq: "binds (nullableAwareEquality f cs) 1"
proof -
  have "binds (quoteIdent f @ '' IS ?'') (0 + 1)" "binds (quoteIdent f @ '' = ?'') (0 + 1)"
    by (intro binds_append binds_quoteIdent; simp add: binds_def)+
  then show ?thesis by (simp add: nullableAwareEquality_def)
qed

lemma binds_range:
  "binds (nullableAwareRangeComparison f (range_op reverse d) cs)
     (if CsOptional cs \<and> range_op reverse d = ''>'' then 2 else 1)"
proof -
  have "binds (quoteIdent f @ '' '' @ range_op reverse d @ '' ?'') (0 + (0 + (0 + 1)))"
    by (intro binds_append binds_quoteIdent) (simp_all add: binds_def range_op_def)
  moreover from binds_append [OF _ this, of "''(? IS NULL OR ''" 1]
  have "binds (''(? IS NULL OR '' @ quoteIdent f @ '' '' @ range_op reverse d @ '' ?'') 2" by (simp add: binds_def)
  moreover have "binds (quoteIdent f @ '' IS NULL OR '' @ quoteIdent f @ '' '' @ range_op reverse d @ '' ?'') (0 + (0 + (0 + (0 + (0 + 1)))))"
    by (intro binds_append binds_quoteIdent) (simp_all add: binds_def range_op_def)
  ultimately show ?thesis
    by (cases "range_op reverse d = ''>''") (simp_all add: nullableAwareRangeComparison_def Let_def binds_def)
qed

lemma binds_clause:
  assumes "i < length order"
  shows "binds (''('' @ strings_Join '' AND '' (map fst (and_parts marshal start reverse cols order i)) @ '')'')
    (length (and_parts marshal start reverse cols order i) + (if unbound reverse cols (order ! i) then 1 else 0))"
proof -
  let ?eqs = "equalities marshal start cols (take i order)"
  let ?last = "(nullableAwareRangeComparison (fst (order ! i)) (range_op reverse (snd (order ! i)))
      (column_schema cols (fst (order ! i))), cursor_value marshal start cols (fst (order ! i)))"
  have parts: "and_parts marshal start reverse cols order i = ?eqs @ [?last]"
    by (simp add: and_parts_def case_prod_beta)
  have "list_all2 binds (map fst ?eqs) (replicate (length ?eqs) 1)"
    by (simp add: list_all2_conv_all_nth equalities_def binds_eq del: One_nat_def)
  then have "list_all2 binds (map fst (?eqs @ [?last])) (replicate (length ?eqs) 1 @ [if unbound reverse cols (order ! i) then 2 else 1])"
    using binds_range [of "fst (order ! i)" reverse "snd (order ! i)" "column_schema cols (fst (order ! i))"]
    by (auto simp: unbound_def intro!: list_all2_appendI)
  then have "binds (strings_Join '' AND '' (map fst (?eqs @ [?last])))
      (sum_list (replicate (length ?eqs) 1 @ [if unbound reverse cols (order ! i) then 2 else 1]))"
    by (intro binds_Join) (simp_all add: binds_def)
  then show ?thesis unfolding parts by (simp add: binds_def sum_list_replicate)
qed

lemma binds_equalities:
  "binds (''('' @ strings_Join '' AND '' (map fst (equalities marshal start cols order)) @ '')'') (length order)"
proof -
  have "binds (strings_Join '' AND '' (map (\<lambda>od. nullableAwareEquality (fst od) (column_schema cols (fst od))) order))
      (sum_list (map (\<lambda>_. 1) order))"
    by (intro binds_Join_map binds_eq) (simp add: binds_def)
  then show ?thesis by (simp add: equalities_def binds_def comp_def sum_list_triv)
qed

lemma sum_unbound:
  "(\<Sum>i\<leftarrow>[0..<length xs]. if p (xs ! i) then 1 else (0 :: nat)) = length (filter p xs)"
proof -
  have "(\<Sum>x\<leftarrow>xs. if p x then 1 else (0 :: nat)) = length (filter p xs)" by (induction xs) auto
  moreover have "map (\<lambda>i. if p (xs ! i) then 1 else (0 :: nat)) [0..<length xs] = map (\<lambda>x. if p x then 1 else (0 :: nat)) xs"
    by (rule nth_equalityI) simp_all
  ultimately show ?thesis by (simp only:)
qed

lemma binds_cursor:
  assumes "gatherStartConstraints marshal start reverse order cols = (s, ps)"
  shows "binds s (length ps + length (filter (unbound reverse cols) order))"
proof -
  let ?parts = "and_parts marshal start reverse cols order"
  let ?eqs = "if Basis start = ''at'' then [equalities marshal start cols order] else []"
  let ?text = "\<lambda>ps. ''('' @ strings_Join '' AND '' (map fst ps) @ '')''"
  let ?counts = "map (\<lambda>i. length (?parts i) + (if unbound reverse cols (order ! i) then 1 else 0)) [0..<length order] @
      map length ?eqs"
  have "list_all2 binds (map ?text (map ?parts [0..<length order] @ ?eqs)) ?counts"
    using binds_equalities [of marshal start cols order] binds_clause [of _ order marshal start reverse cols]
    by (auto simp: list_all2_map1 list_all2_map2 list_all2_same equalities_def intro!: list_all2_appendI)
  then have "binds (strings_Join '' OR '' (map ?text (map ?parts [0..<length order] @ ?eqs))) (sum_list ?counts)"
    by (intro binds_Join) (simp_all add: binds_def)
  moreover have "sum_list ?counts = length ps + length (filter (unbound reverse cols) order)"
    using assms by (auto simp: gatherStartConstraints_def Let_def length_concat comp_def sum_list_addf sum_unbound)
  moreover have "s = ''('' @ strings_Join '' OR '' (map ?text (map ?parts [0..<length order] @ ?eqs)) @ '')''"
    using assms by (simp add: gatherStartConstraints_def Let_def)
  ultimately show ?thesis by (simp add: binds_def)
qed

lemma binds_key: "binds (quoteIdent k @ '' = ?'') 1"
proof -
  have "binds (quoteIdent k @ '' = ?'') (0 + 1)" by (intro binds_append binds_quoteIdent) (simp add: binds_def)
  then show ?thesis by simp
qed

lemma binds_order:
  assumes "\<forall>od\<in>set order. snd od = ''asc'' \<or> snd od = ''desc''"
  shows "binds (orderByToSQL order reverse) 0"
proof -
  have "binds (order_part reverse od) 0" if "od \<in> set order" for od
  proof -
    have "binds (if reverse then if snd od = ''asc'' then ''desc'' else ''asc'' else snd od) 0"
      using assms that by (auto simp: binds_def)
    then have "binds (order_part reverse od) (0 + (0 + 0))"
      unfolding order_part_def by (intro binds_append binds_quoteIdent) (simp_all add: binds_def)
    then show ?thesis by simp
  qed
  then have "binds (strings_Join '', '' (map (order_part reverse) order)) (sum_list (map (\<lambda>_. 0) order))"
    by (intro binds_Join_map) (simp_all add: binds_def)
  then show ?thesis by (simp add: orderByToSQL_def binds_def)
qed

lemma binds_head: "binds (''SELECT '' @ strings_Join '', '' (map quoteIdent ns) @ '' FROM '' @ quoteIdent table) 0"
proof -
  have "binds (strings_Join '', '' (map quoteIdent ns)) (sum_list (map (\<lambda>_. 0) ns))"
    by (intro binds_Join_map binds_quoteIdent) (simp add: binds_def)
  then have "binds (''SELECT '' @ strings_Join '', '' (map quoteIdent ns) @ '' FROM '' @ quoteIdent table) (0 + (0 + (0 + 0)))"
    by (intro binds_append binds_quoteIdent) (simp_all add: binds_def)
  then show ?thesis by simp
qed

lemma binds_where:
  assumes "list_all2 binds parts ns"
  shows "binds (where_text parts) (sum_list ns)"
proof (cases "parts = []")
  case False
  have "binds ('' WHERE '' @ strings_Join '' AND '' parts) (0 + sum_list ns)"
    by (intro binds_append binds_Join assms) (simp_all add: binds_def)
  with False show ?thesis by (simp add: where_text_def)
qed (use assms in \<open>simp add: where_text_def binds_Nil\<close>)

lemma binds_order_text:
  assumes "\<forall>order'. order = Some order' \<longrightarrow> (\<forall>od\<in>set order'. snd od = ''asc'' \<or> snd od = ''desc'')"
  shows "binds (order_text order reverse) 0"
proof (cases order)
  case (Some od)
  with assms binds_order [of od reverse] show ?thesis by (simp add: order_text_def binds_def)
qed (simp add: order_text_def binds_Nil)

lemma binds_constraint: "list_all2 binds (map fst (constraint_parts marshal cols c)) (map (\<lambda>_. 1) (constraint_parts marshal cols c))"
  by (simp add: constraint_parts_def list_all2_map1 list_all2_map2 list_all2_same binds_key del: One_nat_def)

definition unbound_count :: "column_map \<Rightarrow> Ordering option \<Rightarrow> bool \<Rightarrow> Start option \<Rightarrow> nat" where
  "unbound_count cols order reverse start =
     (case (start, order) of (Some _, Some order) \<Rightarrow> length (filter (unbound reverse cols) order) | _ \<Rightarrow> 0)"

lemma binds_cursor_parts:
  "\<exists>ns. list_all2 binds (map fst (cursor_parts marshal cols order reverse start)) ns \<and>
    sum_list ns = length (concat (map snd (cursor_parts marshal cols order reverse start))) + unbound_count cols order reverse start"
proof (cases "\<exists>s od. start = Some s \<and> order = Some od")
  case True
  then obtain s od where sod: "start = Some s" "order = Some od" by blast
  obtain t ps where "gatherStartConstraints marshal s reverse od cols = (t, ps)" by force
  with sod binds_cursor [OF this] show ?thesis
    by (intro exI [of _ "[length ps + length (filter (unbound reverse cols) od)]"])
      (simp add: cursor_parts_def unbound_count_def)
next
  case False
  then show ?thesis by (cases start; cases order) (simp_all add: cursor_parts_def unbound_count_def)
qed

lemma binds_filter_parts:
  assumes "filter_parts marshal filters = Inr flt" "known_operators filters"
  shows "list_all2 binds (map fst flt) (map (\<lambda>f. length (snd f)) flt)"
  using assms binds_filter [of marshal filters] by (auto simp: filter_parts_def bindR_eq_Inr split: if_splits)

text \<open>
  C26. The parameters of a query against its placeholders: the text of a query, for any table and
  column names, constraint and filter with known operators, has as many placeholders outside quoted
  names as there are parameters, plus one for each nullable ordering column that a start cursor pages
  through in the direction of \<open>>\<close>.  So with a cursor over such a column the code binds too few
  parameters; without one the numbers agree.
\<close>

theorem select_placeholder_count:
  assumes "BuildSelectQuery marshal table cols constraint filters order reverse start = Inr q"
    and "known_operators filters" "\<forall>order'. order = Some order' \<longrightarrow> (\<forall>od\<in>set order'. snd od = ''asc'' \<or> snd od = ''desc'')"
  shows "placeholders False (SQL q) = length (Params q) + unbound_count cols order reverse start"
proof -
  define equal where "equal = (case constraint of None \<Rightarrow> [] | Some c \<Rightarrow> constraint_parts marshal cols c)"
  define cursor where "cursor = cursor_parts marshal cols order reverse start"
  obtain flt where flt: "filter_parts marshal filters = Inr flt"
    using assms(1) by (auto simp: BuildSelectQuery_def Let_def bindR_eq_Inr)
  have q: "SQL q = (''SELECT '' @ strings_Join '', '' (map quoteIdent (sortedColumnNames cols)) @ '' FROM '' @ quoteIdent table) @
      where_text (map fst equal @ map fst cursor @ map fst flt) @ order_text order reverse"
    "Params q = map snd equal @ concat (map snd cursor) @ concat (map snd flt)"
    using assms(1) by (auto simp: BuildSelectQuery_def Let_def flt equal_def cursor_def)
  obtain ns where ns: "list_all2 binds (map fst cursor) ns" "sum_list ns = length (concat (map snd cursor)) + unbound_count cols order reverse start"
    using binds_cursor_parts unfolding cursor_def by blast
  have "list_all2 binds (map fst equal) (map (\<lambda>_. 1) equal)"
    using binds_constraint by (cases constraint) (simp_all add: equal_def)
  then have "list_all2 binds (map fst equal @ map fst cursor @ map fst flt)
      (map (\<lambda>_. 1) equal @ ns @ map (\<lambda>f. length (snd f)) flt)"
    by (intro list_all2_appendI ns(1) binds_filter_parts [OF flt assms(2)])
  from binds_append [OF binds_head binds_append [OF binds_where [OF this] binds_order_text [OF assms(3)]]]
  have "binds (SQL q) (sum_list (map (\<lambda>_. 1) equal @ ns @ map (\<lambda>f. length (snd f)) flt))"
    by (simp add: q(1))
  then show ?thesis
    using binds_count ns(2) by (simp add: q(2) sum_list_triv length_concat comp_def)
qed

definition priced :: column_map where
  "priced = [(''id'', \<lparr>CsType = ''number'', CsOptional = False\<rparr>), (''p?'', \<lparr>CsType = ''number'', CsOptional = True\<rparr>)]"

theorem select_placeholder_count_witness:
  "\<exists>q. BuildSelectQuery (\<lambda>_. None) ''shop'' priced None NilCondition (Some [(''p?'', ''asc'')]) False
      (Some \<lparr>StartRow = item 2, Basis = ''after''\<rparr>) = Inr q \<and>
    placeholders False (SQL q) = 2 \<and> length (Params q) = 1"
proof -
  obtain q where q: "BuildSelectQuery (\<lambda>_. None) ''shop'' priced None NilCondition (Some [(''p?'', ''asc'')]) False
      (Some \<lparr>StartRow = item 2, Basis = ''after''\<rparr>) = Inr q" "length (Params q) = 1"
    by (simp add: BuildSelectQuery_def filter_parts_def cursor_parts_def gatherStartConstraints_def Let_def and_parts_def
      equalities_def)
  with select_placeholder_count [OF q(1)] show ?thesis
    by (simp add: unbound_count_def unbound_def priced_def column_schema_def range_op_def)
qed

section \<open>Iteration order\<close>

text \<open>
  A query does not depend on the order in which Go iterates over its maps: two lists of the same
  column map and two lists of the same constraint give the same text and the same parameters in the
  same order.
\<close>

theorem select_text_deterministic:
  assumes "distinct (map fst cols)" "distinct (map fst cols')" "map_of cols = map_of cols'"
    and "distinct (map fst c)" "distinct (map fst c')" "map_of c = map_of c'"
  shows "BuildSelectQuery marshal table cols (Some c) filters order reverse start =
    BuildSelectQuery marshal table cols' (Some c') filters order reverse start"
proof -
  have names: "sortedColumnNames cols = sortedColumnNames cols'"
    unfolding sortedColumnNames_def using assms(1-3) by (intro sortStrings_eq) (auto simp: dom_map_of_conv_image_fst [symmetric])
  have keys: "sortedConstraintKeys c = sortedConstraintKeys c'"
    unfolding sortedConstraintKeys_def using assms(4-6) by (intro sortStrings_eq) (auto simp: dom_map_of_conv_image_fst [symmetric])
  have schema: "column_schema cols = column_schema cols'"
    using assms(3) by (simp add: column_schema_def fun_eq_iff)
  have "constraint_parts marshal cols c = constraint_parts marshal cols' c'"
    by (simp add: constraint_parts_def keys schema assms(6))
  moreover
  have "gatherStartConstraints marshal s reverse od cols = gatherStartConstraints marshal s reverse od cols'" for s od
    by (simp add: gatherStartConstraints_def and_parts_def [abs_def] equalities_def [abs_def] cursor_value_def [abs_def] schema)
  then have "cursor_parts marshal cols order reverse start = cursor_parts marshal cols' order reverse start"
    by (simp add: cursor_parts_def split: option.splits)
  ultimately show ?thesis
    by (simp only: BuildSelectQuery_def names option.case)
qed

theorem select_text_deterministic_witness:
  "BuildSelectQuery (\<lambda>_. None) ''shop'' priced (Some [(''id'', num 1)]) NilCondition None False None =
   BuildSelectQuery (\<lambda>_. None) ''shop'' (rev priced) (Some [(''id'', num 1)]) NilCondition None False None"
  by (rule select_text_deterministic) (simp_all add: priced_def fun_eq_iff)

end
