(* ===== verification/TableReads.thy ===== *)
theory TableReads
  imports TableSource CursorSql
begin

text \<open>
  Fetching from a table while a change is pushed: the overlay is the write in advance, who sees it,
  and what becomes of a page that is read backwards.
\<close>

section \<open>Sorted insertion and removal\<close>

lemma sort_search_loop_cong:
  "(\<And>k. i \<le> k \<Longrightarrow> k < j \<Longrightarrow> f k = g k) \<Longrightarrow> sort_search_loop f i j = sort_search_loop g i j"
proof (induction f i j rule: sort_search_loop.induct)
  case (1 f i j)
  show ?case
  proof (cases "i < j")
    case True
    let ?h = "(i + j) div 2"
    have h: "i \<le> ?h" "?h < j" using True by auto
    have eq: "g ?h = f ?h" using "1.prems" h by simp
    show ?thesis
    proof (cases "f ?h")
      case (Inl e)
      with True eq show ?thesis by (subst (1 2) sort_search_loop.simps) (simp add: Let_def)
    next
      case (Inr b)
      have "sort_search_loop f (?h + 1) j = sort_search_loop g (?h + 1) j" if "\<not> b"
        using 1(1) [OF True HOL.refl Inr that] "1.prems" h by simp
      moreover have "sort_search_loop f i ?h = sort_search_loop g i ?h" if b
        using 1(2) [OF True HOL.refl Inr] that "1.prems" h by simp
      ultimately show ?thesis
        using sort_search_loop_step [of i j f b, OF True Inr] sort_search_loop_step [of i j g b, OF True eq [unfolded Inr]] by simp
    qed
  next
    case False
    then show ?thesis by (simp add: sort_search_loop_done)
  qed
qed

lemma insertSorted_by:
  assumes cmp: "comparator cmp S" and xs: "sorted_by cmp xs" "set xs \<subseteq> S" and r: "r \<in> S"
  shows "insertSorted (map leaf xs) (leaf r) cmp = Inr (map leaf (insert_by cmp r xs))"
proof -
  have "bindR (cmp r (xs ! i)) (\<lambda>c. Inr (\<not> c > 0)) = bindR (cmp (xs ! i) r) (\<lambda>c. Inr (c \<ge> 0))"
    if "i < length xs" for i
  proof -
    have i: "xs ! i \<in> S" using xs(2) that by auto
    have "cval cmp (xs ! i) r = - cval cmp r (xs ! i)" by (rule comparator.antisym [OF cmp r i])
    then show ?thesis
      by (auto simp: comparator.cmp_Inr [OF cmp r i] comparator.cmp_Inr [OF cmp i r])
  qed
  then have "sort_search_loop (\<lambda>i. bindR (cmp r (xs ! i)) (\<lambda>c. Inr (\<not> c > 0))) 0 (length xs) =
      sort_search_loop (\<lambda>i. bindR (cmp (xs ! i) r) (\<lambda>c. Inr (c \<ge> 0))) 0 (length xs)"
    by (intro sort_search_loop_cong) simp
  moreover have "sort_search_loop (\<lambda>mid. bindR (cmp r (Row (map leaf xs ! mid))) (\<lambda>c. Inr (\<not> c > 0))) 0 (length xs) =
      sort_search_loop (\<lambda>i. bindR (cmp r (xs ! i)) (\<lambda>c. Inr (\<not> c > 0))) 0 (length xs)"
    by (intro sort_search_loop_cong) simp
  ultimately have "sort_search_loop (\<lambda>mid. bindR (cmp r (Row (map leaf xs ! mid))) (\<lambda>c. Inr (\<not> c > 0))) 0 (length xs) =
      Inr (length (takeWhile (\<lambda>y. ltc cmp y r) xs))"
    using comparator.search_spec [OF cmp xs r] by (simp add: sort_Search_def)
  then show ?thesis
    by (simp add: insertSorted_def sort_Search_def insert_by_def take_map drop_map
      flip: takeWhile_eq_take dropWhile_eq_drop)
qed

text \<open>Two rows have the same primary key exactly when they compare equal.\<close>

definition keyed_by :: "Comparator \<Rightarrow> string list \<Rightarrow> row set \<Rightarrow> bool" where
  "keyed_by cmp pk R \<longleftrightarrow> (\<forall>a\<in>R. \<forall>b\<in>R. samePK pk a b = Inr (cval cmp b a = 0))"

lemma removeByPK_by:
  assumes cmp: "comparator cmp S"
  shows "sorted_by cmp xs \<Longrightarrow> set xs \<subseteq> S \<Longrightarrow> r \<in> S \<Longrightarrow> keyed_by cmp pk (insert r (set xs)) \<Longrightarrow>
    removeByPK (map leaf xs) r pk = Inr (map leaf (remove_by cmp r xs))"
proof (induction xs)
  case (Cons x xs)
  have S: "x \<in> S" "set xs \<subseteq> S" and sorted: "sorted_by cmp xs" "\<forall>y\<in>set xs. ltc cmp x y"
    using Cons.prems comparator.sorted_by_Cons [OF cmp] by auto
  have "keyed_by cmp pk (insert r (set xs))" using Cons.prems(4) by (auto simp: keyed_by_def)
  note IH = Cons.IH [OF sorted(1) S(2) Cons.prems(3) this]
  have same: "samePK pk x r = Inr (cval cmp r x = 0)" using Cons.prems(4) by (auto simp: keyed_by_def)
  show ?case
  proof (cases "cval cmp r x = 0")
    case True
    have "cval cmp r y \<noteq> 0" if "y \<in> set xs" for y
    proof -
      have y: "y \<in> S" "ltc cmp x y" using that S sorted by auto
      have "ltc cmp r y"
        using comparator.eq_left_lt [OF cmp Cons.prems(3) S(1) y(1)] True y(2) by simp
      then show ?thesis by (simp add: ltc_def)
    qed
    then have "remove_by cmp r xs = xs" by (intro remove_by_id)
    with True same show ?thesis by (simp add: remove_by_Cons)
  next
    case False
    with same IH show ?thesis by (simp add: remove_by_Cons)
  qed
qed simp

section \<open>The overlay is the write in advance\<close>

definition constraint_shows :: "Constraint option \<Rightarrow> row \<Rightarrow> bool" where
  "constraint_shows c r = holds (optionalMatchesRow c r)"

text \<open>
  A table read in an ordering that tells keys apart, a change that fits it and whose removed row is
  the stored one, and a constraint that can be compared.
\<close>

definition overlay_ready ::
  "(string \<Rightarrow> vclass) \<Rightarrow> Ordering \<Rightarrow> string list \<Rightarrow> Constraint option \<Rightarrow> row list \<Rightarrow> SourceChange \<Rightarrow> bool" where
  "overlay_ready ty order pk c xs change \<longleftrightarrow>
     sorted_by (MakeComparator order False) xs \<and>
     (\<forall>r\<in>set xs \<union> change_rows change. row_ok ty order r \<and> (\<exists>b. optionalMatchesRow c r = Inr b)) \<and>
     keyed_by (MakeComparator order False) pk (set xs \<union> change_rows change) \<and>
     fits (MakeComparator order False) change xs \<and> removed_rows change \<subseteq> set xs"

lemma applyOverlay_by:
  assumes "overlay_ready ty order pk c xs change"
  defines "cmp \<equiv> MakeComparator order False"
  shows "applyOverlay (map leaf (filter (constraint_shows c) xs)) change cmp c pk =
    Inr (map leaf (filter (constraint_shows c) (apply_source_change cmp change xs)))"
proof -
  let ?S = "{r. row_ok ty order r}" and ?k = "constraint_shows c"
  have cmp: "comparator cmp ?S" unfolding cmp_def by (rule rows.comparator_axioms)
  have xs: "sorted_by cmp xs" "set xs \<subseteq> ?S" and ch: "change_rows change \<subseteq> ?S"
    and keyed: "keyed_by cmp pk (set xs \<union> change_rows change)" and stored: "removed_rows change \<subseteq> set xs"
    and matches: "\<And>r. r \<in> change_rows change \<Longrightarrow> optionalMatchesRow c r = Inr (?k r)"
    using assms(1) total_on_holds [of "optionalMatchesRow c" "set xs \<union> change_rows change"]
    by (auto simp: overlay_ready_def cmp_def constraint_shows_def total_on_def)
  have shown: "sorted_by cmp (filter ?k ys)" "set (filter ?k ys) \<subseteq> ?S" if "sorted_by cmp ys" "set ys \<subseteq> ?S" for ys
    using that comparator.sorted_by_filter [OF cmp] by auto
  have remove: "removeByPK (map leaf (filter ?k xs)) r pk = Inr (map leaf (remove_by cmp r (filter ?k xs)))"
    if "r \<in> change_rows change" for r
    using that ch keyed shown [OF xs] by (intro removeByPK_by [OF cmp]) (auto simp: keyed_by_def)
  have add: "insertSorted (map leaf ys) (leaf r) cmp = Inr (map leaf (insert_by cmp r ys))"
    if "sorted_by cmp ys" "set ys \<subseteq> ?S" "r \<in> change_rows change" for ys r
    using that ch by (intro insertSorted_by [OF cmp]) auto
  have inserted: "filter ?k (insert_by cmp r ys) = (if ?k r then insert_by cmp r (filter ?k ys) else filter ?k ys)"
    if "sorted_by cmp ys" "set ys \<subseteq> ?S" "r \<in> change_rows change" for ys r
    using that ch by (intro comparator.filter_insert_by [OF cmp]) auto
  show ?thesis
  proof (cases change)
    case (SourceAdd r)
    then show ?thesis using matches add [OF shown [OF xs]] inserted [OF xs] by simp
  next
    case (SourceRemove r)
    then show ?thesis using remove by (simp add: remove_by_def conj_commute)
  next
    case (SourceEdit r old)
    let ?ys = "remove_by cmp old xs"
    have ys: "sorted_by cmp ?ys" "set ?ys \<subseteq> ?S"
      using xs comparator.sorted_remove_by [OF cmp xs(1)] by (auto simp: set_remove_by)
    have rest: "filter ?k ?ys = (if ?k old then remove_by cmp old (filter ?k xs) else filter ?k xs)"
      using SourceEdit stored by (intro comparator.filter_remove_by [OF cmp xs]) simp
    have "insertSorted (map leaf (filter ?k ?ys)) (leaf r) cmp = Inr (map leaf (insert_by cmp r (filter ?k ?ys)))"
      using SourceEdit by (intro add shown [OF ys]) simp
    with rest show ?thesis
      using SourceEdit matches remove [of old] inserted [OF ys, of r] by (cases "?k old") simp_all
  qed
qed

section \<open>What a fetch returns\<close>

text \<open>The database answers the query of a request with the rows \<open>rs\<close>.\<close>

definition answers ::
  "'d database \<Rightarrow> marshaller \<Rightarrow> (string \<Rightarrow> val option) \<Rightarrow> 'd TableSource \<Rightarrow> TableConnection \<Rightarrow> FetchRequest \<Rightarrow> row list \<Rightarrow> bool"
where
  "answers db marshal unmarshal ts conn req rs \<longleftrightarrow>
     (\<exists>q names rows. BuildSelectQuery marshal (ts_tableName ts) (ts_columns ts) (ReqConstraint req)
          (tc_FilterCondition conn) (tc_Sort conn) (ReqReverse req) (ReqStart req) = Inr q \<and>
        db_Query db (ts_db ts) (SQL q) (Params q) = Inr (names, rows) \<and>
        scan_rows unmarshal (ts_columns ts) (tc_FilterPredicate conn) names rows = Inr (map leaf rs))"

lemma answered_fetch:
  assumes "answers db marshal unmarshal ts conn req rs"
  shows "TableSource_Fetch db marshal unmarshal ts conn req =
    bindR (case ts_overlay ts of
             None \<Rightarrow> Inr (map leaf rs)
           | Some (epoch, change) \<Rightarrow>
               if tc_LastPushedEpoch conn < epoch
               then applyOverlay (map leaf rs) change (tc_CompareRows conn) (ReqConstraint req) (ts_primaryKey ts)
               else Inr (map leaf rs)) (\<lambda>shown.
      case (ReqStart req, tc_Sort conn) of
        (Some start, Some order) \<Rightarrow> table_applyStart shown start order
      | _ \<Rightarrow> Inr shown)"
  using assms by (auto simp: answers_def TableSource_Fetch_def)

text \<open>A database that answers every query with its rows of one column \<open>id\<close>.\<close>

definition one_column :: "val list database" where
  "one_column = \<lparr>db_Query = (\<lambda>d _ _. Inr ([''id''], map (\<lambda>v. Inr [v]) d)), db_Exec = (\<lambda>d _ _. (Inr (), d)),
     db_HasRow = (\<lambda>_ _ _. True)\<rparr>"

definition item_table :: "rat list \<Rightarrow> val list TableSource" where
  "item_table ns = NewTableSource (map num ns) ''items'' id_columns [''id'']"

definition item_connection :: TableConnection where
  "item_connection = \<lparr>tc_Input = 0, tc_Output = None, tc_Sort = Some item_order, tc_SplitEditKeys = None,
     tc_CompareRows = MakeComparator item_order False, tc_FilterPredicate = None, tc_FilterCondition = NilCondition,
     tc_LastPushedEpoch = 0\<rparr>"

lemma item_table_simps [simp]:
  "ts_db (item_table ns) = map num ns" "ts_columns (item_table ns) = id_columns"
  "ts_primaryKey (item_table ns) = [''id'']" "ts_overlay (item_table ns) = None"
  by (simp_all add: item_table_def NewTableSource_def Let_def)

lemma item_connection_simps [simp]:
  "tc_Sort item_connection = Some item_order" "tc_CompareRows item_connection = MakeComparator item_order False"
  "tc_FilterPredicate item_connection = None" "tc_FilterCondition item_connection = NilCondition"
  "tc_LastPushedEpoch item_connection = 0"
  by (simp_all add: item_connection_def)

lemma scan_items: "scan_rows unmarshal id_columns None [''id''] (map (\<lambda>v. Inr [v]) (map num ns)) = Inr (map leaf (map item ns))"
  by (induction ns) (simp_all add: scan_row_def id_columns_def FromSQLiteType_def item_def Let_def fun_eq_iff)

lemma item_answers:
  "ts_db ts = map num ns \<Longrightarrow> ts_columns ts = id_columns \<Longrightarrow>
   answers one_column marshal unmarshal ts item_connection req (map item ns)"
  using scan_items [of unmarshal ns]
  by (simp add: answers_def one_column_def BuildSelectQuery_def filter_parts_def Let_def)

lemma item_samePK: "samePK [''id''] (item m) (item n) = Inr (cval (MakeComparator item_order False) (item n) (item m) = 0)"
  by (auto simp: samePK_def item_def CompareValues_num cval_def item_order_def)

section \<open>Properties\<close>

text \<open>
  C27. A fetch from a table while a change is pushed: a connection that has not been told of the
  change yet is shown the rows as they will be once the change is written, matching the constraint
  and in order; a connection that has been told is shown the rows as they were before.  (The
  in-memory source does it the other way round.)  The database answers with the stored rows; the
  request has no start cursor and reads forwards, the connection has no predicate.
\<close>

theorem table_fetch_during_push:
  assumes "overlay_ready ty order (ts_primaryKey ts) (ReqConstraint req) xs change"
    and "ts_overlay ts = Some (epoch, change)" "tc_CompareRows conn = MakeComparator order False"
    and "answers db marshal unmarshal ts conn req (filter (constraint_shows (ReqConstraint req)) xs)"
    and "ReqStart req = None"
  shows "TableSource_Fetch db marshal unmarshal ts conn req =
    Inr (map leaf (filter (constraint_shows (ReqConstraint req))
      (if tc_LastPushedEpoch conn < epoch then apply_source_change (MakeComparator order False) change xs else xs)))"
  using answered_fetch [OF assms(4)] applyOverlay_by [OF assms(1)] assms(2,3,5) by simp

theorem table_fetch_during_push_witness:
  "TableSource_Fetch one_column (\<lambda>_. None) (\<lambda>_. None) ((item_table [1, 3])\<lparr>ts_overlay := Some (1, SourceAdd (item 2))\<rparr>)
     item_connection empty_request = Inr (map leaf (map item [1, 2, 3]))"
proof -
  let ?ts = "(item_table [1, 3])\<lparr>ts_overlay := Some (1, SourceAdd (item 2))\<rparr>"
  have "overlay_ready (\<lambda>_. CNum) item_order [''id''] None (map item [1, 3]) (SourceAdd (item 2))"
    by (simp add: overlay_ready_def sorted_by_def ltc_def cval_def optionalMatchesRow_def keyed_by_def item_samePK) blast
  moreover have "constraint_shows None r" for r
    by (simp add: constraint_shows_def optionalMatchesRow_def holds_def)
  moreover have "insert_by (MakeComparator item_order False) (item 2) (map item [1, 3]) = map item [1, 2, 3]"
    by (simp add: insert_by_Cons ltc_def cval_def)
  moreover have "answers one_column (\<lambda>_. None) (\<lambda>_. None) ?ts item_connection empty_request (map item [1, 3])"
    by (rule item_answers) simp_all
  ultimately show ?thesis
    using table_fetch_during_push [of "\<lambda>_. CNum" item_order ?ts empty_request "map item [1, 3]" "SourceAdd (item 2)" 1
      item_connection one_column "\<lambda>_. None" "\<lambda>_. None"]
    by (simp add: empty_request_def)
qed

text \<open>
  A page read backwards is lost: when the database answers a reversed request with a start cursor
  of basis \<open>after\<close> as asked, with rows that are all before the cursor, the fetch returns no row at all,
  because the start cursor is applied to the answer again in the forward direction.
\<close>

theorem backward_page_is_lost:
  assumes "answers db marshal unmarshal ts conn req rs" "ts_overlay ts = None" "ReqReverse req"
    and "ReqStart req = Some start" "Basis start = ''after''" "tc_Sort conn = Some order"
    and "\<forall>od\<in>set order. StartRow start (fst od) \<noteq> None"
    and "\<forall>r\<in>set rs. row_ok ty order r \<and> past_cursor start (ReqReverse req) order r" "row_ok ty order (StartRow start)"
  shows "TableSource_Fetch db marshal unmarshal ts conn req = Inr []"
proof -
  have "\<exists>c. CompareWithPartialBound (StartRow start) r order = Inr c \<and> 0 < c" if "r \<in> set rs" for r
  proof -
    have r: "row_ok ty order r" "cval (MakeComparator order True) (StartRow start) r < 0"
      using assms(3,5,8) that by (auto simp: past_cursor_def)
    have "0 < cval (MakeComparator order False) (StartRow start) r"
      using MakeComparator_reverse [of order "StartRow start" r] r(2) by linarith
    moreover have "MakeComparator order False (StartRow start) r = Inr (cval (MakeComparator order False) (StartRow start) r)"
      using r(1) assms(9) by (intro rows.cmp_Inr [of _ ty]) simp_all
    ultimately show ?thesis
      by (auto simp: CompareWithPartialBound_eq cursor_order_full [OF assms(7)])
  qed
  then have "drop_until (\<lambda>n. bindR (CompareWithPartialBound (StartRow start) (Row n) order) (\<lambda>c.
      Inr (if Basis start = ''at'' then - c \<ge> 0 else - c > 0))) (map leaf rs) = Inr []"
    using assms(5) by (induction rs) fastforce+
  then show ?thesis
    using answered_fetch [OF assms(1)] assms(2,4,6) by (simp add: table_applyStart_def)
qed

theorem backward_page_is_lost_witness:
  "TableSource_Fetch one_column (\<lambda>_. None) (\<lambda>_. None) (item_table [2, 1]) item_connection
     \<lparr>ReqConstraint = None, ReqStart = Some \<lparr>StartRow = item 3, Basis = ''after''\<rparr>, ReqReverse = True\<rparr> = Inr []"
proof -
  have "answers one_column (\<lambda>_. None) (\<lambda>_. None) (item_table [2, 1]) item_connection
      \<lparr>ReqConstraint = None, ReqStart = Some \<lparr>StartRow = item 3, Basis = ''after''\<rparr>, ReqReverse = True\<rparr> (map item [2, 1])"
    by (rule item_answers) simp_all
  then show ?thesis
    by (rule backward_page_is_lost [where order = item_order and ty = "\<lambda>_. CNum" and start = "\<lparr>StartRow = item 3, Basis = ''after''\<rparr>"])
      (simp_all add: past_cursor_def cval_def, simp add: item_order_def item_def)
qed

text \<open>
  Operators the predicate does not know: when a table is connected with a simple condition whose
  operator is not a comparison, such as \<open>LIKE\<close> or \<open>IN\<close>, every fetch through that connection that
  returns without an overlay returns no row, whatever the database answers to the SQL, in which the
  operator does appear.
\<close>

theorem unknown_operator_shows_nothing:
  assumes "op \<notin> {''='', ''!='', ''<'', ''>'', ''<='', ''>='', ''IS'', ''IS NOT''}"
    and "TableSource_Connect addr order (SqlCondition ''simple'' op left right []) keys ts = (schema, ts')"
    and "ts_overlay ts = None"
    and "TableSource_Fetch db marshal unmarshal ts' (ts_conns ts' addr) req = Inr nodes"
  shows "nodes = []"
proof -
  have never: "createPredicate (SqlCondition ''simple'' op left right []) r \<noteq> Inr True" for r
    using assms(1) by (auto simp: table_evalOp_def bindR_eq_Inr)
  have conn: "tc_FilterPredicate (ts_conns ts' addr) = Some (createPredicate (SqlCondition ''simple'' op left right []))"
    "ts_overlay ts' = None"
    using assms(2,3) by (auto simp: TableSource_Connect_def new_connection_def Let_def)
  have none: "scan_rows unmarshal cols (Some (createPredicate (SqlCondition ''simple'' op left right []))) names rows = Inr ns \<Longrightarrow> ns = []"
    for cols names rows ns
  proof (induction rows arbitrary: ns)
    case (Cons row rows)
    then show ?case
      using never by (cases row) (auto simp: bindR_eq_Inr Let_def simp del: createPredicate.simps split: if_splits)
  qed simp
  let ?pred = "Some (createPredicate (SqlCondition ''simple'' op left right []))"
  obtain q where q: "BuildSelectQuery marshal (ts_tableName ts') (ts_columns ts') (ReqConstraint req)
      (tc_FilterCondition (ts_conns ts' addr)) (tc_Sort (ts_conns ts' addr)) (ReqReverse req) (ReqStart req) = Inr q"
    using assms(4) by (auto simp: TableSource_Fetch_def bindR_eq_Inr)
  then obtain names rows where rows: "db_Query db (ts_db ts') (SQL q) (Params q) = Inr (names, rows)"
    using assms(4) by (cases "db_Query db (ts_db ts') (SQL q) (Params q)") (auto simp: TableSource_Fetch_def)
  obtain ns where ns: "scan_rows unmarshal (ts_columns ts') ?pred names rows = Inr ns"
    and start: "(case (ReqStart req, tc_Sort (ts_conns ts' addr)) of
        (Some start, Some order) \<Rightarrow> table_applyStart ns start order | _ \<Rightarrow> Inr ns) = Inr nodes"
    using assms(4) conn q rows by (auto simp: TableSource_Fetch_def bindR_eq_Inr simp del: createPredicate.simps)
  have "ns = []" by (rule none [OF ns])
  with start show ?thesis by (auto simp: table_applyStart_def split: option.splits)
qed

theorem unknown_operator_shows_nothing_witness:
  "\<exists>schema ts'. TableSource_Connect 7 (Some item_order) (SqlCondition ''simple'' ''LIKE''
       \<lparr>VpType = ''column'', VpName = ''id'', VpValue = VNull, VpColType = ''''\<rparr>
       \<lparr>VpType = ''literal'', VpName = '''', VpValue = num 2, VpColType = ''''\<rparr> []) None (item_table [2]) = (schema, ts') \<and>
     (\<forall>nodes. TableSource_Fetch one_column (\<lambda>_. None) (\<lambda>_. None) ts' (ts_conns ts' 7) empty_request = Inr nodes \<longrightarrow> nodes = [])"
proof -
  obtain schema ts' where c: "TableSource_Connect 7 (Some item_order) (SqlCondition ''simple'' ''LIKE''
       \<lparr>VpType = ''column'', VpName = ''id'', VpValue = VNull, VpColType = ''''\<rparr>
       \<lparr>VpType = ''literal'', VpName = '''', VpValue = num 2, VpColType = ''''\<rparr> []) None (item_table [2]) = (schema, ts')"
    by force
  with unknown_operator_shows_nothing [OF _ c] show ?thesis by auto
qed

section \<open>Predicates and their SQL\<close>

fun operand_of :: "marshaller \<Rightarrow> SqlValuePos \<Rightarrow> operand" where
  "operand_of marshal vp =
     (if VpType vp = ''column'' then Col (VpName vp) else Param (ToSQLiteType marshal (VpValue vp) (VpColType vp)))"

fun filter_cond :: "marshaller \<Rightarrow> SqlCondition \<Rightarrow> sql_cond" where
  "filter_cond marshal NilCondition = STrue"
| "filter_cond marshal (SqlCondition t op left right conds) =
     (if t = ''simple'' then SBin (operand_of marshal left) op (operand_of marshal right)
      else if t = ''and'' then (if conds = [] then STrue else SAnd (map (filter_cond marshal) conds))
      else if t = ''or'' then (if conds = [] then SFalse else SOr (map (filter_cond marshal) conds))
      else STrue)"

text \<open>
  A side of a comparison that is a column of class \<open>t\<close>, or a literal of that class that names its
  column type; and a condition that compares such sides.
\<close>

definition typed_side :: "(string \<Rightarrow> vclass) \<Rightarrow> vclass \<Rightarrow> SqlValuePos \<Rightarrow> bool" where
  "typed_side ty t vp \<longleftrightarrow>
     (if VpType vp = ''column'' then ty (VpName vp) = t
      else VpType vp = ''literal'' \<and> VpColType vp = class_type t \<and> okval t (VpValue vp) \<and> exact_number (VpValue vp))"

fun typed_condition :: "(string \<Rightarrow> vclass) \<Rightarrow> SqlCondition \<Rightarrow> bool" where
  "typed_condition ty NilCondition = False"
| "typed_condition ty (SqlCondition t op left right conds) \<longleftrightarrow>
     (t = ''simple'' \<longrightarrow> op \<in> {''='', ''!='', ''<'', ''>'', ''<='', ''>='', ''IS'', ''IS NOT''} \<and>
        (\<exists>c\<in>{CBool, CStr, CNum}. typed_side ty c left \<and> typed_side ty c right)) \<and>
     list_all (typed_condition ty) conds"

lemma side_sql:
  assumes "typed_side ty t vp"
  shows "valuePositionToSQL marshal vp = Inr (operand_text (operand_of marshal vp), operand_params (operand_of marshal vp))"
  using assms by (cases t) (auto simp: typed_side_def valuePositionToSQL_def split: if_splits)

lemma side_value:
  assumes "typed_side ty t vp" "\<forall>c. okval (ty c) (col r c) \<and> exact_number (col r c)"
  shows "operand_value (stored_row ty r) (operand_of marshal vp) = stored t (resolveValuePos vp r)"
    and "okval t (resolveValuePos vp r)" and "exact_number (resolveValuePos vp r)"
  using assms by (auto simp: typed_side_def resolveValuePos_def split: if_splits)

lemma compare_sql:
  assumes "compares truth" "okval t a" "okval t b" "exact_number a" "exact_number b"
    and "op \<in> {''='', ''!='', ''<'', ''>'', ''<='', ''>='', ''IS'', ''IS NOT''}"
  shows "table_evalOp op a b = Inr (truth op (stored t a) (stored t b))"
proof -
  note truth = comparesD [OF assms(1-5)]
  have "table_evalOp op a b = (if op = ''IS'' \<or> op = ''IS NOT'' then Inr ((vcmp a b = 0) = (op = ''IS''))
      else if a = VNull \<or> b = VNull then Inr False
      else Inr (if op = ''='' then vcmp a b = 0 else if op = ''!='' then vcmp a b \<noteq> 0
        else if op = ''>'' then vcmp a b > 0 else if op = ''<'' then vcmp a b < 0
        else if op = ''>='' then vcmp a b \<ge> 0 else if op = ''<='' then vcmp a b \<le> 0 else False))"
    by (simp add: table_evalOp_def CompareValues_ok [OF assms(2,3)])
  moreover have "op = ''='' \<or> op = ''!='' \<or> op = ''<'' \<or> op = ''>'' \<or> op = ''<='' \<or> op = ''>='' \<or> op = ''IS'' \<or> op = ''IS NOT''"
    using assms(6) by (simp only: insert_iff empty_iff) simp
  ultimately show ?thesis by (elim disjE) (simp_all add: truth)
qed

lemma filter_text:
  "typed_condition ty f \<Longrightarrow>
   filtersToSQL marshal f = Inr (sql_text (filter_cond marshal f), sql_params (filter_cond marshal f))"
proof (induction f)
  case (SqlCondition t op left right conds)
  have "filtersToSQL marshal c = Inr (sql_text (filter_cond marshal c), sql_params (filter_cond marshal c))" if "c \<in> set conds" for c
    using SqlCondition that by (simp add: list_all_iff)
  then have parts: "mapR (filtersToSQL marshal) conds =
      Inr (map (\<lambda>c. (sql_text (filter_cond marshal c), sql_params (filter_cond marshal c))) conds)"
    by (rule mapR_Inr)
  show ?case
  proof (cases "t = ''simple''")
    case True
    then obtain c where c: "typed_side ty c left" "typed_side ty c right"
      and "op \<in> {''='', ''!='', ''<'', ''>'', ''<='', ''>='', ''IS'', ''IS NOT''}"
      using SqlCondition.prems by (simp only: typed_condition.simps) blast
    then have "simpleConditionToSQL marshal op left right =
        Inr (sql_text (SBin (operand_of marshal left) op (operand_of marshal right)),
          sql_params (SBin (operand_of marshal left) op (operand_of marshal right)))"
      using side_sql [OF c(1), of marshal] side_sql [OF c(2), of marshal]
      by (auto simp: simpleConditionToSQL_def Let_def simp del: operand_of.simps)
    with True show ?thesis by (simp only: filtersToSQL.simps filter_cond.simps if_True HOL.refl)
  next
    case False
    then show ?thesis by (simp add: parts comp_def)
  qed
qed simp

lemma filter_truth:
  assumes "compares truth" "\<forall>c. okval (ty c) (col r c) \<and> exact_number (col r c)"
  shows "typed_condition ty f \<Longrightarrow>
    createPredicate f r = Inr (sql_holds truth (stored_row ty r) (filter_cond marshal f))"
proof (induction f)
  case (SqlCondition t op left right conds)
  have IH: "createPredicate c r = Inr (sql_holds truth (stored_row ty r) (filter_cond marshal c))" if "c \<in> set conds" for c
    using SqlCondition that by (auto simp: list_all_iff)
  show ?case
  proof (cases "t = ''simple''")
    case True
    then obtain c where c: "typed_side ty c left" "typed_side ty c right"
      and op: "op \<in> {''='', ''!='', ''<'', ''>'', ''<='', ''>='', ''IS'', ''IS NOT''}"
      using SqlCondition.prems by auto
    note vals = side_value [OF c(1) assms(2)] side_value [OF c(2) assms(2)]
    show ?thesis
      using True compare_sql [OF assms(1) vals(2,5,3,6) op] vals(1,4) by (simp del: operand_of.simps)
  next
    case False
    have "allR (\<lambda>c. createPredicate c r) conds = Inr (list_all (\<lambda>c. sql_holds truth (stored_row ty r) (filter_cond marshal c)) conds)"
      by (rule allR_Inr [OF IH])
    moreover have "anyR (\<lambda>c. createPredicate c r) conds = Inr (list_ex (\<lambda>c. sql_holds truth (stored_row ty r) (filter_cond marshal c)) conds)"
      by (rule anyR_Inr [OF IH])
    ultimately show ?thesis
      using False by (simp add: list.pred_map list_ex_map comp_def)
  qed
qed simp

text \<open>
  C28. The filter that a table applies in SQL and the one it applies in Go agree: for a condition of
  comparisons between columns and literals of one class, \<open>filtersToSQL\<close> gives the text and the
  parameters of a condition which SQLite, with its comparison operators as documented, takes to be
  true of a stored row exactly when \<open>createPredicate\<close> accepts the row.  Integers of the row and the
  literals are below \<open>2 ^ 53\<close>: beyond, SQLite tells numbers apart that are equal for the program.
\<close>

theorem sql_filter_is_predicate:
  assumes "compares truth" "typed_condition ty f"
  shows "\<exists>c. filtersToSQL marshal f = Inr (sql_text c, sql_params c) \<and>
    (\<forall>r. (\<forall>c. okval (ty c) (col r c) \<and> exact_number (col r c)) \<longrightarrow> createPredicate f r = Inr (sql_holds truth (stored_row ty r) c))"
  using filter_text [OF assms(2), of marshal] filter_truth [OF assms(1) _ assms(2), of _ marshal] by blast

theorem sql_filter_is_predicate_witness:
  "\<exists>c. filtersToSQL (\<lambda>_. None) (SqlCondition ''simple'' ''<''
       \<lparr>VpType = ''column'', VpName = ''id'', VpValue = VNull, VpColType = ''''\<rparr>
       \<lparr>VpType = ''literal'', VpName = '''', VpValue = num 2, VpColType = ''number''\<rparr> []) = Inr (sql_text c, sql_params c) \<and>
     sql_holds sqlite_truth (stored_row (\<lambda>_. CNum) (item 1)) c"
proof -
  let ?f = "SqlCondition ''simple'' ''<'' \<lparr>VpType = ''column'', VpName = ''id'', VpValue = VNull, VpColType = ''''\<rparr>
       \<lparr>VpType = ''literal'', VpName = '''', VpValue = num 2, VpColType = ''number''\<rparr> []"
  have "typed_condition (\<lambda>_. CNum) ?f" by (simp add: typed_side_def okval_def)
  from sql_filter_is_predicate [OF sqlite_compares this, of "\<lambda>_. None"] obtain c where
    c: "filtersToSQL (\<lambda>_. None) ?f = Inr (sql_text c, sql_params c)"
      "\<forall>r. (\<forall>c. okval CNum (col r c) \<and> exact_number (col r c)) \<longrightarrow> createPredicate ?f r = Inr (sql_holds sqlite_truth (stored_row (\<lambda>_. CNum) r) c)"
    by blast
  have "\<forall>c. okval CNum (col (item 1) c) \<and> exact_number (col (item 1) c)" by (simp add: item_def col_def okval_def)
  moreover have "createPredicate ?f (item 1) = Inr True"
    by (simp add: table_evalOp_def resolveValuePos_def item_def CompareValues_num)
  ultimately have "sql_holds sqlite_truth (stored_row (\<lambda>_. CNum) (item 1)) c" using c(2) by (metis sum.inject(2))
  with c(1) show ?thesis by blast
qed

end
