(* ===== verification/TableWrites.thy ===== *)
theory TableWrites
  imports TableReads
begin

text \<open>
  Writing changes to a table, and values to its columns: the statements that \<open>writeChange\<close> runs
  make the change to the rows of the table, and a value that is written comes back when it is read.
\<close>

section \<open>What the statements do\<close>

definition key_of :: "string list \<Rightarrow> row \<Rightarrow> val list" where
  "key_of pk r = map (col r) pk"

text \<open>
  Keys are equal when SQLite's \<open>=\<close> is true of their columns, so that \<open>1\<close> is the key \<open>1.0\<close> and NULL is
  no key.
\<close>

definition keys_equal :: "val list \<Rightarrow> val list \<Rightarrow> bool" where
  "keys_equal k l = list_all2 (sqlite_truth ''='') k l"

definition update_row :: "string list \<Rightarrow> val list \<Rightarrow> val list \<Rightarrow> string list \<Rightarrow> row \<Rightarrow> row" where
  "update_row pk key sets names r = (if keys_equal (key_of pk r) key then r ++ map_of (zip names sets) else r)"

text \<open>
  The values that a column of a class stores, the values that a table lets a column have, NULL only
  where the column is optional, and its rows.
\<close>

fun column_value :: "vclass \<Rightarrow> val \<Rightarrow> bool" where
  "column_value t VNull = True"
| "column_value CBool (VInt KInt n) = (n = 0 \<or> n = 1)"
| "column_value CStr (VStr s) = True"
| "column_value CNum (VF64 x) = (x \<noteq> NaN)"
| "column_value t v = False"

definition column_fits :: "(string \<Rightarrow> vclass) \<Rightarrow> 'd TableSource \<Rightarrow> string \<Rightarrow> val \<Rightarrow> bool" where
  "column_fits ty ts c v \<longleftrightarrow> column_value (ty c) v \<and> (CsOptional (column_schema (ts_columns ts) c) \<or> v \<noteq> VNull)"

definition sql_row :: "(string \<Rightarrow> vclass) \<Rightarrow> 'd TableSource \<Rightarrow> row \<Rightarrow> bool" where
  "sql_row ty ts s \<longleftrightarrow> dom s = set (map fst (ts_columns ts)) \<and> (\<forall>c\<in>dom s. column_fits ty ts c (col s c))"

text \<open>
  What SQLite documents of the three statements on a table with a primary key and NOT NULL columns, in
  a state of the database whose rows are \<open>contents\<close> (a number read as the real it equals, in whichever
  form the column keeps it): with parameters that the columns can take, the insertion adds the row of
  its parameters unless its key is there, the deletion takes out the rows of a key, and the update
  sets the columns of its parameters in them.
\<close>

definition sql_table :: "(string \<Rightarrow> vclass) \<Rightarrow> 'd database \<Rightarrow> ('d \<Rightarrow> row set) \<Rightarrow> 'd TableSource \<Rightarrow> bool" where
  "sql_table ty db contents ts \<longleftrightarrow>
     (let names = sortedColumnNames (ts_columns ts); pk = ts_primaryKey ts; nonPK = nonPrimaryKeys (ts_columns ts) pk in
      \<forall>d. (\<forall>s\<in>contents d. sql_row ty ts s) \<longrightarrow>
        (\<forall>params. length params = length names \<and> sql_row ty ts (map_of (zip names params)) \<and>
           (\<forall>s\<in>contents d. \<not> keys_equal (key_of pk s) (key_of pk (map_of (zip names params)))) \<longrightarrow>
           (\<exists>d'. db_Exec db d (insertSQL ts) params = (Inr (), d') \<and>
              contents d' = insert (map_of (zip names params)) (contents d))) \<and>
        (\<forall>key. list_all2 (\<lambda>c v. column_value (ty c) v \<and> v \<noteq> VNull) pk key \<longrightarrow>
           (\<exists>d'. db_Exec db d (deleteSQL ts) key = (Inr (), d') \<and>
              contents d' = {s \<in> contents d. \<not> keys_equal (key_of pk s) key})) \<and>
        (\<forall>sets key. nonPK \<noteq> [] \<and> list_all2 (column_fits ty ts) nonPK sets \<and>
           list_all2 (\<lambda>c v. column_value (ty c) v \<and> v \<noteq> VNull) pk key \<longrightarrow>
           (\<exists>d'. db_Exec db d (updateSQL ts) (sets @ key) = (Inr (), d') \<and>
              contents d' = update_row pk key sets nonPK ` contents d)))"

section \<open>Rows of the table\<close>

definition table_row :: "(string \<Rightarrow> vclass) \<Rightarrow> 'd TableSource \<Rightarrow> row \<Rightarrow> bool" where
  "table_row ty ts r \<longleftrightarrow> dom r = set (map fst (ts_columns ts)) \<and>
     (\<forall>c. okval (ty c) (col r c) \<and> normalized (col r c)) \<and> (\<forall>k\<in>set (ts_primaryKey ts). col r k \<noteq> VNull) \<and>
     (\<forall>c\<in>set (map fst (ts_columns ts)). CsOptional (column_schema (ts_columns ts) c) \<or> col r c \<noteq> VNull)"

definition write_ready ::
  "(string \<Rightarrow> vclass) \<Rightarrow> 'd TableSource \<Rightarrow> Comparator \<Rightarrow> SourceChange \<Rightarrow> row list \<Rightarrow> bool" where
  "write_ready ty ts cmp change xs \<longleftrightarrow>
     (\<exists>db. ts = NewTableSource db (ts_tableName ts) (ts_columns ts) (ts_primaryKey ts)) \<and>
     distinct (map fst (ts_columns ts)) \<and> set (ts_primaryKey ts) \<subseteq> set (map fst (ts_columns ts)) \<and>
     (\<forall>(c, cs)\<in>set (ts_columns ts). CsType cs = class_type (ty c)) \<and>
     (\<forall>r\<in>set xs \<union> change_rows change. table_row ty ts r) \<and>
     (\<forall>a\<in>set xs \<union> change_rows change. \<forall>b\<in>set xs \<union> change_rows change.
        cval cmp a b = 0 \<longleftrightarrow> key_of (ts_primaryKey ts) a = key_of (ts_primaryKey ts) b) \<and>
     fits cmp change xs \<and> removed_rows change \<subseteq> set xs"

lemma okval_vcmp_eq:
  assumes "okval t a" "okval t b" "normalized a" "normalized b"
  shows "vcmp a b = 0 \<longleftrightarrow> a = b"
  using assms
  by (cases t; cases a; cases b)
    (auto simp: okval_def vcmp_def strings_Compare_def f64_lt_irrefl split: if_splits option.splits dest: f64_linear)

lemma stored_inj: "okval t a \<Longrightarrow> okval t b \<Longrightarrow> stored t a = stored t b \<longleftrightarrow> a = b"
  by (cases t; cases a; cases b) (auto simp: okval_def stored_def ToSQLiteType_def)

lemma column_schema_in:
  assumes "distinct (map fst cols)" "c \<in> set (map fst cols)" "\<forall>(c, cs)\<in>set cols. CsType cs = class_type (ty c)"
  shows "CsType (column_schema cols c) = class_type (ty c)"
proof -
  obtain cs where "(c, cs) \<in> set cols" using assms(2) by auto
  with assms(1,3) show ?thesis by (auto simp: column_schema_def)
qed

lemma distinct_sortStrings: "distinct (sortStrings ss) = distinct ss"
  by (metis card_distinct distinct_card sortStrings_spec(2,3))

lemma keys_stored:
  assumes "\<forall>c. okval (ty c) (col a c)" "\<forall>c. okval (ty c) (col b c)"
  shows "key_of pk (stored_row ty a) = key_of pk (stored_row ty b) \<longleftrightarrow> key_of pk a = key_of pk b"
  using assms stored_inj by (simp add: key_of_def)

lemma insert_params:
  assumes "distinct (map fst cols)" "\<forall>(c, cs)\<in>set cols. CsType cs = class_type (ty c)" "dom r = set (map fst cols)"
  shows "map_of (zip (sortedColumnNames cols) (rowToInsertParams marshal cols r)) = stored_row ty r"
proof
  fix c
  have names: "set (sortedColumnNames cols) = dom r"
    using assms(3) by (simp add: sortedColumnNames_def sortStrings_spec)
  have "rowToInsertParams marshal cols r = map (\<lambda>c. stored (ty c) (col r c)) (sortedColumnNames cols)"
    using column_schema_in [OF assms(1) _ assms(2)] names assms(3) by (auto simp: rowToInsertParams_def)
  then show "map_of (zip (sortedColumnNames cols) (rowToInsertParams marshal cols r)) c = stored_row ty r c"
    using names by (auto simp: map_of_zip_map stored_row_def col_def domIff split: option.splits)
qed

lemma pk_params:
  assumes "distinct (map fst cols)" "\<forall>(c, cs)\<in>set cols. CsType cs = class_type (ty c)" "set pk \<subseteq> set (map fst cols)"
  shows "pkParams marshal cols pk r = key_of pk (stored_row ty r)"
proof -
  have "CsType (column_schema cols k) = class_type (ty k)" if "k \<in> set pk" for k
    using assms that by (intro column_schema_in) auto
  then show ?thesis by (simp add: pkParams_def key_of_def)
qed

lemma canUseUpdate_key:
  assumes "\<forall>c. okval (ty c) (col a c) \<and> normalized (col a c)" "\<forall>c. okval (ty c) (col b c) \<and> normalized (col b c)"
  shows "canUseUpdate a b pk = Inr (key_of pk a = key_of pk b)"
proof -
  have "canUseUpdate a b pk = Inr (list_all (\<lambda>k. col a k = col b k) pk)"
    unfolding canUseUpdate_def
  proof (rule allR_Inr)
    fix k
    show "bindR (CompareValues (col a k) (col b k)) (\<lambda>c. Inr (c = 0)) = Inr (col a k = col b k)"
      using assms CompareValues_ok [of "ty k" "col a k" "col b k"] okval_vcmp_eq [of "ty k" "col a k" "col b k"] by simp
  qed
  then show ?thesis by (simp add: key_of_def list_all_iff)
qed

lemma updated_row:
  assumes "dom y = dom r" "set nonPK \<union> set pk = dom r" "key_of pk (stored_row ty y) = key_of pk (stored_row ty r)"
  shows "stored_row ty y ++ map_of (zip nonPK (map (\<lambda>c. stored (ty c) (col r c)) nonPK)) = stored_row ty r"
proof
  fix c
  show "(stored_row ty y ++ map_of (zip nonPK (map (\<lambda>c. stored (ty c) (col r c)) nonPK))) c = stored_row ty r c"
  proof (cases "c \<in> set nonPK")
    case True
    then have "c \<in> dom r" using assms(2) by auto
    with True show ?thesis
      by (auto simp: map_add_def map_of_zip_map stored_row_def col_def split: option.splits)
  next
    case False
    show ?thesis
    proof (cases "c \<in> dom r")
      case True
      with False assms(2) have "c \<in> set pk" by auto
      with assms(3) have "col (stored_row ty y) c = col (stored_row ty r) c" by (simp add: key_of_def)
      moreover have "c \<in> dom y" using True assms(1) by simp
      ultimately show ?thesis
        using False True by (auto simp: map_add_def map_of_zip_map stored_row_def col_def split: option.splits)
    next
      case no: False
      with assms(1) have "y c = None" by auto
      with False no show ?thesis by (auto simp: map_add_def map_of_zip_map stored_row_def split: option.splits)
    qed
  qed
qed

text \<open>The three statements, on the rows of the model.\<close>

lemma nonPK_set: "set (nonPrimaryKeys cols pk) = set (map fst cols) - set pk"
  by (auto simp: nonPrimaryKeys_def sortStrings_spec)

lemma null_stored: "VNull = stored t v \<longleftrightarrow> v = VNull"
  by (simp only: eq_commute [of VNull] stored_null)

lemma stored_value: "okval t v \<Longrightarrow> normalized v \<Longrightarrow> column_value t (stored t v)"
  by (cases t; cases v) (auto simp: okval_def stored_def ToSQLiteType_def)

lemma sql_row_stored: "table_row ty ts r \<Longrightarrow> sql_row ty ts (stored_row ty r)"
proof -
  assume r: "table_row ty ts r"
  have dom: "dom (stored_row ty r) = dom r" by (auto simp: stored_row_def)
  have "column_fits ty ts c (col (stored_row ty r) c)" if "c \<in> set (map fst (ts_columns ts))" for c
    using r that stored_value [of "ty c" "col r c"] unfolding table_row_def column_fits_def by auto
  with r dom show ?thesis by (simp add: table_row_def sql_row_def)
qed

lemma sql_eq_stored:
  assumes "okval t a" "okval t b" "normalized a" "normalized b" "a \<noteq> VNull" "b \<noteq> VNull"
  shows "sqlite_truth ''='' (stored t a) (stored t b) \<longleftrightarrow> a = b"
proof -
  have exact: "exact_number v" if "normalized v" for v using that by (cases v) simp_all
  show ?thesis
    using sqlite_truth_stored [OF assms(1,2) exact [OF assms(3)] exact [OF assms(4)], of "''=''"]
      okval_vcmp_eq [OF assms(1-4)] assms(5,6) by simp
qed

lemma keys_equal_stored:
  assumes "table_row ty ts a" "table_row ty ts b"
  shows "keys_equal (key_of (ts_primaryKey ts) (stored_row ty a)) (key_of (ts_primaryKey ts) (stored_row ty b)) \<longleftrightarrow>
    key_of (ts_primaryKey ts) (stored_row ty a) = key_of (ts_primaryKey ts) (stored_row ty b)"
proof -
  have "sqlite_truth ''='' (stored (ty k) (col a k)) (stored (ty k) (col b k)) \<longleftrightarrow> stored (ty k) (col a k) = stored (ty k) (col b k)"
    if "k \<in> set (ts_primaryKey ts)" for k
    using sql_eq_stored [of "ty k" "col a k" "col b k"] stored_inj [of "ty k" "col a k" "col b k"] assms that
    by (simp add: table_row_def)
  then show ?thesis
    by (simp add: keys_equal_def key_of_def list_all2_map1 list_all2_map2 list_all2_same)
qed

definition holds_rows :: "(string \<Rightarrow> vclass) \<Rightarrow> 'd TableSource \<Rightarrow> row set \<Rightarrow> bool" where
  "holds_rows ty ts C \<longleftrightarrow> (\<forall>s\<in>C. \<exists>y. table_row ty ts y \<and> s = stored_row ty y)"

lemma holds_rows_sql: "holds_rows ty ts C \<Longrightarrow> s \<in> C \<Longrightarrow> sql_row ty ts s"
proof -
  assume "holds_rows ty ts C" "s \<in> C"
  then obtain y where y: "table_row ty ts y" "s = stored_row ty y" unfolding holds_rows_def by blast
  show ?thesis unfolding y(2) by (rule sql_row_stored [OF y(1)])
qed

lemma holds_rows_keys:
  assumes "holds_rows ty ts C" "s \<in> C" "table_row ty ts r"
  shows "keys_equal (key_of (ts_primaryKey ts) s) (key_of (ts_primaryKey ts) (stored_row ty r)) \<longleftrightarrow>
    key_of (ts_primaryKey ts) s = key_of (ts_primaryKey ts) (stored_row ty r)"
proof -
  obtain y where "table_row ty ts y" "s = stored_row ty y" using assms(1,2) unfolding holds_rows_def by blast
  with keys_equal_stored [OF _ assms(3)] show ?thesis by blast
qed

lemma key_fits:
  assumes "table_row ty ts r"
  shows "list_all2 (\<lambda>c v. column_value (ty c) v \<and> v \<noteq> VNull) (ts_primaryKey ts) (key_of (ts_primaryKey ts) (stored_row ty r))"
  using assms stored_value by (simp add: key_of_def list_all2_map2 list_all2_same table_row_def)

lemma insert_law:
  assumes "sql_table ty db contents ts" "holds_rows ty ts (contents d)" "table_row ty ts r"
    and "length params = length (sortedColumnNames (ts_columns ts))"
      "map_of (zip (sortedColumnNames (ts_columns ts)) params) = stored_row ty r"
    and "\<forall>s\<in>contents d. key_of (ts_primaryKey ts) s \<noteq> key_of (ts_primaryKey ts) (stored_row ty r)"
  shows "\<exists>d'. db_Exec db d (insertSQL ts) params = (Inr (), d') \<and> contents d' = insert (stored_row ty r) (contents d)"
proof -
  have "\<forall>s\<in>contents d. \<not> keys_equal (key_of (ts_primaryKey ts) s) (key_of (ts_primaryKey ts) (stored_row ty r))"
    using assms(6) holds_rows_keys [OF assms(2) _ assms(3)] by blast
  with assms(1) [unfolded sql_table_def Let_def, rule_format, THEN conjunct1, rule_format, of d params]
    holds_rows_sql [OF assms(2)] sql_row_stored [OF assms(3)] assms(4)
  show ?thesis unfolding assms(5) by blast
qed

lemma delete_law:
  assumes "sql_table ty db contents ts" "holds_rows ty ts (contents d)" "table_row ty ts r"
  shows "\<exists>d'. db_Exec db d (deleteSQL ts) (key_of (ts_primaryKey ts) (stored_row ty r)) = (Inr (), d') \<and>
    contents d' = {s \<in> contents d. key_of (ts_primaryKey ts) s \<noteq> key_of (ts_primaryKey ts) (stored_row ty r)}"
proof -
  have "{s \<in> contents d. \<not> keys_equal (key_of (ts_primaryKey ts) s) (key_of (ts_primaryKey ts) (stored_row ty r))} =
      {s \<in> contents d. key_of (ts_primaryKey ts) s \<noteq> key_of (ts_primaryKey ts) (stored_row ty r)}"
    using holds_rows_keys [OF assms(2) _ assms(3)] by blast
  with assms(1) [unfolded sql_table_def Let_def, rule_format, THEN conjunct2, THEN conjunct1, rule_format, OF _ key_fits [OF assms(3)], of d]
    holds_rows_sql [OF assms(2)]
  show ?thesis by simp
qed

lemma update_law:
  assumes "sql_table ty db contents ts" "holds_rows ty ts (contents d)" "table_row ty ts r"
    and "nonPrimaryKeys (ts_columns ts) (ts_primaryKey ts) \<noteq> []"
      "list_all2 (column_fits ty ts) (nonPrimaryKeys (ts_columns ts) (ts_primaryKey ts)) sets"
  shows "\<exists>d'. db_Exec db d (updateSQL ts) (sets @ key_of (ts_primaryKey ts) (stored_row ty r)) = (Inr (), d') \<and>
    contents d' = (\<lambda>s. if key_of (ts_primaryKey ts) s = key_of (ts_primaryKey ts) (stored_row ty r)
      then s ++ map_of (zip (nonPrimaryKeys (ts_columns ts) (ts_primaryKey ts)) sets) else s) ` contents d"
proof -
  let ?names = "nonPrimaryKeys (ts_columns ts) (ts_primaryKey ts)" and ?key = "key_of (ts_primaryKey ts) (stored_row ty r)"
  have "update_row (ts_primaryKey ts) ?key sets ?names ` contents d =
      (\<lambda>s. if key_of (ts_primaryKey ts) s = ?key then s ++ map_of (zip ?names sets) else s) ` contents d"
    using holds_rows_keys [OF assms(2) _ assms(3)] by (intro image_cong) (auto simp: update_row_def)
  with assms(1) [unfolded sql_table_def Let_def, rule_format, THEN conjunct2, THEN conjunct2, rule_format, of d sets ?key]
    holds_rows_sql [OF assms(2)] assms(4,5) key_fits [OF assms(3)]
  show ?thesis by simp
qed

lemma exec_insert:
  assumes "sql_table ty db contents ts" "distinct (map fst (ts_columns ts))"
    and "\<forall>(c, cs)\<in>set (ts_columns ts). CsType cs = class_type (ty c)" "table_row ty ts r"
    and "\<forall>s\<in>contents d. key_of (ts_primaryKey ts) s \<noteq> key_of (ts_primaryKey ts) (stored_row ty r)" "holds_rows ty ts (contents d)"
  shows "\<exists>d'. exec_or_panic db what (insertSQL ts) (rowToInsertParams marshal (ts_columns ts) r) d = (Inr (), d') \<and>
    contents d' = insert (stored_row ty r) (contents d)"
proof -
  have row: "map_of (zip (sortedColumnNames (ts_columns ts)) (rowToInsertParams marshal (ts_columns ts) r)) = stored_row ty r"
    using assms(4) by (intro insert_params [OF assms(2,3)]) (simp add: table_row_def)
  have "length (rowToInsertParams marshal (ts_columns ts) r) = length (sortedColumnNames (ts_columns ts))"
    by (simp add: rowToInsertParams_def)
  from insert_law [OF assms(1,6,4) this row assms(5)]
  obtain d' where "db_Exec db d (insertSQL ts) (rowToInsertParams marshal (ts_columns ts) r) = (Inr (), d')"
    "contents d' = insert (stored_row ty r) (contents d)"
    by blast
  then show ?thesis by (simp add: exec_or_panic_def)
qed

lemma exec_delete:
  assumes "sql_table ty db contents ts" "distinct (map fst (ts_columns ts))" "set (ts_primaryKey ts) \<subseteq> set (map fst (ts_columns ts))"
    and "\<forall>(c, cs)\<in>set (ts_columns ts). CsType cs = class_type (ty c)" "table_row ty ts r" "holds_rows ty ts (contents d)"
  shows "\<exists>d'. exec_or_panic db what (deleteSQL ts) (pkParams marshal (ts_columns ts) (ts_primaryKey ts) r) d = (Inr (), d') \<and>
    contents d' = {s \<in> contents d. key_of (ts_primaryKey ts) s \<noteq> key_of (ts_primaryKey ts) (stored_row ty r)}"
proof -
  let ?key = "key_of (ts_primaryKey ts) (stored_row ty r)"
  from delete_law [OF assms(1,6,5)] obtain d' where "db_Exec db d (deleteSQL ts) ?key = (Inr (), d')"
    "contents d' = {s \<in> contents d. key_of (ts_primaryKey ts) s \<noteq> ?key}" by blast
  then show ?thesis by (simp add: exec_or_panic_def pk_params [OF assms(2,4,3)])
qed

lemma exec_update:
  assumes "sql_table ty db contents ts" "distinct (map fst (ts_columns ts))" "set (ts_primaryKey ts) \<subseteq> set (map fst (ts_columns ts))"
    and "\<forall>(c, cs)\<in>set (ts_columns ts). CsType cs = class_type (ty c)" "table_row ty ts r"
    and "nonPrimaryKeys (ts_columns ts) (ts_primaryKey ts) \<noteq> []" "holds_rows ty ts (contents d)"
  shows "\<exists>d'. exec_or_panic db what (updateSQL ts)
      (map (\<lambda>c. ToSQLiteType marshal (col r c) (CsType (column_schema (ts_columns ts) c)))
         (nonPrimaryKeys (ts_columns ts) (ts_primaryKey ts)) @ pkParams marshal (ts_columns ts) (ts_primaryKey ts) r) d = (Inr (), d') \<and>
    contents d' = (\<lambda>s. if key_of (ts_primaryKey ts) s = key_of (ts_primaryKey ts) (stored_row ty r)
      then stored_row ty r else s) ` contents d"
proof -
  let ?pk = "ts_primaryKey ts" and ?names = "nonPrimaryKeys (ts_columns ts) (ts_primaryKey ts)"
  let ?key = "key_of ?pk (stored_row ty r)" and ?sets = "map (\<lambda>c. stored (ty c) (col r c)) (nonPrimaryKeys (ts_columns ts) (ts_primaryKey ts))"
  have sets: "map (\<lambda>c. ToSQLiteType marshal (col r c) (CsType (column_schema (ts_columns ts) c))) ?names = ?sets"
    using column_schema_in [OF assms(2) _ assms(4)] nonPK_set [of "ts_columns ts" ?pk] by simp
  have "list_all2 (column_fits ty ts) ?names ?sets"
    using assms(5) nonPK_set [of "ts_columns ts" ?pk] stored_value
    by (auto simp: list_all2_map2 list_all2_same column_fits_def table_row_def)
  from update_law [OF assms(1,7,5,6) this] obtain d' where d': "db_Exec db d (updateSQL ts) (?sets @ ?key) = (Inr (), d')"
    "contents d' = (\<lambda>s. if key_of ?pk s = ?key then s ++ map_of (zip ?names ?sets) else s) ` contents d" by blast
  have "s ++ map_of (zip ?names ?sets) = stored_row ty r" if s: "s \<in> contents d" "key_of ?pk s = ?key" for s
  proof -
    obtain y where y: "table_row ty ts y" "s = stored_row ty y" using assms(7) s(1) by (auto simp: holds_rows_def)
    have "dom y = dom r" "set ?names \<union> set ?pk = dom r"
      using y(1) assms(3,5) nonPK_set [of "ts_columns ts" ?pk] by (auto simp: table_row_def)
    with y(2) s(2) show ?thesis by (simp add: updated_row)
  qed
  then have "contents d' = (\<lambda>s. if key_of ?pk s = ?key then stored_row ty r else s) ` contents d"
    unfolding d'(2) by (intro image_cong) auto
  with d'(1) show ?thesis
    by (simp add: exec_or_panic_def sets pk_params [OF assms(2,4,3)])
qed

section \<open>Properties\<close>

lemma ready_facts:
  assumes "write_ready ty ts cmp change xs"
  shows "distinct (map fst (ts_columns ts))" "set (ts_primaryKey ts) \<subseteq> set (map fst (ts_columns ts))"
    "\<forall>(c, cs)\<in>set (ts_columns ts). CsType cs = class_type (ty c)"
    "\<And>r. r \<in> set xs \<union> change_rows change \<Longrightarrow> table_row ty ts r"
    "\<And>a b. a \<in> set xs \<union> change_rows change \<Longrightarrow> b \<in> set xs \<union> change_rows change \<Longrightarrow>
      cval cmp a b \<noteq> 0 \<longleftrightarrow> key_of (ts_primaryKey ts) (stored_row ty b) \<noteq> key_of (ts_primaryKey ts) (stored_row ty a)"
    "fits cmp change xs" "removed_rows change \<subseteq> set xs"
proof -
  show "cval cmp a b \<noteq> 0 \<longleftrightarrow> key_of (ts_primaryKey ts) (stored_row ty b) \<noteq> key_of (ts_primaryKey ts) (stored_row ty a)"
    if "a \<in> set xs \<union> change_rows change" "b \<in> set xs \<union> change_rows change" for a b
  proof -
    have rows: "table_row ty ts a" "table_row ty ts b" using assms that by (auto simp: write_ready_def)
    have "cval cmp a b = 0 \<longleftrightarrow> key_of (ts_primaryKey ts) a = key_of (ts_primaryKey ts) b"
      using assms that unfolding write_ready_def by blast
    moreover have "key_of (ts_primaryKey ts) (stored_row ty b) = key_of (ts_primaryKey ts) (stored_row ty a) \<longleftrightarrow>
        key_of (ts_primaryKey ts) b = key_of (ts_primaryKey ts) a"
      using rows by (intro keys_stored) (simp_all add: table_row_def)
    ultimately show ?thesis by auto
  qed
qed (use assms in \<open>auto simp: write_ready_def\<close>)

lemma kept_rows:
  assumes "write_ready ty ts cmp change xs" "r \<in> change_rows change"
  shows "{s \<in> stored_row ty ` set xs. key_of (ts_primaryKey ts) s \<noteq> key_of (ts_primaryKey ts) (stored_row ty r)} =
    stored_row ty ` set (remove_by cmp r xs)"
  using ready_facts(5) [OF assms(1), of r] assms(2) by (auto simp: set_remove_by)

lemma same_dom_add: "dom a = dom b \<Longrightarrow> a ++ b = b"
proof
  fix x
  assume "dom a = dom b"
  then have "a x = None \<longleftrightarrow> b x = None" by (metis domIff)
  then show "(a ++ b) x = b x" by (cases "b x") (simp_all add: map_add_def)
qed

lemma replace_image:
  assumes "x \<in> C" "key x = k"
  shows "(\<lambda>s. if key s = k then z else s) ` C = insert z {s \<in> C. key s \<noteq> k}"
  using assms by auto

lemma updateSQL_nonPK:
  "ts = NewTableSource db table cols pk \<Longrightarrow> updateSQL ts \<noteq> '''' \<longleftrightarrow> nonPrimaryKeys (ts_columns ts) (ts_primaryKey ts) \<noteq> []"
  by (simp add: NewTableSource_def Let_def)

lemma ready_update:
  assumes "write_ready ty ts cmp change xs"
  shows "updateSQL ts \<noteq> '''' \<longleftrightarrow> nonPrimaryKeys (ts_columns ts) (ts_primaryKey ts) \<noteq> []"
proof -
  from assms obtain db where "ts = NewTableSource db (ts_tableName ts) (ts_columns ts) (ts_primaryKey ts)"
    unfolding write_ready_def by blast
  then show ?thesis by (rule updateSQL_nonPK)
qed

lemma write_edit:
  assumes "sql_table ty db contents ts" "write_ready ty ts cmp (SourceEdit r old) xs" "contents d = stored_row ty ` set xs"
  shows "\<exists>d'. table_writeChange db marshal ts (SourceEdit r old) d = (Inr (), d') \<and>
    contents d' = insert (stored_row ty r) (stored_row ty ` set (remove_by cmp old xs))"
proof -
  let ?pk = "ts_primaryKey ts"
  note ready = ready_facts [OF assms(2)]
  have rows: "table_row ty ts r" "table_row ty ts old" "old \<in> set xs" using ready(4,7) by simp_all
  have merged: "old ++ r = r" using rows by (intro same_dom_add) (simp add: table_row_def)
  have can: "canUseUpdate old r (ts_primaryKey ts) = Inr (key_of (ts_primaryKey ts) old = key_of (ts_primaryKey ts) r)"
    using rows by (intro canUseUpdate_key) (auto simp: table_row_def)
  have kept_old: "{s \<in> contents d. key_of ?pk s \<noteq> key_of ?pk (stored_row ty old)} = stored_row ty ` set (remove_by cmp old xs)"
    using kept_rows [OF assms(2), of old] assms(3) by simp
  have hold: "holds_rows ty ts (contents d)" using assms(3) ready(4) by (auto simp: holds_rows_def)
  show ?thesis
  proof (cases "updateSQL ts \<noteq> '''' \<and> key_of ?pk old = key_of ?pk r")
    case True
    then have nonPK: "nonPrimaryKeys (ts_columns ts) ?pk \<noteq> []" using ready_update [OF assms(2)] by simp
    have same: "key_of ?pk (stored_row ty old) = key_of ?pk (stored_row ty r)"
      using True rows keys_stored [of ty old r] by (simp add: table_row_def)
    from exec_update [OF assms(1) ready(1,2,3) rows(1) nonPK hold, of "''UPDATE''" marshal] obtain d' where
      d': "table_writeChange db marshal ts (SourceEdit r old) d = (Inr (), d')"
      "contents d' = (\<lambda>s. if key_of ?pk s = key_of ?pk (stored_row ty r) then stored_row ty r else s) ` contents d"
      using True can merged by (auto simp: Let_def)
    have "contents d' = insert (stored_row ty r) {s \<in> contents d. key_of ?pk s \<noteq> key_of ?pk (stored_row ty old)}"
      unfolding d'(2) same by (rule replace_image [of "stored_row ty old"]) (use assms(3) rows(3) same in simp_all)
    with d' kept_old show ?thesis by auto
  next
    case False
    obtain d1 where d1: "exec_or_panic db ''DELETE (edit)'' (deleteSQL ts) (pkParams marshal (ts_columns ts) ?pk old) d = (Inr (), d1)"
      "contents d1 = stored_row ty ` set (remove_by cmp old xs)"
      using exec_delete [OF assms(1) ready(1,2,3) rows(2) hold, of "''DELETE (edit)''" marshal] kept_old by auto
    have "key_of ?pk (stored_row ty y) \<noteq> key_of ?pk (stored_row ty r)" if "y \<in> set (remove_by cmp old xs)" for y
      using ready(5) [of r y] ready(6) that by (auto simp: set_remove_by)
    then have "\<forall>s\<in>contents d1. key_of ?pk s \<noteq> key_of ?pk (stored_row ty r)" using d1(2) by auto
    moreover have "holds_rows ty ts (contents d1)"
      unfolding d1(2) holds_rows_def using ready(4) by (auto simp: set_remove_by)
    ultimately obtain d' where
      "exec_or_panic db ''INSERT (edit)'' (insertSQL ts) (rowToInsertParams marshal (ts_columns ts) r) d1 = (Inr (), d')"
      "contents d' = insert (stored_row ty r) (contents d1)"
      using exec_insert [OF assms(1) ready(1,3) rows(1), of d1 "''INSERT (edit)''" marshal] by blast
    with d1 False can show ?thesis by auto
  qed
qed

text \<open>
  C29. Writing a change to the table makes the change: the statements that \<open>writeChange\<close> runs, with the
  parameters it binds to them, take a database whose table holds the rows of a source, as they are
  stored, to one whose table holds the rows after the change; this goes for additions, removals, edits
  that keep the key (one UPDATE of the other columns) and edits that do not (a DELETE and an INSERT).
  Assumed are SQLite's statements, for parameters that the columns can take, complete rows of the
  columns' types with no null in the key or in a column that is not optional, and a change that fits
  the rows.
\<close>

theorem table_write_refines:
  assumes "sql_table ty db contents ts" "write_ready ty ts cmp change xs" "contents d = stored_row ty ` set xs"
  shows "\<exists>d'. table_writeChange db marshal ts change d = (Inr (), d') \<and>
    contents d' = stored_row ty ` set (apply_source_change cmp change xs)"
proof -
  note ready = ready_facts [OF assms(2)] and kept = kept_rows [OF assms(2)]
  note ins = exec_insert [OF assms(1) ready(1,3)] and delete = exec_delete [OF assms(1) ready(1,2,3)]
  have hold: "holds_rows ty ts (contents d)" using assms(3) ready(4) by (auto simp: holds_rows_def)
  show ?thesis
  proof (cases change)
    case (SourceAdd r)
    then have "\<forall>s\<in>contents d. key_of (ts_primaryKey ts) s \<noteq> key_of (ts_primaryKey ts) (stored_row ty r)"
      using ready(5,6) assms(3) by auto
    from ins [OF _ this hold, of "''INSERT''" marshal] ready(4) SourceAdd assms(3) show ?thesis by auto
  next
    case (SourceRemove r)
    with delete [OF _ hold, of r "''DELETE''" marshal] ready(4) kept assms(3) show ?thesis by auto
  next
    case (SourceEdit r old)
    with write_edit [OF assms(1) assms(2) [unfolded SourceEdit] assms(3)] show ?thesis by simp
  qed
qed

text \<open>
  A database that knows the three statements of one table, refuses a null in a column that is not
  optional and a second row of a key, and compares keys as SQLite does.
\<close>

definition null_violation :: "'d TableSource \<Rightarrow> row \<Rightarrow> bool" where
  "null_violation ts r \<longleftrightarrow> list_ex (\<lambda>(c, cs). \<not> CsOptional cs \<and> col r c = VNull) (ts_columns ts)"

definition statement_db :: "row list TableSource \<Rightarrow> row list database" where
  "statement_db ts =
     (let names = sortedColumnNames (ts_columns ts); pk = ts_primaryKey ts; nonPK = nonPrimaryKeys (ts_columns ts) pk in
      \<lparr>db_Query = (\<lambda>_ _ _. Inl ''no query''),
       db_Exec = (\<lambda>d sql params.
         if sql = insertSQL ts then
           (let r = map_of (zip names params) in
            if null_violation ts r then (Inl ''NOT NULL constraint failed'', d)
            else if list_ex (\<lambda>s. keys_equal (key_of pk s) (key_of pk r)) d then (Inl ''UNIQUE constraint failed'', d)
            else (Inr (), r # d))
         else if sql = deleteSQL ts then (Inr (), filter (\<lambda>s. \<not> keys_equal (key_of pk s) params) d)
         else
           (let d' = map (update_row pk (drop (length nonPK) params) (take (length nonPK) params) nonPK) d in
            if list_ex (null_violation ts) d' then (Inl ''NOT NULL constraint failed'', d) else (Inr (), d'))),
       db_HasRow = (\<lambda>_ _ _. False)\<rparr>)"

lemma sql_row_no_null:
  assumes "sql_row ty ts s" "distinct (map fst (ts_columns ts))"
  shows "\<not> null_violation ts s"
proof
  assume "null_violation ts s"
  then obtain c cs where c: "(c, cs) \<in> set (ts_columns ts)" "\<not> CsOptional cs" "col s c = VNull"
    by (auto simp: null_violation_def list_ex_iff)
  have "column_schema (ts_columns ts) c = cs" using c(1) assms(2) by (simp add: column_schema_def)
  moreover have "c \<in> dom s" using assms(1) c(1) by (force simp: sql_row_def)
  ultimately show False using assms(1) c(2,3) by (auto simp: sql_row_def column_fits_def)
qed

lemma sql_row_update:
  assumes "sql_row ty ts s" "list_all2 (column_fits ty ts) names sets" "set names \<subseteq> set (map fst (ts_columns ts))"
  shows "sql_row ty ts (update_row pk key sets names s)"
proof -
  have len: "length names = length sets" using assms(2) by (rule list_all2_lengthD)
  have fits: "column_fits ty ts c v" if "map_of (zip names sets) c = Some v" for c v
    using map_of_SomeD [OF that] assms(2) by (auto simp: list_all2_iff)
  have dom: "dom (map_of (zip names sets)) = set names" using len by (simp add: dom_map_of_zip)
  have "column_fits ty ts c (col (s ++ map_of (zip names sets)) c)" if "c \<in> set (map fst (ts_columns ts))" for c
  proof (cases "map_of (zip names sets) c")
    case None
    then show ?thesis using assms(1) that by (simp add: sql_row_def col_def map_add_def)
  next
    case (Some v)
    then show ?thesis using fits [OF Some] by (simp add: col_def map_add_def)
  qed
  then have "sql_row ty ts (s ++ map_of (zip names sets))"
    using assms(1,3) dom unfolding sql_row_def dom_map_add by blast
  with assms(1) show ?thesis by (simp add: update_row_def)
qed

lemma statement_db_table:
  assumes "insertSQL ts \<noteq> deleteSQL ts" "updateSQL ts \<noteq> insertSQL ts" "updateSQL ts \<noteq> deleteSQL ts"
    and cols: "distinct (map fst (ts_columns ts))"
  shows "sql_table ty (statement_db ts) set ts"
  unfolding sql_table_def Let_def
proof (intro allI impI conjI)
  let ?pk = "ts_primaryKey ts" and ?names = "sortedColumnNames (ts_columns ts)"
  let ?nonPK = "nonPrimaryKeys (ts_columns ts) (ts_primaryKey ts)"
  fix d :: "row list" assume rows: "\<forall>s\<in>set d. sql_row ty ts s"
  show "\<exists>d'. db_Exec (statement_db ts) d (insertSQL ts) params = (Inr (), d') \<and>
      set d' = insert (map_of (zip ?names params)) (set d)"
    if "length params = length ?names \<and> sql_row ty ts (map_of (zip ?names params)) \<and>
      (\<forall>s\<in>set d. \<not> keys_equal (key_of ?pk s) (key_of ?pk (map_of (zip ?names params))))" for params
  proof -
    have "\<not> null_violation ts (map_of (zip ?names params))"
      "\<not> list_ex (\<lambda>s. keys_equal (key_of ?pk s) (key_of ?pk (map_of (zip ?names params)))) d"
      using that sql_row_no_null [OF _ cols] by (auto simp: list_ex_iff)
    then show ?thesis by (simp add: statement_db_def Let_def)
  qed
  show "\<exists>d'. db_Exec (statement_db ts) d (deleteSQL ts) key = (Inr (), d') \<and>
      set d' = {s \<in> set d. \<not> keys_equal (key_of ?pk s) key}" for key
    using assms(1) by (simp add: statement_db_def Let_def)
  show "\<exists>d'. db_Exec (statement_db ts) d (updateSQL ts) (sets @ key) = (Inr (), d') \<and>
      set d' = update_row ?pk key sets ?nonPK ` set d"
    if "?nonPK \<noteq> [] \<and> list_all2 (column_fits ty ts) ?nonPK sets \<and>
      list_all2 (\<lambda>c v. column_value (ty c) v \<and> v \<noteq> VNull) ?pk key" for sets key
  proof -
    have len: "length sets = length ?nonPK" using that list_all2_lengthD by metis
    have "sql_row ty ts (update_row ?pk key sets ?nonPK s)" if "s \<in> set d" for s
      using rows that \<open>_ \<and> _ \<and> _\<close> nonPK_set [of "ts_columns ts" ?pk] by (intro sql_row_update) auto
    then have "\<not> list_ex (null_violation ts) (map (update_row ?pk key sets ?nonPK) d)"
      using sql_row_no_null [OF _ cols] by (auto simp: list_ex_iff)
    then show ?thesis using assms(2,3) len by (simp add: statement_db_def Let_def)
  qed
qed

definition priced_table :: "row list TableSource" where
  "priced_table = NewTableSource [] ''shop'' priced [''id'']"

definition priced_row :: "rat \<Rightarrow> rat \<Rightarrow> row" where
  "priced_row n p = [''id'' \<mapsto> num n, ''p?'' \<mapsto> num p]"

lemma priced_table_row: "table_row (\<lambda>_. CNum) priced_table (priced_row n p)"
  by (auto simp: table_row_def priced_table_def NewTableSource_def Let_def priced_def priced_row_def col_def okval_def)

lemma priced_key: "key_of [''id''] (priced_row n p) = [num n]"
  by (simp add: key_of_def priced_row_def)

lemma priced_cmp: "cval (MakeComparator item_order False) (priced_row m p) (priced_row n q) = (if m < n then -1 else if n < m then 1 else 0)"
  by (auto simp: cval_def item_order_def priced_row_def CompareValues_num)

lemma priced_ready:
  "write_ready (\<lambda>_. CNum) priced_table (MakeComparator item_order False) (SourceEdit (priced_row 1 5) (priced_row 1 4)) [priced_row 1 4]"
proof -
  have simps: "ts_columns priced_table = priced" "ts_primaryKey priced_table = [''id'']" "ts_tableName priced_table = ''shop''"
    by (simp_all add: priced_table_def NewTableSource_def Let_def)
  have "priced_table = NewTableSource [] (ts_tableName priced_table) (ts_columns priced_table) (ts_primaryKey priced_table)"
    unfolding simps by (rule priced_table_def)
  then show ?thesis
    unfolding write_ready_def simps
    by (intro conjI exI) (auto simp: priced_def priced_table_row priced_key priced_cmp remove_by_Cons)
qed

theorem table_write_refines_witness:
  "\<exists>d'. table_writeChange (statement_db priced_table) (\<lambda>_. None) priced_table (SourceEdit (priced_row 1 5) (priced_row 1 4))
      [stored_row (\<lambda>_. CNum) (priced_row 1 4)] = (Inr (), d') \<and>
    set d' = {stored_row (\<lambda>_. CNum) (priced_row 1 5)}"
proof -
  have "sql_table (\<lambda>_. CNum) (statement_db priced_table) set priced_table"
    by (rule statement_db_table) (simp_all add: priced_table_def NewTableSource_def Let_def nonPrimaryKeys_def priced_def)
  from table_write_refines [OF this priced_ready, of "[stored_row (\<lambda>_. CNum) (priced_row 1 4)]" "\<lambda>_. None"]
  show ?thesis by (simp add: remove_by_Cons priced_cmp)
qed

section \<open>Values of columns\<close>










text \<open>A JSON string whose text is itself JSON comes back as that other document.\<close>

lemma json_string_is_reparsed:
  "unmarshal s = Some v \<Longrightarrow> FromSQLiteType unmarshal (ToSQLiteType marshal (VStr s) ''json'') ''json'' = v"
  by (simp add: ToSQLiteType_def FromSQLiteType_def)


end
