(* ===== verification/Storage.thy ===== *)
theory Storage
  imports Take Strconv
begin

text \<open>
  The storage of the operators, \<open>sqlite/database_storage.go\<close>: one table of JSON values keyed by client
  group, operator and key, and the storage of a limit operator on top of it.

  The four SQL statements of the file are operations on the rows of the table.  A transaction is open
  until the storage is closed; a commit does not change the rows.  A stored value is the JSON document,
  not its text: a string is taken to be valid UTF-8 and a number is the rational it denotes.  SQLite
  chooses the order of a scan, which the statement does not ask for: \<open>plan\<close>.
\<close>

section \<open>The database\<close>

record DatabaseStorage =
  ds_rows :: "((string \<times> int \<times> string) \<times> json) list"
  ds_open :: bool
  commitInterval :: int
  numWrites :: int

definition NewDatabaseStorage :: "((string \<times> int \<times> string) \<times> json) list \<Rightarrow> DatabaseStorage" where
  "NewDatabaseStorage found = \<lparr>ds_rows = found, ds_open = True, commitInterval = 5000, numWrites = 0\<rparr>"

definition checkpoint :: "DatabaseStorage \<Rightarrow> DatabaseStorage" where
  "checkpoint ds = ds\<lparr>numWrites := 0\<rparr>"

definition maybeCheckpoint :: "DatabaseStorage \<Rightarrow> DatabaseStorage" where
  "maybeCheckpoint ds =
     (let ds' = ds\<lparr>numWrites := numWrites ds + 1\<rparr>
      in if numWrites ds' \<ge> commitInterval ds' then checkpoint ds' else ds')"

definition DatabaseStorage_Close :: "DatabaseStorage \<Rightarrow> DatabaseStorage" where
  "DatabaseStorage_Close ds = ds\<lparr>ds_open := False\<rparr>"

text \<open>On a closed database every statement fails: nothing is found, a write is lost.\<close>

definition ds_get :: "string \<Rightarrow> int \<Rightarrow> string \<Rightarrow> (panic, DatabaseStorage, json option) exec" where
  "ds_get cgID opID key =
     thenM (modM maybeCheckpoint) (getM (\<lambda>ds. if ds_open ds then map_of (ds_rows ds) (cgID, opID, key) else None))"

definition ds_set :: "string \<Rightarrow> int \<Rightarrow> string \<Rightarrow> json \<Rightarrow> (panic, DatabaseStorage, unit) exec" where
  "ds_set cgID opID key v =
     thenM (modM maybeCheckpoint)
       (modM (\<lambda>ds. if ds_open ds then ds\<lparr>ds_rows := put (cgID, opID, key) v (ds_rows ds)\<rparr> else ds))"

definition ds_del :: "string \<Rightarrow> int \<Rightarrow> string \<Rightarrow> (panic, DatabaseStorage, unit) exec" where
  "ds_del cgID opID key =
     thenM (modM maybeCheckpoint)
       (modM (\<lambda>ds. if ds_open ds then ds\<lparr>ds_rows := del (cgID, opID, key) (ds_rows ds)\<rparr> else ds))"

definition storage_scan :: "string \<Rightarrow> int \<Rightarrow> string \<Rightarrow> DatabaseStorage \<Rightarrow> (string \<times> json) list" where
  "storage_scan cgID opID prefix ds =
     map (\<lambda>((_, _, k), v). (k, v)) (filter (\<lambda>((c, p, k), _). c = cgID \<and> p = opID \<and> prefix \<le> k) (ds_rows ds))"

definition ds_scan ::
  "((string \<times> json) list \<Rightarrow> (string \<times> json) list) \<Rightarrow> string \<Rightarrow> int \<Rightarrow> string \<Rightarrow>
   (panic, DatabaseStorage, (string \<times> json) list) exec"
where
  "ds_scan plan cgID opID prefix =
     thenM (modM maybeCheckpoint)
       (getM (\<lambda>ds. if ds_open ds
          then takeWhile (\<lambda>(k, _). take (length prefix) k = prefix) (plan (storage_scan cgID opID prefix ds)) else []))"

section \<open>Client groups and operators\<close>

record ClientGroupStorage =
  cgs_cgID :: string
  nextOpID :: int

record OperatorStorage =
  os_cgID :: string
  os_opID :: int

text \<open>The transaction of a closed storage is a nil pointer.\<close>

definition clear_group :: "string \<Rightarrow> (panic, DatabaseStorage, unit) exec" where
  "clear_group cgID =
     bindM (getM ds_open) (\<lambda>b.
       if \<not> b then failM NilDereference
       else modM (\<lambda>ds. checkpoint (ds\<lparr>ds_rows := filter (\<lambda>((c, _, _), _). c \<noteq> cgID) (ds_rows ds)\<rparr>)))"

definition CreateClientGroupStorage :: "string \<Rightarrow> (panic, DatabaseStorage, ClientGroupStorage) exec" where
  "CreateClientGroupStorage cgID = thenM (clear_group cgID) (retM \<lparr>cgs_cgID = cgID, nextOpID = 1\<rparr>)"

definition CreateStorage :: "ClientGroupStorage \<Rightarrow> OperatorStorage \<times> ClientGroupStorage" where
  "CreateStorage cgs = (\<lparr>os_cgID = cgs_cgID cgs, os_opID = nextOpID cgs\<rparr>, cgs\<lparr>nextOpID := nextOpID cgs + 1\<rparr>)"

definition ClientGroupStorage_Destroy :: "ClientGroupStorage \<Rightarrow> (panic, DatabaseStorage, unit) exec" where
  "ClientGroupStorage_Destroy cgs = clear_group (cgs_cgID cgs)"

definition OperatorStorage_Get :: "OperatorStorage \<Rightarrow> string \<Rightarrow> (panic, DatabaseStorage, json option) exec" where
  "OperatorStorage_Get st key = ds_get (os_cgID st) (os_opID st) key"

definition OperatorStorage_Set :: "OperatorStorage \<Rightarrow> string \<Rightarrow> json \<Rightarrow> (panic, DatabaseStorage, unit) exec" where
  "OperatorStorage_Set st key v = ds_set (os_cgID st) (os_opID st) key v"

definition OperatorStorage_Del :: "OperatorStorage \<Rightarrow> string \<Rightarrow> (panic, DatabaseStorage, unit) exec" where
  "OperatorStorage_Del st key = ds_del (os_cgID st) (os_opID st) key"

definition OperatorStorage_Scan ::
  "((string \<times> json) list \<Rightarrow> (string \<times> json) list) \<Rightarrow> OperatorStorage \<Rightarrow> string \<Rightarrow>
   (panic, DatabaseStorage, (string \<times> json) list) exec"
where
  "OperatorStorage_Scan plan st prefix = ds_scan plan (os_cgID st) (os_opID st) prefix"

section \<open>JSON documents of rows and states\<close>

definition base64_char :: "nat \<Rightarrow> char" where
  "base64_char n = ''ABCDEFGHIJKLMNOPQRSTUVWXYZabcdefghijklmnopqrstuvwxyz0123456789+/'' ! (n mod 64)"

fun base64 :: "string \<Rightarrow> string" where
  "base64 [] = []"
| "base64 [a] = (let n = of_char a * 16 in [base64_char (n div 64), base64_char n, CHR ''='', CHR ''=''])"
| "base64 [a, b] = (let n = (of_char a * 256 + of_char b) * 4
     in [base64_char (n div 4096), base64_char (n div 64), base64_char n, CHR ''=''])"
| "base64 (a # b # c # s) = (let n = of_char a * 65536 + of_char b * 256 + of_char c
     in [base64_char (n div 262144), base64_char (n div 4096), base64_char (n div 64), base64_char n] @ base64 s)"

text \<open>\<open>json.Unmarshal\<close> into an interface: every number becomes a float64; too large a number is an error.\<close>

fun unmarshal_value :: "json \<Rightarrow> val option" where
  "unmarshal_value JNull = Some VNull"
| "unmarshal_value (JBool b) = Some (VBool b)"
| "unmarshal_value (JNum x) = (case f64_round binary64 x of Fin y \<Rightarrow> Some (VF64 (Fin y)) | _ \<Rightarrow> None)"
| "unmarshal_value (JStr s) = Some (VStr s)"
| "unmarshal_value (JBase64 s) = Some (VStr (base64 s))"
| "unmarshal_value (JLiteral s) = map_option VF64 (ParseFloat s)"
| "unmarshal_value (JArr js) = map_option VArr (option_list (map unmarshal_value js))"
| "unmarshal_value (JObj kjs) =
     map_option VObj (option_list (map (\<lambda>(k, j). map_option (\<lambda>v. (k, v)) (unmarshal_value j)) kjs))"

definition marshal_row :: "row option \<Rightarrow> json option" where
  "marshal_row r =
     (case r of
        None \<Rightarrow> Some JNull
      | Some r \<Rightarrow> map_option JObj (option_list
          (map (\<lambda>k. map_option (\<lambda>j. (k, j)) (json_marshal (col r k))) (sorted_list_of_set (dom r)))))"

text \<open>A nil row comes from \<open>null\<close>; anything but an object is an error.\<close>

definition unmarshal_row :: "json \<Rightarrow> row option option" where
  "unmarshal_row j =
     (case j of
        JNull \<Rightarrow> Some None
      | JObj kjs \<Rightarrow> map_option (\<lambda>kvs. Some (map_of kvs))
          (option_list (map (\<lambda>(k, j). map_option (\<lambda>v. (k, v)) (unmarshal_value j)) kjs))
      | _ \<Rightarrow> None)"

definition marshal_state :: "TakeState \<Rightarrow> json option" where
  "marshal_state st =
     map_option (\<lambda>b. JObj [(''Size'', JNum (of_int (Size st))), (''Bound'', b)]) (marshal_row (Bound st))"

definition unmarshal_size :: "json option \<Rightarrow> int option" where
  "unmarshal_size j =
     (case j of
        None \<Rightarrow> Some 0
      | Some JNull \<Rightarrow> Some 0
      | Some (JNum x) \<Rightarrow> if of_int \<lfloor>x\<rfloor> = x then Some \<lfloor>x\<rfloor> else None
      | _ \<Rightarrow> None)"

definition unmarshal_state :: "json \<Rightarrow> TakeState option" where
  "unmarshal_state j =
     (case j of
        JNull \<Rightarrow> Some \<lparr>Size = 0, Bound = None\<rparr>
      | JObj kjs \<Rightarrow>
          (case (unmarshal_size (map_of kjs ''Size''),
                 case map_of kjs ''Bound'' of None \<Rightarrow> Some None | Some b \<Rightarrow> unmarshal_row b) of
             (Some n, Some b) \<Rightarrow> Some \<lparr>Size = n, Bound = b\<rparr>
           | _ \<Rightarrow> None)
      | _ \<Rightarrow> None)"

section \<open>The storage of a limit operator\<close>

definition SQLite_GetTakeState :: "OperatorStorage \<Rightarrow> string \<Rightarrow> (panic, DatabaseStorage, TakeState option) exec" where
  "SQLite_GetTakeState st key =
     bindM (OperatorStorage_Get st key) (\<lambda>raw. retM (case raw of None \<Rightarrow> None | Some j \<Rightarrow> unmarshal_state j))"

definition SQLite_SetTakeState :: "OperatorStorage \<Rightarrow> string \<Rightarrow> TakeState \<Rightarrow> (panic, DatabaseStorage, unit) exec" where
  "SQLite_SetTakeState st key state =
     (case marshal_state state of
        None \<Rightarrow> failM (Panic ''marshal TakeState'')
      | Some j \<Rightarrow> OperatorStorage_Set st key j)"

definition SQLite_GetMaxBound :: "OperatorStorage \<Rightarrow> (panic, DatabaseStorage, row option) exec" where
  "SQLite_GetMaxBound st =
     bindM (OperatorStorage_Get st ''maxBound'') (\<lambda>raw.
       retM (case raw of None \<Rightarrow> None | Some j \<Rightarrow> (case unmarshal_row j of None \<Rightarrow> None | Some r \<Rightarrow> r)))"

definition SQLite_SetMaxBound :: "OperatorStorage \<Rightarrow> row option \<Rightarrow> (panic, DatabaseStorage, unit) exec" where
  "SQLite_SetMaxBound st bound =
     (case marshal_row bound of
        None \<Rightarrow> failM (Panic ''marshal maxBound'')
      | Some j \<Rightarrow> OperatorStorage_Set st ''maxBound'' j)"

definition SQLite_Del :: "OperatorStorage \<Rightarrow> string \<Rightarrow> (panic, DatabaseStorage, unit) exec" where
  "SQLite_Del st key = OperatorStorage_Del st key"

end
