(* ===== verification/StorageRefines.thy ===== *)
theory StorageRefines
  imports Storage
begin

text \<open>
  The interface \<open>TakeStorage\<close> of \<open>ivm/take.go\<close>: what a limit operator relies on, and that its storage
  in SQLite keeps the same promises as the one in memory with which \<open>Take\<close> is modelled.
\<close>

section \<open>The interface\<close>

datatype 'k storage_op = OpGet 'k | OpSet 'k TakeState | OpGetMax | OpSetMax row | OpDel 'k

datatype storage_result = RState "TakeState option" | RRow "row option" | RUnit

type_synonym 'k storage_view = "('k \<rightharpoonup> TakeState) \<times> row option"

fun spec_result :: "'k storage_op \<Rightarrow> 'k storage_view \<Rightarrow> storage_result" where
  "spec_result (OpGet k) v = RState (fst v k)"
| "spec_result OpGetMax v = RRow (snd v)"
| "spec_result _ v = RUnit"

fun spec_effect :: "'k storage_op \<Rightarrow> 'k storage_view \<Rightarrow> 'k storage_view" where
  "spec_effect (OpSet k st) v = ((fst v)(k \<mapsto> st), snd v)"
| "spec_effect (OpSetMax b) v = (fst v, Some b)"
| "spec_effect (OpDel k) v = ((fst v)(k := None), snd v)"
| "spec_effect _ v = v"

fun spec_run :: "'k storage_op list \<Rightarrow> 'k storage_view \<Rightarrow> storage_result list" where
  "spec_run [] v = []"
| "spec_run (x # xs) v = spec_result x v # spec_run xs (spec_effect x v)"

locale take_storage =
  fixes step :: "'k storage_op \<Rightarrow> (panic, 's, storage_result) exec"
    and view :: "'s \<Rightarrow> 'k storage_view" and good :: "'s \<Rightarrow> bool" and allowed :: "'k storage_op \<Rightarrow> bool"
  assumes step_view: "good s \<Longrightarrow> allowed x \<Longrightarrow>
    \<exists>s'. step x s = (Inr (spec_result x (view s)), s') \<and> view s' = spec_effect x (view s) \<and> good s'"
begin

lemma run_view:
  "good s \<Longrightarrow> list_all allowed xs \<Longrightarrow> \<exists>s'. mapM step xs s = (Inr (spec_run xs (view s)), s') \<and> good s'"
proof (induction xs arbitrary: s)
  case (Cons x xs)
  then obtain s1 where "step x s = (Inr (spec_result x (view s)), s1)" "view s1 = spec_effect x (view s)" "good s1"
    using step_view by fastforce
  with Cons.IH [of s1] Cons.prems show ?case by fastforce
qed simp

end

section \<open>In memory\<close>

definition GetMaxBound :: "Take \<Rightarrow> row option" where
  "GetMaxBound t = maxBound t"

definition MemoryTakeStorage_Del :: "state_key \<Rightarrow> Take \<Rightarrow> Take" where
  "MemoryTakeStorage_Del key t = t\<lparr>states := (states t)(key := None)\<rparr>"

fun memory_step :: "state_key storage_op \<Rightarrow> (panic, Take, storage_result) exec" where
  "memory_step (OpGet k) = getM (\<lambda>t. RState (states t k))"
| "memory_step (OpSet k st) = thenM (modM (SetTakeState k st)) (retM RUnit)"
| "memory_step OpGetMax = getM (\<lambda>t. RRow (GetMaxBound t))"
| "memory_step (OpSetMax b) = thenM (modM (SetMaxBound b)) (retM RUnit)"
| "memory_step (OpDel k) = thenM (modM (MemoryTakeStorage_Del k)) (retM RUnit)"

interpretation memory: take_storage memory_step "\<lambda>t. (states t, maxBound t)" "\<lambda>_. True" "\<lambda>_. True"
proof unfold_locales
  fix t :: Take and x
  show "\<exists>t'. memory_step x t = (Inr (spec_result x (states t, maxBound t)), t') \<and>
      (states t', maxBound t') = spec_effect x (states t, maxBound t) \<and> True"
    by (cases x) (simp_all add: GetMaxBound_def MemoryTakeStorage_Del_def SetTakeState_def SetMaxBound_def)
qed

section \<open>Documents that read back\<close>

text \<open>
  Values that JSON keeps: null, booleans, strings, finite float64 values, and lists and objects of them.
\<close>

fun json_plain :: "val \<Rightarrow> bool" where
  "json_plain VNull = True"
| "json_plain (VBool b) = True"
| "json_plain (VStr s) = True"
| "json_plain (VF64 (Fin x)) = (f64_round binary64 x = Fin x)"
| "json_plain (VArr vs) = (\<forall>v \<in> set vs. json_plain v)"
| "json_plain (VObj kvs) = (sorted (map fst kvs) \<and> (\<forall>kv \<in> set kvs. json_plain (snd kv)))"
| "json_plain _ = False"

definition row_plain :: "row option \<Rightarrow> bool" where
  "row_plain r = (case r of None \<Rightarrow> True | Some r \<Rightarrow> finite (dom r) \<and> (\<forall>v \<in> ran r. json_plain v))"

lemma option_list_map:
  "(\<And>x. x \<in> set xs \<Longrightarrow> f x = Some (g x)) \<Longrightarrow> option_list (map f xs) = Some (map g xs)"
  by (induction xs) auto

text \<open>A document of which the value is read back.\<close>

definition doc :: "val \<Rightarrow> json" where
  "doc v = the (json_marshal v)"

lemma json_plain_round_trip:
  "json_plain v \<Longrightarrow> json_marshal v = Some (doc v) \<and> unmarshal_value (doc v) = Some v"
proof (induction v rule: json_plain.induct)
  case (5 vs)
  then have "option_list (map json_marshal vs) = Some (map doc vs)"
    "option_list (map unmarshal_value (map doc vs)) = Some (map (\<lambda>v. v) vs)"
    using option_list_map [of vs json_marshal doc] option_list_map [of vs "unmarshal_value \<circ> doc" "\<lambda>v. v"] by simp_all
  then show ?case by (simp add: doc_def)
next
  case (6 kvs)
  have parts: "json_marshal v = Some (doc v) \<and> unmarshal_value (doc v) = Some v" if "(k, v) \<in> set kvs" for k v
    using 6 that by auto
  let ?docs = "map (\<lambda>(k, v). (k, doc v)) kvs"
  have "option_list (map (\<lambda>(k, v). map_option (\<lambda>j. (k, j)) (json_marshal v)) kvs) = Some ?docs"
    using parts by (intro option_list_map) auto
  moreover have "sort_key fst ?docs = ?docs"
    using 6 by (intro sort_key_id_if_sorted) (simp add: comp_def case_prod_beta')
  moreover have "option_list (map (\<lambda>(k, j). map_option (\<lambda>v. (k, v)) (unmarshal_value j)) ?docs) = Some (map (\<lambda>kv. kv) kvs)"
    unfolding map_map using parts by (intro option_list_map) auto
  ultimately show ?case by (simp add: doc_def)
qed (simp_all add: doc_def)

lemma row_round_trip:
  assumes "row_plain r"
  shows "\<exists>j. marshal_row r = Some j \<and> unmarshal_row j = Some r"
proof (cases r)
  case None
  then show ?thesis by (simp add: marshal_row_def unmarshal_row_def)
next
  case (Some m)
  with assms have fin: "finite (dom m)" and plain: "\<And>k v. m k = Some v \<Longrightarrow> json_plain v"
    by (auto simp: row_plain_def ran_def)
  let ?ks = "sorted_list_of_set (dom m)" and ?kjs = "map (\<lambda>k. (k, doc (col m k))) (sorted_list_of_set (dom m))"
  have parts: "json_marshal (col m k) = Some (doc (col m k)) \<and> unmarshal_value (doc (col m k)) = Some (col m k)" if "k \<in> dom m" for k
    using that json_plain_round_trip plain by (auto simp: col_def)
  have "option_list (map (\<lambda>k. map_option (\<lambda>j. (k, j)) (json_marshal (col m k))) ?ks) = Some ?kjs"
    using parts fin by (intro option_list_map) simp
  moreover have "option_list (map (\<lambda>(k, j). map_option (\<lambda>v. (k, v)) (unmarshal_value j)) ?kjs) = Some (map (\<lambda>k. (k, col m k)) ?ks)"
    unfolding map_map using parts fin by (intro option_list_map) simp
  moreover have "map_of (map (\<lambda>k. (k, col m k)) ?ks) = m"
    using fin by (intro ext) (auto simp: map_of_map_restrict restrict_map_def col_def dom_def)
  ultimately show ?thesis using Some by (simp add: marshal_row_def unmarshal_row_def)
qed

lemma state_round_trip:
  assumes "row_plain (Bound st)"
  shows "\<exists>j. marshal_state st = Some j \<and> unmarshal_state j = Some st"
  using row_round_trip [OF assms] by (auto simp: marshal_state_def unmarshal_state_def unmarshal_size_def)

section \<open>In SQLite\<close>

definition stored_state :: "DatabaseStorage \<Rightarrow> OperatorStorage \<Rightarrow> string \<Rightarrow> json option" where
  "stored_state ds st key = map_of (ds_rows ds) (os_cgID st, os_opID st, key)"

text \<open>What an operator sees of the table; the key of the largest bound is not a key of a state.\<close>

definition sqlite_view :: "OperatorStorage \<Rightarrow> DatabaseStorage \<Rightarrow> string storage_view" where
  "sqlite_view st ds =
     (\<lambda>key. if key = ''maxBound'' then None else Option.bind (stored_state ds st key) unmarshal_state,
      case stored_state ds st ''maxBound'' of None \<Rightarrow> None
      | Some j \<Rightarrow> (case unmarshal_row j of None \<Rightarrow> None | Some r \<Rightarrow> r))"

fun sqlite_step :: "OperatorStorage \<Rightarrow> string storage_op \<Rightarrow> (panic, DatabaseStorage, storage_result) exec" where
  "sqlite_step st (OpGet k) = bindM (SQLite_GetTakeState st k) (\<lambda>r. retM (RState r))"
| "sqlite_step st (OpSet k x) = thenM (SQLite_SetTakeState st k x) (retM RUnit)"
| "sqlite_step st OpGetMax = bindM (SQLite_GetMaxBound st) (\<lambda>r. retM (RRow r))"
| "sqlite_step st (OpSetMax b) = thenM (SQLite_SetMaxBound st (Some b)) (retM RUnit)"
| "sqlite_step st (OpDel k) = thenM (SQLite_Del st k) (retM RUnit)"

text \<open>Operations whose key is not the one of the largest bound and whose rows JSON keeps.\<close>

fun op_plain :: "'k storage_op \<Rightarrow> bool" where
  "op_plain (OpSet k x) = row_plain (Bound x)"
| "op_plain (OpSetMax b) = row_plain (Some b)"
| "op_plain _ = True"

definition sqlite_allowed :: "string storage_op \<Rightarrow> bool" where
  "sqlite_allowed x \<longleftrightarrow> op_plain x \<and> ''maxBound'' \<notin> set_storage_op x"

lemma maybeCheckpoint_simps [simp]:
  "ds_rows (maybeCheckpoint ds) = ds_rows ds" "ds_open (maybeCheckpoint ds) = ds_open ds"
  by (simp_all add: maybeCheckpoint_def checkpoint_def Let_def)

lemmas storage_defs = SQLite_GetTakeState_def SQLite_SetTakeState_def SQLite_GetMaxBound_def SQLite_SetMaxBound_def SQLite_Del_def
  OperatorStorage_Get_def OperatorStorage_Set_def OperatorStorage_Del_def ds_get_def ds_set_def ds_del_def

lemma sqlite_step_view:
  assumes "ds_open ds" "sqlite_allowed x"
  shows "\<exists>ds'. sqlite_step st x ds = (Inr (spec_result x (sqlite_view st ds)), ds') \<and>
    sqlite_view st ds' = spec_effect x (sqlite_view st ds) \<and> ds_open ds'"
proof (cases x)
  case (OpGet k)
  with assms show ?thesis
    by (auto simp: storage_defs sqlite_allowed_def sqlite_view_def stored_state_def fun_eq_iff split: option.splits)
next
  case (OpSet k y)
  with assms obtain j where "marshal_state y = Some j" "unmarshal_state j = Some y"
    using state_round_trip [of y] by (auto simp: sqlite_allowed_def)
  with OpSet assms show ?thesis
    by (auto simp: storage_defs sqlite_allowed_def sqlite_view_def stored_state_def fun_eq_iff)
next
  case OpGetMax
  with assms show ?thesis
    by (auto simp: storage_defs sqlite_view_def stored_state_def fun_eq_iff)
next
  case (OpSetMax b)
  with assms obtain j where "marshal_row (Some b) = Some j" "unmarshal_row j = Some (Some b)"
    using row_round_trip [of "Some b"] by (auto simp: sqlite_allowed_def)
  with OpSetMax assms show ?thesis
    by (auto simp: storage_defs sqlite_view_def stored_state_def fun_eq_iff)
next
  case (OpDel k)
  with assms show ?thesis
    by (auto simp: storage_defs sqlite_allowed_def sqlite_view_def stored_state_def fun_eq_iff)
qed

interpretation sqlite: take_storage "sqlite_step st" "sqlite_view st" ds_open sqlite_allowed for st
  by unfold_locales (rule sqlite_step_view)

text \<open>An operator writes under its own address only.\<close>

lemma sqlite_step_other:
  assumes "sqlite_step a x ds = (r, ds')" "(os_cgID b, os_opID b) \<noteq> (os_cgID a, os_opID a)"
  shows "stored_state ds' b = stored_state ds b"
  using assms
  by (cases x) (auto simp: storage_defs stored_state_def fun_eq_iff bindM_def split: option.splits if_splits)

lemma sqlite_run_other:
  assumes "mapM (sqlite_step a) xs ds = (r, ds')" "(os_cgID b, os_opID b) \<noteq> (os_cgID a, os_opID a)"
  shows "stored_state ds' b = stored_state ds b"
  using assms(1)
proof (induction xs arbitrary: ds r)
  case (Cons x xs)
  obtain r1 ds1 where step: "sqlite_step a x ds = (r1, ds1)" by force
  note same = sqlite_step_other [OF step assms(2)]
  show ?case
  proof (cases r1)
    case (Inl e)
    with step same Cons.prems show ?thesis by auto
  next
    case (Inr y)
    obtain r2 ds2 where rest: "mapM (sqlite_step a) xs ds1 = (r2, ds2)" by force
    with step Inr Cons.prems have "ds2 = ds'" by (cases r2) (auto simp: bindM_def)
    with rest Cons.IH same show ?thesis by metis
  qed
qed simp

section \<open>Both storages answer alike\<close>

text \<open>The keys of \<open>Take\<close> are documents; \<open>enc\<close> is their text, which tells the keys in use apart.\<close>

definition view_matches :: "('k \<Rightarrow> string) \<Rightarrow> 'k set \<Rightarrow> 'k storage_view \<Rightarrow> string storage_view \<Rightarrow> bool" where
  "view_matches enc K v w \<longleftrightarrow> snd w = snd v \<and> (\<forall>k \<in> K. fst w (enc k) = fst v k)"

lemma view_matches_step:
  assumes "view_matches enc K v w" "inj_on enc K" "set_storage_op x \<subseteq> K"
  shows "spec_result (map_storage_op enc x) w = spec_result x v \<and>
    view_matches enc K (spec_effect x v) (spec_effect (map_storage_op enc x) w)"
  using assms by (cases x) (auto simp: view_matches_def inj_on_eq_iff)

lemma view_matches_run:
  assumes "view_matches enc K v w" "inj_on enc K" "\<forall>x \<in> set xs. set_storage_op x \<subseteq> K"
  shows "spec_run (map (map_storage_op enc) xs) w = spec_run xs v"
  using assms(1,3)
proof (induction xs arbitrary: v w)
  case (Cons x xs)
  with view_matches_step [OF Cons.prems(1) assms(2), of x] show ?case by simp
qed simp

lemma op_plain_map: "op_plain (map_storage_op enc x) = op_plain x"
  by (cases x) simp_all

text \<open>
  C39. The SQLite storage of a limit operator behaves like the storage in memory: whatever calls the
  operator makes, from an empty storage it gets the same answers from both, and no call panics; a commit
  in between changes nothing.  This needs that the texts of its keys are different and not \<open>maxBound\<close>,
  and that the rows it stores hold values that JSON keeps: no NaN, infinity or bytes.  Meanwhile the
  storage of every other operator, of the same or another client group, stays as it is.
\<close>

theorem sqlite_storage_refines_memory:
  assumes "ds_open ds" "sqlite_view st ds = (Map.empty, None)" "states t = Map.empty" "maxBound t = None"
    and "list_all op_plain ops" "inj_on enc (\<Union>x \<in> set ops. set_storage_op x)"
    and "''maxBound'' \<notin> enc ` (\<Union>x \<in> set ops. set_storage_op x)"
  shows "\<exists>rs ds' t'. mapM (sqlite_step st) (map (map_storage_op enc) ops) ds = (Inr rs, ds') \<and>
    mapM memory_step ops t = (Inr rs, t') \<and>
    (\<forall>other. (os_cgID other, os_opID other) \<noteq> (os_cgID st, os_opID st) \<longrightarrow> stored_state ds' other = stored_state ds other)"
proof -
  let ?K = "\<Union>x \<in> set ops. set_storage_op x" and ?ops = "map (map_storage_op enc) ops"
  have "list_all sqlite_allowed ?ops"
    using assms(5,7) by (auto simp: list_all_iff sqlite_allowed_def op_plain_map storage_op.set_map)
  then obtain ds' where run: "mapM (sqlite_step st) ?ops ds = (Inr (spec_run ?ops (sqlite_view st ds)), ds')"
    using sqlite.run_view [OF assms(1)] by blast
  obtain t' where mem: "mapM memory_step ops t = (Inr (spec_run ops (states t, maxBound t)), t')"
    using memory.run_view [where s = t and xs = ops] by (auto simp: list_all_iff)
  have "spec_run ?ops (sqlite_view st ds) = spec_run ops (states t, maxBound t)"
    by (rule view_matches_run [OF _ assms(6)]) (auto simp: view_matches_def assms(2-4))
  with run mem sqlite_run_other [OF run] show ?thesis by auto
qed

text \<open>A new storage of a client group is empty, and the operators of the group get different addresses.\<close>

lemma new_storage_is_empty:
  assumes "CreateClientGroupStorage cgID ds = (Inr cgs, ds')" "CreateStorage cgs = (st, cgs')"
  shows "sqlite_view st ds' = (Map.empty, None) \<and> ds_open ds' \<and>
    (\<forall>other. os_cgID other \<noteq> cgID \<longrightarrow> stored_state ds' other = stored_state ds other)"
proof -
  have rows: "ds_rows ds' = filter (\<lambda>((c, _, _), _). c \<noteq> cgID) (ds_rows ds)" "ds_open ds'" "os_cgID st = cgID"
    using assms by (auto simp: CreateClientGroupStorage_def clear_group_def checkpoint_def CreateStorage_def bindM_split split: if_splits)
  have "map_of (filter (\<lambda>((c, _, _), _). c \<noteq> cgID) kvs) (c, p, k) = (if c = cgID then None else map_of kvs (c, p, k))"
    for kvs :: "((string \<times> int \<times> string) \<times> json) list" and c p k
    by (induction kvs) auto
  with rows show ?thesis by (auto simp: sqlite_view_def stored_state_def fun_eq_iff)
qed

lemma storages_differ: "CreateStorage cgs = (st, cgs') \<Longrightarrow> CreateStorage cgs' = (st', cgs'') \<Longrightarrow> os_opID st' = os_opID st + 1"
  by (auto simp: CreateStorage_def)

section \<open>Witness\<close>

definition demo_take :: Take where
  "demo_take = \<lparr>states = Map.empty, maxBound = None, take_schema = item_schema, take_limit = 2, partitionKey = [],
     rowHiddenFromFetch = None, take_output = ThrowOutput\<rparr>"

definition demo_ops :: "state_key storage_op list" where
  "demo_ops = [OpGet (Some [JStr ''take'']), OpSet (Some [JStr ''take'']) \<lparr>Size = 1, Bound = Some [''id'' \<mapsto> VStr ''a'']\<rparr>,
     OpSetMax [''id'' \<mapsto> VStr ''a''], OpGet (Some [JStr ''take'']), OpGetMax]"

theorem sqlite_storage_refines_memory_witness:
  "\<exists>ds'. mapM (sqlite_step \<lparr>os_cgID = ''q1'', os_opID = 1\<rparr>) (map (map_storage_op (\<lambda>_. ''take'')) demo_ops)
      (NewDatabaseStorage []) = (Inr [RState None, RUnit, RUnit,
        RState (Some \<lparr>Size = 1, Bound = Some [''id'' \<mapsto> VStr ''a'']\<rparr>), RRow (Some [''id'' \<mapsto> VStr ''a''])], ds')"
proof -
  let ?st = "\<lparr>os_cgID = ''q1'', os_opID = 1\<rparr>"
  have "ds_open (NewDatabaseStorage [])" "sqlite_view ?st (NewDatabaseStorage []) = (Map.empty, None)"
    by (simp_all add: NewDatabaseStorage_def sqlite_view_def stored_state_def fun_eq_iff)
  moreover have "states demo_take = Map.empty" "maxBound demo_take = None" by (simp_all add: demo_take_def)
  moreover have "list_all op_plain demo_ops" by (simp add: demo_ops_def row_plain_def)
  moreover have "inj_on (\<lambda>_. ''take'') (\<Union>x \<in> set demo_ops. set_storage_op x)" by (auto simp: demo_ops_def inj_on_def)
  moreover have "''maxBound'' \<notin> (\<lambda>_. ''take'') ` (\<Union>x \<in> set demo_ops. set_storage_op x)" by (auto simp: demo_ops_def)
  ultimately obtain rs ds' t' where run: "mapM (sqlite_step ?st) (map (map_storage_op (\<lambda>_. ''take'')) demo_ops) (NewDatabaseStorage []) = (Inr rs, ds')"
    "mapM memory_step demo_ops demo_take = (Inr rs, t')"
    using sqlite_storage_refines_memory [of "NewDatabaseStorage []" ?st demo_take demo_ops "\<lambda>_. ''take''"] by blast
  from run(2) have "rs = [RState None, RUnit, RUnit, RState (Some \<lparr>Size = 1, Bound = Some [''id'' \<mapsto> VStr ''a'']\<rparr>),
      RRow (Some [''id'' \<mapsto> VStr ''a''])]"
    by (simp add: demo_ops_def demo_take_def SetTakeState_def SetMaxBound_def GetMaxBound_def)
  with run(1) show ?thesis by blast
qed

end
