(* ===== verification/Teardown.thy ===== *)
theory Teardown
  imports Builder Frames
begin

text \<open>
  Taking pipelines apart ends.  Operators are wired to older operators only: every constructor keeps
  this, so does the builder, and no push or fetch rewires.  Hence the bound of \<open>Destroy\<close>, the number of
  operators, is enough, and the result does not depend on it.
\<close>

section \<open>Wiring\<close>

text \<open>The operators that \<open>Destroy\<close> goes on to.\<close>

fun wired_to :: "oper \<Rightarrow> opid list" where
  "wired_to (OpSkip i) = [i]"
| "wired_to (OpFilterStart i) = [i]"
| "wired_to (OpFilter i) = [i]"
| "wired_to (OpExists i) = [i]"
| "wired_to (OpFanOut i) = [i]"
| "wired_to (OpFanIn is) = is"
| "wired_to (OpFilterEnd start i) = [i]"
| "wired_to (OpTake i) = [i]"
| "wired_to (OpJoin p c) = [p, c]"
| "wired_to (OpFlipped p c) = [p, c]"
| "wired_to (OpUnionFanOut i) = [i]"
| "wired_to (OpUnionFanIn is) = is"
| "wired_to _ = []"

definition wired_back :: "world \<Rightarrow> bool" where
  "wired_back w \<longleftrightarrow> (\<forall>i. \<forall>j \<in> set (wired_to (kind w i)). j < i)"

lemma wired_back_empty: "wired_back empty_world"
  by (simp add: wired_back_def empty_world_def)

section \<open>Destruction ends\<close>

lemma keeps_Destroy: "keeps kind (Destroy n i)"
proof (induction n arbitrary: i)
  case (Suc n)
  show ?case
    unfolding Destroy.simps by (intro keep keeps_updM Suc; simp add: heap_defs)
qed (simp add: keep)

text \<open>Two runs agree and do not exhaust their bounds.\<close>

definition settled :: "(panic, 's, 'a) exec \<Rightarrow> (panic, 's, 'a) exec \<Rightarrow> 's \<Rightarrow> bool" where
  "settled m m' w \<longleftrightarrow> m w = m' w \<and> fst (m w) \<noteq> Inl OutOfFuel"

lemma settled_bindM:
  assumes "settled m m' w" "\<And>x w'. m w = (Inr x, w') \<Longrightarrow> settled (f x) (f' x) w'"
  shows "settled (bindM m f) (bindM m' f') w"
proof -
  obtain r w' where m: "m w = (r, w')" by force
  with assms(1) have m': "m' w = (r, w')" "r \<noteq> Inl OutOfFuel" by (auto simp: settled_def)
  show ?thesis
  proof (cases r)
    case (Inl e)
    with m m' show ?thesis by (simp add: settled_def)
  next
    case (Inr x)
    with m have "settled (f x) (f' x) w'" by (intro assms(2)) simp
    with m m' Inr show ?thesis by (auto simp: settled_def)
  qed
qed

lemma settled_same: "fst (m w) \<noteq> Inl OutOfFuel \<Longrightarrow> settled m m w"
  by (simp add: settled_def)

lemma settled_liftM: "r \<noteq> Inl OutOfFuel \<Longrightarrow> settled (liftM r) (liftM r) w"
  by (simp add: settled_def)

lemma settled_getM: "settled (f (g w)) (f' (g w)) w \<Longrightarrow> settled (bindM (getM g) f) (bindM (getM g) f') w"
  by (auto simp: settled_def bindM_split)

lemma settled_forM:
  assumes "\<And>j w'. j \<in> set js \<Longrightarrow> r w' = r w \<Longrightarrow> settled (f j) (g j) w'" "\<And>j. keeps r (f j)"
  shows "settled (forM f js) (forM g js) w"
  using assms(1)
proof (induction js arbitrary: w)
  case (Cons j js)
  show ?case unfolding forM.simps
  proof (rule settled_bindM)
    show "settled (f j) (g j) w" using Cons.prems by simp
    fix x w' assume "f j w = (Inr x, w')"
    then have "r w' = r w" using assms(2) keepsD by metis
    with Cons show "settled (forM f js) (forM g js) w'" by simp
  qed
qed (simp add: settled_def)

lemma settled_fan:
  assumes "\<And>w'. kind w' = kind w \<Longrightarrow> settled m m' w'" "r \<noteq> Inl OutOfFuel" "\<And>x w. kind (wr p x w) = kind w"
  shows "settled (bindM (liftM r) (\<lambda>(last, fo). thenM (updM p (\<lambda>_. fo)) (if last then m else retM ())))
    (bindM (liftM r) (\<lambda>(last, fo). thenM (updM p (\<lambda>_. fo)) (if last then m' else retM ()))) w"
  using assms(2) by (intro settled_bindM) (auto intro!: settled_bindM settled_same assms(1) simp: assms(3))

lemma Destroy_settled:
  assumes "wired_back w" "i < n" "i < k"
  shows "settled (Destroy n i) (Destroy k i) w"
  using assms
proof (induction i arbitrary: n k w rule: less_induct)
  case (less i)
  obtain n' k' where nk: "n = Suc n'" "k = Suc k'" using less.prems by (cases n; cases k) auto
  have sub: "settled (Destroy n' j) (Destroy k' j) w'" if "j \<in> set (wired_to (kind w i))" "kind w' = kind w" for j w'
  proof -
    have "j < i" using that(1) less.prems(1) by (auto simp: wired_back_def)
    moreover have "wired_back w'" using that(2) less.prems(1) by (simp add: wired_back_def)
    ultimately show ?thesis using less.IH less.prems nk by simp
  qed
  have two: "settled (thenM (Destroy n' a) (Destroy n' b)) (thenM (Destroy k' a) (Destroy k' b)) w"
    if "{a, b} \<subseteq> set (wired_to (kind w i))" for a b
  proof (rule settled_bindM)
    show "settled (Destroy n' a) (Destroy k' a) w" using that sub by simp
    fix x w' assume "Destroy n' a w = (Inr x, w')"
    then have "kind w' = kind w" by (rule keepsD [OF keeps_Destroy])
    then show "settled (Destroy n' b) (Destroy k' b) w'" using that sub by simp
  qed
  have fans: "FanOut_Destroy fo \<noteq> Inl OutOfFuel" "UnionFanOut_Destroy uo \<noteq> Inl OutOfFuel" for fo uo
    by (simp_all add: FanOut_Destroy_def UnionFanOut_Destroy_def Let_def)
  show ?case
    unfolding nk Destroy.simps
    by (rule settled_bindM, simp add: settled_def, cases "kind w i")
      (auto simp: heap_defs settled_same intro!: sub two settled_forM [where r = kind] settled_getM settled_fan fans keeps_Destroy)
qed

section \<open>Building keeps the wiring\<close>

text \<open>
  \<open>grows P M n m Q\<close>: where the invariant holds and the number of operators \<open>M\<close> is at least \<open>n\<close>, \<open>m\<close>
  keeps the invariant, whatever its outcome, and does not lessen the number; what it returns satisfies
  \<open>Q\<close> for the number it ends with.
\<close>

definition grows ::
  "('s \<Rightarrow> bool) \<Rightarrow> ('s \<Rightarrow> nat) \<Rightarrow> nat \<Rightarrow> ('e, 's, 'a) exec \<Rightarrow> (nat \<Rightarrow> 'a \<Rightarrow> bool) \<Rightarrow> bool"
where
  "grows P M n m Q \<longleftrightarrow> (\<forall>s. P s \<longrightarrow> n \<le> M s \<longrightarrow>
     P (snd (m s)) \<and> M s \<le> M (snd (m s)) \<and> (\<forall>x. fst (m s) = Inr x \<longrightarrow> Q (M (snd (m s))) x))"

abbreviation any :: "nat \<Rightarrow> 'a \<Rightarrow> bool" where
  "any \<equiv> \<lambda>_ _. True"

abbreviation older :: "nat \<Rightarrow> opid \<Rightarrow> bool" where
  "older \<equiv> \<lambda>k i. i < k"

abbreviation all_older :: "nat \<Rightarrow> opid list \<Rightarrow> bool" where
  "all_older \<equiv> \<lambda>k is. \<forall>i\<in>set is. i < k"

lemma growsI:
  assumes "\<And>s r s'. P s \<Longrightarrow> n \<le> M s \<Longrightarrow> m s = (r, s') \<Longrightarrow> P s' \<and> M s \<le> M s' \<and> (\<forall>x. r = Inr x \<longrightarrow> Q (M s') x)"
  shows "grows P M n m Q"
  unfolding grows_def using assms by (metis prod.collapse)

lemma growsD:
  assumes "grows P M n m Q" "P s" "n \<le> M s" "m s = (r, s')"
  shows "P s'" "M s \<le> M s'" "r = Inr x \<Longrightarrow> Q (M s') x"
  using assms unfolding grows_def by (metis fst_conv snd_conv)+

lemma grows_bindM:
  assumes "grows P M n m Q" "\<And>x k. n \<le> k \<Longrightarrow> Q k x \<Longrightarrow> grows P M k (f x) R"
  shows "grows P M n (bindM m f) R"
proof (rule growsI)
  fix s r t assume s: "P s" "n \<le> M s" and run: "bindM m f s = (r, t)"
  obtain q s' where m: "m s = (q, s')" by force
  note g = growsD [OF assms(1) s m]
  show "P t \<and> M s \<le> M t \<and> (\<forall>x. r = Inr x \<longrightarrow> R (M t) x)"
  proof (cases q)
    case (Inl e)
    with m run g show ?thesis by auto
  next
    case (Inr x)
    with m run have fx: "f x s' = (r, t)" by simp
    have "n \<le> M s'" "Q (M s') x" using g(2,3) Inr s(2) by auto
    then have "grows P M (M s') (f x) R" by (rule assms(2))
    from growsD [OF this g(1) _ fx] g(2) show ?thesis by auto
  qed
qed

lemma grows_retM: "(\<And>k. n \<le> k \<Longrightarrow> Q k x) \<Longrightarrow> grows P M n (retM x) Q"
  by (simp add: grows_def)

lemma grows_failM: "grows P M n (failM e) Q"
  by (simp add: grows_def)

lemma grows_post: "grows P M n m Q \<Longrightarrow> (\<And>k x. n \<le> k \<Longrightarrow> Q k x \<Longrightarrow> R k x) \<Longrightarrow> grows P M n m R"
  unfolding grows_def by (meson order_trans)

lemma grows_foldM:
  assumes "\<And>x b k. x \<in> set xs \<Longrightarrow> n \<le> k \<Longrightarrow> Q k b \<Longrightarrow> grows P M k (f x b) Q" "Q n b"
    and mono: "\<And>j k b. Q j b \<Longrightarrow> j \<le> k \<Longrightarrow> Q k b"
  shows "grows P M n (foldM f xs b) Q"
  using assms(1,2)
proof (induction xs arbitrary: n b)
  case (Cons x xs)
  show ?case unfolding foldM.simps
  proof (rule grows_bindM)
    show "grows P M n (f x b) Q" using Cons.prems by simp
    fix y k assume "n \<le> k" "Q k y"
    then show "grows P M k (foldM f xs y) Q" using Cons.prems(1) by (intro Cons.IH) auto
  qed
qed (auto intro: grows_retM mono)

lemma grows_mapM:
  assumes "\<And>x k. x \<in> set xs \<Longrightarrow> n \<le> k \<Longrightarrow> grows P M k (f x) older"
  shows "grows P M n (mapM f xs) all_older"
  using assms
proof (induction xs arbitrary: n)
  case (Cons x xs)
  show ?case unfolding mapM.simps
  proof (rule grows_bindM)
    show "grows P M n (f x) older" using Cons.prems by simp
    fix y k assume k: "n \<le> k" "y < k"
    show "grows P M k (bindM (mapM f xs) (\<lambda>ys. retM (y # ys))) all_older"
      by (rule grows_bindM [OF Cons.IH]) (use k Cons.prems in \<open>auto intro!: grows_retM intro: less_le_trans\<close>)
  qed
qed (simp add: grows_retM)


text \<open>The wiring is read from the types of the operators and their number.\<close>

definition graph :: "world \<Rightarrow> (opid \<Rightarrow> oper) \<times> opid" where
  "graph w = (kind w, next_op w)"

abbreviation builds :: "nat \<Rightarrow> (panic, world, 'a) exec \<Rightarrow> (nat \<Rightarrow> 'a \<Rightarrow> bool) \<Rightarrow> bool" where
  "builds \<equiv> grows wired_back next_op"

lemma graph_heap:
  "graph (wr (source_at i) a w) = graph w" "graph (wr (input_at i) b w) = graph w" "graph (wr (skip_at i) c w) = graph w"
  "graph (wr (fstart_at i) d w) = graph w" "graph (wr (filter_at i) e w) = graph w" "graph (wr (exists_at i) f w) = graph w"
  "graph (wr (fanout_at i) g w) = graph w" "graph (wr (fanin_at i) h w) = graph w" "graph (wr (fend_at i) l w) = graph w"
  "graph (wr (take_at i) p w) = graph w" "graph (wr (join_at i) q w) = graph w" "graph (wr (flipped_at i) r w) = graph w"
  "graph (wr (ufanout_at i) s w) = graph w" "graph (wr (ufanin_at i) t w) = graph w" "graph (wr streamer_at u w) = graph w"
  by (simp_all add: graph_def heap_defs input_at_def)

lemma unwritten_graph: "unwritten graph"
  by (simp add: unwritten_def graph_heap)

lemma builds_keeps:
  assumes "keeps graph m" "\<And>k x. Q k x"
  shows "builds n m Q"
proof (rule growsI)
  fix w r w' assume "wired_back w" "m w = (r, w')"
  with keepsD [OF assms(1)] have "kind w' = kind w" "next_op w' = next_op w" "wired_back w" by (auto simp: graph_def)
  with assms(2) show "wired_back w' \<and> next_op w \<le> next_op w' \<and> (\<forall>x. r = Inr x \<longrightarrow> Q (next_op w') x)"
    by (simp add: wired_back_def)
qed

lemma keeps_outputs:
  "keeps graph (schema_of i)" "keeps graph (SetOutput i out)" "keeps graph (SetFilterOutput i out)"
  unfolding schema_of_def SetOutput_def SetFilterOutput_def
  by (intro keep keeps_updM graph_heap)+

lemma keeps_Destroy_graph: "keeps graph (Destroy n i)"
proof (induction n arbitrary: i)
  case (Suc n)
  show ?case
    unfolding Destroy.simps by (intro keep keeps_updM Suc graph_heap)
qed (simp add: keep)

lemma builds_alloc:
  assumes "\<forall>j\<in>set (wired_to k). j < n"
  shows "builds n (alloc (\<lambda>_. k)) older"
  using assms by (auto simp: grows_def alloc_def wired_back_def split: if_splits)

text \<open>A step that hooks into an input, then returns the new operator.\<close>

lemma builds_then:
  assumes "keeps graph m" "i < n"
  shows "builds n (thenM m (retM i)) older"
  by (intro grows_bindM [where Q = any] builds_keeps assms(1) grows_retM) (use assms(2) in auto)

lemma builds_new_at:
  assumes "\<forall>j\<in>set (wired_to k). j < n" "\<And>i x w. graph (wr (ref i) x w) = graph w"
  shows "builds n (new_at ref k c) older"
  unfolding new_at_def
  by (rule grows_bindM [OF builds_alloc [OF assms(1)]]) (simp add: builds_then keeps_updM assms(2))

lemma builds_sources:
  "builds n (connect_source t order predicate splitKeys) older"
proof -
  have retype: "builds n (modM (\<lambda>w. w\<lparr>kind := (kind w)(i := OpSource t c)\<rparr>)) any" for n i c
    by (auto simp: grows_def wired_back_def)
  have rest: "builds n (thenM (updM (source_at t) (\<lambda>_. ms)) (thenM (updM (input_at i) (\<lambda>_. si))
      (thenM (modM (\<lambda>w. w\<lparr>kind := (kind w)(i := OpSource t c)\<rparr>)) (retM i)))) older" if "i < n" for n i c si ms
    by (intro grows_bindM [where Q = any] retype grows_retM; (rule builds_keeps)?)
      (use that in \<open>auto simp: keeps_updM graph_heap\<close>)
  show ?thesis
    unfolding connect_source_def
    by (rule grows_bindM [OF builds_alloc], simp, rule grows_bindM [where Q = any])
      (auto intro!: rest builds_keeps keep split: prod.splits)
qed

lemma builds_new:
  assumes "i < n"
  shows "builds n (new_skip i bound ex) older" "builds n (new_filter_start i) older" "builds n (new_filter i pr) older"
    "builds n (new_exists i name key ty) older" "builds n (new_fan_out i) older" "builds n (new_take i limit pk) older"
  unfolding new_skip_def new_filter_start_def new_filter_def new_exists_def new_fan_out_def new_take_def
  using assms
  by (intro grows_bindM [where Q = any] builds_keeps grows_bindM [where Q = older] builds_new_at builds_then keep keeps_outputs graph_heap; auto)+


lemma builds_new_more:
  "\<forall>i\<in>set is. i < n \<Longrightarrow> builds n (new_fan_in fanOut is) older"
  "s < n \<Longrightarrow> i < n \<Longrightarrow> builds n (new_filter_end s i) older"
  "p < n \<Longrightarrow> c < n \<Longrightarrow> builds n (new_join p c pk ck name hidden scalar system) older"
proof -
  have outs: "keeps graph (forM (\<lambda>j. SetFilterOutput j out) is)" for out by (intro keep keeps_outputs)
  show "\<forall>i\<in>set is. i < n \<Longrightarrow> builds n (new_fan_in fanOut is) older"
    unfolding new_fan_in_def
    by (intro grows_bindM [where Q = any] builds_keeps grows_bindM [where Q = older] builds_new_at builds_then keep outs graph_heap) auto
  show "s < n \<Longrightarrow> i < n \<Longrightarrow> builds n (new_filter_end s i) older"
    unfolding new_filter_end_def
    by (intro grows_bindM [where Q = any] builds_keeps grows_bindM [where Q = older] builds_new_at builds_then keep keeps_outputs graph_heap) auto
  assume pc: "p < n" "c < n"
  have wire: "builds k (thenM (SetOutput p o1) (thenM (SetOutput c o2) (retM i))) older" if "i < k" for i k o1 o2
    by (intro grows_bindM [where Q = any, OF builds_keeps] builds_then keeps_outputs) (use that in auto)
  show "builds n (new_join p c pk ck name hidden scalar system) older"
    unfolding new_join_def
    by (intro grows_bindM [where Q = any] builds_keeps grows_bindM [where Q = older] builds_new_at wire keep keeps_outputs graph_heap)
      (use pc in auto)
qed

lemma builds_filters:
  assumes "i < n"
  shows "builds n (applySimpleFilter uc cond i) older" "builds n (applyCorrelatedSubqueryCondition cond i) older"
proof -
  show "builds n (applySimpleFilter uc cond i) older"
    unfolding applySimpleFilter_def
    by (intro grows_bindM [where Q = any] builds_keeps builds_new keep) (use assms in auto)
  show "builds n (applyCorrelatedSubqueryCondition cond i) older"
    unfolding applyCorrelatedSubqueryCondition_def
    using assms by (auto intro!: builds_new grows_retM split: option.split)
qed

lemma builds_or_branches:
  assumes "\<And>c k. c \<in> set ss \<Longrightarrow> n \<le> k \<Longrightarrow> builds k (branch c i) older" "i < n"
  shows "builds n (or_branches uc branch ss sim i) all_older"
  unfolding or_branches_def
proof (rule grows_bindM)
  show "builds n (mapM (\<lambda>c. branch c i) ss) all_older" by (intro grows_mapM assms(1))
  fix bs k assume bs: "n \<le> k" "all_older k bs"
  have "builds k (bindM (applySimpleFilter uc (compound ''or'' sim) i) (\<lambda>f. retM (bs @ [f]))) all_older"
    by (rule grows_bindM [OF builds_filters(1)])
      (use assms(2) bs in \<open>auto intro!: grows_retM dest!: bspec [of "set bs"]\<close>)
  then show "builds k (if sim = [] then retM bs
      else bindM (applySimpleFilter uc (compound ''or'' sim) i) (\<lambda>f. retM (bs @ [f]))) all_older"
    using bs by (auto intro!: grows_retM intro: less_le_trans)
qed

lemma builds_close_fan:
  assumes "all_older n bs"
  shows "builds n (close_fan fanOut bs) older"
  unfolding close_fan_def
  by (rule grows_bindM [OF builds_new_more(1) [OF assms]]) (intro builds_then keeps_updM graph_heap)

lemma builds_chain: "i < n \<Longrightarrow> builds n (applyFilterChain uc cond i) older"
proof (induction uc cond i arbitrary: n rule: applyFilterChain.induct)
  case (1 uc cond i)
  have fan: "builds n (bindM (new_fan_out i) (\<lambda>fanOut.
      bindM (or_branches uc (applyFilterChain uc) (fst (groupSubqueryConditions cond)) (snd (groupSubqueryConditions cond)) fanOut)
        (close_fan fanOut))) older" if "cond_type cond = ''or''" "fst (groupSubqueryConditions cond) \<noteq> []"
    by (rule grows_bindM [OF builds_new(5) [OF "1.prems"]], rule grows_bindM [OF builds_or_branches])
      (use "1.IH" that in \<open>auto intro: builds_close_fan\<close>)
  show ?case
    unfolding applyFilterChain.simps [of uc cond]
    using fan "1.IH" "1.prems" by (auto intro!: grows_foldM builds_filters grows_failM)
qed


section \<open>Building a pipeline\<close>

lemma builds_steps:
  assumes "i < n"
  shows "builds n (build_skip d ast i) older" "builds n (build_filter d ast i) older" "builds n (build_take ast pk i) older"
proof -
  show "builds n (build_skip d ast i) older"
    unfolding build_skip_def using assms
    by (auto intro!: grows_retM grows_failM grows_bindM [where Q = any, OF builds_keeps] builds_new keep split: option.split)
  have chain: "builds n (bindM (new_filter_start i) (\<lambda>s. bindM (applyFilterChain lower cond s) (new_filter_end s))) older"
    for lower cond
    by (rule grows_bindM [OF builds_new(2) [OF assms]], rule grows_bindM [OF builds_chain])
      (auto intro!: builds_new_more)
  show "builds n (build_filter d ast i) older"
    unfolding build_filter_def using assms chain by (auto intro!: grows_retM split: option.split)
  show "builds n (build_take ast pk i) older"
    unfolding build_take_def using assms by (auto intro!: grows_retM builds_new split: option.split)
qed

lemma builds_joins:
  assumes "i < n"
  shows "(\<And>q. cond_related c = Some q \<Longrightarrow> builds n (build (set_limit existsLimit (csq_subquery q)) (ChildField (csq_correlation q))) older) \<Longrightarrow>
      builds n (build_exists_join build c i) older"
    "builds n (build (csq_subquery (snd e)) (ChildField (csq_correlation (snd e)))) older \<Longrightarrow> builds n (build_related_join build e i) older"
proof -
  have join: "builds n (bindM m (\<lambda>child. new_join i child x1 x2 x3 x4 x5 x6)) older" if "builds n m older" for m x1 x2 x3 x4 x5 x6
    by (rule grows_bindM [OF that]) (use assms in \<open>auto intro!: builds_new_more\<close>)
  show "(\<And>q. cond_related c = Some q \<Longrightarrow> builds n (build (set_limit existsLimit (csq_subquery q)) (ChildField (csq_correlation q))) older) \<Longrightarrow>
      builds n (build_exists_join build c i) older"
    unfolding build_exists_join_def using assms join by (auto intro!: grows_retM split: option.split)
  show "builds n (build (csq_subquery (snd e)) (ChildField (csq_correlation (snd e)))) older \<Longrightarrow> builds n (build_related_join build e i) older"
    unfolding build_related_join_def by (rule join)
qed

lemma builds_build_source: "builds n (build_source d ast pk) older"
  unfolding build_source_def
  by (auto intro!: grows_failM grows_bindM [where Q = any, OF builds_keeps] builds_sources keep split: option.split)

theorem builds_pipeline: "builds n (buildPipelineInternal d ast pk) older"
proof (induction ast arbitrary: n pk rule: measure_induct_rule [where f = nesting])
  case (less ast)
  have exists: "builds k (foldM (build_exists_join (buildPipelineInternal d)) (gather_where (rewritten d ast)) i) older" if "i < k" for i k
    by (rule grows_foldM) (use that in \<open>auto intro!: builds_joins less child_smaller\<close>)
  have related: "builds k (foldM (build_related_join (buildPipelineInternal d)) (dedupe_related (ast_Related (rewritten d ast))) i) older"
    if "i < k" for i k
    by (rule grows_foldM) (use that in \<open>auto intro!: builds_joins less related_child_smaller\<close>)
  show ?case
    unfolding buildPipelineInternal.simps [of d ast]
    by (intro grows_bindM [where Q = older] builds_build_source builds_steps exists related)
qed

lemma builds_BuildPipeline: "builds n (BuildPipeline d ast) older"
  unfolding BuildPipeline_def by (rule builds_pipeline)

end
