(* ===== verification/Removal.thy ===== *)
theory Removal
  imports Teardown Serving
begin

text \<open>
  Queries can always be removed.  Whatever calls an engine has served, and however they ended, its
  pipelines are wired to older operators only; so \<open>RemoveQuery\<close> and \<open>Close\<close> come to an end.
\<close>

section \<open>Frames of the engine's runs\<close>

lemma keeps_goroutine [keep]: "keeps f m \<Longrightarrow> keeps f (goroutine m)"
  by (simp add: keeps_def goroutine_def split: prod.splits sum.splits) (metis snd_conv)

lemma keeps_spawn_all [keep]: "(\<And>x. keeps f (g x)) \<Longrightarrow> keeps f (spawn_all g xs)"
  by (induction xs) (auto intro!: keep)

lemma keeps_source_push:
  assumes "\<And>out ch me. keeps f (push out ch me)" "\<And>x s. f (wr p x s) = f s"
  shows "keeps f (MemorySource_Push sched p push ch)"
proof -
  have stored: "keeps f (writeChange p c)" for c
    by (cases c) (auto intro!: keep keeps_stepM assms(2))
  have conn: "keeps f (push_connection p push ep c cid)" "keeps f (run_connection p push c cid)" for ep c cid
    unfolding push_connection_def run_connection_def Let_def by (intro keep keeps_updM assms)+
  have gen: "keeps f (genPush p push c)" "keeps f (GenPushParallel sched p push c)" for c
    unfolding genPush_def GenPushParallel_def by (intro keep keeps_updM keeps_deferM conn assms(2))+
  show ?thesis
    unfolding MemorySource_Push_def genPushAndWriteParallel_def genPushAndWriteWithSplitEdit_def genPushAndWrite_def
    by (intro keep stored gen)
qed

lemma keeps_collectM_set: "(\<And>x. x \<in> set xs \<Longrightarrow> keeps f (g x)) \<Longrightarrow> keeps f (collectM g xs)"
  by (induction xs) (auto intro!: keep)

lemma keeps_streamNodes:
  assumes "\<And>t. keeps f (force t)"
  shows "keeps f (streamNodes force q sch ty nd)"
  using assms
proof (induction force q sch ty nd rule: streamNodes.induct)
  case (1 force queryID schema ty node)
  have "keeps f (case map_of (SchemaRelationships schema) name of None \<Rightarrow> retM []
      | Some childSchema \<Rightarrow> bindM (force t) (collectM (streamNodes force queryID childSchema ty)))"
    if "(name, t) \<in> set (Relationships node)" "System schema \<noteq> ''permissions''" for name t
    using "1.IH" [OF that(2,1) refl] "1.prems" by (auto intro!: keep keeps_collectM_set split: option.split)
  then show ?case
    unfolding streamNodes.simps [of force queryID schema ty node]
    by (auto intro!: keeps_bindM keeps_pure keeps_collectM_set)
qed

lemma keeps_Stream:
  assumes "\<And>t. keeps f (force t)" "\<And>x s. f (wr p x s) = f s"
  shows "keeps f (Stream p force)"
proof -
  have change: "keeps f (streamChange force q sch ch)" for q sch ch
    using assms(1) by (induction force q sch ch rule: streamChange.induct)
      (auto intro!: keep keeps_streamNodes split: option.split)
  show ?thesis
    unfolding Stream_def streamChanges_def by (intro keep keeps_updM change assms(2))
qed


section \<open>The engine stays wired\<close>

definition entry_inputs :: "pipelineEntry \<Rightarrow> opid list" where
  "entry_inputs entry = pe_input entry # map ce_input (pe_companions entry)"

definition engine_wired :: "Engine \<Rightarrow> bool" where
  "engine_wired e \<longleftrightarrow> wired_back (heap e) \<and>
     (\<forall>(q, entry) \<in> set (pipelines e). all_older (next_op (heap e)) (entry_inputs entry))"

abbreviation engine_size :: "Engine \<Rightarrow> nat" where
  "engine_size \<equiv> \<lambda>e. next_op (heap e)"

abbreviation serves :: "nat \<Rightarrow> (panic, Engine, 'a) exec \<Rightarrow> (nat \<Rightarrow> 'a \<Rightarrow> bool) \<Rightarrow> bool" where
  "serves \<equiv> grows engine_wired engine_size"

lemma serves_on_heap:
  assumes "builds n m Q"
  shows "serves n (on_heap m) Q"
proof (rule growsI)
  fix e r e' assume e: "engine_wired e" "n \<le> next_op (heap e)" and "on_heap m e = (r, e')"
  then obtain w' where run: "m (heap e) = (r, w')" and e': "e' = e\<lparr>heap := w'\<rparr>"
    by (auto simp: onM_def heap_at_def split: prod.splits)
  have "wired_back (heap e)" using e(1) by (simp add: engine_wired_def)
  note g = growsD [OF assms this e(2) run]
  have "all_older (next_op w') (entry_inputs entry)" if "(q, entry) \<in> set (pipelines e)" for q entry
    using that e(1) g(2) unfolding engine_wired_def by (metis (mono_tags, lifting) case_prodD less_le_trans)
  with g show "engine_wired e' \<and> next_op (heap e) \<le> next_op (heap e') \<and> (\<forall>x. r = Inr x \<longrightarrow> Q (next_op (heap e')) x)"
    by (auto simp: engine_wired_def e')
qed

lemma builds_fetch: "builds n (fetch_all k i) any" "builds n (node_rows k q sn) any"
  unfolding fetch_all_def node_rows_def
  by (intro builds_keeps TrueI keeps_streamNodes calls_keepD [OF nested_keep [OF unwritten_graph]])+

text \<open>The executor of scalar subqueries, and a whole query.\<close>

definition companions_wired :: "world \<times> companionEntry list \<Rightarrow> bool" where
  "companions_wired s \<longleftrightarrow> wired_back (fst s) \<and> (\<forall>ce\<in>set (snd s). ce_input ce < next_op (fst s))"

lemma grows_companion:
  assumes "builds n m Q"
  shows "grows companions_wired (\<lambda>s. next_op (fst s)) n (onM fst_at m) Q"
proof (rule growsI)
  fix s r s' assume s: "companions_wired s" "n \<le> next_op (fst s)" and "onM fst_at m s = (r, s')"
  then obtain w' where run: "m (fst s) = (r, w')" and s': "s' = (w', snd s)"
    by (auto simp: onM_def split: prod.splits)
  have "wired_back (fst s)" using s(1) by (simp add: companions_wired_def)
  from growsD [OF assms this s(2) run] s show "companions_wired s' \<and> next_op (fst s) \<le> next_op (fst s') \<and>
      (\<forall>x. r = Inr x \<longrightarrow> Q (next_op (fst s')) x)"
    by (force simp: companions_wired_def s')
qed

lemma grows_executor: "grows companions_wired (\<lambda>s. next_op (fst s)) n (scalar_executor k d sq f) any"
proof -
  have push: "grows companions_wired (\<lambda>s. next_op (fst s)) n (thenM (updM snd_at (\<lambda>cs. cs @ [ce])) (retM x)) any"
    if "ce_input ce < n" for n ce x
    using that by (auto simp: grows_def companions_wired_def)
  show ?thesis
    unfolding scalar_executor_def
    by (rule grows_bindM [OF grows_companion [OF builds_BuildPipeline]],
        rule grows_bindM [OF grows_companion [where Q = any, OF builds_keeps [OF keeps_outputs(1)]]], simp,
        rule grows_bindM [OF grows_companion [OF builds_fetch(1)]]) (auto intro!: push)
qed


text \<open>Computations whose result does not matter.\<close>

named_theorems calm "rules for grows with any result"

lemma calm_bindM [calm]: "grows P M n m any \<Longrightarrow> (\<And>x k. n \<le> k \<Longrightarrow> grows P M k (f x) any) \<Longrightarrow> grows P M n (bindM m f) any"
  by (rule grows_bindM [where Q = any])

lemma calm_pure [calm]: "grows P M n (retM x) any" "grows P M n (failM e) any" "grows P M n (getM g) any"
    "grows P M n (liftM r) any" "grows P M n (askM p h) any"
  by (simp_all add: grows_def)

lemma calm_if [calm]: "(b \<Longrightarrow> grows P M n m any) \<Longrightarrow> (\<not> b \<Longrightarrow> grows P M n m' any) \<Longrightarrow> grows P M n (if b then m else m') any"
  by simp

lemma calm_prod [calm]: "(\<And>a b. grows P M n (f a b) any) \<Longrightarrow> grows P M n (case x of (a, b) \<Rightarrow> f a b) any"
  by (cases x) simp

lemma calm_mapM: "(\<And>x k. x \<in> set xs \<Longrightarrow> n \<le> k \<Longrightarrow> grows P M k (f x) any) \<Longrightarrow> grows P M n (mapM f xs) any"
  by (induction xs arbitrary: n) (auto intro!: calm)

lemma calm_forM: "(\<And>x k. x \<in> set xs \<Longrightarrow> n \<le> k \<Longrightarrow> grows P M k (f x) any) \<Longrightarrow> grows P M n (forM f xs) any"
  by (induction xs arbitrary: n) (auto intro!: calm)

lemma calm_spawn_all: "(\<And>x k. n \<le> k \<Longrightarrow> grows P M k (f x) any) \<Longrightarrow> grows P M n (spawn_all f xs) any"
proof (induction xs arbitrary: n)
  case (Cons x xs)
  have "grows P M k (goroutine (f x)) any" if "n \<le> k" for k
    using Cons.prems [OF that, of x] by (fastforce simp: grows_def goroutine_def split: prod.splits sum.splits)
  with Cons show ?case by (auto intro!: calm)
qed (simp add: calm)

lemma calm_resolve:
  assumes "\<And>sq f n. grows P M n (execute sq f) any"
  shows "grows P M n (resolveASTRecursive uk execute a) any" "grows P M n (resolve_related uk execute q) any"
    "grows P M n (resolveCondition uk execute c) any"
  using assms
proof (induction uk execute a and uk execute q and uk execute c arbitrary: n and n and n
    rule: resolveASTRecursive_resolve_related_resolveCondition.induct)
  case (1 uk execute sch t al w rels st li ob)
  then show ?case by (auto intro!: calm calm_mapM split: option.split)
next
  case (3 uk execute ty opr l r conds rel fl sc)
  then show ?case
    by (auto intro!: calm calm_mapM split: option.split CorrelatedSubquery.split)
qed (auto intro!: calm split: CorrelatedSubquery.split)

lemma builds_query: "builds n (build_query k d uk queryID ast) (\<lambda>j entry. all_older j (entry_inputs entry))"
proof (rule growsI)
  fix w r w' assume w: "wired_back w" "n \<le> next_op w" and run: "build_query k d uk queryID ast w = (r, w')"
  obtain q w1 cs where res: "ResolveSimpleScalarSubqueries uk (scalar_executor k d) ast (w, []) = (q, (w1, cs))"
    by (metis surj_pair)
  have "companions_wired (w, [])" using w by (simp add: companions_wired_def)
  from growsD [OF calm_resolve(1) [OF grows_executor] this _ res [unfolded ResolveSimpleScalarSubqueries_def], of n] w
  have w1: "wired_back w1" "\<forall>ce\<in>set cs. ce_input ce < next_op w1" "next_op w \<le> next_op w1"
    by (simp_all add: companions_wired_def)
  let ?finish = "\<lambda>ast'. bindM (BuildPipeline d ast') (\<lambda>i. bindM (schema_of i) (\<lambda>schema.
      retM \<lparr>pe_queryID = queryID, pe_input = i, pe_schema = schema, pe_companions = cs\<rparr>))"
  have later: "ce_input ce < j" if "ce \<in> set cs" "next_op w1 \<le> j" for ce j
    using w1(2) that less_le_trans by blast
  have fin: "builds (next_op w1) (?finish ast') (\<lambda>j entry. all_older j (entry_inputs entry))" for ast'
    by (rule grows_bindM [OF builds_BuildPipeline],
        rule grows_bindM [where Q = any, OF builds_keeps [OF keeps_outputs(1)]], simp)
      (auto simp: entry_inputs_def intro!: grows_retM later)
  show "wired_back w' \<and> next_op w \<le> next_op w' \<and> (\<forall>entry. r = Inr entry \<longrightarrow> all_older (next_op w') (entry_inputs entry))"
  proof (cases q)
    case (Inl e)
    with run res w1 show ?thesis by (auto simp: build_query_def)
  next
    case (Inr x)
    with run res have "?finish (fst x) w1 = (r, w')" by (simp add: build_query_def split: prod.splits)
    from growsD [OF fin w1(1) order_refl this] w1(3) show ?thesis by auto
  qed
qed


text \<open>Steps on the fields of the engine.\<close>

lemma serves_fields:
  "serves n (modM (\<lambda>e. e\<lparr>tableUniqueKeys := f e\<rparr>)) any" "serves n (modM (\<lambda>e. e\<lparr>registered := g e\<rparr>)) any"
  "serves n (modM (\<lambda>e. e\<lparr>closed := b\<rparr>)) any" "serves n (modM (\<lambda>e. e\<lparr>pipelines := del q (pipelines e)\<rparr>)) any"
  "serves n (modM (\<lambda>e. e\<lparr>pipelines := [], registered := [], tableUniqueKeys := []\<rparr>)) any"
  by (auto simp: grows_def engine_wired_def del_def)

lemma serves_put:
  assumes "all_older n (entry_inputs entry)"
  shows "serves n (modM (\<lambda>e. e\<lparr>pipelines := put q entry (pipelines e)\<rparr>)) any"
proof (rule growsI)
  fix e r e' assume e: "engine_wired e" "n \<le> next_op (heap e)"
    and run: "modM (\<lambda>e. e\<lparr>pipelines := put q entry (pipelines e)\<rparr>) e = (r, e')"
  have "all_older (next_op (heap e)) (entry_inputs entry)" using assms e(2) less_le_trans by blast
  then have "engine_wired (e\<lparr>pipelines := put q entry (pipelines e)\<rparr>)"
    using e(1) by (force simp: engine_wired_def dest!: subsetD [OF set_put])
  with run show "engine_wired e' \<and> next_op (heap e) \<le> next_op (heap e') \<and> (\<forall>x. r = Inr x \<longrightarrow> True)"
    by auto
qed

lemma builds_destroy: "builds n (destroy_entry entry) any"
  unfolding destroy_entry_def
  by (intro calm calm_forM) (auto intro!: builds_keeps keeps_Destroy_graph)

lemma serves_remove: "serves n (removeQueryLocked q) any"
  unfolding removeQueryLocked_def
  by (intro calm) (auto intro!: calm serves_on_heap builds_destroy serves_fields split: option.split)

lemma serves_build: "serves n (buildAndRegisterLocked k uc q ast) any"
proof -
  have wire: "builds j (wire_entry entry) any" for j entry
    unfolding wire_entry_def by (intro calm calm_forM builds_keeps TrueI keeps_outputs)
  show ?thesis
    unfolding buildAndRegisterLocked_def
    by (rule calm, rule calm, rule calm_prod, rule grows_bindM [OF serves_on_heap [OF builds_query]])
      (intro calm serves_put serves_on_heap wire; auto)
qed


lemma serves_hydrate: "builds n (hydrateEntry k entry) any" "builds n (hydrate_stream sz k entry) any"
proof -
  have collect: "builds j (collectM (node_rows k q) sns) any" for j q sns
    by (induction sns arbitrary: j) (auto intro!: calm builds_fetch)
  show "builds n (hydrateEntry k entry) any"
    unfolding hydrateEntry_def by (intro calm builds_fetch collect)
  have chunks: "builds j (hydrate_chunks sz (node_rows k q) q sns chunk i) any" for j q sns chunk i
    by (induction sz "node_rows k q" q sns chunk i arbitrary: j rule: hydrate_chunks.induct) (auto intro!: calm builds_fetch)
  show "builds n (hydrate_stream sz k entry) any"
    unfolding hydrate_stream_def by (intro calm builds_fetch chunks)
qed

lemma serves_calls:
  "serves n (SetTableUniqueKeys t keys) any" "serves n (RegisterMemorySource ms) any" "serves n (RemoveQuery q) any"
  "serves n Close any" "serves n (AddQuery k uc q ast) any" "serves n (AddQueries sched k uc queries) any"
  "serves n (AddQueriesStream sched sz k uc queries) any"
proof -
  show "serves n (SetTableUniqueKeys t keys) any"
    unfolding SetTableUniqueKeys_def by (auto intro!: calm serves_fields split: option.split)
  have source: "builds j (new_at source_at OpNone ms') any" for j ms'
    by (rule grows_post [OF builds_new_at]) (auto simp: graph_heap)
  show "serves n (RegisterMemorySource ms) any"
    unfolding RegisterMemorySource_def by (intro calm serves_on_heap source serves_fields)
  show "serves n (RemoveQuery q) any"
    unfolding RemoveQuery_def by (rule serves_remove)
  show "serves n Close any"
    unfolding Close_def by (intro calm calm_forM serves_on_heap builds_destroy serves_fields)
  show "serves n (AddQuery k uc q ast) any"
    unfolding AddQuery_def by (intro calm serves_remove serves_build serves_on_heap serves_hydrate)
  have build: "serves j (build_all k uc queries) any" for j
    unfolding build_all_def by (intro calm_mapM calm serves_remove serves_build)
  show "serves n (AddQueries sched k uc queries) any"
    unfolding AddQueries_def by (intro calm build serves_on_heap calm_spawn_all serves_hydrate)
  show "serves n (AddQueriesStream sched sz k uc queries) any"
    unfolding AddQueriesStream_def by (intro calm build serves_on_heap calm_spawn_all serves_hydrate)
qed

text \<open>An advance changes neither the wiring nor the pipelines.\<close>

definition plumbing :: "Engine \<Rightarrow> ((opid \<Rightarrow> oper) \<times> opid) \<times> (string \<times> pipelineEntry) list" where
  "plumbing e = (graph (heap e), pipelines e)"

lemma engine_wired_plumbing: "plumbing e' = plumbing e \<Longrightarrow> engine_wired e \<Longrightarrow> engine_wired e'"
  by (simp add: plumbing_def graph_def engine_wired_def wired_back_def)

lemma keeps_advance: "keeps (\<lambda>s. plumbing (fst s)) (advance_change sched n after change)"
  if "\<And>x. keeps (\<lambda>s. plumbing (fst s)) after"
proof -
  let ?f = "\<lambda>s. plumbing (fst s) :: _"
  have heap: "keeps ?f (onM fst_at (on_heap m))" if "keeps graph m" for m :: "(panic, world, 'x) exec"
    using that by (auto simp: keeps_def onM_def heap_at_def plumbing_def split: prod.splits) (metis snd_conv)+
  have push: "keeps graph (MemorySource_Push sched (source_at src) (c_push (nested n)) sc)" for src sc
    by (intro keeps_source_push calls_keepD [OF nested_keep [OF unwritten_graph]] graph_heap)
  have drained: "keeps graph (Stream streamer_at (c_force (nested n)))"
    by (intro keeps_Stream calls_keepD [OF nested_keep [OF unwritten_graph]] graph_heap)
  show ?thesis
    unfolding advance_change_def advance_push_def drain_def
    by (intro keep heap push drained keeps_updM that) simp
qed


lemma keeps_recover_drift: "keeps f m \<Longrightarrow> (\<And>d. keeps f (h d)) \<Longrightarrow> keeps f (recover_drift h m)"
  by (auto simp: keeps_def recover_drift_def split: prod.splits sum.splits) (metis snd_conv)+

lemma keeps_drain: "keeps (\<lambda>s. plumbing (fst s)) (drain n)"
proof -
  have "keeps graph (Stream streamer_at (c_force (nested n)))"
    by (intro keeps_Stream calls_keepD [OF nested_keep [OF unwritten_graph]] graph_heap)
  then show ?thesis
    by (auto simp: drain_def keeps_def onM_def heap_at_def plumbing_def split: prod.splits) (metis snd_conv)
qed

lemma advance_plumbing:
  "plumbing (snd (Advance sched n changes e)) = plumbing e"
  "plumbing (snd (snd (AdvanceStream sched sz n changes e))) = plumbing e"
proof -
  let ?f = "\<lambda>s :: Engine \<times> progress. plumbing (fst s)"
  have "keeps ?f (recover_drift
      (\<lambda>d. thenM (updM snd_at (\<lambda>p. p\<lparr>drifted := Some d\<rparr>)) (bindM (drain n) (\<lambda>_. retM ())))
      (forM (advance_change sched n (retM ())) changes))"
    by (intro keep keeps_recover_drift keeps_advance keeps_drain keeps_updM) simp
  then show "plumbing (snd (Advance sched n changes e)) = plumbing e"
    by (auto simp: Advance_def dest: keepsD split: prod.splits sum.splits)
  have "keeps ?f (flush b)" "keeps ?f (flush_full sz)" for b
    unfolding flush_def flush_full_def by (intro keep keeps_updM; simp)+
  then have "keeps ?f (advance_stream sched sz n changes)"
    unfolding advance_stream_def
    by (intro keep keeps_recover_drift keeps_advance keeps_drain keeps_updM) simp_all
  then show "plumbing (snd (snd (AdvanceStream sched sz n changes e))) = plumbing e"
    by (auto simp: AdvanceStream_def dest: keepsD split: prod.splits)
qed

section \<open>The calls of an engine\<close>

text \<open>
  The engines that the exported methods lead to.  A call that panics leaves what it has changed, so
  its final state counts whatever the outcome.
\<close>

inductive reached :: "Engine \<Rightarrow> bool" where
  new: "reached (NewEngine threshold)"
| keys: "reached e \<Longrightarrow> reached (snd (SetTableUniqueKeys table ks e))"
| source: "reached e \<Longrightarrow> reached (snd (RegisterMemorySource ms e))"
| add: "reached e \<Longrightarrow> reached (snd (AddQuery n uc queryID ast e))"
| adds: "reached e \<Longrightarrow> reached (snd (AddQueries sched n uc queries e))"
| add_stream: "reached e \<Longrightarrow> reached (snd (AddQueriesStream sched sz n uc queries e))"
| remove: "reached e \<Longrightarrow> reached (snd (RemoveQuery queryID e))"
| advance: "reached e \<Longrightarrow> reached (snd (Advance sched n changes e))"
| stream: "reached e \<Longrightarrow> reached (snd (snd (AdvanceStream sched sz n changes e)))"
| close: "reached e \<Longrightarrow> reached (snd (Close e))"

lemma serves_wired: "(\<And>n. serves n m any) \<Longrightarrow> engine_wired e \<Longrightarrow> engine_wired (snd (m e))"
  by (simp add: grows_def) blast

lemma reached_wired: "reached e \<Longrightarrow> engine_wired e"
proof (induction rule: reached.induct)
  case (new threshold)
  show ?case by (simp add: engine_wired_def NewEngine_def wired_back_empty)
next
  case (advance e sched n changes)
  then show ?case by (metis advance_plumbing(1) engine_wired_plumbing)
next
  case (stream e sched sz n changes)
  then show ?case by (metis advance_plumbing(2) engine_wired_plumbing)
qed (auto intro!: serves_wired serves_calls)


section \<open>Removal ends\<close>

lemma destroy_entry_settled:
  assumes "wired_back w" "all_older (next_op w) (entry_inputs entry)"
  shows "settled (destroy_entry entry) (destroy_entry entry) w"
proof -
  have one: "settled (Destroy (next_op w) i) (Destroy (next_op w) i) w'"
    if "i \<in> set (entry_inputs entry)" "kind w' = kind w" for i w'
    using that assms by (intro Destroy_settled) (simp_all add: wired_back_def)
  show ?thesis
    unfolding destroy_entry_def
  proof (rule settled_getM, rule settled_bindM)
    show "settled (Destroy (next_op w) (pe_input entry)) (Destroy (next_op w) (pe_input entry)) w"
      using one by (simp add: entry_inputs_def)
    fix x w' assume "Destroy (next_op w) (pe_input entry) w = (Inr x, w')"
    then have "kind w' = kind w" by (rule keepsD [OF keeps_Destroy])
    with one show "settled (forM (\<lambda>ce. Destroy (next_op w) (ce_input ce)) (pe_companions entry))
        (forM (\<lambda>ce. Destroy (next_op w) (ce_input ce)) (pe_companions entry)) w'"
      by (intro settled_forM [where r = kind] keeps_Destroy) (auto simp: entry_inputs_def)
  qed
qed

lemma on_heap_settled: "settled m m (heap e) \<Longrightarrow> settled (on_heap m) (on_heap m) e"
  by (auto simp: settled_def onM_def heap_at_def split: prod.splits)

lemma keeps_destroy_entry: "keeps plumbing (on_heap (destroy_entry entry))"
proof -
  have "keeps graph (destroy_entry entry)"
    unfolding destroy_entry_def by (intro keep keeps_Destroy_graph)
  then show ?thesis by (auto simp: keeps_def onM_def heap_at_def plumbing_def split: prod.splits) (metis snd_conv)
qed

lemma entry_settled:
  assumes "engine_wired e" "plumbing e' = plumbing e" "(q, entry) \<in> set (pipelines e)"
  shows "settled (on_heap (destroy_entry entry)) (on_heap (destroy_entry entry)) e'"
proof (rule on_heap_settled, rule destroy_entry_settled)
  have "engine_wired e'" using assms(1,2) by (metis engine_wired_plumbing)
  moreover have "(q, entry) \<in> set (pipelines e')" using assms(2,3) by (simp add: plumbing_def)
  ultimately show "wired_back (heap e')" "all_older (next_op (heap e')) (entry_inputs entry)"
    by (auto simp: engine_wired_def)
qed

text \<open>
  C23. Queries can always be removed: in every engine that the exported methods lead to, in any order
  and however the calls ended, \<open>RemoveQuery\<close> and \<open>Close\<close> come to an end.  The traversal of \<open>Destroy\<close>
  needs no more steps than there are operators, and its result does not depend on the bound.  When the
  removal returns, the query is gone and the others are registered as before; when it panics, nothing
  was unregistered.
\<close>

theorem removal_ends:
  assumes "reached e"
  shows "(case RemoveQuery queryID e of
        (Inr _, e') \<Rightarrow> pipelines e' = del queryID (pipelines e)
      | (Inl x, e') \<Rightarrow> x \<noteq> OutOfFuel \<and> pipelines e' = pipelines e) \<and>
    fst (Close e) \<noteq> Inl OutOfFuel \<and>
    (\<forall>(q, entry) \<in> set (pipelines e). \<forall>i \<in> set (entry_inputs entry). \<forall>n \<ge> next_op (heap e).
       Destroy n i (heap e) = Destroy (next_op (heap e)) i (heap e) \<and> fst (Destroy n i (heap e)) \<noteq> Inl OutOfFuel)"
proof (intro conjI)
  note wired = reached_wired [OF assms]
  show "case RemoveQuery queryID e of
        (Inr _, e') \<Rightarrow> pipelines e' = del queryID (pipelines e)
      | (Inl x, e') \<Rightarrow> x \<noteq> OutOfFuel \<and> pipelines e' = pipelines e"
  proof (cases "map_of (pipelines e) queryID")
    case None
    then have "del queryID (pipelines e) = pipelines e"
      by (auto simp: del_def map_of_eq_None_iff intro!: filter_True)
    with None show ?thesis by (simp add: RemoveQuery_def removeQueryLocked_def)
  next
    case (Some entry)
    obtain r e1 where run: "on_heap (destroy_entry entry) e = (r, e1)" by force
    have "pipelines e1 = pipelines e" using keepsD [OF keeps_destroy_entry run] by (simp add: plumbing_def)
    moreover have "r \<noteq> Inl OutOfFuel"
      using entry_settled [OF wired refl map_of_SomeD [OF Some]] run by (simp add: settled_def)
    ultimately show ?thesis
      using Some run by (cases r) (auto simp: RemoveQuery_def removeQueryLocked_def)
  qed
  let ?e = "e\<lparr>closed := True\<rparr>"
  have "engine_wired ?e" using wired by (simp add: engine_wired_def)
  then have "settled (forM (\<lambda>x. on_heap (destroy_entry (snd x))) (pipelines e))
      (forM (\<lambda>x. on_heap (destroy_entry (snd x))) (pipelines e)) ?e"
    by (intro settled_forM [where r = plumbing] keeps_destroy_entry) (auto intro: entry_settled)
  then have all: "fst (forM (\<lambda>x. on_heap (destroy_entry (snd x))) (pipelines e) ?e) \<noteq> Inl OutOfFuel"
    by (simp add: settled_def)
  obtain r e1 where run: "forM (\<lambda>x. on_heap (destroy_entry (snd x))) (pipelines e) ?e = (r, e1)" by force
  show "fst (Close e) \<noteq> Inl OutOfFuel"
  proof (cases "closed e")
    case False
    then have "Close e = thenM (forM (\<lambda>x. on_heap (destroy_entry (snd x))) (pipelines e))
        (modM (\<lambda>e. e\<lparr>pipelines := [], registered := [], tableUniqueKeys := []\<rparr>)) ?e"
      by (simp add: Close_def bindM_False)
    with all run show ?thesis by (cases r) simp_all
  qed (simp add: Close_def)
  show "\<forall>(q, entry) \<in> set (pipelines e). \<forall>i \<in> set (entry_inputs entry). \<forall>n \<ge> next_op (heap e).
       Destroy n i (heap e) = Destroy (next_op (heap e)) i (heap e) \<and> fst (Destroy n i (heap e)) \<noteq> Inl OutOfFuel"
  proof (intro ballI, clarify)
    fix q entry i n assume "(q, entry) \<in> set (pipelines e)" "i \<in> set (entry_inputs entry)" "next_op (heap e) \<le> n"
    with wired have "wired_back (heap e)" "i < next_op (heap e)" "i < n" unfolding engine_wired_def by fastforce+
    from Destroy_settled [OF this(1,3,2)]
    show "Destroy n i (heap e) = Destroy (next_op (heap e)) i (heap e) \<and> fst (Destroy n i (heap e)) \<noteq> Inl OutOfFuel"
      by (auto simp: settled_def)
  qed
qed

section \<open>A limit query\<close>

lemma new_at_run: "new_at ref k c w = (Inr (next_op w),
    wr (ref (next_op w)) c (w\<lparr>next_op := Suc (next_op w), kind := (kind w)(next_op w := k)\<rparr>))"
  by (simp add: new_at_def alloc_def)

lemma connect_run: "Connect (next_op w) order pr sk (sources w t) = (si, ms) \<Longrightarrow>
    connect_source t order pr sk w = (Inr (next_op w), w\<lparr>next_op := Suc (next_op w),
      kind := (kind w)(next_op w := OpSource t (si_conn si)), sources := (sources w)(t := ms),
      inputs := (inputs w)(next_op w := si)\<rparr>)"
  by (simp add: connect_source_def alloc_def source_at_def input_at_def)

text \<open>The first of the items, of an engine that holds the table of items and nothing else.\<close>

definition first_item :: AST where
  "first_item = AST [] ''items'' [] None [] None (Some 1) []"

definition item_engine :: Engine where
  "item_engine = snd (RegisterMemorySource (items []) (NewEngine 0))"

lemma item_engine_simps:
  "heap item_engine = empty_world\<lparr>sources := (sources empty_world)(0 := SetParallel True [2] (items [])),
     kind := (\<lambda>_. OpNone)(0 := OpNone), next_op := 1\<rparr>"
  "registered item_engine = [(''items'', 0)]" "pipelines item_engine = []" "tableUniqueKeys item_engine = []" "closed item_engine = False"
  by (simp_all add: item_engine_def RegisterMemorySource_def NewEngine_def items_def new_at_run bindM_False
      NewMemorySourceWithConverter_def onM_def heap_at_def source_at_def empty_world_def)

lemma rewritten_first_item:
  "d_source d ''items'' = Some (0, [''id'']) \<Longrightarrow>
   rewritten d first_item = AST [] ''items'' [] None [] None (Some 1) [(''id'', ''asc'')]"
  by (simp add: rewritten_def first_item_def uniquifyCSQConditionAliases_def d_keys_def addPrimaryKeys_def)

lemma build_first_item:
  assumes "d_source d ''items'' = Some (0, [''id''])" "sources w 0 = SetParallel True [2] (items [])" "next_op w = 1"
  shows "\<exists>w'. BuildPipeline d first_item w = (Inr 2, w') \<and>
    kind w' = (kind w)(1 := OpSource 0 1, 2 := OpTake 1) \<and> next_op w' = 3"
  using assms
  by (simp add: BuildPipeline_def buildPipelineInternal.simps [of d first_item] rewritten_first_item
      build_source_def BuildPredicate_def split_keys_def bindM_Inr [OF connect_run] bindM_Inr [OF new_at_run] Connect_def Let_def
      build_skip_def gather_where_def build_filter_def build_take_def new_take_def schema_of_def NewTake_def take_at_def
      SetOutput_def SourceInput_SetOutput_def dedupe_related_def SetParallel_def items_def NewMemorySourceWithConverter_def
      source_at_def input_at_def numeral_2_eq_2 numeral_3_eq_3)

lemma add_first_item:
  "\<exists>entry. pipelines (snd (AddQuery n uc ''q'' first_item item_engine)) = [(''q'', entry)] \<and> pe_input entry = 2"
proof -
  let ?d = "engineDelegate uc item_engine"
  have d: "d_source ?d ''items'' = Some (0, [''id''])"
    by (simp add: engineDelegate_def item_engine_simps SetParallel_def items_def NewMemorySourceWithConverter_def)
  obtain w where w: "BuildPipeline ?d first_item (heap item_engine) = (Inr 2, w)" "kind w 2 = OpTake 1"
    using build_first_item [OF d, of "heap item_engine"] by (auto simp: item_engine_simps)
  obtain entry where entry: "build_query n ?d (map_of (tableUniqueKeys item_engine)) ''q'' first_item (heap item_engine) = (Inr entry, w)"
      "pe_input entry = 2"
    using w by (auto simp: build_query_def ResolveSimpleScalarSubqueries_def first_item_def schema_of_def)
  let ?put = "item_engine\<lparr>heap := w, pipelines := [(''q'', entry)]\<rparr>"
  obtain r w' where wire: "wire_entry entry w = (r, w')" by force
  have build: "buildAndRegisterLocked n uc ''q'' first_item item_engine =
      (case r of Inl x \<Rightarrow> Inl x | Inr _ \<Rightarrow> Inr entry, ?put\<lparr>heap := w'\<rparr>)"
    using entry(1) wire
    by (cases r) (simp_all add: buildAndRegisterLocked_def onM_def heap_at_def item_engine_simps(3,5) bindM_def split: sum.splits)
  have keep: "pipelines (snd (on_heap m e)) = pipelines e" for m :: "(panic, world, RowChange list) exec" and e
    by (simp add: onM_def heap_at_def split: prod.splits)
  have "pipelines (snd (AddQuery n uc ''q'' first_item item_engine)) = [(''q'', entry)]"
    using build keep by (cases r) (simp_all add: AddQuery_def removeQueryLocked_def item_engine_simps(3))
  with entry(2) show ?thesis by blast
qed

theorem removal_ends_witness:
  "\<exists>e entry. pipelines e = [(''q'', entry)] \<and>
    (case RemoveQuery ''q'' e of (Inr _, e') \<Rightarrow> pipelines e' = [] | (Inl x, e') \<Rightarrow> x \<noteq> OutOfFuel) \<and>
    (\<forall>n \<ge> next_op (heap e). fst (Destroy n 2 (heap e)) \<noteq> Inl OutOfFuel)"
proof -
  define e where "e = snd (AddQuery 3 id ''q'' first_item item_engine)"
  have "reached e" unfolding e_def item_engine_def by (intro reached.intros)
  obtain entry where entry: "pipelines e = [(''q'', entry)]" "pe_input entry = 2"
    using add_first_item [of 3 id] unfolding e_def by (elim exE conjE)
  note ends = removal_ends [OF \<open>reached e\<close>, of "''q''", unfolded entry(1)]
  have "2 \<in> set (entry_inputs entry)" by (simp add: entry_inputs_def entry(2))
  with ends have "\<forall>n \<ge> next_op (heap e). fst (Destroy n 2 (heap e)) \<noteq> Inl OutOfFuel"
    by (simp only: prod.case list.set simp_thms ball_simps) blast
  moreover have "case RemoveQuery ''q'' e of (Inr _, e') \<Rightarrow> pipelines e' = [] | (Inl x, e') \<Rightarrow> x \<noteq> OutOfFuel"
    using conjunct1 [OF ends] by (cases "RemoveQuery ''q'' e"; cases "fst (RemoveQuery ''q'' e)") (simp_all add: del_def)
  ultimately show ?thesis using entry(1) by (intro exI [of _ e] exI [of _ entry] conjI)
qed

end
