(* ===== verification/ClientGroups.thy ===== *)
theory ClientGroups
  imports Advance QueryBuilder "HOL-Library.Word"
begin

text \<open>
  The client groups of the sidecar and the handlers of its requests: \<open>cmd/sidecar/main.go\<close>.

  A handler holds the lock of its group from start to end, so it is one step on the state of the
  server.  Groups are objects that a worker may still use when the server has forgotten them:
  \<open>group_objs\<close> is their heap.  Decoding the MessagePack parameters of a request is the parameter
  \<open>codec\<close>; opening the storage file and the text of a panic are parameters too (\<open>environment\<close>).
  Engine errors other than panics and a closed engine do not occur.  Logging, metrics and timings are
  left out.
\<close>

section \<open>State\<close>

record ClientGroup =
  eng :: "Engine option"
  g_closed :: bool
  initEpoch :: "64 word"
  lastUsedNs :: int

record Server =
  groups :: "(string \<times> nat) list"
  group_objs :: "nat \<Rightarrow> ClientGroup"
  next_group :: nat

definition NewServer :: Server where
  "NewServer = \<lparr>groups = [], group_objs = (\<lambda>_. \<lparr>eng = None, g_closed = False, initEpoch = 0, lastUsedNs = 0\<rparr>),
     next_group = 0\<rparr>"

definition group_at :: "nat \<Rightarrow> (Server, ClientGroup) ref" where
  "group_at gid = \<lparr>rd = (\<lambda>s. group_objs s gid), wr = (\<lambda>g s. s\<lparr>group_objs := (group_objs s)(gid := g)\<rparr>)\<rparr>"

text \<open>The engine of a group that has one.\<close>

definition engine_at :: "nat \<Rightarrow> (Server, Engine) ref" where
  "engine_at gid =
     \<lparr>rd = (\<lambda>s. the (eng (group_objs s gid))),
      wr = (\<lambda>e s. s\<lparr>group_objs := (group_objs s)(gid := (group_objs s gid)\<lparr>eng := Some e\<rparr>)\<rparr>)\<rparr>"

section \<open>Requests and responses\<close>

record tableSchemaParams =
  tsp_columns :: column_map
  tsp_primaryKey :: "string list"
  tsp_uniqueKeys :: "string list list"
  tsp_rows :: "row list"

record initParams =
  ip_clientGroupID :: string
  ip_storage :: string
  ip_tables :: "(string \<times> tableSchemaParams) list"

record loadRowsParams =
  lp_clientGroupID :: string
  lp_table :: string
  lp_rows :: "row list"
  lp_initEpoch :: "64 word"

record addQueriesParams =
  qp_clientGroupID :: string
  qp_queries :: "QuerySpec list"
  qp_initEpoch :: "64 word"

record removeQueryParams =
  rp_clientGroupID :: string
  rp_queryID :: string
  rp_initEpoch :: "64 word"

record advanceParams =
  vp_clientGroupID :: string
  vp_changes :: "SnapshotChange list"
  vp_initEpoch :: "64 word"

datatype rpc_result = Pong | Version string int | InitOk "64 word" | ResultOk | Done
  | AddQueryResult "RowChange list"
  | AddQueriesResult "RowChange list list"
  | AdvanceResultFrame "RowChange list" "TableTiming list"

datatype partial = QueryPartial QueryResult | AdvancePartial AdvanceStreamPartial

record RPCError =
  Code :: int
  Message :: string
  Data :: "panic option"

record 'i RPCResponse =
  Result :: "rpc_result option"
  Error :: "RPCError option"
  ID :: "'i"

record ('p, 'i) RPCRequest =
  Method :: string
  ReqParams :: 'p
  ReqID :: 'i

text \<open>A decoder returns an error text or the parameters; one query of \<open>addQuery\<close> is a list of one.\<close>

record 'p codec =
  dec_init :: "'p \<Rightarrow> string + initParams"
  dec_loadRows :: "'p \<Rightarrow> string + loadRowsParams"
  dec_addQuery :: "'p \<Rightarrow> string + (string \<times> QuerySpec \<times> 64 word)"
  dec_addQueries :: "'p \<Rightarrow> string + addQueriesParams"
  dec_removeQuery :: "'p \<Rightarrow> string + removeQueryParams"
  dec_advance :: "'p \<Rightarrow> string + advanceParams"
  dec_destroy :: "'p \<Rightarrow> string + string"

record environment =
  env_now :: int
  env_open :: "string \<Rightarrow> string option"
  env_show :: "panic \<Rightarrow> string"
  env_threshold :: int
  env_unmarshal :: "string \<Rightarrow> val option"
  env_sched :: "nat list \<Rightarrow> nat list"
  env_upper :: "string \<Rightarrow> string"
  env_fuel :: nat

definition rpcError :: "'i \<Rightarrow> int \<Rightarrow> string \<Rightarrow> 'i RPCResponse" where
  "rpcError i code msg = \<lparr>Result = None, Error = Some \<lparr>Code = code, Message = msg, Data = None\<rparr>, ID = i\<rparr>"

definition rpcResult :: "'i \<Rightarrow> rpc_result \<Rightarrow> 'i RPCResponse" where
  "rpcResult i r = \<lparr>Result = Some r, Error = None, ID = i\<rparr>"

definition rpcCodeStaleInitEpoch :: int where
  "rpcCodeStaleInitEpoch = - 32101"

definition rpcCodeDrift :: int where
  "rpcCodeDrift = - 32100"

section \<open>Groups\<close>

definition getGroup :: "int \<Rightarrow> string \<Rightarrow> Server \<Rightarrow> nat \<times> Server" where
  "getGroup now i s =
     (case map_of (groups s) i of
        Some gid \<Rightarrow> (gid, s)
      | None \<Rightarrow>
          (next_group s, s\<lparr>groups := put i (next_group s) (groups s), next_group := Suc (next_group s),
             group_objs := (group_objs s)(next_group s := \<lparr>eng = None, g_closed = False, initEpoch = 0, lastUsedNs = now\<rparr>)\<rparr>))"

definition shutdownGroup :: "nat \<Rightarrow> (panic, Server, unit) exec" where
  "shutdownGroup gid =
     bindM (getM (\<lambda>s. group_objs s gid)) (\<lambda>g.
       if g_closed g then retM ()
       else thenM (updM (group_at gid) (\<lambda>g. g\<lparr>g_closed := True\<rparr>))
         (case eng g of
            None \<Rightarrow> retM ()
          | Some _ \<Rightarrow> thenM (onM (engine_at gid) Close) (updM (group_at gid) (\<lambda>g. g\<lparr>eng := None\<rparr>))))"

definition removeGroup :: "string \<Rightarrow> (panic, Server, unit) exec" where
  "removeGroup i =
     bindM (getM (\<lambda>s. map_of (groups s) i)) (\<lambda>found.
     thenM (modM (\<lambda>s. s\<lparr>groups := del i (groups s)\<rparr>))
       (case found of None \<Rightarrow> retM () | Some gid \<Rightarrow> shutdownGroup gid))"

definition closeAll :: "(panic, Server, unit) exec" where
  "closeAll =
     bindM (getM groups) (\<lambda>gs.
     thenM (modM (\<lambda>s. s\<lparr>groups := []\<rparr>)) (forM (\<lambda>g. shutdownGroup (snd g)) gs))"

text \<open>Candidates are found first; each is checked again before it is taken out.\<close>

definition reap_candidate :: "int \<Rightarrow> string \<times> nat \<Rightarrow> (panic, Server, nat) exec" where
  "reap_candidate cutoff c =
     bindM (getM (\<lambda>s. (map_of (groups s) (fst c), lastUsedNs (group_objs s (snd c))))) (\<lambda>(current, used).
       if current \<noteq> Some (snd c) \<or> used \<ge> cutoff then retM 0
       else thenM (modM (\<lambda>s. s\<lparr>groups := del (fst c) (groups s)\<rparr>))
              (thenM (shutdownGroup (snd c)) (retM 1)))"

definition reapIdleGroups :: "int \<Rightarrow> (panic, Server, nat) exec" where
  "reapIdleGroups cutoff =
     bindM (getM (\<lambda>s. filter (\<lambda>c. lastUsedNs (group_objs s (snd c)) < cutoff) (groups s))) (\<lambda>candidates.
     bindM (mapM (reap_candidate cutoff) candidates) (\<lambda>ns. retM (sum_list ns)))"

definition checkInitEpoch :: "ClientGroup \<Rightarrow> 'i \<Rightarrow> 64 word \<Rightarrow> 'i RPCResponse option" where
  "checkInitEpoch g i callerEpoch =
     (if callerEpoch \<noteq> initEpoch g then Some (rpcError i rpcCodeStaleInitEpoch ''stale init epoch'') else None)"

section \<open>Handlers\<close>

definition default_group :: "string \<Rightarrow> string" where
  "default_group i = (if i = '''' then ''default'' else i)"

text \<open>What every handler of an initialised group does first; \<open>uninit\<close> is its message otherwise.\<close>

definition with_engine ::
  "environment \<Rightarrow> 'i \<Rightarrow> string \<Rightarrow> string \<Rightarrow> 64 word \<Rightarrow> (nat \<Rightarrow> (panic, Server, 'i RPCResponse \<times> partial list) exec) \<Rightarrow>
   (panic, Server, 'i RPCResponse \<times> partial list) exec"
where
  "with_engine env i cgID uninit callerEpoch body = (\<lambda>s.
     let (gid, s1) = getGroup (env_now env) (default_group cgID) s; g = group_objs s1 gid in
     if eng g = None then (Inr (rpcError i (- 32000) uninit, []), s1)
     else case checkInitEpoch g i callerEpoch of
            Some resp \<Rightarrow> (Inr (resp, []), s1)
          | None \<Rightarrow> body gid s1)"

definition convert_row :: "(string \<Rightarrow> val option) \<Rightarrow> (string \<times> string) list \<Rightarrow> row \<Rightarrow> row" where
  "convert_row unmarshal cols raw =
     (\<lambda>c. map_option (\<lambda>v. case map_of cols c of Some t \<Rightarrow> FromSQLiteType unmarshal v t | None \<Rightarrow> v) (raw c))"

definition init_source :: "(string \<Rightarrow> val option) \<Rightarrow> string \<Rightarrow> tableSchemaParams \<Rightarrow> MemorySource res" where
  "init_source unmarshal table schema =
     (let cols = map (\<lambda>(c, cs). (c, CsType cs)) (tsp_columns schema);
          ms = NewMemorySourceWithConverter table cols (tsp_primaryKey schema)
                 (Some (\<lambda>v t. Inr (FromSQLiteType unmarshal v t)))
      in case BulkInsert self (map (convert_row unmarshal cols) (tsp_rows schema)) ms of
           (Inl e, _) \<Rightarrow> Inl e
         | (Inr _, ms') \<Rightarrow> Inr ms')"

definition init_table ::
  "environment \<Rightarrow> nat \<Rightarrow> string \<times> tableSchemaParams \<Rightarrow> (panic, Server, unit) exec" where
  "init_table env gid ts =
     bindM (liftM (init_source (env_unmarshal env) (fst ts) (snd ts))) (\<lambda>ms.
     thenM (onM (engine_at gid) (RegisterMemorySource ms))
       (if tsp_uniqueKeys (snd ts) \<noteq> []
        then onM (engine_at gid) (SetTableUniqueKeys (fst ts) (Some (tsp_uniqueKeys (snd ts)))) else retM ()))"

definition init_group ::
  "environment \<Rightarrow> 'i \<Rightarrow> initParams \<Rightarrow> nat \<Rightarrow> (panic, Server, 'i RPCResponse \<times> partial list) exec" where
  "init_group env i p gid =
     bindM (getM (\<lambda>s. eng (group_objs s gid))) (\<lambda>old.
     thenM (if old \<noteq> None then onM (engine_at gid) Close else retM ())
       (thenM (updM (group_at gid) (\<lambda>g. g\<lparr>initEpoch := initEpoch g + 1\<rparr>))
         (bindM (getM (\<lambda>s. initEpoch (group_objs s gid))) (\<lambda>currentEpoch.
            case env_open env (if ip_storage p = '''' then '':memory:'' else ip_storage p) of
              Some err \<Rightarrow> retM (rpcError i (- 32000) (''create engine: '' @ err), [])
            | None \<Rightarrow>
                thenM (updM (group_at gid) (\<lambda>g. g\<lparr>eng := Some (NewEngine (env_threshold env))\<rparr>))
                  (thenM (forM (init_table env gid) (ip_tables p))
                    (retM (rpcResult i (InitOk currentEpoch), [])))))))"

definition handleInit ::
  "environment \<Rightarrow> 'i \<Rightarrow> initParams \<Rightarrow> (panic, Server, 'i RPCResponse \<times> partial list) exec" where
  "handleInit env i p = (\<lambda>s.
     let (gid, s1) = getGroup (env_now env) (default_group (ip_clientGroupID p)) s in init_group env i p gid s1)"

definition handleLoadRows ::
  "environment \<Rightarrow> 'i \<Rightarrow> loadRowsParams \<Rightarrow> (panic, Server, 'i RPCResponse \<times> partial list) exec" where
  "handleLoadRows env i p =
     with_engine env i (lp_clientGroupID p) ''engine not initialized (call init first)'' (lp_initEpoch p) (\<lambda>gid.
       bindM (getM (\<lambda>s. GetMemorySource (the (eng (group_objs s gid))) (lp_table p))) (\<lambda>found.
         case found of
           None \<Rightarrow> retM (rpcError i (- 32000) (''no MemorySource registered for table: '' @ lp_table p), [])
         | Some src \<Rightarrow>
             bindM (getM (\<lambda>s. columns (sources (heap (the (eng (group_objs s gid)))) src))) (\<lambda>cols.
             thenM (onM (engine_at gid) (on_heap (BulkInsert (source_at src)
                      (map (convert_row (env_unmarshal env) cols) (lp_rows p)))))
               (retM (rpcResult i ResultOk, [])))))"

definition handleAddQuery ::
  "environment \<Rightarrow> 'i \<Rightarrow> string \<times> QuerySpec \<times> 64 word \<Rightarrow> (panic, Server, 'i RPCResponse \<times> partial list) exec" where
  "handleAddQuery env i = (\<lambda>(cgID, q, epoch).
     with_engine env i cgID ''engine not initialized (call init first)'' epoch (\<lambda>gid.
       bindM (onM (engine_at gid) (AddQuery (env_fuel env) (env_upper env) (qs_queryID q) (qs_AST q))) (\<lambda>changes.
         retM (rpcResult i (AddQueryResult changes), []))))"

definition handleAddQueries ::
  "environment \<Rightarrow> 'i \<Rightarrow> addQueriesParams \<Rightarrow> (panic, Server, 'i RPCResponse \<times> partial list) exec" where
  "handleAddQueries env i p =
     with_engine env i (qp_clientGroupID p) ''engine not initialized (call init first)'' (qp_initEpoch p) (\<lambda>gid.
       bindM (onM (engine_at gid) (AddQueries (env_sched env) (env_fuel env) (env_upper env) (qp_queries p))) (\<lambda>results.
         retM (rpcResult i (AddQueriesResult (map qr_changes results)), [])))"

definition handleAddQueriesStream ::
  "environment \<Rightarrow> 'i \<Rightarrow> addQueriesParams \<Rightarrow> (panic, Server, 'i RPCResponse \<times> partial list) exec" where
  "handleAddQueriesStream env i p =
     with_engine env i (qp_clientGroupID p) ''engine not initialized (call init first)'' (qp_initEpoch p) (\<lambda>gid.
       bindM (onM (engine_at gid) (AddQueriesStream (env_sched env) hydrateChunkSize (env_fuel env) (env_upper env) (qp_queries p)))
         (\<lambda>results. case results of
            None \<Rightarrow> retM (rpcError i (- 32000) ''addQueriesStream: engine is closed'', [])
          | Some rs \<Rightarrow> retM (rpcResult i Done, map QueryPartial rs)))"

definition handleRemoveQuery ::
  "environment \<Rightarrow> 'i \<Rightarrow> removeQueryParams \<Rightarrow> (panic, Server, 'i RPCResponse \<times> partial list) exec" where
  "handleRemoveQuery env i p =
     with_engine env i (rp_clientGroupID p) ''engine not initialized'' (rp_initEpoch p) (\<lambda>gid.
       thenM (onM (engine_at gid) (RemoveQuery (rp_queryID p))) (retM (rpcResult i ResultOk, [])))"

definition handleAdvance ::
  "environment \<Rightarrow> 'i \<Rightarrow> advanceParams \<Rightarrow> (panic, Server, 'i RPCResponse \<times> partial list) exec" where
  "handleAdvance env i p =
     with_engine env i (vp_clientGroupID p) ''engine not initialized'' (vp_initEpoch p) (\<lambda>gid.
       bindM (onM (engine_at gid) (Advance (env_sched env) (env_fuel env) (vp_changes p))) (\<lambda>result.
         case ar_drift result of
           Some d \<Rightarrow> retM (\<lparr>Result = None, Error = Some \<lparr>Code = rpcCodeDrift, Message = env_show env d, Data = Some d\<rparr>, ID = i\<rparr>, [])
         | None \<Rightarrow> retM (rpcResult i (AdvanceResultFrame (ar_changes result) (ar_timings result)), [])))"

text \<open>The engine's stream, as a step of the engine that may fail after frames were sent.\<close>

definition stream_engine ::
  "environment \<Rightarrow> SnapshotChange list \<Rightarrow> (panic, Engine, (panic + unit) option \<times> AdvanceStreamPartial list) exec" where
  "stream_engine env changes = (\<lambda>e.
     let (r, fs, e') = AdvanceStream (env_sched env) advanceChunkSize (env_fuel env) changes e in (Inr (r, fs), e'))"

definition handleAdvanceStream ::
  "environment \<Rightarrow> 'i \<Rightarrow> advanceParams \<Rightarrow> (panic, Server, 'i RPCResponse \<times> partial list) exec" where
  "handleAdvanceStream env i p =
     with_engine env i (vp_clientGroupID p) ''engine not initialized'' (vp_initEpoch p) (\<lambda>gid.
       bindM (onM (engine_at gid) (stream_engine env (vp_changes p))) (\<lambda>(r, fs).
         case r of
           None \<Rightarrow> retM (rpcError i (- 32000) ''advanceStream: engine is closed'', map AdvancePartial fs)
         | Some (Inl e) \<Rightarrow> failM e
         | Some (Inr _) \<Rightarrow> retM (rpcResult i Done, map AdvancePartial fs)))"

definition handleDestroy :: "'i \<Rightarrow> string \<Rightarrow> (panic, Server, 'i RPCResponse \<times> partial list) exec" where
  "handleDestroy i cgID = thenM (removeGroup (default_group cgID)) (retM (rpcResult i ResultOk, []))"

section \<open>Dispatch\<close>

definition decoded ::
  "'i \<Rightarrow> string + 'a \<Rightarrow> ('a \<Rightarrow> (panic, Server, 'i RPCResponse \<times> partial list) exec) \<Rightarrow>
   (panic, Server, 'i RPCResponse \<times> partial list) exec" where
  "decoded i d handler = (case d of Inl err \<Rightarrow> retM (rpcError i (- 32602) err, []) | Inr p \<Rightarrow> handler p)"

definition sidecarVersion :: string where
  "sidecarVersion = ''0.5.0''"

definition sidecarProtocolRev :: int where
  "sidecarProtocolRev = 5"

definition dispatch ::
  "'p codec \<Rightarrow> environment \<Rightarrow> ('p, 'i) RPCRequest \<Rightarrow> (panic, Server, 'i RPCResponse \<times> partial list) exec" where
  "dispatch cd env req =
     (let i = ReqID req; p = ReqParams req; m = Method req in
      if m = ''ping'' then retM (rpcResult i Pong, [])
      else if m = ''version'' then retM (rpcResult i (Version sidecarVersion sidecarProtocolRev), [])
      else if m = ''init'' then decoded i (dec_init cd p) (handleInit env i)
      else if m = ''loadRows'' then decoded i (dec_loadRows cd p) (handleLoadRows env i)
      else if m = ''addQuery'' then decoded i (dec_addQuery cd p) (handleAddQuery env i)
      else if m = ''addQueries'' then decoded i (dec_addQueries cd p) (handleAddQueries env i)
      else if m = ''removeQuery'' then decoded i (dec_removeQuery cd p) (handleRemoveQuery env i)
      else if m = ''advance'' then decoded i (dec_advance cd p) (handleAdvance env i)
      else if m = ''destroy'' then decoded i (dec_destroy cd p) (handleDestroy i)
      else retM (rpcError i (- 32601) (''Method not found: '' @ m), []))"

text \<open>\<open>recover()\<close> of a panic in a handler; the panic of another goroutine ends the process.\<close>

fun recoverable :: "panic \<Rightarrow> bool" where
  "recoverable (Fatal e) = False"
| "recoverable Deadlock = False"
| "recoverable OutOfFuel = False"
| "recoverable _ = True"

definition handleRequest ::
  "'p codec \<Rightarrow> environment \<Rightarrow> ('p, 'i) RPCRequest \<Rightarrow> (panic, Server, 'i RPCResponse \<times> partial list) exec" where
  "handleRequest cd env req = (\<lambda>s.
     case dispatch cd env req s of
       (Inl e, s') \<Rightarrow>
         if recoverable e then (Inr (rpcError (ReqID req) (- 32000) (''panic: '' @ env_show env e), []), s') else (Inl e, s')
     | (Inr resp, s') \<Rightarrow> (Inr resp, s'))"

text \<open>
  What the worker of a group does with one request: the two streaming methods get the writer for
  partial frames and are called without \<open>recover\<close>.
\<close>

definition worker_request ::
  "'p codec \<Rightarrow> environment \<Rightarrow> nat \<Rightarrow> ('p, 'i) RPCRequest \<Rightarrow> (panic, Server, 'i RPCResponse \<times> partial list) exec" where
  "worker_request cd env gid req =
     thenM (updM (group_at gid) (\<lambda>g. g\<lparr>lastUsedNs := env_now env\<rparr>))
       (if Method req = ''addQueriesStream''
        then decoded (ReqID req) (dec_addQueries cd (ReqParams req)) (handleAddQueriesStream env (ReqID req))
        else if Method req = ''advanceStream''
        then decoded (ReqID req) (dec_advance cd (ReqParams req)) (handleAdvanceStream env (ReqID req))
        else handleRequest cd env req)"

text \<open>The group a request is queued for; \<open>None\<close> when it is handled at once.\<close>

definition extractClientGroupID :: "('p \<Rightarrow> string + string) \<Rightarrow> ('p, 'i) RPCRequest \<Rightarrow> string option" where
  "extractClientGroupID dec_group req =
     (if Method req = ''ping'' then None
      else case dec_group (ReqParams req) of
             Inl _ \<Rightarrow> None
           | Inr cgID \<Rightarrow> Some (default_group cgID))"

end
