(* ===== verification/GroupSafety.thy ===== *)
theory GroupSafety
  imports ClientGroups Serving
begin

text \<open>
  What the sidecar promises about client groups: a request touches its own group only, a stale request
  touches nothing, only the streaming requests can take the process down, and what a destroyed group
  leaves behind.
\<close>

section \<open>Frames of the handlers\<close>

lemma onM_eq: "onM p m s = (r, s') \<longleftrightarrow> (\<exists>c. m (rd p s) = (r, c) \<and> s' = wr p c s)"
  by (auto simp: onM_def split: prod.splits)

lemma keeps_onM: "(\<And>x s. f (wr p x s) = f s) \<Longrightarrow> keeps f (onM p m)"
  by (simp add: keeps_def onM_def split: prod.splits)

lemma group_at_other [simp]: "gid \<noteq> h \<Longrightarrow> group_objs (wr (group_at gid) g s) h = group_objs s h"
  by (simp add: group_at_def)

lemma engine_at_other [simp]: "gid \<noteq> h \<Longrightarrow> group_objs (wr (engine_at gid) e s) h = group_objs s h"
  by (simp add: engine_at_def)

lemma getGroup_other:
  assumes "getGroup now i s = (gid, s1)" "h < next_group s" "map_of (groups s) i \<noteq> Some h"
  shows "gid \<noteq> h \<and> group_objs s1 h = group_objs s h"
  using assms by (auto simp: getGroup_def split: option.splits)

lemma with_engine_other:
  assumes "\<And>gid. gid \<noteq> h \<Longrightarrow> keeps (\<lambda>s. group_objs s h) (body gid)"
    and "with_engine env i cgID uninit epoch body s = (r, s')" "h < next_group s"
    and "map_of (groups s) (default_group cgID) \<noteq> Some h"
  shows "group_objs s' h = group_objs s h"
proof -
  obtain gid s1 where g: "getGroup (env_now env) (default_group cgID) s = (gid, s1)" by force
  note other = getGroup_other [OF g assms(3,4)]
  from other assms(1) have "keeps (\<lambda>s. group_objs s h) (body gid)" by simp
  with assms(2) g other show ?thesis
    by (auto simp: with_engine_def Let_def dest: keepsD split: if_splits option.splits)
qed

lemma keeps_shutdown: "gid \<noteq> h \<Longrightarrow> keeps (\<lambda>s. group_objs s h) (shutdownGroup gid)"
  unfolding shutdownGroup_def by (intro keep keeps_onM keeps_updM) simp_all

lemma keeps_init_table: "gid \<noteq> h \<Longrightarrow> keeps (\<lambda>s. group_objs s h) (init_table env gid t)"
  unfolding init_table_def by (intro keep keeps_onM) simp_all

section \<open>Isolation\<close>

text \<open>The group whose engine a request is for, by its decoded parameters.\<close>

definition request_group :: "'p codec \<Rightarrow> ('p, 'i) RPCRequest \<Rightarrow> string option" where
  "request_group cd req =
     (let p = ReqParams req; m = Method req in
      if m = ''init'' then (case dec_init cd p of Inl _ \<Rightarrow> None | Inr x \<Rightarrow> Some (ip_clientGroupID x))
      else if m = ''loadRows'' then (case dec_loadRows cd p of Inl _ \<Rightarrow> None | Inr x \<Rightarrow> Some (lp_clientGroupID x))
      else if m = ''addQuery'' then (case dec_addQuery cd p of Inl _ \<Rightarrow> None | Inr x \<Rightarrow> Some (fst x))
      else if m = ''addQueries'' \<or> m = ''addQueriesStream''
        then (case dec_addQueries cd p of Inl _ \<Rightarrow> None | Inr x \<Rightarrow> Some (qp_clientGroupID x))
      else if m = ''removeQuery'' then (case dec_removeQuery cd p of Inl _ \<Rightarrow> None | Inr x \<Rightarrow> Some (rp_clientGroupID x))
      else if m = ''advance'' \<or> m = ''advanceStream''
        then (case dec_advance cd p of Inl _ \<Rightarrow> None | Inr x \<Rightarrow> Some (vp_clientGroupID x))
      else if m = ''destroy'' then (case dec_destroy cd p of Inl _ \<Rightarrow> None | Inr x \<Rightarrow> Some x)
      else None)"

text \<open>\<open>spares h target m\<close>: run where the target group is not the object \<open>h\<close>, \<open>m\<close> leaves \<open>h\<close> alone.\<close>

definition spares :: "nat \<Rightarrow> string option \<Rightarrow> (panic, Server, 'a) exec \<Rightarrow> bool" where
  "spares h target m \<longleftrightarrow> (\<forall>s r s'. m s = (r, s') \<longrightarrow> h < next_group s \<longrightarrow>
     (\<forall>cg. target = Some cg \<longrightarrow> map_of (groups s) (default_group cg) \<noteq> Some h) \<longrightarrow> group_objs s' h = group_objs s h)"

lemma spares_with_engine:
  assumes "\<And>gid. gid \<noteq> h \<Longrightarrow> keeps (\<lambda>s. group_objs s h) (body gid)"
  shows "spares h (Some cg) (with_engine env i cg uninit epoch body)"
  using with_engine_other [where body = body and h = h] assms unfolding spares_def by blast

lemma spares_init: "spares h (Some (ip_clientGroupID p)) (handleInit env i p)"
  unfolding spares_def
proof (intro allI impI)
  fix s r s'
  assume run: "handleInit env i p s = (r, s')" and "h < next_group s"
    and "\<forall>cg. Some (ip_clientGroupID p) = Some cg \<longrightarrow> map_of (groups s) (default_group cg) \<noteq> Some h"
  then have h: "h < next_group s" "map_of (groups s) (default_group (ip_clientGroupID p)) \<noteq> Some h" by simp_all
  obtain gid s1 where g: "getGroup (env_now env) (default_group (ip_clientGroupID p)) s = (gid, s1)" by force
  note other = getGroup_other [OF g h]
  then have "keeps (\<lambda>s. group_objs s h) (init_group env i p gid)"
    unfolding init_group_def by (intro keep keeps_onM keeps_updM keeps_init_table) simp_all
  moreover have "init_group env i p gid s1 = (r, s')" using run g by (simp add: handleInit_def)
  ultimately have "group_objs s' h = group_objs s1 h" by (rule keepsD)
  with other show "group_objs s' h = group_objs s h" by simp
qed

lemma spares_destroy: "spares h (Some cg) (handleDestroy i cg)"
  unfolding spares_def
proof (intro allI impI)
  fix s and r :: "panic + 'a RPCResponse \<times> partial list" and s'
  assume run: "handleDestroy i cg s = (r, s')"
    and other: "\<forall>cg'. Some cg = Some cg' \<longrightarrow> map_of (groups s) (default_group cg') \<noteq> Some h"
  let ?s1 = "s\<lparr>groups := del (default_group cg) (groups s)\<rparr>"
  show "group_objs s' h = group_objs s h"
  proof (cases "map_of (groups s) (default_group cg)")
    case None
    with run show ?thesis by (auto simp: handleDestroy_def removeGroup_def)
  next
    case (Some gid)
    with other have "keeps (\<lambda>s. group_objs s h) (thenM (shutdownGroup gid) (retM (rpcResult i ResultOk, [])))"
      by (intro keep keeps_shutdown) simp
    moreover have "thenM (shutdownGroup gid) (retM (rpcResult i ResultOk, [])) ?s1 = (r, s')"
      using run Some by (simp add: handleDestroy_def removeGroup_def bindM_def split: prod.splits sum.splits)
    ultimately have "group_objs s' h = group_objs ?s1 h" by (rule keepsD)
    then show ?thesis by simp
  qed
qed

lemma spares_handlers:
  "spares h (Some (lp_clientGroupID lp)) (handleLoadRows env i lp)"
  "spares h (Some cg) (handleAddQuery env i (cg, q, ep))"
  "spares h (Some (qp_clientGroupID qp)) (handleAddQueries env i qp)"
  "spares h (Some (qp_clientGroupID qp)) (handleAddQueriesStream env i qp)"
  "spares h (Some (rp_clientGroupID rp)) (handleRemoveQuery env i rp)"
  "spares h (Some (vp_clientGroupID vp)) (handleAdvance env i vp)"
  "spares h (Some (vp_clientGroupID vp)) (handleAdvanceStream env i vp)"
proof -
  show "spares h (Some (lp_clientGroupID lp)) (handleLoadRows env i lp)"
    unfolding handleLoadRows_def by (intro spares_with_engine keep keeps_onM) simp_all
  show "spares h (Some cg) (handleAddQuery env i (cg, q, ep))"
    unfolding handleAddQuery_def prod.case by (intro spares_with_engine keep keeps_onM) simp_all
  show "spares h (Some (qp_clientGroupID qp)) (handleAddQueries env i qp)"
    unfolding handleAddQueries_def by (intro spares_with_engine keep keeps_onM) simp_all
  show "spares h (Some (qp_clientGroupID qp)) (handleAddQueriesStream env i qp)"
    unfolding handleAddQueriesStream_def by (intro spares_with_engine keep keeps_onM) simp_all
  show "spares h (Some (rp_clientGroupID rp)) (handleRemoveQuery env i rp)"
    unfolding handleRemoveQuery_def by (intro spares_with_engine keep keeps_onM) simp_all
  show "spares h (Some (vp_clientGroupID vp)) (handleAdvance env i vp)"
    unfolding handleAdvance_def by (intro spares_with_engine keep keeps_onM) simp_all
  show "spares h (Some (vp_clientGroupID vp)) (handleAdvanceStream env i vp)"
    unfolding handleAdvanceStream_def by (intro spares_with_engine keep keeps_onM) (auto intro!: keep split: option.splits sum.splits)
qed

lemma spares_pure: "spares h target (retM x)"
  by (simp add: spares_def)

lemma spares_decoded:
  assumes "\<And>x. d = Inr x \<Longrightarrow> spares h target (handler x)"
  shows "spares h target (decoded i d handler)"
  using assms by (cases d) (simp_all add: decoded_def spares_pure)

lemma spares_recover:
  "spares h target (dispatch cd env req) \<Longrightarrow> spares h target (handleRequest cd env req)"
  unfolding spares_def handleRequest_def by (auto split: prod.splits sum.splits if_splits)

lemma spares_dispatch: "spares h (request_group cd req) (dispatch cd env req)"
  unfolding dispatch_def request_group_def Let_def
  by (auto intro!: spares_decoded spares_pure intro: spares_handlers spares_init spares_destroy)

text \<open>
  C31. Client groups are isolated: whatever a worker does with a request, and however it ends, in a
  response, a recovered panic or a fatal one, the object of every other existing group, its engine with
  all sources and queries, its epoch and its state, is as before.
\<close>

theorem requests_are_isolated:
  assumes "worker_request cd env gid req s = (r, s')" "h < next_group s" "h \<noteq> gid"
    and "\<forall>cg. request_group cd req = Some cg \<longrightarrow> map_of (groups s) (default_group cg) \<noteq> Some h"
  shows "group_objs s' h = group_objs s h"
proof -
  let ?run = "if Method req = ''addQueriesStream''
      then decoded (ReqID req) (dec_addQueries cd (ReqParams req)) (handleAddQueriesStream env (ReqID req))
      else if Method req = ''advanceStream''
      then decoded (ReqID req) (dec_advance cd (ReqParams req)) (handleAdvanceStream env (ReqID req))
      else handleRequest cd env req"
  have "spares h (request_group cd req) ?run"
  proof (cases "Method req = ''addQueriesStream'' \<or> Method req = ''advanceStream''")
    case True
    then show ?thesis
      by (auto simp: request_group_def intro!: spares_decoded intro: spares_handlers)
  next
    case False
    then show ?thesis using spares_recover [OF spares_dispatch] by simp
  qed
  then show ?thesis
    using assms by (auto simp: worker_request_def spares_def group_at_def)
qed

section \<open>Stale requests\<close>

text \<open>The group and the epoch that a request claims to belong to.\<close>

definition claimed_epoch :: "'p codec \<Rightarrow> ('p, 'i) RPCRequest \<Rightarrow> (string \<times> 64 word) option" where
  "claimed_epoch cd req =
     (let p = ReqParams req; m = Method req in
      if m = ''loadRows'' then (case dec_loadRows cd p of Inl _ \<Rightarrow> None | Inr x \<Rightarrow> Some (lp_clientGroupID x, lp_initEpoch x))
      else if m = ''addQuery'' then (case dec_addQuery cd p of Inl _ \<Rightarrow> None | Inr x \<Rightarrow> Some (fst x, snd (snd x)))
      else if m = ''addQueries'' \<or> m = ''addQueriesStream''
        then (case dec_addQueries cd p of Inl _ \<Rightarrow> None | Inr x \<Rightarrow> Some (qp_clientGroupID x, qp_initEpoch x))
      else if m = ''removeQuery'' then (case dec_removeQuery cd p of Inl _ \<Rightarrow> None | Inr x \<Rightarrow> Some (rp_clientGroupID x, rp_initEpoch x))
      else if m = ''advance'' \<or> m = ''advanceStream''
        then (case dec_advance cd p of Inl _ \<Rightarrow> None | Inr x \<Rightarrow> Some (vp_clientGroupID x, vp_initEpoch x))
      else None)"

lemma with_engine_stale:
  assumes "map_of (groups s) (default_group cg) = Some h" "eng (group_objs s h) \<noteq> None" "epoch \<noteq> initEpoch (group_objs s h)"
  shows "with_engine env i cg uninit epoch body s = (Inr (rpcError i rpcCodeStaleInitEpoch ''stale init epoch'', []), s)"
  using assms by (auto simp: with_engine_def getGroup_def checkInitEpoch_def Let_def)

lemma dispatch_stale:
  assumes "claimed_epoch cd req = Some (cg, epoch)" "map_of (groups s) (default_group cg) = Some h"
    and "eng (group_objs s h) \<noteq> None" "epoch \<noteq> initEpoch (group_objs s h)"
  shows "(if Method req = ''addQueriesStream''
      then decoded (ReqID req) (dec_addQueries cd (ReqParams req)) (handleAddQueriesStream env (ReqID req))
      else if Method req = ''advanceStream''
      then decoded (ReqID req) (dec_advance cd (ReqParams req)) (handleAdvanceStream env (ReqID req))
      else handleRequest cd env req) s = (Inr (rpcError (ReqID req) rpcCodeStaleInitEpoch ''stale init epoch'', []), s)"
proof -
  note stale = with_engine_stale [OF assms(2,3,4)]
  consider "Method req = ''loadRows''"
    | "Method req = ''addQuery''"
    | "Method req = ''addQueries''"
    | "Method req = ''addQueriesStream''"
    | "Method req = ''removeQuery''"
    | "Method req = ''advance''"
    | "Method req = ''advanceStream''"
    using assms(1) by (simp only: claimed_epoch_def Let_def split: if_splits) blast+
  then show ?thesis
  proof cases
    case 1
    with assms(1) show ?thesis
      by (cases "dec_loadRows cd (ReqParams req)") (auto simp: claimed_epoch_def decoded_def handleLoadRows_def stale handleRequest_def dispatch_def Let_def)
  next
    case 2
    with assms(1) show ?thesis
      by (cases "dec_addQuery cd (ReqParams req)") (auto simp: claimed_epoch_def decoded_def handleAddQuery_def stale handleRequest_def dispatch_def Let_def)
  next
    case 3
    with assms(1) show ?thesis
      by (cases "dec_addQueries cd (ReqParams req)") (auto simp: claimed_epoch_def decoded_def handleAddQueries_def stale handleRequest_def dispatch_def Let_def)
  next
    case 4
    with assms(1) show ?thesis
      by (cases "dec_addQueries cd (ReqParams req)") (auto simp: claimed_epoch_def decoded_def handleAddQueriesStream_def stale Let_def)
  next
    case 5
    with assms(1) show ?thesis
      by (cases "dec_removeQuery cd (ReqParams req)") (auto simp: claimed_epoch_def decoded_def handleRemoveQuery_def stale handleRequest_def dispatch_def Let_def)
  next
    case 6
    with assms(1) show ?thesis
      by (cases "dec_advance cd (ReqParams req)") (auto simp: claimed_epoch_def decoded_def handleAdvance_def stale handleRequest_def dispatch_def Let_def)
  next
    case 7
    with assms(1) show ?thesis
      by (cases "dec_advance cd (ReqParams req)") (auto simp: claimed_epoch_def decoded_def handleAdvanceStream_def stale Let_def)
  qed
qed

text \<open>
  C32. A stale request changes nothing: a request that mutates an engine and claims another epoch than
  the one its group is in is answered with the error for stale epochs, sends no partial frame, and
  leaves the whole server as it is but for the time of last use of the worker's group.  In particular
  a request that carries no epoch (0) is refused after the first initialisation.
\<close>

theorem stale_requests_change_nothing:
  assumes "claimed_epoch cd req = Some (cg, epoch)" "map_of (groups s) (default_group cg) = Some h"
    and "eng (group_objs s h) \<noteq> None" "epoch \<noteq> initEpoch (group_objs s h)"
  shows "worker_request cd env gid req s =
    (Inr (rpcError (ReqID req) rpcCodeStaleInitEpoch ''stale init epoch'', []),
     wr (group_at gid) ((group_objs s gid)\<lparr>lastUsedNs := env_now env\<rparr>) s)"
proof -
  let ?s = "wr (group_at gid) ((group_objs s gid)\<lparr>lastUsedNs := env_now env\<rparr>) s"
  have "map_of (groups ?s) (default_group cg) = Some h" "eng (group_objs ?s h) \<noteq> None" "epoch \<noteq> initEpoch (group_objs ?s h)"
    using assms by (auto simp: group_at_def)
  from dispatch_stale [OF assms(1) this] show ?thesis
    unfolding worker_request_def by (simp add: group_at_def)
qed

section \<open>Panics\<close>

lemma handleRequest_fatal: "handleRequest cd env req s = (Inl e, s') \<Longrightarrow> \<not> recoverable e"
  by (auto simp: handleRequest_def split: prod.splits sum.splits if_splits)

text \<open>
  C33. Which panics take the process down: a request other than the two streaming ones ends in a response
  unless the panic came from another goroutine (or the model's bound was reached); but every panic that
  is not drift in a streamed advance, recoverable or not, ends the worker without a response, and with
  it the process and all groups, although the same panic in an \<open>advance\<close> is answered with an error.
\<close>

theorem panics_of_requests:
  assumes "map_of (groups s) (default_group (vp_clientGroupID p)) = Some gid" "eng (group_objs s gid) = Some e"
    and "vp_initEpoch p = initEpoch (group_objs s gid)"
    and "AdvanceStream (env_sched env) advanceChunkSize (env_fuel env) (vp_changes p) e = (Some (Inl x), fs, e')"
  shows "(Method req \<noteq> ''addQueriesStream'' \<and> Method req \<noteq> ''advanceStream'' \<longrightarrow>
      (\<forall>x s'. worker_request cd env w req s = (Inl x, s') \<longrightarrow> \<not> recoverable x)) \<and>
    (Method req = ''advanceStream'' \<and> dec_advance cd (ReqParams req) = Inr p \<longrightarrow>
      fst (worker_request cd env gid req s) = Inl x)"
proof (intro conjI impI allI)
  fix x s'
  assume "Method req \<noteq> ''addQueriesStream'' \<and> Method req \<noteq> ''advanceStream''" "worker_request cd env w req s = (Inl x, s')"
  then show "\<not> recoverable x"
    by (auto simp: worker_request_def dest: handleRequest_fatal)
next
  assume req: "Method req = ''advanceStream'' \<and> dec_advance cd (ReqParams req) = Inr p"
  let ?s = "wr (group_at gid) ((group_objs s gid)\<lparr>lastUsedNs := env_now env\<rparr>) s"
  have at: "map_of (groups ?s) (default_group (vp_clientGroupID p)) = Some gid" "eng (group_objs ?s gid) = Some e"
    "initEpoch (group_objs ?s gid) = vp_initEpoch p"
    using assms(1-3) by (simp_all add: group_at_def)
  have "onM (engine_at gid) (stream_engine env (vp_changes p)) ?s = (Inr (Some (Inl x), fs), wr (engine_at gid) e' ?s)"
    using assms(4) at(2) by (intro onM_run) (simp add: stream_engine_def engine_at_def)
  with at req show "fst (worker_request cd env gid req s) = Inl x"
    by (simp add: worker_request_def group_at_def decoded_def handleAdvanceStream_def with_engine_def getGroup_def
      checkInitEpoch_def Let_def)
qed

section \<open>Initialisation\<close>

text \<open>An engine that has no query and is open.\<close>

definition fresh_engine :: "Engine \<Rightarrow> bool" where
  "fresh_engine e \<longleftrightarrow> pipelines e = [] \<and> \<not> closed e"

definition serves_tables :: "nat \<Rightarrow> string set \<Rightarrow> Server \<Rightarrow> bool" where
  "serves_tables gid T s \<longleftrightarrow> (\<exists>e. eng (group_objs s gid) = Some e \<and> fresh_engine e \<and> dom (GetMemorySource e) = T)"

lemma RegisterMemorySource_fresh:
  assumes "RegisterMemorySource ms e = (Inr (), e')" "fresh_engine e"
  shows "fresh_engine e' \<and> dom (GetMemorySource e') = insert (tableName ms) (dom (GetMemorySource e))"
proof -
  have "\<not> closed e" using assms(2) by (simp add: fresh_engine_def)
  with assms show ?thesis
    by (auto simp: RegisterMemorySource_def bindM_split heap_at_def onM_def fresh_engine_def GetMemorySource_def dom_def
      split: prod.splits if_splits)
qed

lemma keeps_step_self: "(\<And>c c'. g c = Inr c' \<Longrightarrow> f c' = f c) \<Longrightarrow> keeps f (stepM self g)"
  by (auto simp: keeps_def stepM_def split: sum.splits)

lemma keeps_name: "keeps tableName (BulkInsert self rows)"
proof (induction rows)
  case (Cons r rows)
  moreover have "keeps tableName (stepM self (source_insert r))"
    by (intro keeps_step_self) (auto simp: source_insert_def bindR_eq_Inr)
  ultimately show ?case by (auto intro: keep)
qed (simp add: keeps_def)

lemma init_source_name: "init_source um t schema = Inr ms \<Longrightarrow> tableName ms = t"
  by (auto simp: init_source_def Let_def NewMemorySourceWithConverter_def split: prod.splits sum.splits
    dest!: keepsD [OF keeps_name])

lemma GetMemorySource_keys [simp]: "GetMemorySource (e\<lparr>tableUniqueKeys := k\<rparr>) = GetMemorySource e"
  by (simp add: GetMemorySource_def fun_eq_iff)

lemma init_table_registers:
  assumes "init_table env gid t s = (Inr (), s')" "serves_tables gid T s"
  shows "serves_tables gid (insert (fst t) T) s'"
proof -
  from assms(2) obtain e where e: "eng (group_objs s gid) = Some e" "fresh_engine e" "dom (GetMemorySource e) = T"
    by (auto simp: serves_tables_def)
  from assms(1) obtain ms e1 where ms: "init_source (env_unmarshal env) (fst t) (snd t) = Inr ms"
    and e1: "RegisterMemorySource ms e = (Inr (), e1)"
    and rest: "(if tsp_uniqueKeys (snd t) \<noteq> []
        then onM (engine_at gid) (SetTableUniqueKeys (fst t) (Some (tsp_uniqueKeys (snd t)))) else retM ())
        (wr (engine_at gid) e1 s) = (Inr (), s')"
    using e(1) by (auto simp: init_table_def bindM_split onM_eq) (simp add: engine_at_def)
  from RegisterMemorySource_fresh [OF e1 e(2)] init_source_name [OF ms] e(3) rest show ?thesis
    by (auto simp: serves_tables_def onM_eq engine_at_def SetTableUniqueKeys_def fresh_engine_def split: if_splits)
qed

lemma init_tables_register:
  assumes "forM (init_table env gid) ts s = (Inr (), s')" "serves_tables gid T s"
  shows "serves_tables gid (set (map fst ts) \<union> T) s'"
  using assms
proof (induction ts arbitrary: s T)
  case (Cons t ts)
  then obtain s1 where "init_table env gid t s = (Inr (), s1)" "forM (init_table env gid) ts s1 = (Inr (), s')"
    by (auto simp: bindM_split)
  with Cons.IH Cons.prems(2) init_table_registers show ?case by fastforce
qed simp

definition epochs :: "nat \<Rightarrow> Server \<Rightarrow> (string \<times> nat) list \<times> 64 word" where
  "epochs gid s = (groups s, initEpoch (group_objs s gid))"

lemma keeps_epochs: "keeps (epochs gid) (onM (engine_at gid) m)"
  by (intro keeps_onM) (simp add: engine_at_def epochs_def)

lemma keeps_epochs_table: "keeps (epochs gid) (forM (init_table env gid) ts)"
  unfolding init_table_def by (intro keep keeps_epochs)

lemma init_group_outcome:
  assumes "init_group env i p gid s = (Inr resp, s')"
  shows "epochs gid s' = (groups s, initEpoch (group_objs s gid) + 1) \<and>
    (Error (fst resp) = None \<longrightarrow> Result (fst resp) = Some (InitOk (initEpoch (group_objs s gid) + 1)) \<and>
       serves_tables gid (set (map fst (ip_tables p))) s')"
proof -
  let ?shut = "if eng (group_objs s gid) \<noteq> None then onM (engine_at gid) Close else retM ()"
  obtain s1 where s1: "?shut s = (Inr (), s1)"
    using assms by (auto simp: init_group_def bindM_split)
  have "keeps (epochs gid) ?shut"
    by (intro keep keeps_epochs)
  from keepsD [OF this s1] have same: "epochs gid s1 = epochs gid s" .
  let ?s2 = "wr (group_at gid) ((group_objs s1 gid)\<lparr>initEpoch := initEpoch (group_objs s1 gid) + 1\<rparr>) s1"
  show ?thesis
  proof (cases "env_open env (if ip_storage p = '''' then '':memory:'' else ip_storage p)")
    case (Some err)
    with assms s1 same show ?thesis
      by (auto simp: init_group_def group_at_def epochs_def rpcError_def)
  next
    case None
    let ?s3 = "wr (group_at gid) ((group_objs ?s2 gid)\<lparr>eng := Some (NewEngine (env_threshold env))\<rparr>) ?s2"
    have "forM (init_table env gid) (ip_tables p) ?s3 = (Inr (), s') \<and> fst resp = rpcResult i (InitOk (initEpoch (group_objs ?s2 gid)))"
      using assms s1 None by (auto simp: init_group_def group_at_def bindM_split)
    moreover have "serves_tables gid {} ?s3"
      by (auto simp: serves_tables_def group_at_def NewEngine_def fresh_engine_def GetMemorySource_def)
    moreover have "epochs gid ?s3 = (groups s, initEpoch (group_objs s gid) + 1)"
      using same by (auto simp: epochs_def group_at_def)
    ultimately show ?thesis
      using keepsD [OF keeps_epochs_table] init_tables_register same by (fastforce simp: rpcResult_def epochs_def group_at_def)
  qed
qed

text \<open>
  C34. Initialisation starts over: the group gets the next epoch, which the answer carries, and an open
  engine with no query and a source for exactly the tables of the request, whatever engine it had.  A
  new group starts at epoch 1, so the epoch 0 of a request that carries none is never current before
  2^64 initialisations.
\<close>

theorem init_starts_over:
  assumes "handleInit env i p s = (Inr resp, s')" "Error (fst resp) = None"
  shows "\<exists>gid. map_of (groups s') (default_group (ip_clientGroupID p)) = Some gid \<and>
    serves_tables gid (set (map fst (ip_tables p))) s' \<and>
    initEpoch (group_objs s' gid) = (case map_of (groups s) (default_group (ip_clientGroupID p)) of
      None \<Rightarrow> 1 | Some old \<Rightarrow> initEpoch (group_objs s old) + 1) \<and>
    Result (fst resp) = Some (InitOk (initEpoch (group_objs s' gid)))"
proof -
  obtain gid s1 where g: "getGroup (env_now env) (default_group (ip_clientGroupID p)) s = (gid, s1)" by force
  then have "map_of (groups s1) (default_group (ip_clientGroupID p)) = Some gid"
    "initEpoch (group_objs s1 gid) = (case map_of (groups s) (default_group (ip_clientGroupID p)) of
      None \<Rightarrow> 0 | Some old \<Rightarrow> initEpoch (group_objs s old))"
    by (auto simp: getGroup_def split: option.splits)
  moreover have "init_group env i p gid s1 = (Inr resp, s')" using assms(1) g by (simp add: handleInit_def)
  ultimately show ?thesis
    using init_group_outcome assms(2) by (fastforce simp: epochs_def split: option.splits)
qed

section \<open>Destruction\<close>

lemma shutdownGroup_forgets:
  assumes "shutdownGroup gid s = (Inr (), s')"
  shows "groups s' = groups s \<and> next_group s' = next_group s \<and> g_closed (group_objs s' gid) \<and>
    (\<not> g_closed (group_objs s gid) \<longrightarrow> eng (group_objs s' gid) = None)"
  using assms
  by (auto simp: shutdownGroup_def onM_eq group_at_def engine_at_def bindM_split split: if_splits option.splits)

text \<open>
  A destroyed group leaves nothing behind: it is no longer known, its queue is closed and its engine
  dropped.  A request that arrives later is not served by the old engine: it makes a new group, whose
  epoch is 0 and which has no engine, and is told to call \<open>init\<close> first, with whatever epoch it comes.
\<close>

theorem destroyed_group_is_forgotten:
  assumes "handleDestroy i cg s = (Inr resp, s')"
  shows "map_of (groups s') (default_group cg) = None \<and> resp = (rpcResult i ResultOk, []) \<and>
    (\<forall>gid. map_of (groups s) (default_group cg) = Some gid \<and> \<not> g_closed (group_objs s gid) \<longrightarrow>
       g_closed (group_objs s' gid) \<and> eng (group_objs s' gid) = None) \<and>
    (\<forall>p j. default_group (vp_clientGroupID p) = default_group cg \<longrightarrow>
       (\<exists>s''. handleAdvance env j p s' = (Inr (rpcError j (- 32000) ''engine not initialized'', []), s'') \<and>
          map_of (groups s'') (default_group cg) = Some (next_group s') \<and> initEpoch (group_objs s'' (next_group s')) = 0 \<and>
          eng (group_objs s'' (next_group s')) = None))"
proof -
  have shut: "resp = (rpcResult i ResultOk, []) \<and> map_of (groups s') (default_group cg) = None \<and>
      (\<forall>gid. map_of (groups s) (default_group cg) = Some gid \<and> \<not> g_closed (group_objs s gid) \<longrightarrow>
         g_closed (group_objs s' gid) \<and> eng (group_objs s' gid) = None)"
    using assms by (auto simp: handleDestroy_def removeGroup_def bindM_split dest: shutdownGroup_forgets split: option.splits)
  then show ?thesis
    by (auto simp: handleAdvance_def with_engine_def getGroup_def Let_def)
qed

section \<open>Witnesses\<close>

text \<open>Two initialised groups, the first with a memory source; every payload decodes to the same parameters.\<close>

definition demo_env :: environment where
  "demo_env = \<lparr>env_now = 7, env_open = (\<lambda>_. None), env_show = (\<lambda>_. ''panic''), env_threshold = 0,
     env_unmarshal = (\<lambda>_. None), env_sched = id, env_upper = id, env_fuel = 0\<rparr>"

definition poison :: SnapshotChange where
  "poison = \<lparr>snap_table = ''items'', prevValues = [], nextValue = Some [''id'' \<mapsto> VStr ''x'']\<rparr>"

definition demo_advance :: advanceParams where
  "demo_advance = \<lparr>vp_clientGroupID = ''a'', vp_changes = [poison], vp_initEpoch = 3\<rparr>"

definition demo_codec :: "unit codec" where
  "demo_codec = \<lparr>dec_init = (\<lambda>_. Inl ''bad''), dec_loadRows = (\<lambda>_. Inl ''bad''), dec_addQuery = (\<lambda>_. Inl ''bad''),
     dec_addQueries = (\<lambda>_. Inl ''bad''),
     dec_removeQuery = (\<lambda>_. Inr \<lparr>rp_clientGroupID = ''a'', rp_queryID = ''q'', rp_initEpoch = 2\<rparr>),
     dec_advance = (\<lambda>_. Inr demo_advance), dec_destroy = (\<lambda>_. Inr ''a'')\<rparr>"

definition demo_engine :: Engine where
  "demo_engine = (NewEngine 0)\<lparr>heap := empty_world\<lparr>sources := (\<lambda>_. items [1])\<rparr>, registered := [(''items'', 0)]\<rparr>"

definition demo_server :: Server where
  "demo_server = \<lparr>groups = [(''a'', 0), (''b'', 1)],
     group_objs = (\<lambda>_. \<lparr>eng = Some demo_engine, g_closed = False, initEpoch = 3, lastUsedNs = 0\<rparr>), next_group = 2\<rparr>"

abbreviation demo_request :: "string \<Rightarrow> (unit, nat) RPCRequest" where
  "demo_request m \<equiv> \<lparr>Method = m, ReqParams = (), ReqID = 1\<rparr>"

lemma demo_groups:
  "map_of (groups demo_server) (default_group ''a'') = Some 0" "next_group demo_server = 2"
  "group_objs demo_server g = \<lparr>eng = Some demo_engine, g_closed = False, initEpoch = 3, lastUsedNs = 0\<rparr>"
  by (simp_all add: demo_server_def default_group_def)

theorem requests_are_isolated_witness:
  "group_objs (snd (worker_request demo_codec demo_env 0 (demo_request ''destroy'') demo_server)) 1 = group_objs demo_server 1"
  using requests_are_isolated [where cd = demo_codec and env = demo_env and gid = 0 and req = "demo_request ''destroy''"
      and s = demo_server and h = 1]
  by (cases "worker_request demo_codec demo_env 0 (demo_request ''destroy'') demo_server")
    (simp add: request_group_def demo_codec_def demo_groups)

theorem stale_requests_change_nothing_witness:
  "fst (worker_request demo_codec demo_env 0 (demo_request ''removeQuery'') demo_server) =
    Inr (rpcError 1 (- 32101) ''stale init epoch'', [])"
  using stale_requests_change_nothing [where cd = demo_codec and env = demo_env and gid = 0
      and req = "demo_request ''removeQuery''" and s = demo_server and cg = "''a''" and epoch = 2 and h = 0]
  by (simp add: claimed_epoch_def demo_codec_def demo_groups rpcCodeStaleInitEpoch_def)

theorem panics_of_requests_witness:
  "fst (worker_request demo_codec demo_env 0 (demo_request ''advanceStream'') demo_server) = Inl compare_panic"
proof -
  have e: "heap demo_engine = empty_world\<lparr>sources := (\<lambda>_. items [1])\<rparr>" "registered demo_engine = [(''items'', 0)]"
      "closed demo_engine = False" "sources (heap demo_engine) 0 = items [1]" "demo_engine\<lparr>heap := heap demo_engine\<rparr> = demo_engine"
    by (simp_all add: demo_engine_def NewEngine_def)
  have rd: "rd (source_at 0) (heap demo_engine) = items [1]" by (simp add: demo_engine_def source_at_def)
  have fields: "connections (items [1]) = []" "parallel (items [1]) = False"
    by (simp_all add: items_def NewMemorySourceWithConverter_def)
  have norm: "snapshotToSourceChanges (items [1]) poison = Inr [SourceAdd [''id'' \<mapsto> VStr ''x'']]"
    by (simp add: snapshotToSourceChanges_def poison_def NormalizeRow_def items_def NewMemorySourceWithConverter_def plain_value_def)
  have "CompareValues (num 1) (VStr ''x'') = Inl compare_panic"
    by (simp add: CompareValues_def iface_eq_def)
  then have "source_cmp (items [1]) (item 1) [''id'' \<mapsto> VStr ''x''] = Inl compare_panic"
    by (simp add: source_cmp_def items_def NewMemorySourceWithConverter_def item_def col_def)
  moreover have "data (items [1]) = [item 1]" by (simp add: items_def)
  ultimately have "validate (SourceAdd [''id'' \<mapsto> VStr ''x'']) (items [1]) = Inl compare_panic"
    by (simp add: source_has_def source_search_def sort_Search_def sort_search_loop.simps)
  then have "MemorySource_Push id (source_at 0) (c_push no_calls) (SourceAdd [''id'' \<mapsto> VStr ''x'']) (heap demo_engine) =
      (Inl compare_panic, heap demo_engine)"
    by (simp add: MemorySource_Push_def genPushAndWriteWithSplitEdit_def genPushAndWrite_def genPush_def rd fields bindM_False
      del: validate.simps)
  then have loop: "forM (advance_change id 0 (flush_full n)) [poison] (demo_engine, no_progress) =
      (Inl compare_panic, (demo_engine, no_progress))" for n
    using norm e by (simp add: advance_change_def advance_push_def onM_def heap_at_def poison_def)
  have "AdvanceStream (env_sched demo_env) advanceChunkSize (env_fuel demo_env) (vp_changes demo_advance) demo_engine =
      (Some (Inl compare_panic), [], demo_engine)"
    using e loop by (simp add: AdvanceStream_def advance_stream_def recover_drift_def demo_env_def demo_advance_def compare_panic_def
      no_progress_def del: forM.simps)
  from panics_of_requests [OF _ _ _ this, where s = demo_server and gid = 0 and cd = demo_codec and
      req = "demo_request ''advanceStream''"]
  show ?thesis by (simp add: demo_groups demo_codec_def demo_advance_def)
qed

theorem init_starts_over_witness:
  "Result (fst (case fst (handleInit demo_env (1::nat) \<lparr>ip_clientGroupID = ''a'', ip_storage = '''', ip_tables = []\<rparr> demo_server) of
    Inr resp \<Rightarrow> resp)) = Some (InitOk 4)"
proof -
  let ?p = "\<lparr>ip_clientGroupID = ''a'', ip_storage = '''', ip_tables = []\<rparr>"
  obtain resp s' where run: "handleInit demo_env (1::nat) ?p demo_server = (Inr resp, s')" "Error (fst resp) = None"
    by (simp add: handleInit_def getGroup_def demo_groups init_group_def Close_def onM_def demo_env_def demo_engine_def NewEngine_def
      engine_at_def group_at_def rpcResult_def)
  from init_starts_over [OF this] run(1) show ?thesis by (auto simp: demo_groups)
qed

theorem destroyed_group_is_forgotten_witness:
  "\<exists>s'. handleDestroy (1::nat) ''a'' demo_server = (Inr (rpcResult 1 ResultOk, []), s') \<and> map_of (groups s') ''a'' = None"
proof -
  obtain resp s' where run: "handleDestroy (1::nat) ''a'' demo_server = (Inr resp, s')"
    by (simp add: handleDestroy_def removeGroup_def shutdownGroup_def demo_groups Close_def onM_def demo_engine_def NewEngine_def
      engine_at_def group_at_def)
  from destroyed_group_is_forgotten [OF this] run show ?thesis by (auto simp: default_group_def)
qed

end
