(* ===== verification/GroupQueue.thy ===== *)
theory GroupQueue
  imports GroupSafety
begin

text \<open>
  The queue of a client group under concurrency: \<open>trySendReq\<close>, \<open>worker\<close> and \<open>shutdownGroup\<close> of
  \<open>cmd/sidecar/main.go\<close> as a step relation.

  The read loops of the connections (\<open>Reader i\<close>, each with its own requests in order) and the worker
  share the group's mutex and its channel.  A step is one action that the others can observe: taking
  the mutex, the send or the refusal with the release of the mutex, the receive, the run of a handler.
  The steps of one goroutine between such actions touch nothing shared.  \<open>needs r\<close> says whether the
  handler of \<open>r\<close> locks the group, \<open>closes r\<close> whether it destroys it; both are read off the request.
  A panic that ends the process is not modelled here.
\<close>

section \<open>Step relations that stop\<close>

text \<open>
  A step relation with a number that every step lowers, and an invariant of its start states: reachable
  states satisfy the invariant, and every state leads to one where nothing is left to do.
\<close>

inductive reach :: "('s \<Rightarrow> bool) \<Rightarrow> ('s \<Rightarrow> 's \<Rightarrow> bool) \<Rightarrow> 's \<Rightarrow> bool" for start step where
  start: "start s \<Longrightarrow> reach start step s"
| step: "reach start step s \<Longrightarrow> step s t \<Longrightarrow> reach start step t"

lemma reach_steps: "step\<^sup>*\<^sup>* s t \<Longrightarrow> reach start step s \<Longrightarrow> reach start step t"
  by (induction rule: rtranclp_induct) (auto intro: reach.step)

locale stopping =
  fixes start :: "'s \<Rightarrow> bool" and step :: "'s \<Rightarrow> 's \<Rightarrow> bool" and inv :: "'s \<Rightarrow> bool" and work :: "'s \<Rightarrow> nat"
  assumes start_inv: "start s \<Longrightarrow> inv s"
    and step_inv: "inv s \<Longrightarrow> step s t \<Longrightarrow> inv t"
    and step_work: "step s t \<Longrightarrow> work t < work s"
begin

lemma reach_inv: "reach start step s \<Longrightarrow> inv s"
  by (induction rule: reach.induct) (auto intro: start_inv step_inv)

lemma no_infinite_run: "wfp (\<lambda>t s. step s t)"
  by (rule wfp_if_convertible_to_nat [of _ work]) (rule step_work)

lemma bounded_run: "(step ^^ n) s t \<Longrightarrow> n + work t \<le> work s"
proof (induction n arbitrary: t)
  case (Suc n)
  then obtain u where "(step ^^ n) s u" "step u t" by auto
  with Suc.IH step_work [of u t] show ?case by fastforce
qed simp

end

section \<open>The shared state\<close>

datatype owner = Reader nat | Worker

datatype 'r worker = Idle | Took 'r | Running 'r | Exited

text \<open>\<open>attempts\<close> logs every return of \<open>trySendReq\<close>, with its result; \<open>handled\<close> what the worker has done.\<close>

record 'r group_queue =
  gq_mu :: "owner option"
  gq_closed :: bool
  reqC :: "'r list"
  gq_worker :: "'r worker"
  todo :: "'r list list"
  attempts :: "(nat \<times> 'r \<times> bool) list"
  handled :: "'r list"

definition reqC_capacity :: nat where
  "reqC_capacity = 64"

definition fresh_queue :: "'r list list \<Rightarrow> 'r group_queue" where
  "fresh_queue progs = \<lparr>gq_mu = None, gq_closed = False, reqC = [], gq_worker = Idle, todo = progs, attempts = [], handled = []\<rparr>"

section \<open>The steps\<close>

inductive trySendReq :: "nat \<Rightarrow> 'r group_queue \<Rightarrow> 'r group_queue \<Rightarrow> bool" for cap where
  lock: "gq_mu s = None \<Longrightarrow> i < length (todo s) \<Longrightarrow> todo s ! i \<noteq> [] \<Longrightarrow>
    trySendReq cap s (s\<lparr>gq_mu := Some (Reader i)\<rparr>)"
| refuse: "gq_mu s = Some (Reader i) \<Longrightarrow> i < length (todo s) \<Longrightarrow> todo s ! i = r # rs \<Longrightarrow> gq_closed s \<Longrightarrow>
    trySendReq cap s (s\<lparr>gq_mu := None, todo := (todo s)[i := rs], attempts := attempts s @ [(i, r, False)]\<rparr>)"
| send: "gq_mu s = Some (Reader i) \<Longrightarrow> i < length (todo s) \<Longrightarrow> todo s ! i = r # rs \<Longrightarrow> \<not> gq_closed s \<Longrightarrow>
    length (reqC s) < cap \<Longrightarrow>
    trySendReq cap s (s\<lparr>gq_mu := None, reqC := reqC s @ [r], todo := (todo s)[i := rs], attempts := attempts s @ [(i, r, True)]\<rparr>)"

inductive worker_step :: "('r \<Rightarrow> bool) \<Rightarrow> ('r \<Rightarrow> bool) \<Rightarrow> 'r group_queue \<Rightarrow> 'r group_queue \<Rightarrow> bool" for needs closes where
  receive: "gq_worker s = Idle \<Longrightarrow> reqC s = r # rs \<Longrightarrow> worker_step needs closes s (s\<lparr>reqC := rs, gq_worker := Took r\<rparr>)"
| enter: "gq_worker s = Took r \<Longrightarrow> needs r \<Longrightarrow> gq_mu s = None \<Longrightarrow>
    worker_step needs closes s (s\<lparr>gq_mu := Some Worker, gq_worker := Running r\<rparr>)"
| finish: "gq_worker s = Running r \<Longrightarrow> gq_mu s = Some Worker \<Longrightarrow>
    worker_step needs closes s
      (s\<lparr>gq_mu := None, gq_closed := (gq_closed s \<or> closes r), gq_worker := Idle, handled := handled s @ [r]\<rparr>)"
| unlocked: "gq_worker s = Took r \<Longrightarrow> \<not> needs r \<Longrightarrow>
    worker_step needs closes s (s\<lparr>gq_worker := Idle, handled := handled s @ [r]\<rparr>)"
| exit: "gq_worker s = Idle \<Longrightarrow> reqC s = [] \<Longrightarrow> gq_closed s \<Longrightarrow> worker_step needs closes s (s\<lparr>gq_worker := Exited\<rparr>)"

text \<open>The reaper and \<open>closeAll\<close> close the group under its mutex.\<close>

inductive shutdown_step :: "'r group_queue \<Rightarrow> 'r group_queue \<Rightarrow> bool" where
  shutdown: "gq_mu s = None \<Longrightarrow> \<not> gq_closed s \<Longrightarrow> shutdown_step s (s\<lparr>gq_closed := True\<rparr>)"

inductive_cases trySendReqE: "trySendReq cap s t"
inductive_cases worker_stepE: "worker_step needs closes s t"
inductive_cases shutdown_stepE: "shutdown_step s t"

definition serve_step :: "nat \<Rightarrow> ('r \<Rightarrow> bool) \<Rightarrow> ('r \<Rightarrow> bool) \<Rightarrow> 'r group_queue \<Rightarrow> 'r group_queue \<Rightarrow> bool" where
  "serve_step cap needs closes s t \<longleftrightarrow> trySendReq cap s t \<or> worker_step needs closes s t"

definition group_step :: "nat \<Rightarrow> ('r \<Rightarrow> bool) \<Rightarrow> ('r \<Rightarrow> bool) \<Rightarrow> 'r group_queue \<Rightarrow> 'r group_queue \<Rightarrow> bool" where
  "group_step cap needs closes s t \<longleftrightarrow> serve_step cap needs closes s t \<or> shutdown_step s t"

abbreviation group_run :: "nat \<Rightarrow> ('r \<Rightarrow> bool) \<Rightarrow> ('r \<Rightarrow> bool) \<Rightarrow> 'r list list \<Rightarrow> 'r group_queue \<Rightarrow> bool" where
  "group_run cap needs closes progs \<equiv> reach (\<lambda>s. s = fresh_queue progs) (group_step cap needs closes)"

section \<open>Invariant and measure\<close>

fun in_worker :: "'r worker \<Rightarrow> 'r list" where
  "in_worker (Took r) = [r]"
| "in_worker (Running r) = [r]"
| "in_worker _ = []"

text \<open>The requests that a tries accepted, and those that a reader has tried to send.\<close>

definition sent :: "(nat \<times> 'r \<times> bool) list \<Rightarrow> 'r list" where
  "sent tries = map (\<lambda>(i, r, ok). r) (filter (\<lambda>(i, r, ok). ok) tries)"

definition attempted :: "nat \<Rightarrow> (nat \<times> 'r \<times> bool) list \<Rightarrow> 'r list" where
  "attempted j tries = map (\<lambda>(i, r, ok). r) (filter (\<lambda>(i, r, ok). i = j) tries)"

lemma log_simps [simp]:
  "sent [] = []" "sent (tries @ [(i, r, ok)]) = sent tries @ (if ok then [r] else [])"
  "attempted j [] = []" "attempted j (tries @ [(i, r, ok)]) = attempted j tries @ (if i = j then [r] else [])"
  by (simp_all add: sent_def attempted_def)

definition queue_inv :: "nat \<Rightarrow> 'r list list \<Rightarrow> 'r group_queue \<Rightarrow> bool" where
  "queue_inv cap progs s \<longleftrightarrow>
     handled s @ in_worker (gq_worker s) @ reqC s = sent (attempts s) \<and>
     length (todo s) = length progs \<and> (\<forall>i < length progs. progs ! i = attempted i (attempts s) @ todo s ! i) \<and>
     (\<forall>i. gq_mu s = Some (Reader i) \<longrightarrow> i < length (todo s) \<and> todo s ! i \<noteq> []) \<and>
     (gq_mu s = Some Worker \<longleftrightarrow> (\<exists>r. gq_worker s = Running r)) \<and>
     (gq_worker s = Exited \<longrightarrow> reqC s = [] \<and> gq_closed s) \<and> length (reqC s) \<le> cap \<and>
     (\<forall>(i, r, ok) \<in> set (attempts s). i < length progs \<and> (\<not> ok \<longrightarrow> gq_closed s))"

fun worker_work :: "'r worker \<Rightarrow> nat" where
  "worker_work (Took r) = 3"
| "worker_work (Running r) = 2"
| "worker_work Idle = 1"
| "worker_work Exited = 0"

definition queue_work :: "'r group_queue \<Rightarrow> nat" where
  "queue_work s = 6 * sum_list (map length (todo s)) + 3 * length (reqC s) + worker_work (gq_worker s) +
     (case gq_mu s of Some (Reader i) \<Rightarrow> 0 | _ \<Rightarrow> 1) + (if gq_closed s then 0 else 1)"

lemma sum_list_update_tl:
  fixes xs :: "'r list list"
  shows "i < length xs \<Longrightarrow> xs ! i = r # rs \<Longrightarrow> Suc (sum_list (map length (xs[i := rs]))) = sum_list (map length xs)"
proof (induction xs arbitrary: i)
  case (Cons x xs)
  then show ?case by (cases i) auto
qed simp

lemma trySendReq_work: "trySendReq cap s t \<Longrightarrow> queue_work t < queue_work s"
  by (erule trySendReqE) (auto simp: queue_work_def dest!: sum_list_update_tl)

lemma worker_step_work: "worker_step needs closes s t \<Longrightarrow> queue_work t < queue_work s"
  by (erule worker_stepE) (auto simp: queue_work_def split: option.splits owner.splits)

lemma shutdown_step_work: "shutdown_step s t \<Longrightarrow> queue_work t < queue_work s"
  by (erule shutdown_stepE) (auto simp: queue_work_def)

lemma trySendReq_inv:
  assumes "trySendReq cap s t" "queue_inv cap progs s"
  shows "queue_inv cap progs t"
  using assms(1)
proof (cases rule: trySendReq.cases)
  case (lock i)
  with assms(2) show ?thesis by (auto simp: queue_inv_def)
next
  case (refuse i r rs)
  with assms(2) have "progs ! i = attempted i (attempts s) @ r # rs" by (simp add: queue_inv_def)
  with refuse assms(2) show ?thesis by (auto simp: queue_inv_def nth_list_update)
next
  case (send i r rs)
  with assms(2) have "progs ! i = attempted i (attempts s) @ r # rs" "sent (attempts s) = handled s @ in_worker (gq_worker s) @ reqC s"
    by (simp_all add: queue_inv_def)
  with send assms(2) show ?thesis by (auto simp: queue_inv_def nth_list_update)
qed

lemma worker_step_inv:
  assumes "worker_step needs closes s t" "queue_inv cap progs s"
  shows "queue_inv cap progs t"
  using assms(1)
proof (cases rule: worker_step.cases)
  case (receive r rs)
  with assms(2) show ?thesis by (auto simp: queue_inv_def)
next
  case (enter r)
  with assms(2) show ?thesis by (auto simp: queue_inv_def)
next
  case (finish r)
  with assms(2) show ?thesis by (auto simp: queue_inv_def)
next
  case (unlocked r)
  with assms(2) show ?thesis by (auto simp: queue_inv_def)
next
  case exit
  with assms(2) show ?thesis by (auto simp: queue_inv_def)
qed

lemma shutdown_step_inv: "shutdown_step s t \<Longrightarrow> queue_inv cap progs s \<Longrightarrow> queue_inv cap progs t"
  by (erule shutdown_stepE) (auto simp: queue_inv_def)

interpretation gq: stopping "\<lambda>s. s = fresh_queue progs" "group_step cap needs closes" "queue_inv cap progs" queue_work
  for progs :: "'r list list" and cap needs closes
proof unfold_locales
  show "queue_inv cap progs s" if "s = fresh_queue progs" for s
    using that by (simp add: queue_inv_def fresh_queue_def)
  show "queue_inv cap progs t" if "queue_inv cap progs s" "group_step cap needs closes s t" for s t
    using that by (auto simp: group_step_def serve_step_def intro: trySendReq_inv worker_step_inv shutdown_step_inv)
  show "queue_work t < queue_work s" if "group_step cap needs closes s t" for s t
    using that by (auto simp: group_step_def serve_step_def intro: trySendReq_work worker_step_work shutdown_step_work)
qed

section \<open>Order\<close>

text \<open>
  C35. Requests are handled in the order in which they were queued, and no request is lost or handled
  twice: in every reachable state, what was handled, what the worker holds and what waits in the channel
  are together, in this order, the requests that \<open>trySendReq\<close> accepted; each connection has tried to
  send a prefix of its requests, in its order; and a request is refused only when the group is closed.
\<close>

theorem requests_in_order:
  assumes "group_run cap needs closes progs s"
  shows "handled s @ in_worker (gq_worker s) @ reqC s = sent (attempts s) \<and>
    (\<forall>i < length progs. progs ! i = attempted i (attempts s) @ todo s ! i) \<and>
    (\<forall>(i, r, ok) \<in> set (attempts s). \<not> ok \<longrightarrow> gq_closed s) \<and> length (reqC s) \<le> cap"
  using gq.reach_inv [OF assms] by (auto simp: queue_inv_def)

section \<open>Deadlock\<close>

text \<open>One reader has queued \<open>k\<close> requests while the worker has taken the one before them.\<close>

definition filling :: "nat \<Rightarrow> nat \<Rightarrow> 'r \<Rightarrow> 'r group_queue" where
  "filling cap k r = \<lparr>gq_mu = None, gq_closed = False, reqC = replicate k r, gq_worker = Took r,
     todo = [replicate (Suc cap - k) r], attempts = replicate (Suc k) (0, r, True), handled = []\<rparr>"

lemma group_run_steps:
  assumes "group_run cap needs closes progs s"
  shows "trySendReq cap s t \<Longrightarrow> group_run cap needs closes progs t"
    and "worker_step needs closes s t \<Longrightarrow> group_run cap needs closes progs t"
  by (auto intro!: reach.step [OF assms] simp: group_step_def serve_step_def)

lemma send_next:
  assumes "group_run cap needs closes progs s" "gq_mu s = None" "todo s = [r # rs]" "\<not> gq_closed s" "length (reqC s) < cap"
  shows "group_run cap needs closes progs
    (s\<lparr>gq_mu := None, reqC := reqC s @ [r], todo := [rs], attempts := attempts s @ [(0, r, True)]\<rparr>)"
proof -
  let ?t = "s\<lparr>gq_mu := Some (Reader 0)\<rparr>"
  have "group_run cap needs closes progs ?t"
    by (rule group_run_steps(1) [OF assms(1)]) (rule trySendReq.lock, use assms in simp_all)
  then have "group_run cap needs closes progs
      (?t\<lparr>gq_mu := None, reqC := reqC ?t @ [r], todo := (todo ?t)[0 := rs], attempts := attempts ?t @ [(0, r, True)]\<rparr>)"
    by (rule group_run_steps(1)) (rule trySendReq.send, use assms in simp_all)
  with assms show ?thesis by simp
qed

lemma filling_run:
  assumes "0 < cap" "k \<le> cap"
  shows "group_run cap needs closes [replicate (Suc (Suc cap)) r] (filling cap k r)"
  using assms(2)
proof (induction k)
  case 0
  let ?p = "[replicate (Suc (Suc cap)) r]"
  let ?s = "(fresh_queue ?p)\<lparr>gq_mu := None, reqC := [r], todo := [replicate (Suc cap) r], attempts := [(0, r, True)]\<rparr>"
  have "group_run cap needs closes ?p ?s"
    using send_next [OF reach.start, of "fresh_queue ?p" ?p] assms(1) by (simp add: fresh_queue_def)
  then have "group_run cap needs closes ?p (?s\<lparr>reqC := [], gq_worker := Took r\<rparr>)"
    by (rule group_run_steps(2)) (rule worker_step.receive, simp_all add: fresh_queue_def)
  then show ?case by (simp add: filling_def fresh_queue_def)
next
  case (Suc k)
  then have "group_run cap needs closes [replicate (Suc (Suc cap)) r] (filling cap k r)" by simp
  from send_next [OF this, of r "replicate (cap - k) r"] Suc.prems show ?case
    by (simp add: filling_def Suc_diff_le replicate_append_same)
qed

text \<open>
  C36. The queue can deadlock.  The comment of \<open>trySendReq\<close> says that sending under the mutex is safe
  because the worker does not need the mutex to drain the channel; but the worker receives the next
  request only after the handler of the last one, which locks the group.  A connection that sends 66
  requests that need the group reaches a state in which nothing has been answered, the worker waits for
  the mutex, the connection holds it and waits for room in the full channel, and no step is possible:
  neither of the two, nor another connection's, nor a shutdown.
\<close>

theorem queue_can_deadlock:
  assumes "needs r"
  shows "\<exists>s. group_run reqC_capacity needs closes [replicate (reqC_capacity + 2) r] s \<and>
    handled s = [] \<and> gq_worker s = Took r \<and> gq_mu s = Some (Reader 0) \<and> length (reqC s) = reqC_capacity \<and>
    (\<forall>t. \<not> group_step reqC_capacity needs closes s t)"
proof -
  let ?cap = reqC_capacity and ?s = "(filling reqC_capacity reqC_capacity r)\<lparr>gq_mu := Some (Reader 0)\<rparr>"
  have "group_run ?cap needs closes [replicate (?cap + 2) r] (filling ?cap ?cap r)"
    using filling_run [of ?cap ?cap] by (simp add: reqC_capacity_def)
  then have "group_run ?cap needs closes [replicate (?cap + 2) r] ?s"
    by (rule group_run_steps(1)) (rule trySendReq.lock, simp_all add: filling_def)
  moreover have "\<not> group_step ?cap needs closes ?s t" for t
    using assms by (auto simp: group_step_def serve_step_def filling_def elim: trySendReqE worker_stepE shutdown_stepE)
  ultimately show ?thesis by (intro exI [of _ ?s]) (simp add: filling_def)
qed

section \<open>Progress\<close>

text \<open>Nothing is left to do for the connections and the worker.\<close>

definition all_served :: "'r group_queue \<Rightarrow> bool" where
  "all_served s \<longleftrightarrow> list_all (\<lambda>rs. rs = []) (todo s) \<and> handled s = sent (attempts s)"

lemma attempted_lengths:
  "\<forall>(i, r, ok) \<in> set tries. i < n \<Longrightarrow> (\<Sum>i<n. length (attempted i tries)) = length tries"
proof (induction tries rule: rev_induct)
  case (snoc e tries)
  obtain i r ok where e: "e = (i, r, ok)" by (cases e)
  with snoc.prems have "i < n" by simp
  have "(\<Sum>j<n. length (attempted j (tries @ [e]))) = (\<Sum>j<n. length (attempted j tries) + (if j = i then 1 else 0))"
    by (intro sum.cong) (auto simp: e)
  also have "\<dots> = Suc (length tries)"
    using snoc \<open>i < n\<close> by (simp add: sum.distrib)
  finally show ?case by simp
qed simp

lemma sent_length: "length (sent tries) \<le> length tries"
  by (simp add: sent_def)

lemma attempts_bound:
  assumes "queue_inv cap progs s"
  shows "length (sent (attempts s)) + sum_list (map length (todo s)) \<le> sum_list (map length progs)"
proof -
  let ?n = "length progs"
  have len: "length (todo s) = ?n" and parts: "\<And>i. i < ?n \<Longrightarrow> progs ! i = attempted i (attempts s) @ todo s ! i"
    and idx: "\<forall>(i, r, ok) \<in> set (attempts s). i < ?n"
    using assms by (auto simp: queue_inv_def)
  have "sum_list (map length progs) = (\<Sum>i<?n. length (attempted i (attempts s)) + length (todo s ! i))"
    by (simp add: sum_list_sum_nth atLeast0LessThan parts)
  also have "\<dots> = length (attempts s) + sum_list (map length (todo s))"
    by (simp add: sum.distrib attempted_lengths [OF idx] sum_list_sum_nth atLeast0LessThan len)
  finally show ?thesis using sent_length [of "attempts s"] by simp
qed

lemma stuck_is_served:
  assumes inv: "queue_inv cap progs s" and load: "sum_list (map length progs) \<le> Suc cap" "0 < cap"
    and stuck: "\<And>t. \<not> serve_step cap needs closes s t"
  shows "all_served s"
proof -
  have no_send: "\<not> trySendReq cap s t" and no_work: "\<not> worker_step needs closes s t" for t
    using stuck [of t] by (simp_all add: serve_step_def)
  have queue: "handled s @ in_worker (gq_worker s) @ reqC s = sent (attempts s)"
    and reader: "\<And>i. gq_mu s = Some (Reader i) \<Longrightarrow> i < length (todo s) \<and> todo s ! i \<noteq> []"
    and running: "gq_mu s = Some Worker \<longleftrightarrow> (\<exists>r. gq_worker s = Running r)"
    and exited: "gq_worker s = Exited \<Longrightarrow> reqC s = [] \<and> gq_closed s" and room: "length (reqC s) \<le> cap"
    using inv by (simp_all add: queue_inv_def)
  have worker: "gq_worker s = Exited \<or> (gq_worker s = Idle \<and> reqC s = []) \<or>
      (\<exists>r. gq_worker s = Took r \<and> needs r \<and> gq_mu s \<noteq> None \<and> gq_mu s \<noteq> Some Worker)"
  proof (cases "gq_worker s")
    case Idle
    then show ?thesis using no_work worker_step.receive [of s] by (cases "reqC s") auto
  next
    case (Took r)
    moreover from this have "gq_mu s \<noteq> Some Worker" using running by simp
    moreover have "needs r" "gq_mu s \<noteq> None"
      using Took no_work worker_step.unlocked [of s r] worker_step.enter [of s r] by blast+
    ultimately show ?thesis by simp
  next
    case (Running r)
    then have "gq_mu s = Some Worker" using running by simp
    with Running show ?thesis using no_work worker_step.finish [of s r] by blast
  qed simp
  show ?thesis
  proof (cases "gq_mu s")
    case None
    then have "rs = []" if "rs \<in> set (todo s)" for rs
      using that no_send trySendReq.lock [of s] by (metis in_set_conv_nth)
    moreover have "in_worker (gq_worker s) = []" "reqC s = []"
      using worker None exited by auto
    ultimately show ?thesis using queue by (auto simp: all_served_def list_all_iff)
  next
    case (Some w)
    moreover have "gq_mu s \<noteq> Some Worker" using worker running by auto
    ultimately obtain i where i: "gq_mu s = Some (Reader i)" by (cases w) auto
    from reader [OF this] obtain r rs where r: "i < length (todo s)" "todo s ! i = r # rs" by (cases "todo s ! i") auto
    have "length (reqC s) = cap \<and> \<not> gq_closed s"
      using trySendReq.refuse [OF i r] trySendReq.send [OF i r, of cap] no_send room by (meson le_antisym not_less)
    moreover from this obtain q where "gq_worker s = Took q"
      using worker exited load(2) by auto
    ultimately have "Suc cap \<le> length (sent (attempts s))"
      using queue [symmetric] by simp
    moreover have "0 < sum_list (map length (todo s))"
      using r by (metis elem_le_sum_list length_map nth_map length_Cons zero_less_Suc less_le_trans)
    ultimately show ?thesis using attempts_bound [OF inv] load(1) by linarith
  qed
qed

text \<open>
  C37. Below that load everything is answered: if the connections of a group have together at most one
  request more than the channel holds, then whatever the order of the steps, every run ends, and a
  reachable state where neither a connection nor the worker can move is one where each connection has
  sent all its requests and the worker has handled every request that was accepted.  Such a state is
  reached from every reachable state.
\<close>

theorem small_load_is_served:
  assumes "sum_list (map length progs) \<le> Suc cap" "0 < cap"
  shows "wfp (\<lambda>t s. group_step cap needs closes s t) \<and>
    (\<forall>s. group_run cap needs closes progs s \<longrightarrow>
       ((\<forall>t. \<not> serve_step cap needs closes s t) \<longrightarrow> all_served s) \<and>
       (\<exists>t. (serve_step cap needs closes)\<^sup>*\<^sup>* s t \<and> all_served t))"
proof (intro conjI allI impI)
  show wf: "wfp (\<lambda>t s. group_step cap needs closes s t)" by (rule gq.no_infinite_run)
  fix s assume run: "group_run cap needs closes progs s"
  {
    fix s assume "group_run cap needs closes progs s" "\<forall>t. \<not> serve_step cap needs closes s t"
    then show "all_served s" using stuck_is_served [OF gq.reach_inv assms] by blast
  } note stuck = this
  show "\<exists>t. (serve_step cap needs closes)\<^sup>*\<^sup>* s t \<and> all_served t"
    using wf run
  proof (induction s rule: wfp_induct_rule)
    case (less s)
    show ?case
    proof (cases "\<exists>t. serve_step cap needs closes s t")
      case True
      then obtain t where t: "serve_step cap needs closes s t" by blast
      then have g: "group_step cap needs closes s t" by (simp add: group_step_def)
      from less.IH [OF this] reach.step [OF less.prems g] obtain u where
        "(serve_step cap needs closes)\<^sup>*\<^sup>* t u" "all_served u" by blast
      with t show ?thesis by (meson converse_rtranclp_into_rtranclp)
    next
      case False
      with stuck [OF less.prems] show ?thesis by blast
    qed
  qed
qed

section \<open>Witnesses\<close>

text \<open>
  The two parameters on the requests of the sidecar: a handler locks its group when the parameters of
  the request decode to one, and \<open>destroy\<close> closes it.
\<close>

definition locks_group :: "'p codec \<Rightarrow> ('p, 'i) RPCRequest \<Rightarrow> bool" where
  "locks_group cd req \<longleftrightarrow> request_group cd req \<noteq> None"

definition closes_group :: "'p codec \<Rightarrow> ('p, 'i) RPCRequest \<Rightarrow> bool" where
  "closes_group cd req \<longleftrightarrow> Method req = ''destroy'' \<and> request_group cd req \<noteq> None"

abbreviation demo_step :: "(unit, nat) RPCRequest group_queue \<Rightarrow> (unit, nat) RPCRequest group_queue \<Rightarrow> bool" where
  "demo_step \<equiv> group_step reqC_capacity (locks_group demo_codec) (closes_group demo_codec)"

theorem requests_in_order_witness:
  "\<exists>s. group_run reqC_capacity (locks_group demo_codec) (closes_group demo_codec) [replicate 66 (demo_request ''advance'')] s \<and>
    sent (attempts s) = replicate 65 (demo_request ''advance'')"
proof -
  let ?r = "demo_request ''advance''" and ?s = "filling reqC_capacity reqC_capacity (demo_request ''advance'')"
  have two: "Suc (Suc reqC_capacity) = 66" by (simp add: reqC_capacity_def)
  have run: "group_run reqC_capacity (locks_group demo_codec) (closes_group demo_codec) [replicate 66 ?r] ?s"
    using filling_run [where needs = "locks_group demo_codec" and closes = "closes_group demo_codec" and r = ?r and cap = reqC_capacity
        and k = reqC_capacity]
    unfolding two by (simp add: reqC_capacity_def)
  from requests_in_order [OF this] have "?r # replicate reqC_capacity ?r = sent (attempts ?s)"
    by (simp add: filling_def)
  moreover have "?r # replicate reqC_capacity ?r = replicate 65 ?r"
    by (simp add: reqC_capacity_def flip: replicate_Suc)
  ultimately show ?thesis using run by auto
qed

theorem queue_can_deadlock_witness:
  "\<exists>s. group_run reqC_capacity (locks_group demo_codec) (closes_group demo_codec)
      [replicate (reqC_capacity + 2) (demo_request ''advance'')] s \<and> handled s = [] \<and> (\<forall>t. \<not> demo_step s t)"
proof -
  have "locks_group demo_codec (demo_request ''advance'')"
    by (simp add: locks_group_def request_group_def demo_codec_def)
  from queue_can_deadlock [where needs = "locks_group demo_codec", OF this] show ?thesis by blast
qed

theorem small_load_is_served_witness:
  "wfp (\<lambda>t s. demo_step s t) \<and>
    (\<exists>t. (serve_step reqC_capacity (locks_group demo_codec) (closes_group demo_codec))\<^sup>*\<^sup>*
      (fresh_queue [[demo_request ''advance'', demo_request ''destroy''], [demo_request ''removeQuery'']]) t \<and> all_served t)"
proof -
  let ?p = "[[demo_request ''advance'', demo_request ''destroy''], [demo_request ''removeQuery'']]"
  have "group_run reqC_capacity (locks_group demo_codec) (closes_group demo_codec) ?p (fresh_queue ?p)"
    by (rule reach.start) simp
  then show ?thesis
    using small_load_is_served [of ?p reqC_capacity "locks_group demo_codec" "closes_group demo_codec"]
    by (simp add: reqC_capacity_def)
qed

end
