(* ===== verification/Wire.thy ===== *)
theory Wire
  imports GroupQueue
begin

unbundle bit_operations_syntax

text \<open>
  The wire of the sidecar: frames of four length bytes and a payload, the numbers of a decoded request,
  and the read loop of a connection, all in \<open>cmd/sidecar/main.go\<close>.

  A connection is the list of the bytes that will arrive on it before it is closed.  The MessagePack
  decoder is a parameter; \<open>io.ReadFull\<close> and \<open>binary.BigEndian\<close> are the standard library's.
\<close>

section \<open>Frames\<close>

type_synonym octet = "8 word"

definition maxFrameSize :: "32 word" where
  "maxFrameSize = 64 * 1024 * 1024"

definition PutUint32 :: "32 word \<Rightarrow> octet list" where
  "PutUint32 v = [ucast (drop_bit 24 v), ucast (drop_bit 16 v), ucast (drop_bit 8 v), ucast v]"

definition Uint32 :: "octet list \<Rightarrow> 32 word" where
  "Uint32 bs = ucast (bs ! 3) OR push_bit 8 (ucast (bs ! 2)) OR push_bit 16 (ucast (bs ! 1)) OR push_bit 24 (ucast (bs ! 0))"

datatype frame_error = EOF | UnexpectedEOF | FrameTooLarge "32 word"

text \<open>\<open>io.ReadFull\<close>: the end of the input before the first byte is told from one in the middle.\<close>

definition ReadFull :: "nat \<Rightarrow> (frame_error, octet list, octet list) exec" where
  "ReadFull n = (\<lambda>input.
     if n \<le> length input then (Inr (take n input), drop n input)
     else (Inl (if input = [] then EOF else UnexpectedEOF), []))"

definition readFrame :: "(frame_error, octet list, octet list) exec" where
  "readFrame =
     bindM (ReadFull 4) (\<lambda>lenBuf.
       let n = Uint32 lenBuf in
       if n > maxFrameSize then failM (FrameTooLarge n) else ReadFull (unat n))"

text \<open>The length is truncated to 32 bits; the size limit is not checked here.\<close>

definition writeFrame :: "(octet list \<Rightarrow> ('e, 's, nat) exec) \<Rightarrow> octet list \<Rightarrow> ('e, 's, unit) exec" where
  "writeFrame w_Write payload = bindM (w_Write (PutUint32 (word_of_nat (length payload)) @ payload)) (\<lambda>_. retM ())"

lemma Uint32_PutUint32 [simp]: "Uint32 (PutUint32 v) = v"
proof (rule bit_word_eqI)
  fix n assume "n < LENGTH(32)"
  then consider "n < 8" | "8 \<le> n" "n < 16" | "16 \<le> n" "n < 24" | "24 \<le> n" "n < 32" by (simp; linarith)
  then show "bit (Uint32 (PutUint32 v)) n = bit v n"
  proof cases
    case 1
    then show ?thesis by (simp add: Uint32_def PutUint32_def bit_or_iff bit_push_bit_iff bit_ucast_iff bit_drop_bit_eq)
  next
    case 2
    then show ?thesis by (auto simp: Uint32_def PutUint32_def bit_or_iff bit_push_bit_iff bit_ucast_iff bit_drop_bit_eq)
  next
    case 3
    then show ?thesis by (auto simp: Uint32_def PutUint32_def bit_or_iff bit_push_bit_iff bit_ucast_iff bit_drop_bit_eq)
  next
    case 4
    then show ?thesis by (auto simp: Uint32_def PutUint32_def bit_or_iff bit_push_bit_iff bit_ucast_iff bit_drop_bit_eq)
  qed
qed

lemma PutUint32_length [simp]: "length (PutUint32 v) = 4"
  by (simp add: PutUint32_def)

lemma readFrame_shorter:
  assumes "readFrame input = (Inr frame, rest)"
  shows "length rest < length input"
  using assms by (auto simp: readFrame_def ReadFull_def bindM_split Let_def split: if_splits)

section \<open>The read loop\<close>

text \<open>The frames of a connection, and why reading stopped.\<close>

function read_frames :: "octet list \<Rightarrow> octet list list \<times> frame_error" where
  "read_frames input =
     (case readFrame input of
        (Inl e, _) \<Rightarrow> ([], e)
      | (Inr frame, rest) \<Rightarrow> (case read_frames rest of (fs, e) \<Rightarrow> (frame # fs, e)))"
  by pat_completeness auto
termination
  by (relation "measure length") (auto dest: readFrame_shorter [OF sym])

declare read_frames.simps [simp del]

text \<open>What the loop does with a frame: answer at once, queue for a group, or handle in a goroutine.\<close>

datatype ('p, 'i) submission =
    Immediate string
  | Queued string "('p, 'i) RPCRequest" bool
  | Inline "('p, 'i) RPCRequest"

definition submit ::
  "(octet list \<Rightarrow> string + ('p, 'i) RPCRequest) \<Rightarrow> ('p \<Rightarrow> string + string) \<Rightarrow> octet list \<Rightarrow> ('p, 'i) submission" where
  "submit unmarshal dec_group frame =
     (case unmarshal frame of
        Inl err \<Rightarrow> Immediate (''Parse error: '' @ err)
      | Inr req \<Rightarrow>
          (case extractClientGroupID dec_group req of
             Some cgID \<Rightarrow> Queued cgID req (Method req = ''addQueriesStream'' \<or> Method req = ''advanceStream'')
           | None \<Rightarrow> Inline req))"

definition handleConnection ::
  "(octet list \<Rightarrow> string + ('p, 'i) RPCRequest) \<Rightarrow> ('p \<Rightarrow> string + string) \<Rightarrow> octet list \<Rightarrow> ('p, 'i) submission list" where
  "handleConnection unmarshal dec_group input = map (submit unmarshal dec_group) (fst (read_frames input))"

text \<open>The requests of a connection for one group, in the order of its frames: a program of the queue.\<close>

definition group_program :: "string \<Rightarrow> ('p, 'i) submission list \<Rightarrow> ('p, 'i) RPCRequest list" where
  "group_program cgID subs =
     concat (map (\<lambda>sub. case sub of Queued cg req _ \<Rightarrow> (if cg = cgID then [req] else []) | _ \<Rightarrow> []) subs)"

section \<open>Numbers of a request\<close>

fun rv_numericToFloat64 :: "val \<Rightarrow> f64 option" where
  "rv_numericToFloat64 (VInt k n) = Some (f64_of_int n)"
| "rv_numericToFloat64 (VF32 x) = Some x"
| "rv_numericToFloat64 _ = None"

text \<open>A value in an interface: a number is replaced, the elements of a map or slice are walked.\<close>

fun walkForNumericNormalize :: "val \<Rightarrow> val" where
  "walkForNumericNormalize (VObj kvs) =
     VObj (map (\<lambda>(k, v). (k, case rv_numericToFloat64 v of Some f \<Rightarrow> VF64 f | None \<Rightarrow> walkForNumericNormalize v)) kvs)"
| "walkForNumericNormalize (VArr vs) = VArr (map walkForNumericNormalize vs)"
| "walkForNumericNormalize v = (case rv_numericToFloat64 v of Some f \<Rightarrow> VF64 f | None \<Rightarrow> v)"

lemma walk_normalizes: "walkForNumericNormalize v = normalizeDecodedValue v"
proof (induction v rule: walkForNumericNormalize.induct)
  case (1 kvs)
  have "(case rv_numericToFloat64 v of Some f \<Rightarrow> VF64 f | None \<Rightarrow> walkForNumericNormalize v) = normalizeDecodedValue v"
    if "(k, v) \<in> set kvs" for k v
    using 1 [of "(k, v)" k v] that by (cases v) auto
  then show ?case by (auto intro!: map_cong)
qed auto

lemma normalized_fixed: "normalized v \<Longrightarrow> normalizeDecodedValue v = v"
  by (induction v rule: normalizeDecodedValue.induct) (auto intro!: map_idI)

section \<open>Round trip\<close>

definition frame_bytes :: "octet list \<Rightarrow> octet list" where
  "frame_bytes payload = PutUint32 (word_of_nat (length payload)) @ payload"

text \<open>A connection that takes all bytes.\<close>

definition append_bytes :: "octet list \<Rightarrow> (unit, octet list, nat) exec" where
  "append_bytes bs = (\<lambda>sent. (Inr (length bs), sent @ bs))"

lemma write_frames: "forM (writeFrame append_bytes) fs out = (Inr (), out @ concat (map frame_bytes fs))"
  by (induction fs arbitrary: out) (simp_all add: writeFrame_def append_bytes_def frame_bytes_def bindM_def)

lemma small_length: "n \<le> unat maxFrameSize \<Longrightarrow> unat (word_of_nat n :: 32 word) = n \<and> \<not> word_of_nat n > maxFrameSize"
  by (simp add: maxFrameSize_def unsigned_of_nat take_bit_nat_eq_self not_less word_le_nat_alt)

lemma readFrame_frame:
  assumes "length f \<le> unat maxFrameSize"
  shows "readFrame (frame_bytes f @ rest) = (Inr f, rest)"
  using small_length [OF assms] by (simp add: readFrame_def frame_bytes_def ReadFull_def Let_def)

lemma readFrame_cut:
  assumes "length f \<le> unat maxFrameSize" "k < 4 + length f"
  shows "readFrame (take k (frame_bytes f)) = (Inl (if k = 0 \<or> k = 4 then EOF else UnexpectedEOF), [])"
proof (cases "k < 4")
  case True
  then show ?thesis by (auto simp: readFrame_def frame_bytes_def ReadFull_def PutUint32_def take_Cons split: nat.splits)
next
  case False
  with assms(2) have "take k (frame_bytes f) = PutUint32 (word_of_nat (length f)) @ take (k - 4) f" "k - 4 < length f"
    by (simp_all add: frame_bytes_def)
  with False small_length [OF assms(1)] show ?thesis
    by (auto simp: readFrame_def ReadFull_def Let_def)
qed

lemma readFrame_big:
  assumes "unat maxFrameSize < length f" "length f < 2 ^ 32"
  shows "readFrame (frame_bytes f @ rest) = (Inl (FrameTooLarge (word_of_nat (length f))), f @ rest)"
  using assms by (simp add: readFrame_def frame_bytes_def ReadFull_def Let_def word_less_nat_alt unsigned_of_nat take_bit_nat_eq_self)

lemma read_frames_after:
  assumes "\<forall>f \<in> set fs. length f \<le> unat maxFrameSize"
  shows "read_frames (concat (map frame_bytes fs) @ rest) = (case read_frames rest of (gs, e) \<Rightarrow> (fs @ gs, e))"
  using assms
proof (induction fs)
  case (Cons f fs)
  have "readFrame (frame_bytes f @ concat (map frame_bytes fs) @ rest) = (Inr f, concat (map frame_bytes fs) @ rest)"
    using Cons.prems by (intro readFrame_frame) simp
  with Cons show ?case by (subst read_frames.simps) (simp split: prod.splits)
qed simp

lemma read_frames_stop: "readFrame input = (Inl e, rest) \<Longrightarrow> read_frames input = ([], e)"
  by (subst read_frames.simps) simp

text \<open>
  C40. What is written is read: the frames that a peer writes are the frames that the read loop gets, in
  order, if none is longer than the limit of 64 MB.  A connection cut in the middle of a further frame
  loses only that frame; the cut shows as an unexpected end, but not right after the four length bytes,
  where it looks like a clean end.  A frame above the limit, which \<open>writeFrame\<close> does not refuse, ends
  the loop: nothing after it is read.
\<close>

theorem frames_round_trip:
  assumes "\<forall>f \<in> set fs. length f \<le> unat maxFrameSize" "forM (writeFrame append_bytes) fs [] = (Inr (), bytes)"
  shows "read_frames bytes = (fs, EOF) \<and>
    (\<forall>f k. length f \<le> unat maxFrameSize \<and> k < 4 + length f \<longrightarrow>
       read_frames (bytes @ take k (frame_bytes f)) = (fs, if k = 0 \<or> k = 4 then EOF else UnexpectedEOF)) \<and>
    (\<forall>f rest. unat maxFrameSize < length f \<and> length f < 2 ^ 32 \<longrightarrow>
       read_frames (bytes @ frame_bytes f @ rest) = (fs, FrameTooLarge (word_of_nat (length f))))"
proof -
  have bytes: "bytes = concat (map frame_bytes fs)" using assms(2) write_frames [of fs "[]"] by simp
  note after = read_frames_after [OF assms(1), folded bytes]
  have "read_frames [] = ([], EOF)"
    by (rule read_frames_stop) (simp add: readFrame_def ReadFull_def)
  with after [of "[]"] have "read_frames bytes = (fs, EOF)" by simp
  then show ?thesis
    using after read_frames_stop [OF readFrame_cut] read_frames_stop [OF readFrame_big] by simp
qed

theorem frames_round_trip_witness:
  "read_frames (snd (forM (writeFrame append_bytes) [[1, 2, 3], [], [255]] [])) = ([[1, 2, 3], [], [255]], EOF)"
proof -
  have "\<forall>f \<in> set [[1, 2, 3], [], [255]]. length (f :: octet list) \<le> unat maxFrameSize"
    by (simp add: maxFrameSize_def)
  from frames_round_trip [OF this write_frames] show ?thesis
    by (simp only: write_frames snd_conv)
qed

section \<open>From the wire to the queue\<close>

text \<open>
  The requests of a peer for one group reach the queue of the group in the order in which they were
  written: each connection is a reader of \<open>GroupQueue\<close> whose program is the group's part of its frames.
\<close>

lemma connection_program:
  assumes "\<forall>f \<in> set fs. length f \<le> unat maxFrameSize" "forM (writeFrame append_bytes) fs [] = (Inr (), bytes)"
  shows "group_program cg (handleConnection unmarshal dec_group bytes) = group_program cg (map (submit unmarshal dec_group) fs)"
proof -
  have "bytes = concat (map frame_bytes fs)" using assms(2) write_frames [of fs "[]"] by simp
  with read_frames_after [OF assms(1), of "[]"] show ?thesis
    using read_frames_stop [of "[]" EOF "[]"] by (simp add: handleConnection_def readFrame_def ReadFull_def)
qed

end
