(* ===== verification/Responses.thy ===== *)
theory Responses
  imports GroupQueue "HOL-Library.Multiset"
begin

text \<open>
  The writing side of a connection: \<open>handleConnection\<close> of \<open>cmd/sidecar/main.go\<close> as a step relation over
  the channel \<open>outC\<close>, the dispatcher that empties it, one goroutine for each response, and the handlers
  that answer.

  The requests of the connection are numbered as they are read.  A request is either refused at once
  (it does not decode, or its group is destroyed) or accepted; the handler of an accepted request writes
  at most so many partial frames and then sends the response to \<open>respCh\<close>, which has room for it.  That
  \<open>trySendReq\<close> returns and handlers come to an end is a matter of the queue of the group, theory
  \<open>GroupQueue\<close>.  Frames are written as wholes, under \<open>writeMu\<close>; errors of the socket are ignored by the code.
\<close>

section \<open>State and steps\<close>

datatype arrival = Refused | Accepted nat

datatype pendingResp = ImmediateResp (pending_request: nat) | Await (pending_request: nat)

datatype out_frame = Partial nat | Final nat

datatype handling = Unread | Handling nat | Replied

record response_side =
  next_read :: nat
  submitting :: "pendingResp option"
  outC :: "pendingResp list"
  outC_closed :: bool
  writers :: "pendingResp list"
  handlers :: "handling list"
  written :: "out_frame list"
  returned :: bool



text \<open>The read loop: a request is refused or handed to its group, then its entry is sent to \<open>outC\<close>.\<close>

inductive read_step :: "nat \<Rightarrow> arrival list \<Rightarrow> response_side \<Rightarrow> response_side \<Rightarrow> bool" for cap arr where
  refuse: "submitting s = None \<Longrightarrow> next_read s < length arr \<Longrightarrow> arr ! next_read s = Refused \<Longrightarrow>
    read_step cap arr s (s\<lparr>next_read := Suc (next_read s), submitting := Some (ImmediateResp (next_read s))\<rparr>)"
| accept: "submitting s = None \<Longrightarrow> next_read s < length arr \<Longrightarrow> arr ! next_read s = Accepted b \<Longrightarrow>
    read_step cap arr s (s\<lparr>next_read := Suc (next_read s), submitting := Some (Await (next_read s)),
      handlers := (handlers s)[next_read s := Handling b]\<rparr>)"
| enqueue: "submitting s = Some p \<Longrightarrow> length (outC s) < cap \<Longrightarrow>
    read_step cap arr s (s\<lparr>submitting := None, outC := outC s @ [p]\<rparr>)"
| hang_up: "submitting s = None \<Longrightarrow> next_read s = length arr \<Longrightarrow> \<not> outC_closed s \<Longrightarrow>
    read_step cap arr s (s\<lparr>outC_closed := True\<rparr>)"
| finish: "outC_closed s \<Longrightarrow> outC s = [] \<Longrightarrow> writers s = [] \<Longrightarrow> \<not> returned s \<Longrightarrow>
    read_step cap arr s (s\<lparr>returned := True\<rparr>)"



inductive_cases read_stepE: "read_step cap arr s t"



section \<open>Invariant\<close>

definition finals :: "out_frame list \<Rightarrow> nat list" where
  "finals fs = List.map_filter (\<lambda>f. case f of Final k \<Rightarrow> Some k | Partial k \<Rightarrow> None) fs"

lemma finals_simps [simp]:
  "finals [] = []" "finals (fs @ gs) = finals fs @ finals gs" "finals [Final k] = [k]" "finals [Partial k] = []"
  by (simp_all add: finals_def map_filter_def)














section \<open>Every run ends\<close>










section \<open>Every request is answered\<close>









end
