(* ===== verification/Metrics.thy ===== *)
theory Metrics
  imports GroupQueue "HOL-Library.Multiset" "HOL-Library.Word"
begin

text \<open>
  The performance counters of \<open>cmd/sidecar/main.go\<close>: what a window of ten seconds records, the sorting
  and the percentiles of the report, and the lock-free maximum.  Durations are their nanoseconds; an
  atomic counter is a 64-bit word that is read as signed.  The report is a value here, the code prints it.
\<close>

section \<open>Percentiles\<close>

text \<open>\<open>for j := i; j > 0 && d[j] < d[j-1]; j-- { swap }\<close>, and the loop around it.\<close>

fun sink_duration :: "nat \<Rightarrow> int list \<Rightarrow> int list" where
  "sink_duration 0 d = d"
| "sink_duration (Suc j) d = (if d ! Suc j < d ! j then sink_duration j (d[Suc j := d ! j, j := d ! Suc j]) else d)"

definition sortDurations :: "int list \<Rightarrow> int list" where
  "sortDurations d = fold sink_duration [1..<length d] d"

text \<open>
  The index \<open>int(float64(n)*0.95)\<close> is written with integers: where 0.95 n is a whole number the rounding
  of the product gives it, and elsewhere the product is far from one.
\<close>

definition chunkStats :: "int list \<Rightarrow> int \<times> int \<times> int" where
  "chunkStats c =
     (if c = [] then (0, 0, 0)
      else let d = sortDurations c in (d ! (length c div 2), d ! (19 * length c div 20), d ! (length c - 1)))"

lemma insort_snoc: "x \<le> y \<Longrightarrow> insort x (xs @ [y]) = insort x xs @ [y]" for x y :: int
  by (induction xs) auto

lemma insort_last: "sorted (xs @ [x]) \<Longrightarrow> insort x xs = xs @ [x]" for x :: int
  using properties_for_sort [of "insort x xs" "xs @ [x]"]
  by (simp add: sorted_append sorted_insort sort_key_id_if_sorted)

lemma sink_insort: "sorted xs \<Longrightarrow> sink_duration (length xs) (xs @ x # ys) = insort x xs @ ys"
proof (induction xs arbitrary: ys rule: rev_induct)
  case (snoc y xs)
  show ?case
  proof (cases "x < y")
    case True
    have swap: "(xs @ y # x # ys)[Suc (length xs) := y, length xs := x] = xs @ x # y # ys"
      by (simp add: list_update_append)
    have "sink_duration (length xs) (xs @ x # y # ys) = insort x xs @ y # ys" using snoc by (simp add: sorted_append)
    with True swap show ?thesis by (simp add: nth_append insort_snoc)
  next
    case False
    with snoc.prems have "sorted ((xs @ [y]) @ [x])" by (auto simp: sorted_append)
    with False insort_last [OF this] show ?thesis by (simp add: nth_append)
  qed
qed simp

lemma sink_prefix: "i \<le> length d \<Longrightarrow> fold sink_duration [1..<i] d = sort (take i d) @ drop i d"
proof (induction i)
  case (Suc i)
  show ?case
  proof (cases "i = 0")
    case True
    with Suc.prems show ?thesis by (cases d) auto
  next
    case False
    have d: "drop i d = d ! i # drop (Suc i) d" using Suc.prems by (simp add: Cons_nth_drop_Suc)
    have "fold sink_duration [1..<Suc i] d = sink_duration i (sort (take i d) @ d ! i # drop (Suc i) d)"
      using Suc False d by simp
    also have "\<dots> = insort (d ! i) (sort (take i d)) @ drop (Suc i) d"
      using sink_insort [of "sort (take i d)" "d ! i" "drop (Suc i) d"] Suc.prems by simp
    also have "insort (d ! i) (sort (take i d)) = sort (take (Suc i) d)"
      using Suc.prems by (intro properties_for_sort [symmetric]) (simp_all add: take_Suc_conv_app_nth sorted_insort)
    finally show ?thesis .
  qed
qed simp

text \<open>The insertion sort sorts, and the percentiles are ordered values of the window.\<close>

lemma sortDurations_sort: "sortDurations d = sort d"
  using sink_prefix [of "length d" d] by (simp add: sortDurations_def)

lemma percentile_index:
  "k div 2 \<le> 19 * k div 20" "0 < k \<Longrightarrow> 19 * k div 20 < k" "0 < k \<Longrightarrow> 19 * k div 20 \<le> k - 1" for k :: nat
  by linarith+

lemma chunkStats_ordered:
  assumes "c \<noteq> []" "chunkStats c = (p50, p95, mx)"
  shows "p50 \<le> p95 \<and> p95 \<le> mx \<and> mx = Max (set c) \<and> {p50, p95} \<subseteq> set c"
proof -
  let ?d = "sort c" and ?n = "length c"
  have n: "0 < ?n" using assms(1) by simp
  have ix: "?n div 2 \<le> 19 * ?n div 20" "19 * ?n div 20 < ?n" "19 * ?n div 20 \<le> ?n - 1"
    by (rule percentile_index(1), rule percentile_index(2) [OF n], rule percentile_index(3) [OF n])
  have vals: "p50 = ?d ! (?n div 2)" "p95 = ?d ! (19 * ?n div 20)" "mx = ?d ! (?n - 1)"
    using assms by (simp_all add: chunkStats_def sortDurations_sort Let_def)
  have mono: "i \<le> j \<Longrightarrow> j < ?n \<Longrightarrow> ?d ! i \<le> ?d ! j" for i j by (simp add: sorted_nth_mono)
  have top: "x \<le> mx" if "x \<in> set c" for x
  proof -
    have "x \<in> set ?d" using that by simp
    then obtain i where "i < length ?d" "?d ! i = x" unfolding in_set_conv_nth by blast
    with mono [of i "?n - 1"] n vals(3) show ?thesis by simp
  qed
  have mem: "i < ?n \<Longrightarrow> ?d ! i \<in> set c" for i using nth_mem [of i ?d] by simp
  then have "mx = Max (set c)" using top mem [of "?n - 1"] n vals(3) by (intro Max_eqI [symmetric]) simp_all
  moreover have "p50 \<le> p95" "p95 \<le> mx" unfolding vals by (rule mono; use ix n in simp)+
  moreover have "p50 \<in> set c" "p95 \<in> set c" unfolding vals by (rule mem; use ix n in simp)+
  ultimately show ?thesis by simp
qed


section \<open>The window\<close>

record perfMetrics =
  advancesInFlight :: "64 word"
  hydratesInFlight :: "64 word"
  advanceLatencies :: "int list"
  hydrateLatencies :: "int list"
  advanceCount :: "64 word"
  hydrateCount :: "64 word"
  peakAdvConc :: "64 word"
  peakHydConc :: "64 word"
  hydrateChunkCounts :: "int list"
  advanceChunkCounts :: "int list"

definition recordAdvance :: "int \<Rightarrow> perfMetrics \<Rightarrow> perfMetrics" where
  "recordAdvance d m = m\<lparr>advanceCount := advanceCount m + 1, advanceLatencies := advanceLatencies m @ [d]\<rparr>"

definition recordHydrate :: "int \<Rightarrow> perfMetrics \<Rightarrow> perfMetrics" where
  "recordHydrate d m = m\<lparr>hydrateCount := hydrateCount m + 1, hydrateLatencies := hydrateLatencies m @ [d]\<rparr>"

definition recordHydrateChunks :: "int \<Rightarrow> perfMetrics \<Rightarrow> perfMetrics" where
  "recordHydrateChunks n m = m\<lparr>hydrateChunkCounts := hydrateChunkCounts m @ [n]\<rparr>"

definition recordAdvanceChunks :: "int \<Rightarrow> perfMetrics \<Rightarrow> perfMetrics" where
  "recordAdvanceChunks n m = m\<lparr>advanceChunkCounts := advanceChunkCounts m @ [n]\<rparr>"

text \<open>A report has, for advances and hydrations, the count, three latencies, the peak, three chunk counts and their number.\<close>

record window_report =
  wr_count :: "64 word"
  wr_latency :: "int \<times> int \<times> int"
  wr_peak :: "64 word"
  wr_chunks :: "int \<times> int \<times> int"
  wr_chunk_calls :: nat

text \<open>The latencies are computed as \<open>chunkStats\<close> computes its own; the counters in flight are not reset.\<close>

definition reportAndReset :: "perfMetrics \<Rightarrow> (window_report \<times> window_report) option \<times> perfMetrics" where
  "reportAndReset m =
     (if advanceCount m = 0 \<and> hydrateCount m = 0 then None
      else Some
        (\<lparr>wr_count = advanceCount m, wr_latency = chunkStats (advanceLatencies m), wr_peak = peakAdvConc m,
          wr_chunks = chunkStats (advanceChunkCounts m), wr_chunk_calls = length (advanceChunkCounts m)\<rparr>,
         \<lparr>wr_count = hydrateCount m, wr_latency = chunkStats (hydrateLatencies m), wr_peak = peakHydConc m,
          wr_chunks = chunkStats (hydrateChunkCounts m), wr_chunk_calls = length (hydrateChunkCounts m)\<rparr>),
      m\<lparr>advanceLatencies := [], hydrateLatencies := [], hydrateChunkCounts := [], advanceChunkCounts := [],
        advanceCount := 0, hydrateCount := 0, peakAdvConc := 0, peakHydConc := 0\<rparr>)"

text \<open>A latency that is recorded is in the next report: the maximum is at least this long.\<close>

lemma recorded_is_reported:
  assumes "reportAndReset (recordAdvance d m) = (Some (adv, hyd), m')" "wr_latency adv = (p50, p95, mx)"
  shows "d \<le> mx \<and> mx = Max (insert d (set (advanceLatencies m))) \<and> advanceLatencies m' = [] \<and> advanceCount m' = 0"
proof -
  have "chunkStats (advanceLatencies m @ [d]) = (p50, p95, mx)"
    using assms by (auto simp: reportAndReset_def recordAdvance_def split: if_splits)
  from chunkStats_ordered [OF _ this] have "mx = Max (insert d (set (advanceLatencies m)))" by simp
  with assms(1) show ?thesis by (auto simp: reportAndReset_def)
qed

section \<open>The lock-free maximum\<close>

text \<open>
  \<open>updatePeak\<close> called by several goroutines: a load with the test, then the compare-and-swap, which
  succeeds only if the counter still has the value that was loaded.
\<close>

datatype peak_call = Loading "64 word" | Swapping "64 word" "64 word" | Finished

record peak_state =
  peak :: "64 word"
  peak_calls :: "peak_call list"

inductive updatePeak :: "peak_state \<Rightarrow> peak_state \<Rightarrow> bool" where
  obsolete: "i < length (peak_calls s) \<Longrightarrow> peak_calls s ! i = Loading n \<Longrightarrow> sint n \<le> sint (peak s) \<Longrightarrow>
    updatePeak s (s\<lparr>peak_calls := (peak_calls s)[i := Finished]\<rparr>)"
| load: "i < length (peak_calls s) \<Longrightarrow> peak_calls s ! i = Loading n \<Longrightarrow> \<not> sint n \<le> sint (peak s) \<Longrightarrow>
    updatePeak s (s\<lparr>peak_calls := (peak_calls s)[i := Swapping n (peak s)]\<rparr>)"
| swap: "i < length (peak_calls s) \<Longrightarrow> peak_calls s ! i = Swapping n old \<Longrightarrow> peak s = old \<Longrightarrow>
    updatePeak s (s\<lparr>peak := n, peak_calls := (peak_calls s)[i := Finished]\<rparr>)"
| retry: "i < length (peak_calls s) \<Longrightarrow> peak_calls s ! i = Swapping n old \<Longrightarrow> peak s \<noteq> old \<Longrightarrow>
    updatePeak s (s\<lparr>peak_calls := (peak_calls s)[i := Loading n]\<rparr>)"

inductive_cases updatePeakE: "updatePeak s t"

definition peak_start :: "64 word \<Rightarrow> (64 word) list \<Rightarrow> peak_state" where
  "peak_start p ns = \<lparr>peak = p, peak_calls = map Loading ns\<rparr>"

text \<open>A call in progress carries its number, and has loaded a smaller one; a finished call is not above the peak.\<close>

fun call_ok :: "64 word \<Rightarrow> 64 word \<Rightarrow> peak_call \<Rightarrow> bool" where
  "call_ok p n (Loading m) \<longleftrightarrow> m = n"
| "call_ok p n (Swapping m old) \<longleftrightarrow> m = n \<and> sint old < sint n"
| "call_ok p n Finished \<longleftrightarrow> sint n \<le> sint p"

lemma call_ok_mono: "call_ok p n c \<Longrightarrow> sint p \<le> sint q \<Longrightarrow> call_ok q n c"
  by (cases c) auto

definition peak_inv :: "64 word \<Rightarrow> (64 word) list \<Rightarrow> peak_state \<Rightarrow> bool" where
  "peak_inv p ns s \<longleftrightarrow>
     length (peak_calls s) = length ns \<and> sint p \<le> sint (peak s) \<and> peak s \<in> insert p (set ns) \<and>
     (\<forall>i < length ns. call_ok (peak s) (ns ! i) (peak_calls s ! i))"

fun call_work :: "64 word \<Rightarrow> peak_call \<Rightarrow> nat" where
  "call_work p (Loading n) = 2"
| "call_work p (Swapping n old) = (if p = old then 1 else 3)"
| "call_work p Finished = 0"

definition peak_work :: "peak_state \<Rightarrow> nat" where
  "peak_work s = length (filter (\<lambda>c. c \<noteq> Finished) (peak_calls s)) * Suc (3 * length (peak_calls s)) +
     sum_list (map (call_work (peak s)) (peak_calls s))"


lemma call_work_update:
  "i < length cs \<Longrightarrow> sum_list (map (call_work p) (cs[i := c])) + call_work p (cs ! i) = sum_list (map (call_work p) cs) + call_work p c"
proof (induction cs arbitrary: i)
  case (Cons c' cs)
  then show ?case by (cases i) auto
qed simp

lemma call_work_bound: "sum_list (map (call_work p) cs) \<le> 3 * length cs"
proof (induction cs)
  case (Cons c cs)
  have "call_work p c \<le> 3" by (cases c) auto
  with Cons show ?case by simp
qed simp

lemma undone_update:
  "i < length cs \<Longrightarrow> cs ! i \<noteq> Finished \<Longrightarrow> c \<noteq> Finished \<Longrightarrow> length (filter (\<lambda>c. c \<noteq> Finished) (cs[i := c])) = length (filter (\<lambda>c. c \<noteq> Finished) cs)"
  "i < length cs \<Longrightarrow> cs ! i \<noteq> Finished \<Longrightarrow> Suc (length (filter (\<lambda>c. c \<noteq> Finished) (cs[i := Finished]))) = length (filter (\<lambda>c. c \<noteq> Finished) cs)"
proof (induction cs arbitrary: i)
  case (Cons c' cs)
  { case 1 with Cons show ?case by (cases i) auto }
  { case 2 with Cons show ?case by (cases i) auto }
qed simp_all

lemma finished_call_work:
  assumes "i < length (peak_calls s)" "peak_calls s ! i \<noteq> Finished"
  shows "peak_work (s\<lparr>peak := q, peak_calls := (peak_calls s)[i := Finished]\<rparr>) < peak_work s"
proof -
  let ?u = "\<lambda>cs. length (filter (\<lambda>c. c \<noteq> Finished) cs)" and ?K = "Suc (3 * length (peak_calls s))"
  have "?u (peak_calls s) * ?K = ?u ((peak_calls s)[i := Finished]) * ?K + ?K"
    using undone_update(2) [OF assms] by (metis add.commute mult_Suc)
  with call_work_bound [of q "(peak_calls s)[i := Finished]"] show ?thesis by (simp add: peak_work_def)
qed

lemma updatePeak_work: "updatePeak s t \<Longrightarrow> peak_work t < peak_work s"
proof (erule updatePeakE)
  fix i n assume "i < length (peak_calls s)" "peak_calls s ! i = Loading n" "t = s\<lparr>peak_calls := (peak_calls s)[i := Finished]\<rparr>"
  with finished_call_work [of i s "peak s"] show ?thesis by simp
next
  fix i n assume i: "i < length (peak_calls s)" "peak_calls s ! i = Loading n"
    and t: "t = s\<lparr>peak_calls := (peak_calls s)[i := Swapping n (peak s)]\<rparr>"
  with call_work_update [OF i(1), of "peak s" "Swapping n (peak s)"] undone_update(1) [of i "peak_calls s"]
  show ?thesis by (simp add: peak_work_def)
next
  fix i n old assume "i < length (peak_calls s)" "peak_calls s ! i = Swapping n old"
    "t = s\<lparr>peak := n, peak_calls := (peak_calls s)[i := Finished]\<rparr>"
  with finished_call_work [of i s n] show ?thesis by simp
next
  fix i n old assume i: "i < length (peak_calls s)" "peak_calls s ! i = Swapping n old" "peak s \<noteq> old"
    and t: "t = s\<lparr>peak_calls := (peak_calls s)[i := Loading n]\<rparr>"
  with call_work_update [OF i(1), of "peak s" "Loading n"] undone_update(1) [of i "peak_calls s"]
  show ?thesis by (simp add: peak_work_def)
qed

lemma updatePeak_inv:
  assumes "peak_inv p ns s" "updatePeak s t"
  shows "peak_inv p ns t"
  using assms(2)
proof (cases rule: updatePeak.cases)
  case (obsolete i n)
  with assms(1) have "call_ok (peak s) (ns ! i) (Loading n)" by (metis peak_inv_def)
  with obsolete assms(1) show ?thesis by (auto simp: peak_inv_def nth_list_update)
next
  case (load i n)
  with assms(1) have "call_ok (peak s) (ns ! i) (Loading n)" by (metis peak_inv_def)
  with load assms(1) show ?thesis by (auto simp: peak_inv_def nth_list_update)
next
  case (swap i n old)
  with assms(1) have n: "call_ok (peak s) (ns ! i) (Swapping n old)" by (metis peak_inv_def)
  with swap assms(1) show ?thesis by (auto simp: peak_inv_def nth_list_update intro: call_ok_mono)
next
  case (retry i n old)
  with assms(1) have "call_ok (peak s) (ns ! i) (Swapping n old)" by (metis peak_inv_def)
  with retry assms(1) show ?thesis by (auto simp: peak_inv_def nth_list_update)
qed

interpretation peaks: stopping "\<lambda>s. s = peak_start p ns" updatePeak "peak_inv p ns" peak_work
  for p ns
proof unfold_locales
  show "peak_inv p ns s" if "s = peak_start p ns" for s
    using that by (simp add: peak_inv_def peak_start_def)
qed (rule updatePeak_inv updatePeak_work; assumption)+

text \<open>However the calls interleave, they come to an end, and then the counter is the maximum.\<close>

theorem peak_is_maximum:
  assumes "reach (\<lambda>s. s = peak_start p ns) updatePeak s"
  shows "(\<forall>n t. (updatePeak ^^ n) s t \<longrightarrow> n \<le> peak_work s) \<and>
    ((\<nexists>t. updatePeak s t) \<longrightarrow> sint (peak s) = Max (sint ` insert p (set ns)))"
proof (intro conjI impI allI)
  show "n \<le> peak_work s" if "(updatePeak ^^ n) s t" for n t
    using peaks.bounded_run [OF that] by simp
  assume stuck: "\<nexists>t. updatePeak s t"
  have inv: "peak_inv p ns s" by (rule peaks.reach_inv [OF assms])
  have "sint (ns ! i) \<le> sint (peak s)" if i: "i < length ns" for i
  proof -
    have calls: "i < length (peak_calls s)" "call_ok (peak s) (ns ! i) (peak_calls s ! i)"
      using inv i by (simp_all add: peak_inv_def)
    show ?thesis
    proof (cases "peak_calls s ! i")
      case (Loading n)
      with calls(1) stuck show ?thesis using updatePeak.load updatePeak.obsolete by blast
    next
      case (Swapping n old)
      with calls(1) stuck show ?thesis using updatePeak.retry updatePeak.swap by blast
    next
      case Finished
      with calls(2) show ?thesis by simp
    qed
  qed
  then have "x \<le> sint (peak s)" if "x \<in> sint ` insert p (set ns)" for x
    using that inv by (auto simp: peak_inv_def in_set_conv_nth)
  moreover have "sint (peak s) \<in> sint ` insert p (set ns)" using inv by (auto simp: peak_inv_def)
  ultimately show "sint (peak s) = Max (sint ` insert p (set ns))" by (intro Max_eqI [symmetric]) simp_all
qed

end
