(* ===== verification/Spec2Isabelle.thy ===== *)
theory Spec2Isabelle
  imports Hydration SemiJoin Snapshots TableWrites StorageRefines Removal Wire Responses Metrics
begin

text \<open>
  Incremental view maintenance of queries over replicated tables: a Go library (\<open>ivm\<close>, \<open>builder\<close>,
  \<open>engine\<close>, \<open>sqlite\<close>) and the sidecar process that serves it (\<open>cmd/sidecar\<close>).

  \<^bold>\<open>The program.\<close>  Tables are sources.  A query is a pipeline of operators over sources: cursor, filter,
  join, existence, limit.  A change of a row is pushed into its source, travels through the pipelines
  and ends at the sinks of the queries, where a streamer turns it into row changes for the client.
  While a push is on its way the change is not yet written to the source; operators that fetch during
  the push see it through an overlay.  The engine owns sources and pipelines of one client group; the
  sidecar owns the groups, each with a queue, a worker and a mutex.

  \<^bold>\<open>Reading the model.\<close>  A method that can panic is a value of \<open>panic + 'a\<close>; one that also changes the
  heap is a function \<open>'s \<Rightarrow> (panic + 'a) \<times> 's\<close> (theory \<open>Prelude\<close>, whose locale \<open>pointer\<close> is what a
  pointer to a component of the heap obeys).  Operators are written over an arbitrary heap with the
  fetch of their input and the push to their output as parameters; \<open>World\<close> ties the knot: it has one
  record with a table per operator type, an address is a number, and \<open>nested n\<close> is the dynamic
  dispatch with at most \<open>n\<close> nested calls.  A run beyond that bound is the value \<open>OutOfFuel\<close>; the
  theorems that say what a pipeline returns state the bound that is enough for it (its depth), and the
  others hold for every \<open>n\<close>.  \<open>Destroy\<close> walks from an operator to older ones, so the number of operators
  bounds it, as \<open>Removal\<close> proves for every engine that can come about.  Rows are partial functions from column names to values, float64 is the
  rationals with NaN and the infinities, integers keep the kind they had in Go.

  \<^bold>\<open>Theories.\<close>
  \<^item> \<open>Values\<close>, \<open>Comparators\<close>, \<open>Strconv\<close>, \<open>Json\<close>: \<open>ivm/data.go\<close>, \<open>ivm/drift.go\<close> and the parts of \<open>sort\<close>,
    \<open>strconv\<close> and \<open>encoding/json\<close> the program uses; comparators are total preorders on rows of a type.
  \<^item> \<open>Nodes\<close>: \<open>ivm/operator.go\<close>, \<open>change.go\<close>, \<open>join_utils.go\<close>; the overlay of an applied change restores
    the stream.
  \<^item> \<open>Source\<close>, \<open>Normalize\<close>: \<open>ivm/source.go\<close>, \<open>ivm/parallel.go\<close>; the store is a sorted set, a fetch is a
    specification in terms of the visible rows, a fetch through the overlay is a fetch after the write
    (both but for partial cursors, whose pending rows are characterised apart).
    The locale \<open>sorted_input\<close> is what every operator promises to the next one.
  \<^item> \<open>Skip\<close>, \<open>Take\<close>, \<open>FilterChain\<close>, \<open>Exists\<close>, \<open>Fan\<close>, \<open>Join\<close>, \<open>FlippedJoin\<close>: the operators of \<open>ivm\<close>, one theory
    for each, with its state as a record and its handlers in the order of the file.
  \<^item> \<open>World\<close>, \<open>Wiring\<close>, \<open>Frames\<close>, \<open>Pipelines\<close>, \<open>LimitQuery\<close>, \<open>SemiJoin\<close>, \<open>Pushing\<close>: dispatch,
    construction and destruction, what a computation leaves alone, and operators composed: the locales
    of the operators are interpreted on the heap.  \<open>SemiJoin\<close> is the exists filter over a join.
  \<^item> \<open>Ast\<close>, \<open>Planner\<close>, \<open>Builder\<close>, \<open>Resolve\<close>: package \<open>builder\<close>.
  \<^item> \<open>Streamer\<close>, \<open>Engine\<close>, \<open>Advance\<close>, \<open>Serving\<close>, \<open>Snapshots\<close>, \<open>Hydration\<close>: package \<open>engine\<close>; streamed calls
    refine the batch calls, hydration of a query with cursor and limit.
  \<^item> \<open>Teardown\<close>, \<open>Removal\<close>: a logic for invariants of computations that grow the heap; the builder wires
    operators to older ones only, pushes and fetches rewire nothing, so every query can be removed.
  \<^item> \<open>QueryBuilder\<close>, \<open>SqlConditions\<close>, \<open>CursorSql\<close>: \<open>sqlite/query_builder.go\<close>; the text of a condition, and
    its meaning under three-valued logic as the specification it is compared with.
  \<^item> \<open>TableSource\<close>, \<open>TableReads\<close>, \<open>TableWrites\<close>: \<open>sqlite/table_source.go\<close>; the driver is the parameter
    \<open>database\<close>, what its statements do is stated as hypotheses and witnessed by a list of rows.
  \<^item> \<open>ClientGroups\<close>, \<open>GroupSafety\<close>: the handlers of \<open>cmd/sidecar/main.go\<close>, each one step on the state
    of the server because it holds the lock of its group; isolation, epochs, panics.
  \<^item> \<open>GroupQueue\<close>: mutex and channel of a group as a step relation; order, deadlock, progress.
  \<^item> \<open>Wire\<close>: frames, the numbers of a decoded request, and the read loop of a connection.
  \<^item> \<open>Responses\<close>: the channel of pending responses and the goroutines that write them, as a step relation;
    every request is answered once, not always in order.
  \<^item> \<open>Metrics\<close>: the performance counters, their percentiles and the lock-free maximum.
  \<^item> \<open>Storage\<close>, \<open>StorageRefines\<close>: \<open>sqlite/database_storage.go\<close>; the locale \<open>take_storage\<close> is the interface of
    the storage of a limit operator, with the storage in memory and the one in SQLite as instances, so
    that \<open>Take\<close>, written with the former, also stands for the latter.

  \<^bold>\<open>Not modelled.\<close>  Locks inside the library (each call runs as one step; goroutines of a parallel push or
  hydration run as wholes, in an arbitrary order given by a parameter), wall-clock times, logging and
  OpenTelemetry, the listener, signals and errors of a socket, MessagePack itself (a
  parameter), the file behind the storage of the operators, the random test generator and harness, and the TypeScript
  client and tools.
\<close>

end
